(* ===== verification/Prelude.thy ===== *)
theory Prelude
  imports Complex_Main "HOL-Library.Char_ord" "HOL-Library.List_Lexorder"
    "HOL-Library.Product_Lexorder"
begin

section \<open>Shared vocabulary: results, transactions, tables, strings\<close>

text \<open>
  The types and generic lemmas every component uses.
  \<^item> An operation inside a database transaction is a \<open>tx\<close>: it takes the store and returns
    an error, in which case the transaction rolls back, or a value with the new store.
  \<^item> An operation of a service is an \<open>io\<close>: it may run several transactions, so it returns
    its outcome together with the store it leaves behind, also when it fails.
  \<^item> A table is the list of its rows in insertion order. \<open>update_rows\<close> is
    \<open>UPDATE .. SET .. WHERE\<close> with the CHECK constraints of the table tested on every row it
    writes.
  \<^item> Everything the code takes from its host (clock, random numbers, SHA-256, the collation of
    \<open>localeCompare\<close>, the Ajv validator, the advisory-lock manager) is a field of \<open>env\<close>.
\<close>

named_theorems tx_simps \<open>evaluation of transaction combinators\<close>
named_theorems frame \<open>tables an operation leaves alone\<close>

subsection \<open>Errors\<close>

text \<open>
  One constructor per exception class of the source. \<open>NoResultError\<close> is the exception of
  \<open>executeTakeFirstOrThrow\<close>, \<open>DbViolation\<close> a PostgreSQL constraint violation, named by
  its constraint.
\<close>

datatype error =
    ExecutionCommitError string int
  | WorkerProtocolError string bool int
  | OperatorAuthorizationError
  | OperatorConflictError string
  | OperatorValidationError string
  | OperatorNotFoundError string
  | ExternalActionError string
  | ArtifactDomainError string
  | DomainError string
  | BlobStoreError string
  | CommandConflictError
  | ServiceAuthError string int
  | ActivitySessionError string
  | PlainError string
  | NoResultError string
  | DbViolation string

subsection \<open>JSON values\<close>

text \<open>The values a \<open>jsonb\<close> column holds. Numbers are rational: JSON text has no
  infinities and no NaN.\<close>

datatype json =
    JNull
  | JBool bool
  | JNum rat
  | JStr string
  | JArr "json list"
  | JObj "(string \<times> json) list"

fun is_record :: "json \<Rightarrow> bool" where
  "is_record (JObj _) = True"
| "is_record _ = False"

fun json_field :: "json \<Rightarrow> string \<Rightarrow> json option" where
  "json_field (JObj kvs) k = map_of kvs k"
| "json_field _ k = None"

subsection \<open>The host environment\<close>

text \<open>
  \<open>clock\<close> is the injected \<open>clock()\<close> and \<open>db_now\<close> the \<open>now()\<close> of PostgreSQL, both in
  milliseconds; one reading serves a whole request. \<open>new_uuid n\<close> and \<open>new_token n\<close> are the
  n-th draws of \<open>createUuidV7\<close> and \<open>generateLeaseToken\<close>.
\<close>

record env =
  clock :: int
  db_now :: int
  new_uuid :: "nat \<Rightarrow> string"
  new_token :: "nat \<Rightarrow> string"
  sha256_hex :: "string \<Rightarrow> string"
  num_text :: "rat \<Rightarrow> string"
  locale_compare :: "string \<Rightarrow> string \<Rightarrow> int"
  date_parse :: "string \<Rightarrow> int option"
  number_parse :: "string \<Rightarrow> rat option"
  json_parse :: "string \<Rightarrow> json option"
  schema_compiles :: "json \<Rightarrow> bool"
  schema_valid :: "json \<Rightarrow> json \<Rightarrow> bool"
  advisory_free :: "string \<Rightarrow> bool"

subsection \<open>Transactions\<close>

type_synonym ('s, 'a) tx = "'s \<Rightarrow> error + ('a \<times> 's)"
type_synonym ('s, 'a) io = "'s \<Rightarrow> (error + 'a) \<times> 's"

definition ret :: "'a \<Rightarrow> ('s, 'a) tx" where
  "ret x = (\<lambda>s. Inr (x, s))"

definition throw :: "error \<Rightarrow> ('s, 'a) tx" where
  "throw e = (\<lambda>s. Inl e)"

definition bind_tx :: "('s, 'a) tx \<Rightarrow> ('a \<Rightarrow> ('s, 'b) tx) \<Rightarrow> ('s, 'b) tx" where
  "bind_tx m f = (\<lambda>s. case m s of Inl e \<Rightarrow> Inl e | Inr (x, s') \<Rightarrow> f x s')"

definition guard :: "bool \<Rightarrow> error \<Rightarrow> ('s, unit) tx" where
  "guard b e = (\<lambda>s. if b then Inr ((), s) else Inl e)"

definition or_throw :: "'a option \<Rightarrow> error \<Rightarrow> ('s, 'a) tx" where
  "or_throw x e = (\<lambda>s. case x of None \<Rightarrow> Inl e | Some y \<Rightarrow> Inr (y, s))"

definition get :: "('s \<Rightarrow> 'a) \<Rightarrow> ('s, 'a) tx" where
  "get f = (\<lambda>s. Inr (f s, s))"

definition modify :: "('s \<Rightarrow> 's) \<Rightarrow> ('s, unit) tx" where
  "modify f = (\<lambda>s. Inr ((), f s))"

fun for_tx :: "'a list \<Rightarrow> ('a \<Rightarrow> ('s, unit) tx) \<Rightarrow> ('s, unit) tx" where
  "for_tx [] f = ret ()"
| "for_tx (x # xs) f = bind_tx (f x) (\<lambda>_. for_tx xs f)"

fun map_tx :: "('a \<Rightarrow> ('s, 'b) tx) \<Rightarrow> 'a list \<Rightarrow> ('s, 'b list) tx" where
  "map_tx f [] = ret []"
| "map_tx f (x # xs) = bind_tx (f x) (\<lambda>y. bind_tx (map_tx f xs) (\<lambda>ys. ret (y # ys)))"

definition of_sum :: "error + 'a \<Rightarrow> ('s, 'a) tx" where
  "of_sum v = (case v of Inl err \<Rightarrow> throw err | Inr x \<Rightarrow> ret x)"

text \<open>\<open>db.transaction().execute(body)\<close>: commit on return, roll back on throw.\<close>

definition transaction :: "('s, 'a) tx \<Rightarrow> ('s, 'a) io" where
  "transaction body = (\<lambda>s. case body s of Inl e \<Rightarrow> (Inl e, s) | Inr (x, s') \<Rightarrow> (Inr x, s'))"

lemma ret_app [tx_simps]: "ret x s = Inr (x, s)"
  by (simp add: ret_def)

lemma throw_app [tx_simps]: "throw e s = Inl e"
  by (simp add: throw_def)

lemma guard_app [tx_simps]: "guard b e s = (if b then Inr ((), s) else Inl e)"
  by (simp add: guard_def)

lemma get_app [tx_simps]: "get f s = Inr (f s, s)"
  by (simp add: get_def)

lemma modify_app [tx_simps]: "modify f s = Inr ((), f s)"
  by (simp add: modify_def)

lemma or_throw_app [tx_simps]:
  "or_throw x e s = (case x of None \<Rightarrow> Inl e | Some y \<Rightarrow> Inr (y, s))"
  by (simp add: or_throw_def)

lemma of_sum_app [tx_simps]: "of_sum v s = (case v of Inl err \<Rightarrow> Inl err | Inr x \<Rightarrow> Inr (x, s))"
  by (auto simp: of_sum_def ret_def throw_def split: sum.splits)

lemma of_sum_Inr: "of_sum v s = Inr (x, s') \<longleftrightarrow> v = Inr x \<and> s' = s"
  by (auto simp: of_sum_app split: sum.splits)

lemma bind_tx_app [tx_simps]:
  "bind_tx m f s = (case m s of Inl e \<Rightarrow> Inl e | Inr (x, s') \<Rightarrow> f x s')"
  by (simp add: bind_tx_def)

lemma bind_tx_Inr:
  "bind_tx m f s = Inr (y, s'') \<longleftrightarrow> (\<exists>x s'. m s = Inr (x, s') \<and> f x s' = Inr (y, s''))"
  by (auto simp: bind_tx_def split: sum.splits prod.splits)

lemma bind_tx_InrE:
  assumes "bind_tx m f s = Inr (y, s'')"
  obtains x s' where "m s = Inr (x, s')" and "f x s' = Inr (y, s'')"
  using assms by (auto simp: bind_tx_Inr)

lemma guard_Inr: "guard b e s = Inr (y, s') \<longleftrightarrow> b \<and> s' = s"
  by (auto simp: guard_def)

lemma or_throw_Inr: "or_throw x e s = Inr (y, s') \<longleftrightarrow> x = Some y \<and> s' = s"
  by (auto simp: or_throw_def split: option.splits)

lemma get_Inr: "get f s = Inr (y, s') \<longleftrightarrow> y = f s \<and> s' = s"
  by (auto simp: get_def)

lemma modify_Inr: "modify f s = Inr (y, s') \<longleftrightarrow> s' = f s"
  by (auto simp: modify_def)

lemma ret_Inr: "ret x s = Inr (y, s') \<longleftrightarrow> y = x \<and> s' = s"
  by (auto simp: ret_def)

lemma throw_Inr: "throw e s = Inr z \<longleftrightarrow> False"
  by (simp add: throw_def)

lemmas tx_Inr = bind_tx_Inr guard_Inr or_throw_Inr get_Inr modify_Inr ret_Inr throw_Inr

lemma transaction_cases:
  "transaction body s = (r, s') \<longleftrightarrow>
     (\<exists>e. body s = Inl e \<and> r = Inl e \<and> s' = s) \<or> (\<exists>x. body s = Inr (x, s') \<and> r = Inr x)"
  by (auto simp: transaction_def split: sum.splits prod.splits)

lemma transaction_Inl_rolls_back: "transaction body s = (Inl e, s') \<Longrightarrow> s' = s"
  by (auto simp: transaction_cases)

text \<open>A property every body keeps is kept by the loops.\<close>

definition keeps :: "('s \<Rightarrow> bool) \<Rightarrow> ('s, 'a) tx \<Rightarrow> bool" where
  "keeps P m \<longleftrightarrow> (\<forall>s x s'. P s \<longrightarrow> m s = Inr (x, s') \<longrightarrow> P s')"

lemma keepsI: "(\<And>s x s'. P s \<Longrightarrow> m s = Inr (x, s') \<Longrightarrow> P s') \<Longrightarrow> keeps P m"
  by (auto simp: keeps_def)

lemma keepsD: "keeps P m \<Longrightarrow> P s \<Longrightarrow> m s = Inr (x, s') \<Longrightarrow> P s'"
  by (auto simp: keeps_def)

lemma keeps_ret [intro!, simp]: "keeps P (ret x)"
  by (simp add: keeps_def ret_def)

lemma keeps_throw [intro!, simp]: "keeps P (throw e)"
  by (simp add: keeps_def throw_def)

lemma keeps_guard [intro!, simp]: "keeps P (guard b e)"
  by (simp add: keeps_def guard_def)

lemma keeps_get [intro!, simp]: "keeps P (get f)"
  by (simp add: keeps_def get_def)

lemma keeps_or_throw [intro!, simp]: "keeps P (or_throw x e)"
  by (simp add: keeps_def or_throw_Inr)

lemma keeps_bind [intro!]:
  assumes "keeps P m" and "\<And>x. keeps P (f x)"
  shows "keeps P (bind_tx m f)"
proof (rule keepsI)
  fix s x s'
  assume "P s" and "bind_tx m f s = Inr (x, s')"
  then obtain y t where "m s = Inr (y, t)" and "f y t = Inr (x, s')"
    by (auto elim: bind_tx_InrE)
  with assms \<open>P s\<close> show "P s'" by (metis keepsD)
qed

lemma keeps_modify: "(\<And>s. P s \<Longrightarrow> P (f s)) \<Longrightarrow> keeps P (modify f)"
  by (simp add: keeps_def modify_def)

lemma keeps_for [intro!]: "(\<And>x. keeps P (f x)) \<Longrightarrow> keeps P (for_tx xs f)"
  by (induction xs) auto

lemma keeps_of_sum [intro!, simp]: "keeps P (of_sum v)"
  by (rule keepsI) (simp add: of_sum_Inr)

lemma keeps_map [intro!]: "(\<And>x. keeps P (f x)) \<Longrightarrow> keeps P (map_tx f xs)"
  by (induction xs) auto

lemma keeps_if [intro!]: "keeps P a \<Longrightarrow> keeps P b \<Longrightarrow> keeps P (if c then a else b)"
  by simp

lemma keeps_option [intro!]:
  "keeps P a \<Longrightarrow> (\<And>y. keeps P (b y)) \<Longrightarrow> keeps P (case x of None \<Rightarrow> a | Some y \<Rightarrow> b y)"
  by (cases x) auto

subsection \<open>Services with effects outside the transaction\<close>

text \<open>An \<open>io\<close> sequence keeps the effects of what ran before it failed.\<close>

definition ret_io :: "'a \<Rightarrow> ('s, 'a) io" where
  "ret_io x = (\<lambda>s. (Inr x, s))"

definition throw_io :: "error \<Rightarrow> ('s, 'a) io" where
  "throw_io e = (\<lambda>s. (Inl e, s))"

definition bind_io :: "('s, 'a) io \<Rightarrow> ('a \<Rightarrow> ('s, 'b) io) \<Rightarrow> ('s, 'b) io" where
  "bind_io m f = (\<lambda>s. case m s of (Inl e, s') \<Rightarrow> (Inl e, s') | (Inr x, s') \<Rightarrow> f x s')"

definition guard_io :: "bool \<Rightarrow> error \<Rightarrow> ('s, unit) io" where
  "guard_io b e = (\<lambda>s. (if b then Inr () else Inl e, s))"

definition or_throw_io :: "'a option \<Rightarrow> error \<Rightarrow> ('s, 'a) io" where
  "or_throw_io x e = (\<lambda>s. (case x of None \<Rightarrow> Inl e | Some y \<Rightarrow> Inr y, s))"

definition get_io :: "('s \<Rightarrow> 'a) \<Rightarrow> ('s, 'a) io" where
  "get_io f = (\<lambda>s. (Inr (f s), s))"

fun for_io :: "'a list \<Rightarrow> ('a \<Rightarrow> ('s, unit) io) \<Rightarrow> ('s, unit) io" where
  "for_io [] f = ret_io ()"
| "for_io (x # xs) f = bind_io (f x) (\<lambda>_. for_io xs f)"

text \<open>\<open>for\<close> with a local variable that the body updates.\<close>

fun fold_io :: "('a \<Rightarrow> 'b \<Rightarrow> ('s, 'b) io) \<Rightarrow> 'a list \<Rightarrow> 'b \<Rightarrow> ('s, 'b) io" where
  "fold_io f [] acc = ret_io acc"
| "fold_io f (x # xs) acc = bind_io (f x acc) (fold_io f xs)"

lemma bind_io_Inr:
  "bind_io m f s = (Inr y, s'') \<longleftrightarrow> (\<exists>x s'. m s = (Inr x, s') \<and> f x s' = (Inr y, s''))"
  by (auto simp: bind_io_def split: prod.splits sum.splits)

lemma bind_io_InrE:
  assumes "bind_io m f s = (Inr y, s'')"
  obtains x s' where "m s = (Inr x, s')" and "f x s' = (Inr y, s'')"
  using assms by (auto simp: bind_io_Inr)

lemma ret_io_Inr: "ret_io x s = (Inr y, s') \<longleftrightarrow> y = x \<and> s' = s"
  by (auto simp: ret_io_def)

lemma throw_io_Inr: "throw_io e s = (Inr y, s') \<longleftrightarrow> False"
  by (simp add: throw_io_def)

lemma guard_io_Inr: "guard_io b e s = (Inr y, s') \<longleftrightarrow> b \<and> s' = s"
  by (auto simp: guard_io_def)

lemma or_throw_io_Inr: "or_throw_io x e s = (Inr y, s') \<longleftrightarrow> x = Some y \<and> s' = s"
  by (auto simp: or_throw_io_def split: option.splits)

lemma get_io_Inr: "get_io f s = (Inr y, s') \<longleftrightarrow> y = f s \<and> s' = s"
  by (auto simp: get_io_def)

lemmas io_Inr = bind_io_Inr ret_io_Inr throw_io_Inr guard_io_Inr or_throw_io_Inr get_io_Inr

text \<open>A property of the state that survives both outcomes.\<close>

definition holds_io :: "('s \<Rightarrow> bool) \<Rightarrow> ('s, 'a) io \<Rightarrow> bool" where
  "holds_io P m \<longleftrightarrow> (\<forall>s. P s \<longrightarrow> P (snd (m s)))"

lemma holds_ioI: "(\<And>s. P s \<Longrightarrow> P (snd (m s))) \<Longrightarrow> holds_io P m"
  by (simp add: holds_io_def)

lemma holds_ioD: "holds_io P m \<Longrightarrow> P s \<Longrightarrow> m s = (r, s') \<Longrightarrow> P s'"
  by (metis holds_io_def snd_conv)

lemma holds_io_simple [intro!, simp]:
  "holds_io P (ret_io x)" "holds_io P (throw_io e)" "holds_io P (guard_io b e)"
  "holds_io P (or_throw_io y e)" "holds_io P (get_io f)"
  by (simp_all add: holds_io_def ret_io_def throw_io_def guard_io_def or_throw_io_def get_io_def)

lemma holds_io_bind [intro!]:
  assumes "holds_io P m" and "\<And>x. holds_io P (f x)"
  shows "holds_io P (bind_io m f)"
proof (rule holds_ioI)
  fix s
  assume "P s"
  obtain r t where m: "m s = (r, t)" by (cases "m s")
  with assms(1) \<open>P s\<close> have "P t" by (metis holds_ioD)
  with m assms(2) show "P (snd (bind_io m f s))"
    by (cases r) (auto simp: bind_io_def holds_io_def)
qed

lemma holds_io_for [intro!]: "(\<And>x. holds_io P (f x)) \<Longrightarrow> holds_io P (for_io xs f)"
  by (induction xs) auto

lemma holds_io_fold [intro!]: "(\<And>x b. holds_io P (f x b)) \<Longrightarrow> holds_io P (fold_io f xs acc)"
  by (induction xs arbitrary: acc) auto

lemma holds_io_if [intro!]: "holds_io P a \<Longrightarrow> holds_io P b \<Longrightarrow> holds_io P (if c then a else b)"
  by simp

lemma holds_io_option [intro!]:
  "holds_io P a \<Longrightarrow> (\<And>y. holds_io P (b y)) \<Longrightarrow>
   holds_io P (case x of None \<Rightarrow> a | Some y \<Rightarrow> b y)"
  by (cases x) auto

subsection \<open>Requests that are sent again\<close>

text \<open>A client that does not hear the answer of a request sends the request again, at a later time.\<close>

fun resent :: "('t \<Rightarrow> ('s, 'r) io) \<Rightarrow> 't list \<Rightarrow> 's \<Rightarrow> 's" where
  "resent run [] s = s"
| "resent run (t # ts) s = resent run ts (snd (run t s))"

text \<open>
  The contract of a request with a key. A request that fails leaves nothing behind; one that was
  answered is answered the same way whenever it comes again, and changes nothing more.
\<close>

locale keyed_request =
  fixes run :: "'t \<Rightarrow> ('s, 'r) io" and fresh :: "'s \<Rightarrow> bool" and same :: "'r \<Rightarrow> 'r \<Rightarrow> bool"
  assumes rolls_back: "run t s = (Inl err, s') \<Longrightarrow> s' = s"
    and settled: "fresh s \<Longrightarrow> run t s = (Inr r, s') \<Longrightarrow> \<exists>r'. run u s' = (Inr r', s') \<and> same r r'"
begin

lemma settled_stays:
  assumes "fresh s" and "run t s = (Inr r, s')"
  shows "resent run ts s' = s'"
proof (induction ts)
  case (Cons u ts)
  obtain r' where "run u s' = (Inr r', s')" using settled [OF assms] by blast
  with Cons.IH show ?case by simp
qed simp

lemma once:
  assumes "fresh s"
  shows "resent run ts s = s \<or> (\<exists>t\<in>set ts. \<exists>r. run t s = (Inr r, resent run ts s))"
proof (induction ts)
  case (Cons t ts)
  show ?case
  proof (cases "run t s")
    case (Pair v s')
    show ?thesis
    proof (cases v)
      case (Inl err)
      with Pair have "s' = s" by (simp add: rolls_back)
      with Pair Cons.IH show ?thesis by auto
    next
      case (Inr r)
      with Pair have "resent run ts s' = s'" using settled_stays [OF assms] by blast
      with Pair Inr show ?thesis by auto
    qed
  qed
qed simp

end

subsection \<open>Tables\<close>

definition update_rows ::
  "string \<Rightarrow> ('r \<Rightarrow> bool) \<Rightarrow> ('r \<Rightarrow> bool) \<Rightarrow> ('r \<Rightarrow> 'r) \<Rightarrow> 'r list \<Rightarrow> error + 'r list" where
  "update_rows cname chk p f rows =
     (if list_all (\<lambda>r. p r \<longrightarrow> chk (f r)) rows
      then Inr (map (\<lambda>r. if p r then f r else r) rows)
      else Inl (DbViolation cname))"

definition set_rows :: "('r \<Rightarrow> bool) \<Rightarrow> ('r \<Rightarrow> 'r) \<Rightarrow> 'r list \<Rightarrow> 'r list" where
  "set_rows p f rows = map (\<lambda>r. if p r then f r else r) rows"

lemma update_rows_Inr:
  "update_rows c chk p f rows = Inr rows' \<longleftrightarrow>
     (\<forall>r\<in>set rows. p r \<longrightarrow> chk (f r)) \<and> rows' = set_rows p f rows"
  by (auto simp: update_rows_def set_rows_def list_all_iff)

lemma update_rows_Inl:
  "update_rows c chk p f rows = Inl e \<longleftrightarrow>
     (\<exists>r\<in>set rows. p r \<and> \<not> chk (f r)) \<and> e = DbViolation c"
  by (auto simp: update_rows_def list_all_iff)

lemma set_set_rows:
  "set (set_rows p f rows) = {r \<in> set rows. \<not> p r} \<union> f ` {r \<in> set rows. p r}"
  by (auto simp: set_rows_def)

lemma mem_set_rowsE:
  assumes "r' \<in> set (set_rows p f rows)"
  obtains r where "r \<in> set rows" and "r' = (if p r then f r else r)"
  using assms by (auto simp: set_rows_def)

lemma length_set_rows [simp]: "length (set_rows p f rows) = length rows"
  by (simp add: set_rows_def)

lemma map_set_rows:
  "(\<And>r. p r \<Longrightarrow> g (f r) = g r) \<Longrightarrow> map g (set_rows p f rows) = map g rows"
  by (simp add: set_rows_def)

lemma set_rows_Nil [simp]: "set_rows p f [] = []"
  by (simp add: set_rows_def)

lemma set_rows_Cons [simp]:
  "set_rows p f (r # rows) = (if p r then f r else r) # set_rows p f rows"
  by (simp add: set_rows_def)

lemma set_rows_none: "(\<And>r. r \<in> set rows \<Longrightarrow> \<not> p r) \<Longrightarrow> set_rows p f rows = rows"
  by (auto simp: set_rows_def intro: map_idI)

lemma list_all_set_rows:
  assumes "list_all chk rows" and "\<And>r. r \<in> set rows \<Longrightarrow> p r \<Longrightarrow> chk (f r)"
  shows "list_all chk (set_rows p f rows)"
  using assms by (auto simp: list_all_iff set_set_rows)

lemma find_Some_mem: "List.find P xs = Some x \<Longrightarrow> x \<in> set xs \<and> P x"
  by (auto simp: find_Some_iff)

lemma find_None_all: "List.find P xs = None \<longleftrightarrow> (\<forall>x\<in>set xs. \<not> P x)"
  by (auto simp: find_None_iff)

text \<open>Looking a row up by a key that the update does not touch.\<close>

lemma find_set_rows:
  assumes "\<And>r. p r \<Longrightarrow> Q (f r) = Q r"
  shows "List.find Q (set_rows p f rows) = map_option (\<lambda>r. if p r then f r else r) (List.find Q rows)"
  using assms by (induction rows) auto

lemma find_append_fresh:
  "List.find P (xs @ ys) = (case List.find P xs of None \<Rightarrow> List.find P ys | Some x \<Rightarrow> Some x)"
  by (induction xs) auto

lemma distinct_keys_unique:
  "distinct (map k rows) \<Longrightarrow> r \<in> set rows \<Longrightarrow> r' \<in> set rows \<Longrightarrow> k r = k r' \<Longrightarrow> r = r'"
  by (metis distinct_map inj_onD)

lemma find_unique_key:
  assumes "distinct (map k rows)" and "r \<in> set rows"
  shows "List.find (\<lambda>x. k x = k r) rows = Some r"
proof (cases "List.find (\<lambda>x. k x = k r) rows")
  case None
  with assms(2) show ?thesis by (auto simp: find_None_iff)
next
  case (Some x)
  then have "x \<in> set rows" and "k x = k r" by (auto dest: find_Some_mem)
  with assms have "x = r" by (metis distinct_keys_unique)
  with Some show ?thesis by simp
qed

subsection \<open>Sorting with a comparator\<close>

text \<open>\<open>Array.prototype.sort\<close> is a stable sort by a comparator; any stable sort gives the same
  result for a comparator that is consistent.\<close>

fun insert_cmp :: "('a \<Rightarrow> 'a \<Rightarrow> int) \<Rightarrow> 'a \<Rightarrow> 'a list \<Rightarrow> 'a list" where
  "insert_cmp c x [] = [x]"
| "insert_cmp c x (y # ys) = (if c x y \<le> 0 then x # y # ys else y # insert_cmp c x ys)"

definition sort_cmp :: "('a \<Rightarrow> 'a \<Rightarrow> int) \<Rightarrow> 'a list \<Rightarrow> 'a list" where
  "sort_cmp c xs = foldr (insert_cmp c) xs []"

lemma set_insert_cmp [simp]: "set (insert_cmp c x ys) = insert x (set ys)"
  by (induction ys) auto

lemma length_insert_cmp [simp]: "length (insert_cmp c x ys) = Suc (length ys)"
  by (induction ys) auto

lemma set_sort_cmp [simp]: "set (sort_cmp c xs) = set xs"
  unfolding sort_cmp_def by (induction xs) auto

lemma length_sort_cmp [simp]: "length (sort_cmp c xs) = length xs"
  unfolding sort_cmp_def by (induction xs) auto

lemma sort_cmp_Nil_iff [simp]: "sort_cmp c xs = [] \<longleftrightarrow> xs = []"
  by (metis length_0_conv length_sort_cmp)

text \<open>A comparator that orders like a total preorder, as a host collation does.\<close>

definition consistent_cmp :: "('a \<Rightarrow> 'a \<Rightarrow> int) \<Rightarrow> bool" where
  "consistent_cmp c \<longleftrightarrow>
     (\<forall>x y. c x y \<le> 0 \<or> c y x \<le> 0) \<and> (\<forall>x y z. c x y \<le> 0 \<longrightarrow> c y z \<le> 0 \<longrightarrow> c x z \<le> 0)"

lemma sorted_insert_cmp:
  assumes "consistent_cmp c" and "sorted_wrt (\<lambda>x y. c x y \<le> 0) ys"
  shows "sorted_wrt (\<lambda>x y. c x y \<le> 0) (insert_cmp c x ys)"
  using assms(2)
proof (induction ys)
  case Nil
  then show ?case by simp
next
  case (Cons y ys)
  show ?case
  proof (cases "c x y \<le> 0")
    case True
    with Cons.prems assms(1) show ?thesis by (auto simp: consistent_cmp_def)
  next
    case False
    with assms(1) have "c y x \<le> 0" by (auto simp: consistent_cmp_def)
    with False Cons show ?thesis by auto
  qed
qed

lemma sorted_sort_cmp:
  "consistent_cmp c \<Longrightarrow> sorted_wrt (\<lambda>x y. c x y \<le> 0) (sort_cmp c xs)"
  unfolding sort_cmp_def by (induction xs) (auto intro: sorted_insert_cmp)

subsection \<open>JavaScript strings\<close>

text \<open>\<open>trim\<close> removes white space at both ends; the ASCII white space is listed.\<close>

definition is_space :: "char \<Rightarrow> bool" where
  "is_space c \<longleftrightarrow> c \<in> set [CHR '' '', CHR 0x09, CHR 0x0A, CHR 0x0B, CHR 0x0C, CHR 0x0D]"

definition trim :: "string \<Rightarrow> string" where
  "trim s = rev (dropWhile is_space (rev (dropWhile is_space s)))"

definition blank :: "string \<Rightarrow> bool" where
  "blank s \<longleftrightarrow> trim s = []"

definition is_hex :: "char \<Rightarrow> bool" where
  "is_hex c \<longleftrightarrow> c \<in> set ''0123456789abcdef''"

definition is_sha256_text :: "string \<Rightarrow> bool" where
  "is_sha256_text s \<longleftrightarrow> length s = 64 \<and> list_all is_hex s"

fun join :: "string \<Rightarrow> string list \<Rightarrow> string" where
  "join sep [] = []"
| "join sep [x] = x"
| "join sep (x # y # ys) = x @ sep @ join sep (y # ys)"

lemma trim_all_space: "list_all is_space s \<Longrightarrow> trim s = []"
  by (simp add: trim_def list_all_iff) (meson set_dropWhileD)

lemma trim_hd: "trim s \<noteq> [] \<Longrightarrow> \<not> is_space (hd (trim s))"
proof -
  assume nonempty: "trim s \<noteq> []"
  let ?t = "dropWhile is_space s"
  have "?t \<noteq> []"
  proof
    assume "?t = []"
    then have "list_all is_space s" by (simp add: list_all_iff)
    then have "trim s = []" by (rule trim_all_space)
    with nonempty show False by simp
  qed
  then have first: "\<not> is_space (hd ?t)" by (rule hd_dropWhile)
  obtain ws where split: "rev ?t = ws @ rev (trim s)"
    by (metis trim_def rev_rev_ident takeWhile_dropWhile_id)
  then have "?t = trim s @ rev ws" by (metis rev_append rev_rev_ident)
  with nonempty have "hd ?t = hd (trim s)" by simp
  with first show ?thesis by simp
qed

lemma trim_trim [simp]: "trim (trim s) = trim s"
proof (cases "trim s = []")
  case True
  then show ?thesis by (subst True) (simp add: trim_def)
next
  case False
  then have "dropWhile is_space (trim s) = trim s"
    by (metis trim_hd dropWhile_eq_self_iff)
  moreover have "dropWhile is_space (rev (trim s)) = rev (trim s)"
    by (simp add: trim_def)
  ultimately show ?thesis by (simp add: trim_def)
qed

subsection \<open>A sample environment\<close>

text \<open>A concrete host for the closed examples: names order by code unit, numbers print in
  unary, and the digest of a text is the text itself.\<close>

definition code_unit_compare :: "string \<Rightarrow> string \<Rightarrow> int" where
  "code_unit_compare x y = (if x = y then 0 else if x < y then - 1 else 1)"

definition sample_num_text :: "rat \<Rightarrow> string" where
  "sample_num_text q =
     (if fst (quotient_of q) < 0 then ''-'' else '''')
       @ replicate (nat \<bar>fst (quotient_of q)\<bar>) CHR ''1'' @ ''.''
       @ replicate (nat (snd (quotient_of q))) CHR ''1''"

definition sample_env :: env where
  "sample_env =
     \<lparr>clock = 1000, db_now = 1000, new_uuid = (\<lambda>n. ''u'' @ replicate n CHR ''x''),
      new_token = (\<lambda>n. ''t'' @ replicate n CHR ''x''), sha256_hex = (\<lambda>s. s),
      num_text = sample_num_text, locale_compare = code_unit_compare,
      date_parse = (\<lambda>s. Some 0), number_parse = (\<lambda>s. None), json_parse = (\<lambda>s. None),
      schema_compiles = (\<lambda>s. True), schema_valid = (\<lambda>s j. True), advisory_free = (\<lambda>k. True)\<rparr>"

end
