(* ===== verification/Canonical.thy ===== *)
theory Canonical
  imports Prelude "HOL-Library.Multiset"
begin

section \<open>Canonical JSON and request identities\<close>

text \<open>
  \<open>declarations/canonical-json.ts\<close> and \<open>commands/identity.ts\<close>. \<open>norm\<close> walks JavaScript
  values: objects live in a heap, so sharing and cycles are visible, and the set of objects
  on the path (\<open>seen\<close>) is what makes the walk terminate. The object it builds follows the
  rules of the language: assigning \<open>__proto__\<close> creates no own property, and array-index keys are
  enumerated first. \<open>norm_json\<close> is the same function on values that came out of a \<open>jsonb\<close>
  column, which are trees. Strings are lists of code units below 256.
\<close>

subsection \<open>JavaScript values\<close>

datatype js_num = JsFinite rat | JsNaN | JsInfinite

datatype js_value =
    VNull
  | VBool bool
  | VNum js_num
  | VStr string
  | VUndefined
  | VFunction
  | VSymbol
  | VBigint int
  | VRef nat

text \<open>\<open>JsExotic\<close> is an object whose prototype is neither \<open>Object.prototype\<close> nor null.\<close>

datatype js_object =
    JsArray "js_value list"
  | JsPlain "(string \<times> js_value) list"
  | JsExotic

type_synonym js_heap = "(nat \<times> js_object) list"

subsection \<open>Property order\<close>

definition is_digit :: "char \<Rightarrow> bool" where
  "is_digit c \<longleftrightarrow> c \<in> set ''0123456789''"

definition digit_value :: "char \<Rightarrow> nat" where
  "digit_value c = of_char c - 48"

definition decimal_value :: "string \<Rightarrow> nat" where
  "decimal_value s = foldl (\<lambda>n c. 10 * n + digit_value c) 0 s"

definition is_index :: "string \<Rightarrow> bool" where
  "is_index k \<longleftrightarrow> k \<noteq> [] \<and> list_all is_digit k \<and> (k = ''0'' \<or> hd k \<noteq> CHR ''0'')
     \<and> decimal_value k < 2 ^ 32 - 1"

text \<open>The own properties of an object built by assigning \<open>kvs\<close> in this order, as enumeration
  lists them: array indices ascending, then the other keys as they were assigned.\<close>

definition own_properties :: "(string \<times> 'a) list \<Rightarrow> (string \<times> 'a) list" where
  "own_properties kvs =
     (let own = filter (\<lambda>kv. fst kv \<noteq> ''__proto__'') kvs
      in sort_key (\<lambda>kv. decimal_value (fst kv)) (filter (\<lambda>kv. is_index (fst kv)) own)
         @ filter (\<lambda>kv. \<not> is_index (fst kv)) own)"

subsection \<open>Normalisation\<close>

definition unseen :: "js_heap \<Rightarrow> nat list \<Rightarrow> nat" where
  "unseen h seen = length (filter (\<lambda>a. a \<notin> set seen) (map fst h))"

lemma unseen_less:
  assumes "map_of h a = Some ob" and "a \<notin> set seen"
  shows "unseen h (a # seen) < unseen h seen"
proof -
  let ?K = "map fst h"
  have mem: "a \<in> set ?K" using assms(1) by (force dest: map_of_SomeD)
  have "filter (\<lambda>x. x \<notin> set (a # seen)) ?K
      = filter (\<lambda>x. x \<noteq> a) (filter (\<lambda>x. x \<notin> set seen) ?K)"
    by (auto intro: filter_cong)
  moreover have "length (filter (\<lambda>x. x \<noteq> a) (filter (\<lambda>x. x \<notin> set seen) ?K))
      < length (filter (\<lambda>x. x \<notin> set seen) ?K)"
    by (rule length_filter_less [of a]) (use mem assms(2) in auto)
  ultimately show ?thesis by (simp add: unseen_def)
qed

definition sorted_fields :: "(string \<times> 'a) list \<Rightarrow> (string \<times> 'a) list" where
  "sorted_fields kvs = sort_key fst kvs"

text \<open>The first lines of \<open>norm\<close>: primitives and the values JSON has no form for.\<close>

fun norm_primitive :: "js_value \<Rightarrow> string + json" where
  "norm_primitive VNull = Inr JNull"
| "norm_primitive (VBool b) = Inr (JBool b)"
| "norm_primitive (VNum (JsFinite q)) = Inr (JNum q)"
| "norm_primitive (VNum _) = Inl ''Non-finite numbers are not canonical JSON''"
| "norm_primitive (VStr s) = Inr (JStr s)"
| "norm_primitive VUndefined = Inl ''Unsupported canonical JSON value: undefined''"
| "norm_primitive VFunction = Inl ''Unsupported canonical JSON value: function''"
| "norm_primitive VSymbol = Inl ''Unsupported canonical JSON value: symbol''"
| "norm_primitive (VBigint _) = Inl ''Unsupported canonical JSON value: bigint''"
| "norm_primitive (VRef _) = Inl ''Unsupported canonical JSON value''"

function norm_value :: "js_heap \<Rightarrow> nat list \<Rightarrow> js_value \<Rightarrow> string + json"
  and norm_items :: "js_heap \<Rightarrow> nat list \<Rightarrow> js_value list \<Rightarrow> string + json list"
  and norm_fields ::
    "js_heap \<Rightarrow> nat list \<Rightarrow> (string \<times> js_value) list \<Rightarrow> string + (string \<times> json) list"
where
  "norm_value h seen v =
     (case v of
        VRef a \<Rightarrow>
          (case map_of h a of
             None \<Rightarrow> norm_primitive v
           | Some ob \<Rightarrow>
               if a \<in> set seen then Inl ''Cyclic data is not canonical JSON''
               else (case ob of
                   JsArray vs \<Rightarrow> map_sum id JArr (norm_items h (a # seen) vs)
                 | JsExotic \<Rightarrow> Inl ''Only plain objects are canonical JSON objects''
                 | JsPlain kvs \<Rightarrow>
                     map_sum id (\<lambda>fs. JObj (own_properties fs))
                       (norm_fields h (a # seen) (sorted_fields kvs))))
      | _ \<Rightarrow> norm_primitive v)"
| "norm_items h seen [] = Inr []"
| "norm_items h seen (v # vs) =
     (case norm_value h seen v of Inl m \<Rightarrow> Inl m
      | Inr j \<Rightarrow> map_sum id (\<lambda>js. j # js) (norm_items h seen vs))"
| "norm_fields h seen [] = Inr []"
| "norm_fields h seen (kv # kvs) =
     (case norm_value h seen (snd kv) of Inl m \<Rightarrow> Inl m
      | Inr j \<Rightarrow> map_sum id (\<lambda>fs. (fst kv, j) # fs) (norm_fields h seen kvs))"
  by pat_completeness auto
termination
  by (relation "measures
        [\<lambda>x. case x of Inl (h, seen, _) \<Rightarrow> unseen h seen
                     | Inr (Inl (h, seen, _)) \<Rightarrow> unseen h seen
                     | Inr (Inr (h, seen, _)) \<Rightarrow> unseen h seen,
         \<lambda>x. case x of Inl _ \<Rightarrow> 0
                     | Inr (Inl (_, _, vs)) \<Rightarrow> Suc (length vs)
                     | Inr (Inr (_, _, kvs)) \<Rightarrow> Suc (length kvs)]")
    (auto simp: unseen_less)

declare norm_value.simps [simp del]

text \<open>On a value without references the walk is structural.\<close>

fun norm_json :: "json \<Rightarrow> json" where
  "norm_json (JArr js) = JArr (map norm_json js)"
| "norm_json (JObj kvs) = JObj (own_properties (sorted_fields (map (map_prod id norm_json) kvs)))"
| "norm_json j = j"

subsection \<open>JSON text\<close>

definition hex_digit :: "nat \<Rightarrow> char" where
  "hex_digit n = ''0123456789abcdef'' ! n"

definition escape :: "char \<Rightarrow> string" where
  "escape c =
     (if c = CHR 0x22 then [CHR 0x5C, CHR 0x22]
      else if c = CHR 0x5C then [CHR 0x5C, CHR 0x5C]
      else if c = CHR 0x08 then [CHR 0x5C, CHR ''b'']
      else if c = CHR 0x0C then [CHR 0x5C, CHR ''f'']
      else if c = CHR 0x0A then [CHR 0x5C, CHR ''n'']
      else if c = CHR 0x0D then [CHR 0x5C, CHR ''r'']
      else if c = CHR 0x09 then [CHR 0x5C, CHR ''t'']
      else if (of_char c :: nat) < 32
      then CHR 0x5C # ''u00'' @ [hex_digit (of_char c div 16), hex_digit (of_char c mod 16)]
      else [c])"

definition quote :: "string \<Rightarrow> string" where
  "quote s = CHR 0x22 # concat (map escape s) @ [CHR 0x22]"

fun stringify :: "env \<Rightarrow> json \<Rightarrow> string" where
  "stringify e JNull = ''null''"
| "stringify e (JBool b) = (if b then ''true'' else ''false'')"
| "stringify e (JNum q) = num_text e q"
| "stringify e (JStr s) = quote s"
| "stringify e (JArr js) = ''['' @ join '','' (map (stringify e) js) @ '']''"
| "stringify e (JObj kvs) =
     CHR 0x7B # join '','' (map (\<lambda>kv. quote (fst kv) @ '':'' @ stringify e (snd kv)) kvs)
       @ [CHR 0x7D]"

definition canonicalizeJson :: "env \<Rightarrow> js_heap \<Rightarrow> js_value \<Rightarrow> error + string" where
  "canonicalizeJson e h v =
     (case norm_value h [] v of Inl m \<Rightarrow> Inl (PlainError m) | Inr j \<Rightarrow> Inr (stringify e j))"

definition canonicalJsonDigest :: "env \<Rightarrow> js_heap \<Rightarrow> js_value \<Rightarrow> error + string" where
  "canonicalJsonDigest e h v = map_sum id (sha256_hex e) (canonicalizeJson e h v)"

text \<open>The digest of a value that is already a tree.\<close>

definition canonical_text :: "env \<Rightarrow> json \<Rightarrow> string" where
  "canonical_text e j = stringify e (norm_json j)"

definition json_digest :: "env \<Rightarrow> json \<Rightarrow> string" where
  "json_digest e j = sha256_hex e (canonical_text e j)"

subsection \<open>Request identities\<close>

definition or_empty :: "json option \<Rightarrow> json" where
  "or_empty x = (case x of None \<Rightarrow> JObj [] | Some JNull \<Rightarrow> JObj [] | Some j \<Rightarrow> j)"

definition or_null :: "string option \<Rightarrow> json" where
  "or_null x = (case x of None \<Rightarrow> JNull | Some s \<Rightarrow> JStr s)"

definition commandRequestDigest ::
  "env \<Rightarrow> string \<Rightarrow> string \<Rightarrow> json option \<Rightarrow> json option \<Rightarrow> string option \<Rightarrow> string option \<Rightarrow> string"
where
  "commandRequestDigest e rgn ctype src pay corr expires =
     json_digest e (JObj
       [(''region'', JStr rgn), (''commandType'', JStr ctype), (''source'', or_empty src),
        (''payload'', or_empty pay), (''correlationId'', or_null corr),
        (''expiresAt'', or_null expires)])"

definition payloadDigest :: "env \<Rightarrow> json \<Rightarrow> string" where
  "payloadDigest e payload = json_digest e (or_empty (Some payload))"

record input_identity =
  ii_port :: string
  ii_delivery :: string
  ii_source_kind :: string
  ii_source :: string
  ii_digest :: string

definition identity_json :: "input_identity \<Rightarrow> json" where
  "identity_json i = JObj
     [(''portName'', JStr (ii_port i)), (''deliveryId'', JStr (ii_delivery i)),
      (''sourceKind'', JStr (ii_source_kind i)), (''sourceId'', JStr (ii_source i)),
      (''payloadDigest'', JStr (ii_digest i))]"

text \<open>\<open>a.portName.localeCompare(b.portName) || a.deliveryId.localeCompare(b.deliveryId)\<close>.\<close>

definition identity_cmp :: "env \<Rightarrow> input_identity \<Rightarrow> input_identity \<Rightarrow> int" where
  "identity_cmp e a b =
     (let c = locale_compare e (ii_port a) (ii_port b)
      in if c \<noteq> 0 then c else locale_compare e (ii_delivery a) (ii_delivery b))"

definition inputSetDigest :: "env \<Rightarrow> input_identity list \<Rightarrow> string" where
  "inputSetDigest e is = json_digest e (JArr (map identity_json (sort_cmp (identity_cmp e) is)))"

subsection \<open>Property lists\<close>

lemma own_properties_filter:
  "own_properties (filter (\<lambda>kv. fst kv \<noteq> ''__proto__'') kvs) = own_properties kvs"
  by (simp add: own_properties_def)

lemma set_own_properties:
  "set (own_properties kvs) = {kv \<in> set kvs. fst kv \<noteq> ''__proto__''}"
  by (auto simp: own_properties_def Let_def)

lemma set_sorted_fields [simp]: "set (sorted_fields kvs) = set kvs"
  by (simp add: sorted_fields_def)

lemma sorted_fields_unique:
  assumes "distinct (map fst kvs)" and "distinct (map fst kvs')" and "set kvs = set kvs'"
  shows "sorted_fields kvs = sorted_fields kvs'"
proof -
  have sorted_distinct: "sorted (map fst (sorted_fields xs))" "distinct (map fst (sorted_fields xs))"
    if "distinct (map fst xs)" for xs :: "(string \<times> 'a) list"
  proof -
    show "sorted (map fst (sorted_fields xs))" by (simp add: sorted_fields_def)
    have "mset (map fst (sorted_fields xs)) = mset (map fst xs)"
      by (simp add: sorted_fields_def)
    then show "distinct (map fst (sorted_fields xs))" using that by (metis mset_eq_imp_distinct_iff)
  qed
  have "inj_on fst (set (sorted_fields kvs) \<union> set (sorted_fields kvs'))"
    using assms by (auto simp: distinct_map)
  then show ?thesis
    using assms sorted_distinct by (intro map_sorted_distinct_set_unique) auto
qed

lemma sorted_fields_filter: "sorted_fields (filter P kvs) = filter P (sorted_fields kvs)"
  by (simp add: sorted_fields_def filter_sort)

lemma distinct_own_properties:
  assumes "distinct (map fst kvs)"
  shows "distinct (map fst (own_properties kvs))"
proof -
  let ?own = "filter (\<lambda>kv. fst kv \<noteq> ''__proto__'') kvs"
  have own: "distinct (map fst ?own)" using assms by (rule distinct_map_filter)
  have "mset (own_properties kvs) = mset ?own"
    using multiset_partition [of "mset ?own" "\<lambda>kv. is_index (fst kv)"]
    by (simp add: own_properties_def Let_def del: filter_filter)
  then have "mset (map fst (own_properties kvs)) = mset (map fst ?own)" by simp
  with own show ?thesis by (metis mset_eq_imp_distinct_iff)
qed

text \<open>Rebuilding an object from its own properties gives the same object.\<close>

lemma own_sorted_idem:
  assumes "distinct (map fst kvs)"
  shows "own_properties (sorted_fields (own_properties (sorted_fields kvs)))
    = own_properties (sorted_fields kvs)"
proof -
  let ?own = "filter (\<lambda>kv. fst kv \<noteq> ''__proto__'') kvs"
  let ?ps = "own_properties (sorted_fields kvs)"
  have sorted_distinct: "distinct (map fst (sorted_fields kvs))"
  proof -
    have "mset (map fst (sorted_fields kvs)) = mset (map fst kvs)"
      by (simp add: sorted_fields_def)
    then show ?thesis using assms by (metis mset_eq_imp_distinct_iff)
  qed
  have "sorted_fields ?ps = sorted_fields ?own"
  proof (rule sorted_fields_unique)
    show "distinct (map fst ?ps)" using sorted_distinct by (rule distinct_own_properties)
    show "distinct (map fst ?own)" using assms by (rule distinct_map_filter)
    show "set ?ps = set ?own" by (auto simp: set_own_properties)
  qed
  then show ?thesis by (simp add: sorted_fields_filter own_properties_filter)
qed

subsection \<open>Normal forms of trees\<close>

text \<open>Property names of an object are distinct, at every level.\<close>

fun json_wf :: "json \<Rightarrow> bool" where
  "json_wf (JArr js) = list_all json_wf js"
| "json_wf (JObj kvs) = (distinct (map fst kvs) \<and> list_all (\<lambda>kv. json_wf (snd kv)) kvs)"
| "json_wf j = True"

lemma norm_json_idem: "json_wf j \<Longrightarrow> norm_json (norm_json j) = norm_json j"
proof (induction j rule: norm_json.induct)
  case (1 js)
  then show ?case by (auto simp: list_all_iff)
next
  case (2 kvs)
  let ?xs = "map (map_prod id norm_json) kvs"
  let ?ps = "own_properties (sorted_fields ?xs)"
  have dist: "distinct (map fst ?xs)" using "2.prems" by (simp add: o_def)
  have "map_prod id norm_json kv = kv" if "kv \<in> set ?ps" for kv
  proof -
    from that obtain k v where kv: "kv = (k, norm_json v)" and mem: "(k, v) \<in> set kvs"
      by (auto simp: set_own_properties)
    have "json_wf v" using "2.prems" mem by (force simp: list_all_iff)
    with "2.IH" mem have "norm_json (norm_json v) = norm_json v" by fastforce
    with kv show ?thesis by simp
  qed
  then have "map (map_prod id norm_json) ?ps = ?ps" by (simp add: map_idI)
  with own_sorted_idem [OF dist] show ?case by simp
qed simp_all

lemma norm_json_field_order:
  assumes "distinct (map fst kvs)" and "distinct (map fst kvs')"
    and "map_of (map (map_prod id norm_json) kvs) = map_of (map (map_prod id norm_json) kvs')"
  shows "norm_json (JObj kvs) = norm_json (JObj kvs')"
proof -
  let ?n = "map (map_prod id norm_json)"
  have d: "distinct (map fst (?n kvs))" "distinct (map fst (?n kvs'))"
    using assms(1,2) by (simp_all add: o_def)
  have "set (?n kvs) = set (?n kvs')"
  proof -
    have "kv \<in> set (?n kvs) \<longleftrightarrow> kv \<in> set (?n kvs')" for kv
      using d assms(3) by (metis map_of_eq_Some_iff prod.collapse)
    then show ?thesis by blast
  qed
  with d have "sorted_fields (?n kvs) = sorted_fields (?n kvs')" by (rule sorted_fields_unique)
  then show ?thesis by simp
qed

subsection \<open>Heaps\<close>

text \<open>\<open>child h a b\<close>: the object at \<open>a\<close> holds a reference to \<open>b\<close>.\<close>

definition child :: "js_heap \<Rightarrow> nat \<Rightarrow> nat \<Rightarrow> bool" where
  "child h a b \<longleftrightarrow>
     (case map_of h a of
        Some (JsArray vs) \<Rightarrow> VRef b \<in> set vs
      | Some (JsPlain kvs) \<Rightarrow> VRef b \<in> snd ` set kvs
      | _ \<Rightarrow> False)"

lemma norm_items_Inr:
  "norm_items h seen vs = Inr js \<Longrightarrow> v \<in> set vs \<Longrightarrow> \<exists>j. norm_value h seen v = Inr j"
proof (induction vs arbitrary: js)
  case (Cons x xs)
  then obtain j js' where "norm_value h seen x = Inr j" and "norm_items h seen xs = Inr js'"
    by (cases "norm_value h seen x"; cases "norm_items h seen xs") auto
  with Cons show ?case by auto
qed simp

lemma norm_fields_Inr:
  "norm_fields h seen kvs = Inr fs \<Longrightarrow> v \<in> snd ` set kvs \<Longrightarrow> \<exists>j. norm_value h seen v = Inr j"
proof (induction kvs arbitrary: fs)
  case (Cons kv kvs)
  then obtain j fs' where "norm_value h seen (snd kv) = Inr j" and "norm_fields h seen kvs = Inr fs'"
    by (cases "norm_value h seen (snd kv)"; cases "norm_fields h seen kvs") auto
  with Cons show ?case by auto
qed simp

lemma norm_ref:
  "norm_value h seen (VRef a) =
     (case map_of h a of
        None \<Rightarrow> norm_primitive (VRef a)
      | Some ob \<Rightarrow>
          if a \<in> set seen then Inl ''Cyclic data is not canonical JSON''
          else (case ob of
              JsArray vs \<Rightarrow> map_sum id JArr (norm_items h (a # seen) vs)
            | JsExotic \<Rightarrow> Inl ''Only plain objects are canonical JSON objects''
            | JsPlain kvs \<Rightarrow>
                map_sum id (\<lambda>fs. JObj (own_properties fs))
                  (norm_fields h (a # seen) (sorted_fields kvs))))"
  by (simp add: norm_value.simps [of h seen "VRef a"])

lemma map_sum_Inr: "map_sum id f x = Inr y \<longleftrightarrow> (\<exists>z. x = Inr z \<and> y = f z)"
  by (cases x) auto

lemma norm_child:
  assumes "norm_value h seen (VRef a) = Inr j" and "child h a b"
  shows "\<exists>j'. norm_value h (a # seen) (VRef b) = Inr j'"
proof -
  from assms(2) obtain ob where ob: "map_of h a = Some ob"
    by (auto simp: child_def split: option.splits)
  with assms(1) have fresh: "a \<notin> set seen" by (auto simp: norm_ref split: if_splits)
  show ?thesis
  proof (cases ob)
    case (JsArray vs)
    with assms ob fresh obtain js where "norm_items h (a # seen) vs = Inr js"
      by (auto simp: norm_ref map_sum_Inr)
    moreover have "VRef b \<in> set vs" using assms(2) ob JsArray by (simp add: child_def)
    ultimately show ?thesis by (rule norm_items_Inr)
  next
    case (JsPlain kvs)
    with assms ob fresh obtain fs where "norm_fields h (a # seen) (sorted_fields kvs) = Inr fs"
      by (auto simp: norm_ref map_sum_Inr)
    moreover have "VRef b \<in> snd ` set (sorted_fields kvs)"
      using assms(2) ob JsPlain by (simp add: child_def)
    ultimately show ?thesis by (rule norm_fields_Inr)
  next
    case JsExotic
    with assms(2) ob show ?thesis by (simp add: child_def)
  qed
qed

lemma norm_path:
  assumes "(child h)\<^sup>+\<^sup>+ a b" and "norm_value h seen (VRef a) = Inr j"
  shows "\<exists>seen' j'. insert a (set seen) \<subseteq> set seen' \<and> norm_value h seen' (VRef b) = Inr j'"
  using assms(1)
proof (induction rule: tranclp_induct)
  case (base b)
  from norm_child [OF assms(2) base] obtain j' where "norm_value h (a # seen) (VRef b) = Inr j'" by blast
  moreover have "insert a (set seen) \<subseteq> set (a # seen)" by simp
  ultimately show ?case by blast
next
  case (step b c)
  then obtain seen' j' where sub: "insert a (set seen) \<subseteq> set seen'"
    and nb: "norm_value h seen' (VRef b) = Inr j'" by blast
  from norm_child [OF nb step.hyps(2)] obtain j'' where "norm_value h (b # seen') (VRef c) = Inr j''"
    by blast
  moreover have "insert a (set seen) \<subseteq> set (b # seen')" using sub by auto
  ultimately show ?case by blast
qed

lemma norm_no_cycle:
  assumes ok: "norm_value h seen (VRef a) = Inr j" and reach: "(child h)\<^sup>*\<^sup>* a b"
  shows "\<not> (child h)\<^sup>+\<^sup>+ b b"
proof
  assume cyc: "(child h)\<^sup>+\<^sup>+ b b"
  obtain seen1 j1 where n1: "norm_value h seen1 (VRef b) = Inr j1"
    using reach ok norm_path by (metis rtranclpD)
  from norm_path [OF cyc n1] obtain seen2 j2
    where "b \<in> set seen2" and n2: "norm_value h seen2 (VRef b) = Inr j2" by auto
  moreover obtain ob where "map_of h b = Some ob"
    using cyc by (auto simp: child_def split: option.splits dest: tranclpD)
  ultimately show False by (simp add: norm_ref)
qed

subsection \<open>A heap that spells a tree\<close>

inductive embeds :: "js_heap \<Rightarrow> js_value \<Rightarrow> json \<Rightarrow> bool" for h where
  embeds_primitive: "norm_primitive v = Inr j \<Longrightarrow> embeds h v j"
| embeds_array: "map_of h a = Some (JsArray vs) \<Longrightarrow> list_all2 (embeds h) vs js \<Longrightarrow>
     embeds h (VRef a) (JArr js)"
| embeds_object: "map_of h a = Some (JsPlain kvs) \<Longrightarrow>
     list_all2 (\<lambda>kv fj. fst kv = fst fj \<and> embeds h (snd kv) (snd fj)) kvs fs \<Longrightarrow>
     embeds h (VRef a) (JObj fs)"

inductive_cases embeds_refE: "embeds h (VRef a) j"

lemma primitive_not_ref: "norm_primitive v = Inr j \<Longrightarrow> v \<noteq> VRef a"
  by auto

lemma embeds_fun: "embeds h v j \<Longrightarrow> embeds h v j' \<Longrightarrow> j = j'"
proof (induction arbitrary: j' rule: embeds.induct)
  case (embeds_primitive v j)
  from embeds_primitive.prems embeds_primitive.hyps show ?case
    by (cases rule: embeds.cases) auto
next
  case (embeds_array a vs js)
  from embeds_array.prems obtain js' where j': "j' = JArr js'" and all: "list_all2 (embeds h) vs js'"
    using embeds_array.hyps by (auto elim!: embeds_refE)
  have "js = js'"
    using embeds_array.IH all by (auto simp: list_all2_conv_all_nth intro: nth_equalityI)
  with j' show ?case by simp
next
  case (embeds_object a kvs fs)
  from embeds_object.prems obtain fs' where j': "j' = JObj fs'"
    and all: "list_all2 (\<lambda>kv fj. fst kv = fst fj \<and> embeds h (snd kv) (snd fj)) kvs fs'"
    using embeds_object.hyps by (auto elim!: embeds_refE)
  have "fs = fs'"
  proof (rule nth_equalityI)
    show "length fs = length fs'"
      using embeds_object.IH all by (simp add: list_all2_conv_all_nth)
    show "fs ! i = fs' ! i" if "i < length fs" for i
      using embeds_object.IH all that by (simp add: list_all2_conv_all_nth prod_eq_iff)
  qed
  with j' show ?case by simp
qed

lemma list_all2_insort_fst:
  assumes "list_all2 (\<lambda>x y. fst x = fst y \<and> R x y) xs ys" and "fst x = fst y" and "R x y"
  shows "list_all2 (\<lambda>x y. fst x = fst y \<and> R x y) (insort_key fst x xs) (insort_key fst y ys)"
  using assms(1) by (induction rule: list_all2_induct) (auto simp: assms(2,3))

lemma list_all2_sorted_fields:
  "list_all2 (\<lambda>x y. fst x = fst y \<and> R x y) xs ys \<Longrightarrow>
   list_all2 (\<lambda>x y. fst x = fst y \<and> R x y) (sorted_fields xs) (sorted_fields ys)"
  unfolding sorted_fields_def
  by (induction rule: list_all2_induct) (auto intro: list_all2_insort_fst)

lemma insort_map_prod:
  "insort_key fst (k, f v) (map (map_prod (\<lambda>a. a) f) xs)
    = map (map_prod (\<lambda>a. a) f) (insort_key fst (k, v) xs)"
  by (induction xs) auto

lemma map_sorted_fields:
  "sorted_fields (map (map_prod id f) kvs) = map (map_prod id f) (sorted_fields kvs)"
  unfolding sorted_fields_def by (induction kvs) (auto simp: insort_map_prod id_def)

lemma norm_items_all:
  "list_all2 (\<lambda>v j. norm_value h seen v = Inr (norm_json j)) vs js \<Longrightarrow>
   norm_items h seen vs = Inr (map norm_json js)"
  by (induction rule: list_all2_induct) auto

lemma norm_fields_all:
  "list_all2 (\<lambda>kv fj. fst kv = fst fj \<and> norm_value h seen (snd kv) = Inr (norm_json (snd fj))) kvs fs \<Longrightarrow>
   norm_fields h seen kvs = Inr (map (map_prod id norm_json) fs)"
  by (induction rule: list_all2_induct) (auto simp: map_prod_def split: prod.splits)

text \<open>Objects on the path spell strictly larger trees, so the walk meets none of them again.\<close>

definition above :: "js_heap \<Rightarrow> nat list \<Rightarrow> json \<Rightarrow> bool" where
  "above h seen j \<longleftrightarrow> (\<forall>a\<in>set seen. \<forall>j'. embeds h (VRef a) j' \<longrightarrow> size j < size j')"

lemma size_item: "j \<in> set js \<Longrightarrow> size j < size (JArr js)"
  by (induction js) auto

lemma size_field: "(k, j) \<in> set fs \<Longrightarrow> size j < size (JObj fs)"
  by (induction fs) auto

lemma above_child:
  assumes above: "above h seen j" and a: "embeds h (VRef a) j" and less: "size i < size j"
  shows "above h (a # seen) i"
  unfolding above_def
proof (intro ballI allI impI)
  fix b j'
  assume b: "b \<in> set (a # seen)" and j': "embeds h (VRef b) j'"
  show "size i < size j'"
  proof (cases "b = a")
    case True
    with j' a have "j' = j" by (simp add: embeds_fun)
    with less show ?thesis by simp
  next
    case False
    with b j' above have "size j < size j'" by (auto simp: above_def)
    with less show ?thesis by simp
  qed
qed

lemma above_fresh: "above h seen j \<Longrightarrow> embeds h (VRef a) j \<Longrightarrow> a \<notin> set seen"
  unfolding above_def by (metis less_irrefl)

lemma norm_value_primitive:
  "(\<And>a. v \<noteq> VRef a) \<Longrightarrow> norm_value h seen v = norm_primitive v"
  by (subst norm_value.simps) (auto split: js_value.split)

lemma norm_json_primitive: "norm_primitive v = Inr j \<Longrightarrow> norm_json j = j"
  by (cases v rule: norm_primitive.cases) auto

lemma norm_embeds: "embeds h v j \<Longrightarrow> above h seen j \<Longrightarrow> norm_value h seen v = Inr (norm_json j)"
proof (induction arbitrary: seen rule: embeds.induct)
  case (embeds_primitive v j)
  then show ?case
    by (simp add: norm_value_primitive primitive_not_ref norm_json_primitive)
next
  case (embeds_array a vs js)
  have e: "embeds h (VRef a) (JArr js)"
    using embeds_array.hyps(1) list.rel_mono_strong [OF embeds_array.IH]
    by (intro embeds.embeds_array) auto
  with embeds_array.prems have fresh: "a \<notin> set seen" by (rule above_fresh)
  have "list_all2 (\<lambda>v j. norm_value h (a # seen) v = Inr (norm_json j)) vs js"
    using embeds_array.IH
    by (rule list.rel_mono_strong) (auto intro: above_child [OF embeds_array.prems e] size_item)
  then show ?case using embeds_array.hyps fresh by (simp add: norm_ref norm_items_all)
next
  case (embeds_object a kvs fs)
  let ?R = "\<lambda>kv fj. fst kv = fst fj \<and> norm_value h (a # seen) (snd kv) = Inr (norm_json (snd fj))"
  have e: "embeds h (VRef a) (JObj fs)"
    using embeds_object.hyps(1) list.rel_mono_strong [OF embeds_object.IH]
    by (intro embeds.embeds_object) auto
  with embeds_object.prems have fresh: "a \<notin> set seen" by (rule above_fresh)
  have up: "above h (a # seen) (snd fj)" if "fj \<in> set fs" for fj
    using that size_field [of "fst fj" "snd fj" fs]
    by (intro above_child [OF embeds_object.prems e]) simp
  have "list_all2 ?R kvs fs"
    using embeds_object.IH by (rule list.rel_mono_strong) (simp add: up)
  then have "list_all2 ?R (sorted_fields kvs) (sorted_fields fs)" by (rule list_all2_sorted_fields)
  then have "norm_fields h (a # seen) (sorted_fields kvs)
      = Inr (map (map_prod id norm_json) (sorted_fields fs))" by (rule norm_fields_all)
  then show ?case using embeds_object.hyps fresh by (simp add: norm_ref map_sorted_fields)
qed

subsection \<open>Canonical text determines the value\<close>

text \<open>\<open>Number::toString\<close>: distinct numbers print differently, over the characters of a number.\<close>

definition num_chars :: "char set" where
  "num_chars = set ''0123456789+-.e''"

definition num_text_ok :: "env \<Rightarrow> bool" where
  "num_text_ok e \<longleftrightarrow> inj (num_text e) \<and> (\<forall>q. num_text e q \<noteq> [] \<and> set (num_text e q) \<subseteq> num_chars)"

text \<open>What may follow a JSON text: nothing, or a character no number contains.\<close>

definition ends_number :: "string \<Rightarrow> bool" where
  "ends_number r \<longleftrightarrow> r = [] \<or> hd r \<notin> num_chars"

text \<open>Reading one character of a quoted string back.\<close>

definition hex_value :: "char \<Rightarrow> nat" where
  "hex_value c = (if (of_char c :: nat) < 58 then of_char c - 48 else of_char c - 87)"

fun unescape :: "string \<Rightarrow> (char \<times> string) option" where
  "unescape [] = None"
| "unescape (c # s) =
     (if c \<noteq> CHR 0x5C then Some (c, s)
      else case s of
          d # s' \<Rightarrow>
            if d = CHR ''b'' then Some (CHR 0x08, s')
            else if d = CHR ''f'' then Some (CHR 0x0C, s')
            else if d = CHR ''n'' then Some (CHR 0x0A, s')
            else if d = CHR ''r'' then Some (CHR 0x0D, s')
            else if d = CHR ''t'' then Some (CHR 0x09, s')
            else if d = CHR ''u''
            then (case s' of
                z1 # z2 # h1 # h2 # s'' \<Rightarrow> Some (char_of (16 * hex_value h1 + hex_value h2), s'')
              | _ \<Rightarrow> None)
            else Some (d, s')
        | [] \<Rightarrow> None)"

lemma hex_value_digit: "n < 16 \<Longrightarrow> hex_value (hex_digit n) = n"
proof -
  have "list_all (\<lambda>k. hex_value (hex_digit k) = k) [0..<16]" by code_simp
  moreover assume "n < 16"
  ultimately show ?thesis by (simp add: list_all_iff)
qed

lemma unescape_escape: "unescape (escape c @ r) = Some (c, r)"
proof (cases "c \<in> {CHR 0x22, CHR 0x5C, CHR 0x08, CHR 0x0C, CHR 0x0A, CHR 0x0D, CHR 0x09}")
  case True
  then show ?thesis by (elim insertE emptyE) (simp_all add: escape_def)
next
  case special: False
  show ?thesis
  proof (cases "(of_char c :: nat) < 32")
    case True
    then have "(of_char c :: nat) div 16 < 16" and "(of_char c :: nat) mod 16 < 16" by auto
    then have "char_of (16 * hex_value (hex_digit (of_char c div 16))
        + hex_value (hex_digit (of_char c mod 16))) = c"
      by (simp add: hex_value_digit)
    with True special show ?thesis by (simp add: escape_def)
  next
    case False
    with special show ?thesis by (simp add: escape_def)
  qed
qed

lemma escape_inj: "escape c @ x = escape d @ y \<Longrightarrow> c = d \<and> x = y"
  by (metis unescape_escape option.inject prod.inject)

lemma escape_not_quote: "escape c @ x \<noteq> CHR 0x22 # y"
proof
  assume eq: "escape c @ x = CHR 0x22 # y"
  have "unescape (escape c @ x) = Some (CHR 0x22, y)" unfolding eq by simp
  then have "c = CHR 0x22" by (simp add: unescape_escape)
  with eq show False by (simp add: escape_def)
qed

lemma quoted_body_inj:
  "concat (map escape s) @ CHR 0x22 # x = concat (map escape t) @ CHR 0x22 # y \<Longrightarrow> s = t \<and> x = y"
proof (induction s arbitrary: t)
  case Nil
  then show ?case by (cases t) (auto simp: escape_not_quote [symmetric])
next
  case (Cons c s)
  show ?case
  proof (cases t)
    case Nil
    with Cons.prems show ?thesis by (simp add: escape_not_quote)
  next
    case t: (Cons d t')
    let ?p = "concat (map escape s) @ CHR 0x22 # x"
    let ?q = "concat (map escape t') @ CHR 0x22 # y"
    have "escape c @ ?p = escape d @ ?q" using Cons.prems by (simp add: t)
    then have "c = d" and "?p = ?q" using escape_inj [of c ?p d ?q] by blast+
    with Cons.IH t show ?thesis by blast
  qed
qed

lemma quote_inj: "quote s @ x = quote t @ y \<Longrightarrow> s = t \<and> x = y"
  unfolding quote_def by (rule quoted_body_inj) simp

lemma number_inj:
  assumes "set p \<subseteq> num_chars" and "set q \<subseteq> num_chars" and "ends_number x" and "ends_number y"
    and "p @ x = q @ y"
  shows "p = q \<and> x = y"
proof -
  have take: "takeWhile (\<lambda>c. c \<in> num_chars) (p @ x) = p"
    if "set p \<subseteq> num_chars" and "ends_number x" for p x
    using that by (cases x) (auto simp: ends_number_def takeWhile_append takeWhile_eq_all_conv)
  from assms have "p = q" by (metis take)
  with assms(5) show ?thesis by simp
qed

text \<open>The first character tells the kind of a value; none closes an array or an object.\<close>

lemma stringify_nonempty: "num_text_ok e \<Longrightarrow> stringify e j \<noteq> []"
  by (cases j) (auto simp: num_text_ok_def quote_def)

lemma num_text_hd: "num_text_ok e \<Longrightarrow> hd (num_text e q) \<in> num_chars"
  unfolding num_text_ok_def by (metis hd_in_set subsetD)

definition kind_chars :: "json \<Rightarrow> char set" where
  "kind_chars j = (case j of
      JNull \<Rightarrow> {CHR ''n''} | JBool b \<Rightarrow> (if b then {CHR ''t''} else {CHR ''f''})
    | JNum _ \<Rightarrow> num_chars | JStr _ \<Rightarrow> {CHR 0x22} | JArr _ \<Rightarrow> {CHR ''[''}
    | JObj _ \<Rightarrow> {CHR 0x7B})"

lemma stringify_hd: "num_text_ok e \<Longrightarrow> hd (stringify e j @ r) \<in> kind_chars j"
proof (cases j)
  case (JNum q)
  assume ok: "num_text_ok e"
  then have "num_text e q \<noteq> []" by (simp add: num_text_ok_def)
  with ok JNum show ?thesis by (simp add: kind_chars_def num_text_hd)
qed (simp_all add: kind_chars_def quote_def)

lemma kind_chars_no_close: "CHR '']'' \<notin> kind_chars j"
  by (simp add: kind_chars_def num_chars_def split: json.split)

text \<open>Two texts followed by something that ends a number: same kind of value.\<close>

definition same_kind :: "json \<Rightarrow> json \<Rightarrow> bool" where
  "same_kind i j \<longleftrightarrow> (case i of
      JNull \<Rightarrow> j = JNull | JBool b \<Rightarrow> j = JBool b | JNum _ \<Rightarrow> (\<exists>q. j = JNum q)
    | JStr _ \<Rightarrow> (\<exists>s. j = JStr s) | JArr _ \<Rightarrow> (\<exists>js. j = JArr js) | JObj _ \<Rightarrow> (\<exists>kvs. j = JObj kvs))"

lemma stringify_same_kind:
  assumes "num_text_ok e" and "stringify e i @ x = stringify e j @ y"
  shows "same_kind i j"
proof -
  have "kind_chars i \<inter> kind_chars j \<noteq> {}"
    using stringify_hd [OF assms(1), of i x] stringify_hd [OF assms(1), of j y] assms(2) by auto
  then show ?thesis
    by (cases i; cases j)
      (auto simp: same_kind_def kind_chars_def num_chars_def split: if_splits)
qed

text \<open>A comma-separated list closed by a bracket, over items that are themselves readable.\<close>

definition readable :: "('a \<Rightarrow> string) \<Rightarrow> 'a set \<Rightarrow> bool" where
  "readable f X \<longleftrightarrow> (\<forall>a\<in>X. \<forall>b x y. ends_number x \<longrightarrow> ends_number y \<longrightarrow>
     f a @ x = f b @ y \<longrightarrow> a = b \<and> x = y)"

fun tail_text :: "('a \<Rightarrow> string) \<Rightarrow> 'a list \<Rightarrow> string" where
  "tail_text f [] = []"
| "tail_text f (a # xs) = CHR '','' # f a @ tail_text f xs"

lemma join_tail: "join '','' (map f (a # xs)) = f a @ tail_text f xs"
  by (induction xs arbitrary: a) auto

lemma ends_number_tail:
  "c \<in> {CHR '']'', CHR 0x7D} \<Longrightarrow> ends_number (tail_text f xs @ c # x)"
  by (cases xs) (auto simp: ends_number_def num_chars_def)

lemma tail_text_inj:
  assumes "readable f (set xs)" and "c \<in> {CHR '']'', CHR 0x7D}"
    and "tail_text f xs @ c # x = tail_text f ys @ c # y"
  shows "xs = ys \<and> x = y"
  using assms(1,3)
proof (induction xs arbitrary: ys)
  case Nil
  with assms(2) show ?case by (cases ys) auto
next
  case (Cons a xs)
  show ?case
  proof (cases ys)
    case Nil
    with Cons.prems assms(2) show ?thesis by auto
  next
    case ys: (Cons b ys')
    let ?p = "tail_text f xs @ c # x"
    let ?q = "tail_text f ys' @ c # y"
    have "f a @ ?p = f b @ ?q" using Cons.prems(2) by (simp add: ys)
    moreover have "ends_number ?p" and "ends_number ?q"
      using assms(2) by (simp_all only: ends_number_tail)
    ultimately have "a = b" and pq: "?p = ?q"
      using Cons.prems(1) unfolding readable_def by (metis list.set_intros(1))+
    moreover have "readable f (set xs)" using Cons.prems(1) by (simp add: readable_def)
    ultimately show ?thesis using Cons.IH [OF _ pq] ys by simp
  qed
qed

lemma join_inj:
  assumes "readable f (set xs)" and c: "c \<in> {CHR '']'', CHR 0x7D}"
    and opens: "\<And>a r. hd (f a @ r) \<noteq> c"  and nonempty: "\<And>a. f a \<noteq> []"
    and eq: "join '','' (map f xs) @ c # x = join '','' (map f ys) @ c # y"
  shows "xs = ys \<and> x = y"
proof (cases xs)
  case xs: Nil
  show ?thesis
  proof (cases ys)
    case Nil
    with xs eq show ?thesis by simp
  next
    case ys: (Cons b ys')
    have "c # x = f b @ tail_text f ys' @ c # y" using eq unfolding xs ys join_tail by simp
    then show ?thesis using opens by (metis list.sel(1))
  qed
next
  case xs: (Cons a xs')
  show ?thesis
  proof (cases ys)
    case ys: Nil
    have "f a @ tail_text f xs' @ c # x = c # y" using eq unfolding xs ys join_tail by simp
    then show ?thesis using opens by (metis list.sel(1))
  next
    case ys: (Cons b ys')
    have "tail_text f xs @ c # x = tail_text f ys @ c # y"
      using eq unfolding xs ys join_tail by simp
    then show ?thesis using tail_text_inj assms(1) c by metis
  qed
qed

definition field_text :: "env \<Rightarrow> string \<times> json \<Rightarrow> string" where
  "field_text e kv = quote (fst kv) @ '':'' @ stringify e (snd kv)"

lemma stringify_obj:
  "stringify e (JObj kvs) @ r = CHR 0x7B # join '','' (map (field_text e) kvs) @ CHR 0x7D # r"
  by (simp add: field_text_def cong: map_cong)

lemma stringify_arr:
  "stringify e (JArr js) @ r = CHR ''['' # join '','' (map (stringify e) js) @ CHR '']'' # r"
  by simp

lemma stringify_inj:
  assumes ok: "num_text_ok e" and "ends_number x" and "ends_number y"
    and "stringify e i @ x = stringify e j @ y"
  shows "i = j \<and> x = y"
  using assms(2-)
proof (induction i arbitrary: j x y)
  case (JNum p)
  obtain q where j: "j = JNum q"
    using stringify_same_kind [OF ok JNum.prems(3)] by (auto simp: same_kind_def)
  have "num_text e p = num_text e q \<and> x = y"
    using ok JNum.prems unfolding j stringify.simps
    by (intro number_inj) (auto simp: num_text_ok_def)
  with ok j show ?case by (auto simp: num_text_ok_def dest: injD)
next
  case (JStr s)
  obtain t where j: "j = JStr t"
    using stringify_same_kind [OF ok JStr.prems(3)] by (auto simp: same_kind_def)
  from JStr.prems(3) have "s = t \<and> x = y" unfolding j stringify.simps by (rule quote_inj)
  with j show ?case by simp
next
  case (JArr js)
  obtain ks where j: "j = JArr ks"
    using stringify_same_kind [OF ok JArr.prems(3)] by (auto simp: same_kind_def)
  have items: "readable (stringify e) (set js)" using JArr.IH by (auto simp: readable_def)
  have "js = ks \<and> x = y"
  proof (rule join_inj [OF items])
    show "hd (stringify e a @ r) \<noteq> CHR '']''" for a r
      using stringify_hd [OF ok, of a r] kind_chars_no_close [of a] by metis
    show "join '','' (map (stringify e) js) @ CHR '']'' # x
        = join '','' (map (stringify e) ks) @ CHR '']'' # y"
      using JArr.prems(3) unfolding j stringify_arr by simp
  qed (simp_all add: stringify_nonempty [OF ok])
  with j show ?case by simp
next
  case (JObj kvs)
  obtain kvs' where j: "j = JObj kvs'"
    using stringify_same_kind [OF ok JObj.prems(3)] by (auto simp: same_kind_def)
  have fields: "readable (field_text e) (set kvs)"
    unfolding readable_def
  proof (intro ballI allI impI)
    fix a b x y
    assume a: "a \<in> set kvs" and ends: "ends_number x" "ends_number y"
      and eq: "field_text e a @ x = field_text e b @ y"
    from eq have "quote (fst a) @ (CHR '':'' # stringify e (snd a) @ x)
        = quote (fst b) @ (CHR '':'' # stringify e (snd b) @ y)" by (simp add: field_text_def)
    then have "fst a = fst b" and rest: "stringify e (snd a) @ x = stringify e (snd b) @ y"
      by (auto dest: quote_inj)
    moreover have "snd a = snd b \<and> x = y"
      using JObj.IH [of a "snd a"] a ends rest by (simp add: snds.simps)
    ultimately show "a = b \<and> x = y" by (simp add: prod_eq_iff)
  qed
  have "kvs = kvs' \<and> x = y"
  proof (rule join_inj [OF fields])
    show "join '','' (map (field_text e) kvs) @ CHR 0x7D # x
        = join '','' (map (field_text e) kvs') @ CHR 0x7D # y"
      using JObj.prems(3) unfolding j stringify_obj by simp
  qed (simp_all add: field_text_def quote_def)
  with j show ?case by simp
next
  case JNull
  then have "j = JNull" using stringify_same_kind [OF ok JNull.prems(3)] by (simp add: same_kind_def)
  with JNull.prems show ?case by simp
next
  case (JBool b)
  then have "j = JBool b" using stringify_same_kind [OF ok JBool.prems(3)] by (simp add: same_kind_def)
  with JBool.prems show ?case by simp
qed

lemma canonical_text_inj:
  "num_text_ok e \<Longrightarrow> canonical_text e i = canonical_text e j \<longleftrightarrow> norm_json i = norm_json j"
  using stringify_inj [of e "[]" "[]" "norm_json i" "norm_json j"]
  by (auto simp: canonical_text_def ends_number_def)

subsection \<open>The input set\<close>

lemma mset_insert_cmp: "mset (insert_cmp c x ys) = add_mset x (mset ys)"
  by (induction ys) auto

lemma mset_sort_cmp: "mset (sort_cmp c xs) = mset xs"
  unfolding sort_cmp_def by (induction xs) (auto simp: mset_insert_cmp)

lemma sort_cmp_perm:
  assumes con: "consistent_cmp c" and mset: "mset xs = mset ys"
    and anti: "\<And>x y. x \<in> set xs \<Longrightarrow> y \<in> set xs \<Longrightarrow> c x y \<le> 0 \<Longrightarrow> c y x \<le> 0 \<Longrightarrow> x = y"
  shows "sort_cmp c xs = sort_cmp c ys"
proof -
  have sub: "set ys = set xs" using mset by (metis set_mset_mset)
  have unique: "us = vs"
    if "mset us = mset vs" and "set us \<subseteq> set xs"
      and "sorted_wrt (\<lambda>x y. c x y \<le> 0) us" and "sorted_wrt (\<lambda>x y. c x y \<le> 0) vs" for us vs
    using that
  proof (induction us arbitrary: vs)
    case Nil
    then show ?case by simp
  next
    case (Cons u us)
    then obtain v vs' where vs: "vs = v # vs'" by (cases vs) auto
    have refl: "c z z \<le> 0" for z using con by (auto simp: consistent_cmp_def)
    have in_u: "v \<in> set (u # us)" and in_v: "u \<in> set (v # vs')"
      using Cons.prems(1) vs by (metis list.set_intros(1) set_mset_mset)+
    then have "c u v \<le> 0" and "c v u \<le> 0" using Cons.prems vs refl by auto
    moreover have "u \<in> set xs" and "v \<in> set xs" using Cons.prems(2) in_u by auto
    ultimately have "u = v" using anti by blast
    with Cons vs show ?case by simp
  qed
  show ?thesis
    by (rule unique) (use mset con sorted_sort_cmp in \<open>auto simp: mset_sort_cmp\<close>)
qed

text \<open>A host collation: a total preorder whose sign flips with its arguments.\<close>

definition collation :: "env \<Rightarrow> bool" where
  "collation e \<longleftrightarrow> consistent_cmp (locale_compare e) \<and>
     (\<forall>x y. locale_compare e x y = 0 \<longleftrightarrow> locale_compare e y x = 0) \<and>
     (\<forall>x y. locale_compare e x y < 0 \<longleftrightarrow> 0 < locale_compare e y x)"

lemma collation_sign:
  "collation e \<Longrightarrow> (locale_compare e x y = 0) = (locale_compare e y x = 0) \<and>
     (locale_compare e x y < 0) = (0 < locale_compare e y x)"
  unfolding collation_def by blast

lemma collation_trans:
  "collation e \<Longrightarrow> locale_compare e x y \<le> 0 \<Longrightarrow> locale_compare e y z \<le> 0 \<Longrightarrow>
   locale_compare e x z \<le> 0"
  unfolding collation_def consistent_cmp_def by blast

lemma identity_cmp_le:
  "collation e \<Longrightarrow> identity_cmp e a b \<le> 0 \<longleftrightarrow>
     locale_compare e (ii_port a) (ii_port b) < 0 \<or>
     locale_compare e (ii_port a) (ii_port b) = 0 \<and>
     locale_compare e (ii_delivery a) (ii_delivery b) \<le> 0"
  by (auto simp: identity_cmp_def Let_def)

lemma consistent_identity_cmp:
  assumes col: "collation e"
  shows "consistent_cmp (identity_cmp e)"
  unfolding consistent_cmp_def
proof (intro conjI allI impI)
  fix a b
  show "identity_cmp e a b \<le> 0 \<or> identity_cmp e b a \<le> 0"
    unfolding identity_cmp_le [OF col] using col
    unfolding collation_def consistent_cmp_def by (metis linorder_cases)
next
  fix a b c
  let ?p = "\<lambda>x y. locale_compare e (ii_port x) (ii_port y)"
  let ?d = "\<lambda>x y. locale_compare e (ii_delivery x) (ii_delivery y)"
  assume "identity_cmp e a b \<le> 0" and "identity_cmp e b c \<le> 0"
  then have ab: "?p a b < 0 \<or> ?p a b = 0 \<and> ?d a b \<le> 0" and bc: "?p b c < 0 \<or> ?p b c = 0 \<and> ?d b c \<le> 0"
    by (simp_all add: identity_cmp_le [OF col])
  have sign: "?p x y = 0 \<longleftrightarrow> ?p y x = 0" "?p x y < 0 \<longleftrightarrow> 0 < ?p y x" for x y
    using col by (auto simp: collation_def)
  have "?p a c \<le> 0" using ab bc collation_trans [OF col] by (metis le_less)
  moreover have "?d a c \<le> 0" if "?p a c = 0"
  proof -
    from that have ca: "?p c a \<le> 0" using sign(1) [of a c] by simp
    have "?p b a \<le> 0" using collation_trans [OF col _ ca] bc by (metis le_less)
    moreover have "?p c b \<le> 0" using collation_trans [OF col ca] ab by (metis le_less)
    ultimately have "?p a b = 0" and "?p b c = 0"
      using ab bc sign(2) [of a b] sign(2) [of b c] by linarith+
    with ab bc show ?thesis using collation_trans [OF col] by auto
  qed
  ultimately show "identity_cmp e a c \<le> 0" by (auto simp: identity_cmp_le [OF col])
qed

subsection \<open>Properties\<close>

text \<open>A value that canonicalises reaches no cycle: for every object reachable from the root,
  no chain of references leads from it back to itself.
\<close>

theorem canonicalizeJson_acyclic:
  assumes "canonicalizeJson e h (VRef a) = Inr t" and "(child h)\<^sup>*\<^sup>* a b"
  shows "\<not> (child h)\<^sup>+\<^sup>+ b b"
proof -
  from assms(1) obtain j where "norm_value h [] (VRef a) = Inr j"
    by (auto simp: canonicalizeJson_def split: sum.splits)
  then show ?thesis using assms(2) by (rule norm_no_cycle)
qed

theorem canonicalizeJson_acyclic_witness:
  "\<not> (child [(0, JsArray [VRef 1, VRef 1]), (1, JsPlain [])])\<^sup>+\<^sup>+ 1 1"
proof (rule canonicalizeJson_acyclic)
  let ?h = "[(0, JsArray [VRef 1, VRef 1]), (1, JsPlain [])]"
  show "canonicalizeJson sample_env ?h (VRef 0) = Inr (stringify sample_env (JArr [JObj [], JObj []]))"
    by (simp add: canonicalizeJson_def norm_ref sorted_fields_def own_properties_def)
  show "(child ?h)\<^sup>*\<^sup>* 0 1" by (rule r_into_rtranclp) (simp add: child_def)
qed

text \<open>The heap walk and the tree walk agree: when a heap value spells a JSON tree (objects
  may be shared), its digest is the digest of that tree.
\<close>

theorem canonicalJsonDigest_of_tree:
  assumes "embeds h v j"
  shows "canonicalJsonDigest e h v = Inr (json_digest e j)"
proof -
  have "norm_value h [] v = Inr (norm_json j)"
    using assms by (rule norm_embeds) (simp add: above_def)
  then show ?thesis
    by (simp add: canonicalJsonDigest_def canonicalizeJson_def json_digest_def canonical_text_def)
qed

theorem canonicalJsonDigest_of_tree_witness:
  "canonicalJsonDigest sample_env [(7, JsPlain [(''b'', VNull), (''a'', VBool True)])] (VRef 7)
    = Inr (json_digest sample_env (JObj [(''b'', JNull), (''a'', JBool True)]))"
  by (rule canonicalJsonDigest_of_tree, rule embeds_object) (auto intro: embeds_primitive)


text \<open>The order in which an object's fields were written does not matter: objects that map the
  same names to values of equal normal form have the same digest.
\<close>

theorem json_digest_field_order:
  assumes "distinct (map fst kvs)" and "distinct (map fst kvs')"
    and "map_of (map (map_prod id norm_json) kvs) = map_of (map (map_prod id norm_json) kvs')"
  shows "json_digest e (JObj kvs) = json_digest e (JObj kvs')"
  unfolding json_digest_def canonical_text_def norm_json_field_order [OF assms] ..

theorem json_digest_field_order_witness:
  "json_digest sample_env (JObj [(''a'', JNull), (''b'', JArr [])])
    = json_digest sample_env (JObj [(''b'', JArr []), (''a'', JNull)])"
  by (rule json_digest_field_order) auto

text \<open>An own property named \<open>__proto__\<close> leaves no trace in the canonical text, because
  \<open>output[key] = ..\<close> assigns the prototype: requests that differ in it have equal digests.
\<close>

theorem canonical_text_ignores_proto:
  "canonical_text e (JObj ((''__proto__'', v) # kvs)) = canonical_text e (JObj kvs)"
proof -
  let ?n = "map (map_prod id norm_json)"
  have "own_properties (sorted_fields xs)
      = own_properties (sorted_fields (filter (\<lambda>kv. fst kv \<noteq> ''__proto__'') xs))"
    for xs :: "(string \<times> json) list"
    by (simp add: sorted_fields_filter own_properties_filter)
  from this [of "?n ((''__proto__'', v) # kvs)"] this [of "?n kvs"] show ?thesis
    by (simp add: canonical_text_def)
qed

text \<open>The digest of an input set does not depend on the order in which the deliveries were
  selected, provided the host collation tells their identifiers apart.
\<close>

theorem inputSetDigest_order:
  assumes "collation e" and "mset is = mset is'"
    and "\<forall>a\<in>set is. \<forall>b\<in>set is. locale_compare e (ii_delivery a) (ii_delivery b) = 0 \<longrightarrow> a = b"
  shows "inputSetDigest e is = inputSetDigest e is'"
proof -
  have "sort_cmp (identity_cmp e) is = sort_cmp (identity_cmp e) is'"
  proof (rule sort_cmp_perm [OF consistent_identity_cmp [OF assms(1)] assms(2)])
    fix a b
    assume "a \<in> set is" and "b \<in> set is"
      and "identity_cmp e a b \<le> 0" and "identity_cmp e b a \<le> 0"
    then have "locale_compare e (ii_delivery a) (ii_delivery b) \<le> 0"
      and "locale_compare e (ii_delivery b) (ii_delivery a) \<le> 0"
      using collation_sign [OF assms(1), of "ii_port a" "ii_port b"]
      unfolding identity_cmp_le [OF assms(1)] by linarith+
    then have "locale_compare e (ii_delivery a) (ii_delivery b) = 0"
      using collation_sign [OF assms(1), of "ii_delivery a" "ii_delivery b"] by linarith
    with assms(3) \<open>a \<in> set is\<close> \<open>b \<in> set is\<close> show "a = b" by blast
  qed
  then show ?thesis by (simp add: inputSetDigest_def)
qed

lemma sample_collation: "collation sample_env"
  by (auto simp: collation_def consistent_cmp_def sample_env_def code_unit_compare_def)

theorem inputSetDigest_order_witness:
  "let a = \<lparr>ii_port = ''in'', ii_delivery = ''d1'', ii_source_kind = ''event'',
            ii_source = ''e1'', ii_digest = ''x''\<rparr>;
       b = a\<lparr>ii_delivery := ''d2''\<rparr>
   in inputSetDigest sample_env [a, b] = inputSetDigest sample_env [b, a]"
  unfolding Let_def
  by (rule inputSetDigest_order [OF sample_collation])
    (auto simp: sample_env_def code_unit_compare_def)

lemma sample_num_text_ok: "num_text_ok sample_env"
proof -
  have "p = q" if eq: "sample_num_text p = sample_num_text q" for p q
  proof -
    have dots: "takeWhile (\<lambda>c. c \<noteq> CHR ''.'') (sample_num_text r)
        = (if fst (quotient_of r) < 0 then ''-'' else '''')
          @ replicate (nat \<bar>fst (quotient_of r)\<bar>) CHR ''1''" for r
      by (simp add: sample_num_text_def takeWhile_append)
    have "fst (quotient_of p) = fst (quotient_of q)"
      using dots [of p] dots [of q] eq
      by (cases "fst (quotient_of p) < 0"; cases "fst (quotient_of q) < 0";
          cases "nat \<bar>fst (quotient_of p)\<bar>"; cases "nat \<bar>fst (quotient_of q)\<bar>")
        (auto simp: replicate_eq_replicate)
    moreover have "length (sample_num_text p) = length (sample_num_text q)" using eq by simp
    moreover have "0 < snd (quotient_of p)" and "0 < snd (quotient_of q)"
      by (simp_all add: quotient_of_denom_pos')
    ultimately have "quotient_of p = quotient_of q"
      by (auto simp: sample_num_text_def prod_eq_iff)
    then show "p = q" by (rule quotient_of_inject)
  qed
  then show ?thesis
    by (auto simp: num_text_ok_def sample_env_def inj_def num_chars_def sample_num_text_def
        split: if_splits)
qed


end
