(* ===== verification/Database.thy ===== *)
theory Database
  imports Prelude
begin

section \<open>The durable store: tables, constraints, triggers\<close>

text \<open>
  The PostgreSQL schema of \<open>packages/db/src\<close>: one record per row type (the columns the
  services read or write), the enumerations of \<open>database.ts\<close>, the CHECK constraints of the
  migrations as predicates on a row, and the two triggers that change other tables. An
  \<open>update_\<close> operation tests the constraints on every row it writes and then runs the
  triggers, as the server does. \<open>drawn\<close> counts the random draws made so far.
\<close>

subsection \<open>Enumerations\<close>

datatype region_state = RDeclared | RStarting | RReady | RRunning | RCompleting | RCompleted
  | RBlocked | RSuspended | RCancelling | RCancelled | RFailed

datatype command_state = CAccepted | CRejected | CCompleted | CCancelled | CExpired

datatype delivery_state = DReady | DLeased | DCompleted | DFailed | DDeadLettered | DCancelled

datatype execution_state = EPending | ERunning | ECompleted | EFailed | ECancelled

datatype attempt_state = APending | ALeased | ARunning | ACompleted | AFailed | ACancelled
  | AAbandoned

datatype artifact_state = ArtStaged | ArtCommitted | ArtTombstoned

datatype staging_state = StgStaged | StgPromoted | StgAbandoned

datatype grant_state = GrActive | GrRevoked

datatype approval_state = AprRequested | AprApproved | AprDenied | AprCancelled

datatype action_state = XProposed | XPolicyChecked | XAwaitingApproval | XAuthorized
  | XDispatching | XAcknowledged | XReconciled | XDenied | XFailed | XCancelled | XIndeterminate

datatype action_attempt_state = XtPending | XtDispatching | XtAcknowledged | XtFailed
  | XtIndeterminate

datatype port_direction = PInput | POutput | PState

datatype admission_outcome = Admit | Defer | RequireApproval | Suspend | Reject

datatype reservation_state = ResReserved | ResReconciled | ResReleased

subsection \<open>Rows\<close>

record region =
  reg_id :: string
  reg_parent :: "string option"
  reg_name :: string
  reg_status :: region_state
  reg_epoch :: int
  reg_active_rev :: "string option"

record topology_revision =
  rev_id :: string
  rev_region :: string
  rev_number :: nat
  rev_digest :: string
  rev_topology :: json

record component_definition =
  cdef_id :: string
  cdef_name :: string
  cdef_version :: string
  cdef_digest :: string
  cdef_definition :: json
  cdef_retired :: "int option"

record port_definition =
  port_def :: string
  port_name :: string
  port_direction :: port_direction
  port_schema :: string
  port_required :: bool

record component_instance =
  ci_id :: string
  ci_region :: string
  ci_rev :: string
  ci_def :: string
  ci_name :: string
  ci_configuration :: json

record connection =
  con_rev :: string
  con_source :: string
  con_source_port :: string
  con_target :: string
  con_target_port :: string

record command =
  cmd_id :: string
  cmd_region :: string
  cmd_type :: string
  cmd_payload :: json
  cmd_source :: json
  cmd_status :: command_state
  cmd_correlation :: "string option"
  cmd_key :: "string option"
  cmd_expires :: "int option"
  cmd_digest :: string
  cmd_rejection :: "json option"
  cmd_accepted_at :: "int option"
  cmd_rejected_at :: "int option"

record event =
  ev_id :: string
  ev_region :: string
  ev_type :: string
  ev_payload :: json
  ev_stream :: string
  ev_seq :: nat
  ev_correlation :: string
  ev_source_kind :: string
  ev_src_command :: "string option"
  ev_src_event :: "string option"
  ev_src_execution :: "string option"
  ev_src_attempt :: "string option"
  ev_src_component :: "string option"
  ev_src_port :: "string option"
  ev_created :: int

record delivery =
  del_id :: string
  del_region :: string
  del_rev :: string
  del_target :: string
  del_port :: string
  del_src_command :: "string option"
  del_src_event :: "string option"
  del_correlation :: string
  del_payload :: json
  del_digest :: string
  del_status :: delivery_state
  del_available :: int
  del_owner :: "string option"
  del_token :: "string option"
  del_expires :: "int option"
  del_attempts :: nat
  del_completed_at :: "int option"
  del_failed_at :: "int option"
  del_dead_at :: "int option"
  del_failure :: "json option"
  del_created :: int

record execution =
  exe_id :: string
  exe_delivery :: string
  exe_region :: string
  exe_component :: string
  exe_rev :: string
  exe_epoch :: int
  exe_digest :: string
  exe_status :: execution_state
  exe_completed_at :: "int option"
  exe_failed_at :: "int option"
  exe_failure :: "json option"

record attempt =
  att_id :: string
  att_execution :: string
  att_number :: nat
  att_status :: attempt_state
  att_owner :: "string option"
  att_token :: "string option"
  att_expires :: "int option"
  att_started :: "int option"
  att_completed_at :: "int option"
  att_failure :: "json option"

record execution_input =
  inp_execution :: string
  inp_port :: string
  inp_delivery :: string
  inp_payload :: json

record execution_output =
  out_execution :: string
  out_attempt :: string
  out_port :: string
  out_artifact :: string
  out_event :: "string option"

record artifact_schema =
  sch_id :: string
  sch_name :: string
  sch_version :: string
  sch_digest :: string
  sch_schema :: json
  sch_retired :: "int option"

record artifact =
  art_id :: string
  art_digest :: string
  art_size :: int
  art_schema :: string
  art_state :: artifact_state
  art_media :: string
  art_locator :: "string option"
  art_provenance :: json
  art_tombstoned :: "int option"

record state_version =
  sv_id :: string
  sv_component :: string
  sv_port :: string
  sv_number :: nat
  sv_artifact :: string
  sv_schema :: string
  sv_rev :: string
  sv_region :: string
  sv_source_kind :: string
  sv_source_template :: "string option"
  sv_origin :: "string option"
  sv_source_execution :: "string option"
  sv_source_attempt :: "string option"
  sv_provenance :: json
  sv_created :: int

record inline_payload =
  inl_artifact :: string
  inl_payload :: json
  inl_size :: int

record derivation =
  der_artifact :: string
  der_execution :: string
  der_attempt :: string
  der_type :: string

record staging =
  stg_id :: string
  stg_attempt :: string
  stg_ref :: string
  stg_digest :: string
  stg_size :: int
  stg_schema :: string
  stg_media :: string
  stg_locator :: string
  stg_status :: staging_state
  stg_metadata :: json
  stg_artifact :: "string option"
  stg_promoted :: "int option"
  stg_abandoned :: "int option"
  stg_created :: int

record upload =
  up_id :: string
  up_ref :: string
  up_execution :: string
  up_attempt :: string
  up_epoch :: int
  up_port :: string
  up_schema :: string
  up_media :: string
  up_digest :: string
  up_size :: int
  up_metadata :: json
  up_expires :: int
  up_uploaded :: "int option"
  up_staging :: "string option"

record capability =
  cap_id :: string
  cap_name :: string
  cap_version :: string
  cap_digest :: string
  cap_retired :: "int option"

record capability_grant =
  gr_id :: string
  gr_capability :: string
  gr_grantee :: string
  gr_status :: grant_state
  gr_revoked :: "int option"

record policy =
  pol_id :: string
  pol_name :: string
  pol_version :: string
  pol_digest :: string
  pol_policy :: json
  pol_retired :: "int option"

record template =
  tpl_id :: string
  tpl_name :: string
  tpl_version :: string
  tpl_digest :: string
  tpl_template :: json
  tpl_retired :: "int option"

record template_instantiation =
  ti_id :: string
  ti_request :: string
  ti_request_digest :: string
  ti_region :: string
  ti_rev :: string
  ti_template :: string
  ti_digest :: string
  ti_parameters :: json
  ti_configuration :: json
  ti_source :: json
  ti_references :: json
  ti_created :: bool

record policy_decision =
  pd_id :: string
  pd_policy :: string
  pd_policy_name :: string
  pd_policy_version :: string
  pd_evaluator :: string
  pd_subject_kind :: string
  pd_subject_id :: string
  pd_input_artifact :: "string option"
  pd_inputs :: json
  pd_outcome :: string
  pd_reason :: string
  pd_modifications :: json

record approval =
  apr_id :: string
  apr_decision :: string
  apr_status :: approval_state
  apr_requested :: int
  apr_decided_at :: "int option"
  apr_decided_by :: "string option"
  apr_reason :: "string option"
  apr_client_request :: "string option"
  apr_request_digest :: "string option"

record external_action =
  xa_id :: string
  xa_execution :: string
  xa_attempt :: string
  xa_proposal :: string
  xa_grant :: string
  xa_request_artifact :: string
  xa_policy_decision :: "string option"
  xa_approval :: "string option"
  xa_type :: string
  xa_risk :: string
  xa_status :: action_state
  xa_key :: string
  xa_created :: int

record action_attempt =
  xt_id :: string
  xt_action :: string
  xt_number :: nat
  xt_status :: action_attempt_state
  xt_requested :: int
  xt_completed :: "int option"
  xt_response :: "json option"

record budget =
  bud_id :: string
  bud_scope_kind :: string
  bud_scope_id :: string
  bud_parent :: "string option"
  bud_type :: string
  bud_limit :: int
  bud_unit :: string
  bud_outcome :: admission_outcome
  bud_retired :: "int option"

record reservation =
  res_id :: string
  res_request :: string
  res_budget :: string
  res_region :: string
  res_execution :: "string option"
  res_attempt :: "string option"
  res_action :: "string option"
  res_key :: string
  res_quantity :: int
  res_actual :: "int option"
  res_status :: reservation_state
  res_reserved_at :: int
  res_reconciled_at :: "int option"

record admission_decision =
  ad_id :: string
  ad_subject_kind :: string
  ad_subject_id :: string
  ad_budget :: "string option"
  ad_type :: string
  ad_outcome :: admission_outcome
  ad_reason :: string
  ad_quantity :: int
  ad_remaining :: "int option"
  ad_request :: string
  ad_reservation :: "string option"

record ledger_entry =
  led_id :: string
  led_region :: string
  led_execution :: "string option"
  led_attempt :: "string option"
  led_action :: "string option"
  led_type :: string
  led_quantity :: int
  led_unit :: string
  led_request :: "string option"

record checkpoint =
  ck_id :: string
  ck_projection :: string
  ck_stream :: string
  ck_last_event :: "string option"
  ck_sequence :: int
  ck_updated :: int

subsection \<open>Worker result submissions\<close>

text \<open>
  The shapes a worker submits (\<open>ProposedResultInput\<close>, \<open>StagedArtifactInput\<close>) and the
  \<open>result\<close> column stores. A staged reference arrives under its canonical name or its v1
  name, so both are optional here. Numbers that the commit checks for being safe integers are
  rational or not finite.
\<close>

datatype js_number = Finite rat | NotFinite

record staged_ref =
  st_staging_ref :: "string option"
  st_staging_id :: "string option"
  st_port :: string
  st_digest :: string
  st_size :: js_number
  st_media :: string
  st_schema :: string
  st_schema_digest :: string
  st_provenance :: json

record proposed_event =
  pe_type :: string
  pe_subject :: string
  pe_payload :: json
  pe_schema :: string
  pe_schema_digest :: string
  pe_occurred :: string
  pe_source :: json

record action_proposal =
  ap_proposal :: string
  ap_type :: string
  ap_key :: string
  ap_handle :: string
  ap_request :: staged_ref
  ap_risk :: string

datatype result_status = RsCompleted | RsFailed | RsCancelled

record submitted_result =
  sr_execution :: string
  sr_attempt :: string
  sr_token :: string
  sr_lifecycle_epoch :: "int option"
  sr_fencing_epoch :: "int option"
  sr_status :: result_status
  sr_artifacts :: "staged_ref list"
  sr_state :: "staged_ref option"
  sr_events :: "proposed_event list"
  sr_actions :: "action_proposal list"
  sr_usage :: "(string \<times> js_number) list option"
  sr_failure :: "json option"

record submission =
  sub_id :: string
  sub_execution :: string
  sub_attempt :: string
  sub_digest :: string
  sub_result :: submitted_result
  sub_committed :: "int option"
  sub_created :: int

subsection \<open>The store\<close>

record db =
  drawn :: nat
  regions :: "region list"
  topology_revisions :: "topology_revision list"
  component_definitions :: "component_definition list"
  port_definitions :: "port_definition list"
  component_instances :: "component_instance list"
  connections :: "connection list"
  commands :: "command list"
  events :: "event list"
  stream_sequences :: "(string \<times> nat) list"
  deliveries :: "delivery list"
  executions :: "execution list"
  attempts :: "attempt list"
  execution_inputs :: "execution_input list"
  execution_outputs :: "execution_output list"
  artifact_schemas :: "artifact_schema list"
  artifacts :: "artifact list"
  derivations :: "derivation list"
  state_versions :: "state_version list"
  stagings :: "staging list"
  uploads :: "upload list"
  submissions :: "submission list"
  capabilities :: "capability list"
  capability_grants :: "capability_grant list"
  policies :: "policy list"
  templates :: "template list"
  instantiations :: "template_instantiation list"
  inline_payloads :: "inline_payload list"
  state_links :: "(string \<times> string) list"
  policy_decisions :: "policy_decision list"
  approvals :: "approval list"
  external_actions :: "external_action list"
  action_attempts :: "action_attempt list"
  budgets :: "budget list"
  reservations :: "reservation list"
  admission_decisions :: "admission_decision list"
  ledger :: "ledger_entry list"
  checkpoints :: "checkpoint list"

definition empty_db :: db where
  "empty_db =
     \<lparr>drawn = 0, regions = [], topology_revisions = [], component_definitions = [],
      port_definitions = [], component_instances = [], connections = [], commands = [],
      events = [], stream_sequences = [], deliveries = [], executions = [], attempts = [],
      execution_inputs = [], execution_outputs = [], artifact_schemas = [], artifacts = [],
      derivations = [], state_versions = [], stagings = [], uploads = [], submissions = [],
      capabilities = [], capability_grants = [], policies = [], templates = [],
      instantiations = [], inline_payloads = [], state_links = [],
      policy_decisions = [], approvals = [],
      external_actions = [], action_attempts = [], budgets = [], reservations = [],
      admission_decisions = [], ledger = [],
      checkpoints = []\<rparr>"

end
