(* ===== verification/Blobs.thy ===== *)
theory Blobs
  imports Canonical Database "HOL-Library.AList"
begin

section \<open>The content-addressed blob store\<close>

text \<open>
  \<open>packages/artifact-store/src/index.ts\<close>: \<open>FilesystemArtifactBlobStore\<close>. A directory of the
  store maps a name to an object directory holding the bytes (\<open>data\<close>) and a sidecar with the
  digest and the size written as text (\<open>metadata.json\<close>). Both files may be missing, unsafe
  (a symbolic link) or damaged, as an outside writer can leave them. An operation that
  publishes an object ends in one \<open>rename\<close>; \<open>stage\<close> and \<open>promote\<close> are therefore split into the
  part before the rename and the rename itself, which may run on a store that other
  operations have changed meanwhile.
\<close>

datatype sidecar = NoSidecar | BadSidecar | Sidecar string string

datatype blob_entry =
    EmptyDirectory
  | ObjectDirectory "string option" sidecar int
  | NotDirectory

type_synonym blob_dir = "(string \<times> blob_entry) list"

record blobs =
  staging_root :: blob_dir
  committed_root :: blob_dir

record stage_options =
  expected_digest :: "string option"
  expected_size :: "int option"

record staging_receipt =
  srec_id :: string
  srec_digest :: string
  srec_size :: int
  srec_locator :: string

record committed_receipt =
  crec_digest :: string
  crec_size :: int
  crec_locator :: string

record staged_object =
  sobj_receipt :: staging_receipt
  sobj_modified :: int

record staged_page =
  page_objects :: "staged_object list"
  page_cursor :: "string option"

subsection \<open>Names, digests and sizes\<close>

definition is_alnum :: "char \<Rightarrow> bool" where
  "is_alnum c \<longleftrightarrow>
     c \<in> set ''ABCDEFGHIJKLMNOPQRSTUVWXYZabcdefghijklmnopqrstuvwxyz0123456789''"

fun has_dotdot :: "string \<Rightarrow> bool" where
  "has_dotdot (x # y # s) = (x = CHR ''.'' \<and> y = CHR ''.'' \<or> has_dotdot (y # s))"
| "has_dotdot _ = False"

definition isValidStagingId :: "string \<Rightarrow> bool" where
  "isValidStagingId s \<longleftrightarrow>
     s \<noteq> [] \<and> length s \<le> 128 \<and> is_alnum (hd s) \<and>
     list_all (\<lambda>c. is_alnum c \<or> c \<in> set ''._-'') (tl s) \<and> \<not> has_dotdot s"

definition validateStagingId :: "string \<Rightarrow> ('s, unit) tx" where
  "validateStagingId s = guard (isValidStagingId s) (BlobStoreError ''invalid_staging_id'')"

definition validateDigest :: "string \<Rightarrow> ('s, unit) tx" where
  "validateDigest d = guard (is_sha256_text d) (BlobStoreError ''invalid_digest'')"

text \<open>\<open>BigInt.prototype.toString\<close> on a non-negative value.\<close>

definition digit_char :: "nat \<Rightarrow> char" where
  "digit_char n = char_of (n + 48)"

fun decimal_text :: "nat \<Rightarrow> string" where
  "decimal_text n =
     (if n < 10 then [digit_char n] else decimal_text (n div 10) @ [digit_char (n mod 10)])"

declare decimal_text.simps [simp del]

definition is_size_text :: "string \<Rightarrow> bool" where
  "is_size_text s \<longleftrightarrow>
     s = ''0'' \<or> s \<noteq> [] \<and> list_all is_digit s \<and> hd s \<noteq> CHR ''0''"

subsection \<open>Object metadata\<close>

definition readMetadata :: "string \<Rightarrow> sidecar \<Rightarrow> error + string \<times> int" where
  "readMetadata code m =
     (case m of
        NoSidecar \<Rightarrow> Inl (BlobStoreError code)
      | BadSidecar \<Rightarrow> Inl (PlainError ''SyntaxError'')
      | Sidecar d z \<Rightarrow>
          if \<not> is_sha256_text d then Inl (BlobStoreError ''invalid_digest'')
          else if \<not> is_size_text z then Inl (BlobStoreError code)
          else Inr (d, int (decimal_value z)))"

definition readObjectMetadata :: "string \<Rightarrow> blob_entry option \<Rightarrow> error + (string \<times> int) \<times> string" where
  "readObjectMetadata code e =
     (case e of
        Some (ObjectDirectory (Some bytes) m _) \<Rightarrow>
          (case readMetadata code m of Inl x \<Rightarrow> Inl x | Inr d \<Rightarrow> Inr (d, bytes))
      | _ \<Rightarrow> Inl (BlobStoreError code))"

text \<open>\<open>DigestAccumulator\<close> over a whole stream.\<close>

definition measureObject :: "env \<Rightarrow> string \<Rightarrow> string \<times> int" where
  "measureObject h bytes = (sha256_hex h bytes, int (length bytes))"

definition readVerifiedObjectMetadata ::
  "env \<Rightarrow> string \<Rightarrow> blob_entry option \<Rightarrow> error + (string \<times> int) \<times> string" where
  "readVerifiedObjectMetadata h code e =
     (case readObjectMetadata code e of
        Inl x \<Rightarrow> Inl x
      | Inr (d, bytes) \<Rightarrow>
          if measureObject h bytes \<noteq> d then Inl (BlobStoreError code) else Inr (d, bytes))"

definition writeObjectMetadata :: "env \<Rightarrow> string \<Rightarrow> string \<times> int \<Rightarrow> error + blob_entry" where
  "writeObjectMetadata h bytes d =
     (let m = Sidecar (fst d) (decimal_text (nat (snd d)))
      in case readMetadata ''not_found'' m of
           Inl x \<Rightarrow> Inl x
         | Inr _ \<Rightarrow> Inr (ObjectDirectory (Some bytes) m (clock h)))"

text \<open>\<open>rename\<close> replaces an empty directory, refuses one that has files, and cannot put a
  directory in the place of anything else. The flag says whether this call published.\<close>

definition publishObjectDirectory ::
  "env \<Rightarrow> string \<Rightarrow> string \<times> int \<Rightarrow> blob_entry \<Rightarrow> string \<Rightarrow> blob_dir \<Rightarrow> error + bool \<times> blob_dir" where
  "publishObjectDirectory h code d temporary name dir =
     (case readVerifiedObjectMetadata h code (Some temporary) of
        Inl x \<Rightarrow> Inl x
      | Inr (t, _) \<Rightarrow>
          if t \<noteq> d then Inl (BlobStoreError code)
          else case map_of dir name of
              Some (ObjectDirectory b m w) \<Rightarrow>
                (case readVerifiedObjectMetadata h code (Some (ObjectDirectory b m w)) of
                   Inl x \<Rightarrow> Inl x
                 | Inr (o', _) \<Rightarrow>
                     if o' \<noteq> d then Inl (BlobStoreError code) else Inr (False, dir))
            | Some NotDirectory \<Rightarrow> Inl (PlainError ''ENOTDIR'')
            | _ \<Rightarrow> Inr (True, AList.update name temporary dir))"

subsection \<open>Operations\<close>

definition stagingReceipt :: "string \<Rightarrow> string \<times> int \<Rightarrow> staging_receipt" where
  "stagingReceipt sid d =
     \<lparr>srec_id = sid, srec_digest = fst d, srec_size = snd d,
      srec_locator = ''file:staging/'' @ sid\<rparr>"

definition committedReceipt :: "string \<times> int \<Rightarrow> committed_receipt" where
  "committedReceipt d =
     \<lparr>crec_digest = fst d, crec_size = snd d,
      crec_locator = ''file:committed/sha256/'' @ take 2 (fst d) @ ''/'' @ fst d\<rparr>"

text \<open>\<open>stage\<close> up to the rename: the temporary object and what was measured.\<close>

definition stage_prepare ::
  "env \<Rightarrow> string \<Rightarrow> string \<Rightarrow> stage_options \<Rightarrow> error + (string \<times> int) \<times> blob_entry" where
  "stage_prepare h sid bytes opts =
     (if \<not> isValidStagingId sid then Inl (BlobStoreError ''invalid_staging_id'')
      else if \<not> (case expected_digest opts of None \<Rightarrow> True | Some d \<Rightarrow> is_sha256_text d)
        then Inl (BlobStoreError ''invalid_digest'')
      else if \<not> (case expected_size opts of None \<Rightarrow> True | Some z \<Rightarrow> 0 \<le> z)
        then Inl (BlobStoreError ''invalid_size'')
      else let d = measureObject h bytes in
        if \<not> (case expected_size opts of None \<Rightarrow> True | Some z \<Rightarrow> z = snd d)
          then Inl (BlobStoreError ''size_mismatch'')
        else if \<not> (case expected_digest opts of None \<Rightarrow> True | Some z \<Rightarrow> z = fst d)
          then Inl (BlobStoreError ''digest_mismatch'')
        else case writeObjectMetadata h bytes d of Inl x \<Rightarrow> Inl x | Inr t \<Rightarrow> Inr (d, t))"

text \<open>The rename, and the receipt of what is there when another writer was first.\<close>

definition stage_publish ::
  "env \<Rightarrow> string \<Rightarrow> (string \<times> int) \<times> blob_entry \<Rightarrow> (blobs, staging_receipt) tx" where
  "stage_publish h sid p = (\<lambda>s.
     case publishObjectDirectory h ''staging_conflict'' (fst p) (snd p) sid (staging_root s) of
       Inl x \<Rightarrow> Inl x
     | Inr (True, dir) \<Rightarrow> Inr (stagingReceipt sid (fst p), s\<lparr>staging_root := dir\<rparr>)
     | Inr (False, _) \<Rightarrow>
         (case readVerifiedObjectMetadata h ''staging_conflict'' (map_of (staging_root s) sid) of
            Inl x \<Rightarrow> Inl x
          | Inr (d, _) \<Rightarrow> Inr (stagingReceipt sid d, s)))"

definition stage :: "env \<Rightarrow> string \<Rightarrow> string \<Rightarrow> stage_options \<Rightarrow> (blobs, staging_receipt) tx" where
  "stage h sid bytes opts = (\<lambda>s.
     case stage_prepare h sid bytes opts of Inl x \<Rightarrow> Inl x | Inr p \<Rightarrow> stage_publish h sid p s)"

definition readStaged :: "env \<Rightarrow> string \<Rightarrow> blobs \<Rightarrow> error + string" where
  "readStaged h sid s =
     (if \<not> isValidStagingId sid then Inl (BlobStoreError ''invalid_staging_id'')
      else map_sum id snd
        (readVerifiedObjectMetadata h ''not_found'' (map_of (staging_root s) sid)))"

definition readCommitted :: "env \<Rightarrow> string \<Rightarrow> blobs \<Rightarrow> error + string" where
  "readCommitted h d s =
     (if \<not> is_sha256_text d then Inl (BlobStoreError ''invalid_digest'')
      else map_sum id snd
        (readVerifiedObjectMetadata h ''not_found'' (map_of (committed_root s) d)))"

definition removeStaged :: "string \<Rightarrow> (blobs, unit) tx" where
  "removeStaged sid =
     bind_tx (validateStagingId sid) (\<lambda>_.
     modify (\<lambda>s. s\<lparr>staging_root := AList.delete sid (staging_root s)\<rparr>))"

definition directoryExists :: "blob_entry option \<Rightarrow> bool" where
  "directoryExists e \<longleftrightarrow> (case e of None \<Rightarrow> False | Some NotDirectory \<Rightarrow> False | Some _ \<Rightarrow> True)"

text \<open>\<open>promote\<close> up to the rename: either the digest is committed already, or a verified
  copy of the staged object waits in the temporary directory.\<close>

definition promote_prepare ::
  "env \<Rightarrow> string \<Rightarrow> string \<Rightarrow> int \<Rightarrow> blobs \<Rightarrow> error + blob_entry option" where
  "promote_prepare h sid d z s =
     (if \<not> isValidStagingId sid then Inl (BlobStoreError ''invalid_staging_id'')
      else if \<not> is_sha256_text d then Inl (BlobStoreError ''invalid_digest'')
      else if z < 0 then Inl (BlobStoreError ''invalid_size'')
      else if directoryExists (map_of (committed_root s) d) then
        (case readVerifiedObjectMetadata h ''committed_conflict'' (map_of (committed_root s) d) of
           Inl x \<Rightarrow> Inl x
         | Inr (o', _) \<Rightarrow>
             if o' \<noteq> (d, z) then Inl (BlobStoreError ''committed_conflict'') else Inr None)
      else if \<not> directoryExists (map_of (staging_root s) sid) then Inl (BlobStoreError ''not_found'')
      else case readObjectMetadata ''staging_conflict'' (map_of (staging_root s) sid) of
          Inl x \<Rightarrow> Inl x
        | Inr (m, bytes) \<Rightarrow>
            if snd m \<noteq> z then Inl (BlobStoreError ''size_mismatch'')
            else if fst m \<noteq> d then Inl (BlobStoreError ''digest_mismatch'')
            else let c = measureObject h bytes in
              if snd c \<noteq> z then Inl (BlobStoreError ''size_mismatch'')
              else if fst c \<noteq> d then Inl (BlobStoreError ''digest_mismatch'')
              else case writeObjectMetadata h bytes c of Inl x \<Rightarrow> Inl x | Inr t \<Rightarrow> Inr (Some t))"

definition promote_publish ::
  "env \<Rightarrow> string \<Rightarrow> string \<Rightarrow> int \<Rightarrow> blob_entry option \<Rightarrow> (blobs, committed_receipt) tx" where
  "promote_publish h sid d z p = (\<lambda>s.
     case p of
       None \<Rightarrow> bind_tx (removeStaged sid) (\<lambda>_. ret (committedReceipt (d, z))) s
     | Some t \<Rightarrow>
         (case publishObjectDirectory h ''committed_conflict'' (d, z) t d (committed_root s) of
            Inl x \<Rightarrow> Inl x
          | Inr (_, dir) \<Rightarrow>
              bind_tx (removeStaged sid) (\<lambda>_. ret (committedReceipt (d, z)))
                (s\<lparr>committed_root := dir\<rparr>)))"

definition promote :: "env \<Rightarrow> string \<Rightarrow> string \<Rightarrow> int \<Rightarrow> (blobs, committed_receipt) tx" where
  "promote h sid d z = (\<lambda>s.
     case promote_prepare h sid d z s of Inl x \<Rightarrow> Inl x | Inr p \<Rightarrow> promote_publish h sid d z p s)"

definition validObjectExists :: "env \<Rightarrow> blob_entry option \<Rightarrow> error + bool" where
  "validObjectExists h e =
     (case readVerifiedObjectMetadata h ''not_found'' e of
        Inr _ \<Rightarrow> Inr True
      | Inl x \<Rightarrow> if x = BlobStoreError ''not_found'' then Inr False else Inl x)"

definition stagedExists :: "env \<Rightarrow> string \<Rightarrow> blobs \<Rightarrow> error + bool" where
  "stagedExists h sid s =
     (if \<not> isValidStagingId sid then Inl (BlobStoreError ''invalid_staging_id'')
      else validObjectExists h (map_of (staging_root s) sid))"

definition committedExists :: "env \<Rightarrow> string \<Rightarrow> blobs \<Rightarrow> error + bool" where
  "committedExists h d s =
     (if \<not> is_sha256_text d then Inl (BlobStoreError ''invalid_digest'')
      else validObjectExists h (map_of (committed_root s) d))"

text \<open>One page of the staging area, in name order.\<close>

fun list_objects :: "env \<Rightarrow> blobs \<Rightarrow> string list \<Rightarrow> error + staged_object list" where
  "list_objects h s [] = Inr []"
| "list_objects h s (sid # sids) =
     (case readVerifiedObjectMetadata h ''not_found'' (map_of (staging_root s) sid) of
        Inl x \<Rightarrow> Inl x
      | Inr (d, _) \<Rightarrow>
          (case list_objects h s sids of
             Inl x \<Rightarrow> Inl x
           | Inr os \<Rightarrow>
               Inr (\<lparr>sobj_receipt = stagingReceipt sid d,
                     sobj_modified = (case map_of (staging_root s) sid of
                        Some (ObjectDirectory _ _ w) \<Rightarrow> w | _ \<Rightarrow> 0)\<rparr> # os)))"

definition staged_names :: "blobs \<Rightarrow> string list" where
  "staged_names s = sort (filter isValidStagingId (map fst (staging_root s)))"

definition page_names :: "nat \<Rightarrow> string option \<Rightarrow> string list \<Rightarrow> string list" where
  "page_names n cursor ids =
     take n (case cursor of None \<Rightarrow> ids | Some c \<Rightarrow> dropWhile (\<lambda>i. \<not> c < i) ids)"

definition listStaged :: "env \<Rightarrow> js_number \<Rightarrow> string option \<Rightarrow> blobs \<Rightarrow> error + staged_page" where
  "listStaged h wanted cursor s =
     (case wanted of
        NotFinite \<Rightarrow> Inl (PlainError ''RangeError'')
      | Finite q \<Rightarrow>
          if q \<noteq> of_int \<lfloor>q\<rfloor> \<or> q < 1 \<or> q > 1000 then Inl (PlainError ''RangeError'')
          else let ids = staged_names s; slice = page_names (nat \<lfloor>q\<rfloor>) cursor ids in
            case list_objects h s slice of
              Inl x \<Rightarrow> Inl x
            | Inr os \<Rightarrow>
                Inr \<lparr>page_objects = os,
                     page_cursor = (if slice \<noteq> [] \<and> list_ex (\<lambda>i. last slice < i) ids
                                    then Some (last slice) else None)\<rparr>)"

subsection \<open>Requests in progress\<close>

text \<open>
  Concurrent requests interleave at their renames: \<open>BeginStage\<close> and \<open>BeginPromote\<close> run a
  request up to its rename and leave a temporary object behind, \<open>Finish\<close> performs the rename
  of one of them. A failed step changes nothing in the two roots.
\<close>

datatype inflight =
    StageTemp string "(string \<times> int) \<times> blob_entry"
  | PromoteTemp string string int "blob_entry option"

record blob_run =
  run_blobs :: blobs
  run_pending :: "inflight list"

datatype blob_op =
    BeginStage string string stage_options
  | BeginPromote string string int
  | Finish nat
  | Remove string

fun finish :: "env \<Rightarrow> inflight \<Rightarrow> blobs \<Rightarrow> blobs" where
  "finish h (StageTemp sid p) s =
     (case stage_publish h sid p s of Inl _ \<Rightarrow> s | Inr (_, s') \<Rightarrow> s')"
| "finish h (PromoteTemp sid d z p) s =
     (case promote_publish h sid d z p s of Inl _ \<Rightarrow> s | Inr (_, s') \<Rightarrow> s')"

fun blob_step :: "env \<Rightarrow> blob_op \<Rightarrow> blob_run \<Rightarrow> blob_run" where
  "blob_step h (BeginStage sid bytes opts) r =
     (case stage_prepare h sid bytes opts of
        Inl _ \<Rightarrow> r | Inr p \<Rightarrow> r\<lparr>run_pending := run_pending r @ [StageTemp sid p]\<rparr>)"
| "blob_step h (BeginPromote sid d z) r =
     (case promote_prepare h sid d z (run_blobs r) of
        Inl _ \<Rightarrow> r | Inr p \<Rightarrow> r\<lparr>run_pending := run_pending r @ [PromoteTemp sid d z p]\<rparr>)"
| "blob_step h (Finish n) r =
     (if n < length (run_pending r) then
        \<lparr>run_blobs = finish h (run_pending r ! n) (run_blobs r),
         run_pending = take n (run_pending r) @ drop (Suc n) (run_pending r)\<rparr>
      else r)"
| "blob_step h (Remove sid) r =
     (case removeStaged sid (run_blobs r) of
        Inl _ \<Rightarrow> r | Inr (_, s) \<Rightarrow> r\<lparr>run_blobs := s\<rparr>)"

definition blob_start :: blob_run where
  "blob_start = \<lparr>run_blobs = \<lparr>staging_root = [], committed_root = []\<rparr>, run_pending = []\<rparr>"

definition run_ops :: "env \<Rightarrow> blob_op list \<Rightarrow> blob_run \<Rightarrow> blob_run" where
  "run_ops h ops r = fold (blob_step h) ops r"

subsection \<open>Size text\<close>

lemma digit_char_digit [simp]: "n < 10 \<Longrightarrow> is_digit (digit_char n)"
  and digit_value_char [simp]: "n < 10 \<Longrightarrow> digit_value (digit_char n) = n"
proof -
  assume "n < 10"
  then have "n \<in> set [0..<10]" by simp
  moreover have "list_all (\<lambda>n. is_digit (digit_char n)) [0..<10]" by code_simp
  ultimately show "is_digit (digit_char n)" by (simp add: list_all_iff)
  show "digit_value (digit_char n) = n"
    using \<open>n < 10\<close> by (simp add: digit_value_def digit_char_def of_char_of)
qed

lemma digit_char_0_iff [simp]: "n < 10 \<Longrightarrow> digit_char n = CHR ''0'' \<longleftrightarrow> n = 0"
proof -
  assume "n < 10"
  then have "n \<in> set [0..<10]" by simp
  moreover have "list_all (\<lambda>n. (digit_char n = CHR ''0'') = (n = 0)) [0..<10]" by code_simp
  ultimately show ?thesis by (simp add: list_all_iff)
qed

lemma decimal_value_snoc: "decimal_value (s @ [c]) = 10 * decimal_value s + digit_value c"
  by (simp add: decimal_value_def)

lemma decimal_roundtrip [simp]: "decimal_value (decimal_text n) = n"
proof (induction n rule: decimal_text.induct)
  case (1 n)
  show ?case
  proof (cases "n < 10")
    case True
    then show ?thesis by (subst decimal_text.simps) (simp add: decimal_value_def)
  next
    case False
    with 1 show ?thesis by (subst decimal_text.simps) (simp add: decimal_value_snoc)
  qed
qed

lemma decimal_text_head:
  "decimal_text n \<noteq> [] \<and> list_all is_digit (decimal_text n) \<and>
   (0 < n \<longrightarrow> hd (decimal_text n) \<noteq> CHR ''0'')"
proof (induction n rule: decimal_text.induct)
  case (1 n)
  show ?case
  proof (cases "n < 10")
    case True
    then show ?thesis by (subst (1 2 3) decimal_text.simps) auto
  next
    case False
    then have "0 < n div 10" by simp
    with 1 False show ?thesis by (subst (1 2 3) decimal_text.simps) auto
  qed
qed

lemma decimal_text_ok [simp]: "is_size_text (decimal_text n)"
proof (cases "n = 0")
  case True
  have "decimal_text 0 = ''0''" by code_simp
  with True show ?thesis by (simp add: is_size_text_def)
next
  case False
  then show ?thesis using decimal_text_head [of n] by (auto simp: is_size_text_def)
qed

subsection \<open>Verified objects\<close>

definition holds :: "env \<Rightarrow> blob_entry option \<Rightarrow> string \<Rightarrow> bool" where
  "holds h e b \<longleftrightarrow>
     (\<exists>z w. e = Some (ObjectDirectory (Some b) (Sidecar (sha256_hex h b) z) w) \<and>
        is_sha256_text (sha256_hex h b) \<and> is_size_text z \<and> decimal_value z = length b)"

lemma readVerified_Inr:
  "readVerifiedObjectMetadata h code e = Inr (d, b) \<longleftrightarrow> holds h e b \<and> d = measureObject h b"
proof (cases "\<exists>c dg z w. e = Some (ObjectDirectory (Some c) (Sidecar dg z) w)")
  case True
  then obtain c dg z w where e: "e = Some (ObjectDirectory (Some c) (Sidecar dg z) w)" by blast
  have "readVerifiedObjectMetadata h code e = Inr (d, b) \<longleftrightarrow>
      is_sha256_text dg \<and> is_size_text z \<and> measureObject h c = (dg, int (decimal_value z)) \<and>
      d = (dg, int (decimal_value z)) \<and> c = b"
    unfolding e readVerifiedObjectMetadata_def readObjectMetadata_def readMetadata_def by auto
  also have "\<dots> \<longleftrightarrow> holds h e b \<and> d = measureObject h b"
    unfolding e holds_def measureObject_def by auto
  finally show ?thesis .
next
  case False
  then have "\<not> holds h e b" by (auto simp: holds_def)
  moreover have "readVerifiedObjectMetadata h code e \<noteq> Inr (d, b)"
    using False
    by (auto simp: readVerifiedObjectMetadata_def readObjectMetadata_def readMetadata_def
        split: option.splits blob_entry.splits sidecar.splits sum.splits)
  ultimately show ?thesis by blast
qed

lemma holds_content: "holds h e b \<Longrightarrow> holds h e b' \<Longrightarrow> b' = b"
  by (auto simp: holds_def)

lemma readVerified_holds [simp]:
  "holds h e b \<Longrightarrow> readVerifiedObjectMetadata h code e = Inr (measureObject h b, b)"
  by (simp add: readVerified_Inr)

lemma holds_directory: "holds h e b \<Longrightarrow> directoryExists e"
  by (auto simp: holds_def directoryExists_def)

lemma readMetadata_written:
  "readMetadata code (Sidecar d (decimal_text n)) =
     (if is_sha256_text d then Inr (d, int n) else Inl (BlobStoreError ''invalid_digest''))"
  by (simp add: readMetadata_def)

lemma writeObjectMetadata_Inr:
  "writeObjectMetadata h b (measureObject h b) = Inr t \<Longrightarrow> holds h (Some t) b"
  by (auto simp: writeObjectMetadata_def readMetadata_written Let_def holds_def measureObject_def
      split: if_splits)

lemma writeObjectMetadata_ok:
  "is_sha256_text (sha256_hex h b) \<Longrightarrow>
     \<exists>t. writeObjectMetadata h b (measureObject h b) = Inr t \<and> holds h (Some t) b"
  by (auto simp: writeObjectMetadata_def readMetadata_written Let_def holds_def measureObject_def)

lemma map_snd_Inr: "map_sum id snd x = Inr b \<longleftrightarrow> (\<exists>a. x = Inr (a, b))"
  by (cases x) auto

lemma readCommitted_Inr:
  "readCommitted h d s = Inr b \<longleftrightarrow> is_sha256_text d \<and> holds h (map_of (committed_root s) d) b"
  by (simp add: readCommitted_def map_snd_Inr readVerified_Inr)

lemma readStaged_Inr:
  "readStaged h sid s = Inr b \<longleftrightarrow> isValidStagingId sid \<and> holds h (map_of (staging_root s) sid) b"
  by (simp add: readStaged_def map_snd_Inr readVerified_Inr)

subsection \<open>Renames, promotions and removals\<close>

lemma verified_cases:
  obtains (broken) x where "readVerifiedObjectMetadata h code e = Inl x" and "\<And>b. \<not> holds h e b"
  | (verified) b where "readVerifiedObjectMetadata h code e = Inr (measureObject h b, b)" and "holds h e b"
proof (cases "readVerifiedObjectMetadata h code e")
  case (Inl x)
  then have "\<not> holds h e b" for b by (metis readVerified_holds sum.distinct(1))
  with Inl show thesis by (rule broken)
next
  case (Inr p)
  then show thesis by (cases p) (auto simp: readVerified_Inr intro: verified)
qed

lemma publish_cases:
  assumes "publishObjectDirectory h code d t name dir = Inr (fresh, dir')"
  obtains (new) b where "holds h (Some t) b" "d = measureObject h b" "fresh"
      "dir' = AList.update name t dir" "map_of dir name \<in> {None, Some EmptyDirectory}"
  | (old) b where "holds h (map_of dir name) b" "d = measureObject h b" "\<not> fresh" "dir' = dir"
proof (cases rule: verified_cases [of h code "Some t"])
  case (broken x)
  with assms show thesis by (simp add: publishObjectDirectory_def)
next
  case (verified b)
  with assms have d: "d = measureObject h b" by (simp add: publishObjectDirectory_def split: if_splits)
  consider "map_of dir name \<in> {None, Some EmptyDirectory}" | "map_of dir name = Some NotDirectory"
    | x m w where "map_of dir name = Some (ObjectDirectory x m w)"
    by (metis blob_entry.exhaust insertI1 insertI2 option.exhaust)
  then show thesis
  proof cases
    case 1
    with assms verified d show thesis
      by (intro new [of b]) (auto simp: publishObjectDirectory_def)
  next
    case 2
    with assms verified d show thesis by (simp add: publishObjectDirectory_def)
  next
    case (3 x m w)
    show thesis
    proof (cases rule: verified_cases [of h code "map_of dir name"])
      case (broken y)
      with assms verified(1) d 3 show thesis by (simp add: publishObjectDirectory_def)
    next
      case (verified c)
      with assms \<open>readVerifiedObjectMetadata h code (Some t) = _\<close> d 3 show thesis
        by (intro old [of c]) (auto simp: publishObjectDirectory_def split: if_splits)
    qed
  qed
qed

lemma publish_Inr:
  assumes "publishObjectDirectory h code d t name dir = Inr (fresh, dir')"
  shows "\<exists>b. holds h (map_of dir' name) b \<and> d = measureObject h b"
    and "\<And>k. k \<noteq> name \<Longrightarrow> map_of dir' k = map_of dir k"
    and "\<And>b. holds h (map_of dir name) b \<Longrightarrow> dir' = dir"
  using assms by (cases rule: publish_cases; auto simp: update_conv' holds_def; fail)+

lemma removeStaged_Inr:
  "removeStaged sid s = Inr (u, s') \<longleftrightarrow>
     isValidStagingId sid \<and> s' = s\<lparr>staging_root := AList.delete sid (staging_root s)\<rparr>"
  by (auto simp: removeStaged_def validateStagingId_def tx_simps)

lemma stage_publish_Inr:
  assumes "stage_publish h sid p s = Inr (r, s')"
  shows "committed_root s' = committed_root s"
    and "\<exists>b. holds h (map_of (staging_root s') sid) b \<and> fst p = measureObject h b \<and>
           r = stagingReceipt sid (fst p)"
proof -
  obtain f dir where pub: "publishObjectDirectory h ''staging_conflict'' (fst p) (snd p) sid
      (staging_root s) = Inr (f, dir)"
    using assms by (auto simp: stage_publish_def split: sum.splits)
  note there = publish_Inr(1) [OF pub]
  show "committed_root s' = committed_root s"
    using assms pub by (cases f) (auto simp: stage_publish_def split: sum.splits)
  show "\<exists>b. holds h (map_of (staging_root s') sid) b \<and> fst p = measureObject h b \<and>
           r = stagingReceipt sid (fst p)"
    using pub
  proof (cases rule: publish_cases)
    case (new b)
    then have "r = stagingReceipt sid (fst p)" and "staging_root s' = dir"
      using assms pub by (auto simp: stage_publish_def)
    with there show ?thesis by simp
  next
    case (old b)
    then have "r = stagingReceipt sid (measureObject h b)" and "s' = s"
      using assms pub by (auto simp: stage_publish_def)
    with old show ?thesis by metis
  qed
qed

lemma promote_publish_Inr:
  assumes "promote_publish h sid d z p s = Inr (r, s')"
  shows "r = committedReceipt (d, z)"
    and "staging_root s' = AList.delete sid (staging_root s)"
    and "case p of None \<Rightarrow> committed_root s' = committed_root s
         | Some t \<Rightarrow> \<exists>f. publishObjectDirectory h ''committed_conflict'' (d, z) t d (committed_root s)
                 = Inr (f, committed_root s')"
proof -
  have drop: "bind_tx (removeStaged sid) (\<lambda>_. ret c) t = Inr (r, s') \<longleftrightarrow>
      isValidStagingId sid \<and> r = c \<and> s' = t\<lparr>staging_root := AList.delete sid (staging_root t)\<rparr>"
    for c :: committed_receipt and t
    by (auto simp: bind_tx_Inr removeStaged_Inr ret_Inr)
  have "(r = committedReceipt (d, z) \<and> staging_root s' = AList.delete sid (staging_root s)) \<and>
    (case p of None \<Rightarrow> committed_root s' = committed_root s
         | Some t \<Rightarrow> \<exists>f. publishObjectDirectory h ''committed_conflict'' (d, z) t d (committed_root s)
                 = Inr (f, committed_root s'))"
  proof (cases p)
    case None
    with assms have "bind_tx (removeStaged sid) (\<lambda>_. ret (committedReceipt (d, z))) s = Inr (r, s')"
      by (simp add: promote_publish_def)
    with None show ?thesis by (simp add: drop)
  next
    case (Some t)
    with assms obtain f dir where dir: "publishObjectDirectory h ''committed_conflict'' (d, z) t d
        (committed_root s) = Inr (f, dir)"
      by (auto simp: promote_publish_def split: sum.splits)
    with assms Some have "bind_tx (removeStaged sid) (\<lambda>_. ret (committedReceipt (d, z)))
        (s\<lparr>committed_root := dir\<rparr>) = Inr (r, s')"
      by (simp add: promote_publish_def)
    with Some dir show ?thesis by (simp add: drop)
  qed
  then show "r = committedReceipt (d, z)"
    and "staging_root s' = AList.delete sid (staging_root s)"
    and "case p of None \<Rightarrow> committed_root s' = committed_root s
         | Some t \<Rightarrow> \<exists>f. publishObjectDirectory h ''committed_conflict'' (d, z) t d (committed_root s)
                 = Inr (f, committed_root s')"
    by simp_all
qed

subsection \<open>The invariant\<close>

text \<open>Every committed object is intact and has the digest that is its name; every temporary
  object in flight is intact and is what its request will publish.\<close>

definition intact :: "env \<Rightarrow> blobs \<Rightarrow> bool" where
  "intact h s \<longleftrightarrow>
     (\<forall>(d, e)\<in>set (committed_root s). \<exists>b. holds h (map_of (committed_root s) d) b \<and>
        sha256_hex h b = d)"

fun pending_ok :: "env \<Rightarrow> blobs \<Rightarrow> inflight \<Rightarrow> bool" where
  "pending_ok h s (StageTemp sid p) \<longleftrightarrow> (\<exists>b. holds h (Some (snd p)) b \<and> fst p = measureObject h b)"
| "pending_ok h s (PromoteTemp sid d z (Some t)) \<longleftrightarrow>
     (\<exists>b. holds h (Some t) b \<and> measureObject h b = (d, z))"
| "pending_ok h s (PromoteTemp sid d z None) \<longleftrightarrow>
     (\<exists>b. readCommitted h d s = Inr b \<and> measureObject h b = (d, z))"

definition run_ok :: "env \<Rightarrow> blob_run \<Rightarrow> bool" where
  "run_ok h r \<longleftrightarrow>
     intact h (run_blobs r) \<and> (\<forall>t\<in>set (run_pending r). pending_ok h (run_blobs r) t)"

lemma intact_iff:
  "intact h s \<longleftrightarrow>
     (\<forall>d e. map_of (committed_root s) d = Some e \<longrightarrow> (\<exists>b. holds h (Some e) b \<and> sha256_hex h b = d))"
proof -
  have "intact h s \<longleftrightarrow> (\<forall>d\<in>fst ` set (committed_root s).
      \<exists>b. holds h (map_of (committed_root s) d) b \<and> sha256_hex h b = d)"
    by (fastforce simp: intact_def)
  also have "fst ` set (committed_root s) = dom (map_of (committed_root s))"
    by (simp add: dom_map_of_conv_image_fst)
  finally show ?thesis by (metis (no_types, lifting) domD domI)
qed

lemma intact_read: "intact h s \<Longrightarrow> readCommitted h d s = Inr b \<Longrightarrow> sha256_hex h b = d"
  unfolding readCommitted_Inr by (auto simp: intact_iff holds_def)

lemma intact_committed_root: "committed_root s' = committed_root s \<Longrightarrow> intact h s' = intact h s"
  by (simp add: intact_def)

lemma readCommitted_root:
  "committed_root s' = committed_root s \<Longrightarrow> readCommitted h d s' = readCommitted h d s"
  by (simp add: readCommitted_def)

lemma publish_intact:
  assumes "publishObjectDirectory h code (d, z) t d (committed_root s) = Inr (f, committed_root s')"
    and "intact h s"
  shows "intact h s'" and "readCommitted h k s = Inr b \<Longrightarrow> readCommitted h k s' = Inr b"
    and "\<exists>b. readCommitted h d s' = Inr b \<and> measureObject h b = (d, z)"
proof -
  obtain b0 where b0: "holds h (map_of (committed_root s') d) b0" "(d, z) = measureObject h b0"
    using publish_Inr(1) [OF assms(1)] by blast
  note other = publish_Inr(2) [OF assms(1)]
  show "intact h s'"
    unfolding intact_iff
  proof (intro allI impI)
    fix k e
    assume k: "map_of (committed_root s') k = Some e"
    show "\<exists>b. holds h (Some e) b \<and> sha256_hex h b = k"
    proof (cases "k = d")
      case True
      with b0 k show ?thesis by (auto simp: measureObject_def)
    next
      case False
      with k other have "map_of (committed_root s) k = Some e" by simp
      with assms(2) show ?thesis by (simp add: intact_iff)
    qed
  qed
  show "readCommitted h k s' = Inr b" if "readCommitted h k s = Inr b"
  proof (cases "k = d")
    case True
    with that have "committed_root s' = committed_root s"
      using publish_Inr(3) [OF assms(1)] by (auto simp: readCommitted_Inr)
    with that show ?thesis by (simp add: readCommitted_root [of s' s])
  next
    case False
    with that show ?thesis by (simp add: readCommitted_Inr other)
  qed
  have "is_sha256_text d" using b0 by (auto simp: holds_def measureObject_def)
  with b0(1) have "readCommitted h d s' = Inr b0" by (simp add: readCommitted_Inr)
  with b0(2) show "\<exists>b. readCommitted h d s' = Inr b \<and> measureObject h b = (d, z)" by metis
qed

subsection \<open>A store that only grows\<close>

text \<open>What a reader of committed content relies on: whatever the other requests do, content
  that can be read under a digest stays, and it is the content of that digest.\<close>

locale content_store =
  fixes inv :: "'s \<Rightarrow> bool"
    and fetch :: "string \<Rightarrow> 's \<Rightarrow> error + string"
    and digest_of :: "string \<Rightarrow> string"
    and step :: "'o \<Rightarrow> 's \<Rightarrow> 's"
  assumes step_inv: "inv s \<Longrightarrow> inv (step x s)"
    and step_fetch: "inv s \<Longrightarrow> fetch d s = Inr b \<Longrightarrow> fetch d (step x s) = Inr b"
    and fetch_digest: "inv s \<Longrightarrow> fetch d s = Inr b \<Longrightarrow> digest_of b = d"
begin

lemma run_inv: "inv s \<Longrightarrow> inv (fold step xs s)"
  by (induction xs arbitrary: s) (auto simp: step_inv)

lemma run_fetch: "inv s \<Longrightarrow> fetch d s = Inr b \<Longrightarrow> fetch d (fold step xs s) = Inr b"
  by (induction xs arbitrary: s) (auto simp: step_inv step_fetch)

lemma run_prefix:
  assumes "inv s" and "fetch d (fold step xs s) = Inr b"
  shows "fetch d (fold step (xs @ ys) s) = Inr b \<and> digest_of b = d"
  using run_fetch [OF run_inv [OF assms(1)] assms(2)] fetch_digest [OF run_inv [OF assms(1)] assms(2)]
  by simp

end

lemma finish_ok:
  assumes "intact h s" and "pending_ok h s t"
  shows "intact h (finish h t s)"
    and "readCommitted h d s = Inr b \<Longrightarrow> readCommitted h d (finish h t s) = Inr b"
proof -
  have "intact h (finish h t s) \<and>
      (readCommitted h d s = Inr b \<longrightarrow> readCommitted h d (finish h t s) = Inr b)"
  proof (cases t)
    case (StageTemp sid p)
    show ?thesis
    proof (cases "stage_publish h sid p s")
      case (Inr q)
      obtain r s' where q: "q = (r, s')" by (cases q)
      with Inr stage_publish_Inr(1) [of h sid p s r s'] have "committed_root s' = committed_root s"
        by simp
      with StageTemp Inr q assms(1) show ?thesis
        by (simp add: intact_committed_root [of s' s] readCommitted_root [of s' s])
    qed (use StageTemp assms(1) in simp)
  next
    case (PromoteTemp sid k z p)
    show ?thesis
    proof (cases "promote_publish h sid k z p s")
      case (Inr q)
      obtain r s' where q: "q = (r, s')" by (cases q)
      note moved = promote_publish_Inr(3) [OF Inr [unfolded q]]
      show ?thesis
      proof (cases p)
        case None
        with moved have "committed_root s' = committed_root s" by simp
        with PromoteTemp Inr q assms(1) show ?thesis
          by (simp add: intact_committed_root [of s' s] readCommitted_root [of s' s])
      next
        case (Some e)
        with moved obtain f where "publishObjectDirectory h ''committed_conflict'' (k, z) e k
            (committed_root s) = Inr (f, committed_root s')"
          by auto
        note publish_intact [OF this assms(1)]
        with PromoteTemp Inr q show ?thesis by simp
      qed
    qed (use PromoteTemp assms(1) in simp)
  qed
  then show "intact h (finish h t s)"
    and "readCommitted h d s = Inr b \<Longrightarrow> readCommitted h d (finish h t s) = Inr b"
    by auto
qed

lemma pending_ok_mono:
  assumes "\<And>d b. readCommitted h d s = Inr b \<Longrightarrow> readCommitted h d s' = Inr b"
    and "pending_ok h s t"
  shows "pending_ok h s' t"
  using assms by (cases "(h, s, t)" rule: pending_ok.cases) auto

lemma stage_prepare_Inr:
  "stage_prepare h sid bytes opts = Inr p \<Longrightarrow>
     holds h (Some (snd p)) bytes \<and> fst p = measureObject h bytes \<and> isValidStagingId sid"
  by (auto simp: stage_prepare_def Let_def intro: writeObjectMetadata_Inr
      split: if_splits sum.splits)

lemma promote_prepare_Inr:
  assumes "promote_prepare h sid d z s = Inr p"
  shows "pending_ok h s (PromoteTemp sid d z p)"
proof (cases "directoryExists (map_of (committed_root s) d)")
  case True
  with assms obtain o' c where
    "readVerifiedObjectMetadata h ''committed_conflict'' (map_of (committed_root s) d) = Inr (o', c)"
    "o' = (d, z)" "p = None" "is_sha256_text d"
    by (auto simp: promote_prepare_def split: if_splits sum.splits)
  then show ?thesis by (auto simp: readVerified_Inr readCommitted_Inr)
next
  case False
  with assms obtain bytes t where "writeObjectMetadata h bytes (measureObject h bytes) = Inr t"
    "p = Some t" "measureObject h bytes = (d, z)"
    by (auto simp: promote_prepare_def Let_def measureObject_def split: if_splits sum.splits)
  then show ?thesis using writeObjectMetadata_Inr [of h bytes t] by auto
qed

lemma blob_step_fetch:
  assumes "run_ok h r" and "readCommitted h d (run_blobs r) = Inr b"
  shows "readCommitted h d (run_blobs (blob_step h x r)) = Inr b"
proof (cases x)
  case (Finish n)
  then show ?thesis using assms by (auto simp: run_ok_def intro: finish_ok)
next
  case (Remove sid)
  then show ?thesis using assms
    by (auto simp: removeStaged_Inr readCommitted_Inr split: sum.splits)
qed (use assms in \<open>auto split: sum.splits\<close>)

lemma blob_step_ok:
  assumes "run_ok h r"
  shows "run_ok h (blob_step h x r)"
proof -
  have keep: "pending_ok h (run_blobs (blob_step h x r)) t" if "pending_ok h (run_blobs r) t" for t
    by (rule pending_ok_mono [OF _ that]) (rule blob_step_fetch [OF assms])
  show ?thesis
  proof (cases x)
    case (BeginStage sid bytes opts)
    then show ?thesis using assms
      by (fastforce simp: run_ok_def dest: stage_prepare_Inr split: sum.splits)
  next
    case (BeginPromote sid d z)
    then show ?thesis using assms
      by (auto simp: run_ok_def dest: promote_prepare_Inr split: sum.splits)
  next
    case (Finish n)
    then show ?thesis using assms keep
      by (auto simp: run_ok_def finish_ok dest: in_set_takeD in_set_dropD)
  next
    case (Remove sid)
    show ?thesis
    proof (cases "removeStaged sid (run_blobs r)")
      case (Inr q)
      obtain u s' where q: "q = (u, s')" by (cases q)
      with Inr have "committed_root s' = committed_root (run_blobs r)"
        by (simp add: removeStaged_Inr)
      with Remove Inr q assms keep show ?thesis
        by (simp add: run_ok_def intact_committed_root [of s' "run_blobs r"])
    qed (use Remove assms in simp)
  qed
qed

lemma run_ok_intact: "run_ok h r \<Longrightarrow> intact h (run_blobs r)"
  by (simp add: run_ok_def)

interpretation fs: content_store "run_ok h" "\<lambda>d r. readCommitted h d (run_blobs r)"
    "sha256_hex h" "blob_step h" for h
  by unfold_locales (auto intro: blob_step_ok blob_step_fetch intact_read [OF run_ok_intact])

lemma blob_start_ok [simp]: "run_ok h blob_start"
  by (simp add: run_ok_def blob_start_def intact_def)

subsection \<open>Properties\<close>

definition digest_host :: "env \<Rightarrow> bool" where
  "digest_host h \<longleftrightarrow> (\<forall>b. is_sha256_text (sha256_hex h b))"

definition plain_stage :: stage_options where
  "plain_stage = \<lparr>expected_digest = None, expected_size = None\<rparr>"

text \<open>A digest function for the examples: the code points of the text, in hexadecimal, cut or
  padded to 64 digits.\<close>

definition sample_digest :: "string \<Rightarrow> string" where
  "sample_digest b =
     take 64 (concat (map (\<lambda>c. [hex_digit (of_char c div 16), hex_digit (of_char c mod 16)]) b)
       @ replicate 64 (CHR ''0''))"

definition blob_env :: env where
  "blob_env = sample_env\<lparr>sha256_hex := sample_digest\<rparr>"

lemma hex_digit_is_hex [simp]: "n < 16 \<Longrightarrow> is_hex (hex_digit n)"
proof -
  have "list_all (\<lambda>n. is_hex (hex_digit n)) [0..<16]" by code_simp
  moreover assume "n < 16"
  ultimately show ?thesis by (simp add: list_all_iff)
qed

lemma byte_nibbles [simp]: "(of_char c :: nat) div 16 < 16"
  using nat_of_char_less_256 [of c] by (simp add: div_less_iff_less_mult)

lemma sample_digest_ok: "digest_host blob_env"
proof -
  have zero: "is_hex (CHR ''0'')" by code_simp
  have padded: "is_sha256_text (take 64 (x @ replicate 64 (CHR ''0'')))" if "list_all is_hex x" for x
    using that zero unfolding is_sha256_text_def
    by (auto simp: list_all_iff dest!: in_set_takeD)
  have "list_all is_hex (concat (map (\<lambda>c. [hex_digit (of_char c div 16),
      hex_digit (of_char c mod 16)]) b))" for b :: string
    by (auto simp: list_all_iff)
  then have "is_sha256_text (sample_digest b)" for b
    unfolding sample_digest_def by (rule padded)
  then show ?thesis
    by (simp add: digest_host_def blob_env_def)
qed

lemma digest_host_write:
  assumes "digest_host h"
  obtains t where "writeObjectMetadata h b (measureObject h b) = Inr t" and "holds h (Some t) b"
  using assms writeObjectMetadata_ok [of h b] by (auto simp: digest_host_def)

lemma stage_prepare_ok:
  assumes "digest_host h" and "isValidStagingId sid"
  obtains t where "stage_prepare h sid b plain_stage = Inr (measureObject h b, t)"
    and "holds h (Some t) b"
proof -
  obtain t where t: "writeObjectMetadata h b (measureObject h b) = Inr t" "holds h (Some t) b"
    using digest_host_write [OF assms(1)] by blast
  with assms(2) have "stage_prepare h sid b plain_stage = Inr (measureObject h b, t)"
    by (simp add: stage_prepare_def plain_stage_def Let_def)
  then show thesis using t(2) by (rule that)
qed

text \<open>C26. Committed content is immutable: whatever requests run afterwards and however their
  renames interleave, content that can be read under a digest stays readable and has that
  digest.\<close>

theorem committed_immutable:
  assumes "readCommitted h d (run_blobs (run_ops h xs blob_start)) = Inr b"
  shows "readCommitted h d (run_blobs (run_ops h (xs @ ys) blob_start)) = Inr b \<and>
    sha256_hex h b = d"
  using assms fs.run_prefix [of h blob_start d xs b ys] by (simp add: run_ops_def)

theorem committed_immutable_witness:
  "case run_ops blob_env [BeginStage ''s1'' ''hi'' plain_stage, Finish 0,
       BeginPromote ''s1'' (sample_digest ''hi'') 2, Finish 0] blob_start of r \<Rightarrow>
     readCommitted blob_env (sample_digest ''hi'') (run_blobs r) = Inr ''hi'' \<and>
     readCommitted blob_env (sample_digest ''hi'')
       (run_blobs (blob_step blob_env (Remove ''s1'') r)) = Inr ''hi''"
proof -
  let ?xs = "[BeginStage ''s1'' ''hi'' plain_stage, Finish 0,
       BeginPromote ''s1'' (sample_digest ''hi'') 2, Finish 0]"
  have "readCommitted blob_env (sample_digest ''hi'') (run_blobs (run_ops blob_env ?xs blob_start))
      = Inr ''hi''"
    by code_simp
  from this committed_immutable [OF this, of "[Remove ''s1'']"] show ?thesis
    by (simp add: run_ops_def)
qed

text \<open>A promotion that returns a receipt has committed the content: in every reachable
  state, also when another request published the digest first, the rename of a promotion
  leaves content of the receipt's digest and size readable.\<close>

theorem promotion_receipt_sound:
  assumes "PromoteTemp sid d z p \<in> set (run_pending (run_ops h xs blob_start))"
    and "promote_publish h sid d z p (run_blobs (run_ops h xs blob_start)) = Inr (r, s)"
  shows "\<exists>b. readCommitted h (crec_digest r) s = Inr b \<and> sha256_hex h b = crec_digest r \<and>
     int (length b) = crec_size r"
proof -
  let ?r = "run_ops h xs blob_start"
  have ok: "run_ok h ?r" using fs.run_inv [of h blob_start xs] by (simp add: run_ops_def)
  then have pending: "pending_ok h (run_blobs ?r) (PromoteTemp sid d z p)"
    using assms(1) by (auto simp: run_ok_def)
  note moved = promote_publish_Inr [OF assms(2)]
  have "\<exists>b. readCommitted h d s = Inr b \<and> measureObject h b = (d, z)"
  proof (cases p)
    case None
    with moved(3) pending show ?thesis by (simp add: readCommitted_root [of s "run_blobs ?r"])
  next
    case (Some t)
    with moved(3) obtain f where "publishObjectDirectory h ''committed_conflict'' (d, z) t d
        (committed_root (run_blobs ?r)) = Inr (f, committed_root s)" by auto
    from publish_intact(3) [OF this run_ok_intact [OF ok]] show ?thesis .
  qed
  then show ?thesis using moved(1) by (auto simp: committedReceipt_def measureObject_def)
qed

text \<open>Two uploads of the same bytes, both prepared for promotion before either is renamed;
  the second rename finds the content published.\<close>

definition race_ops :: "blob_op list" where
  "race_ops =
     [BeginStage ''s1'' ''hi'' plain_stage, Finish 0, BeginStage ''s2'' ''hi'' plain_stage, Finish 0,
      BeginPromote ''s1'' (sample_digest ''hi'') 2, BeginPromote ''s2'' (sample_digest ''hi'') 2,
      Finish 0]"

definition race_copy :: blob_entry where
  "race_copy = ObjectDirectory (Some ''hi'') (Sidecar (sample_digest ''hi'') ''2'') 1000"

theorem promotion_receipt_sound_witness:
  "case promote_publish blob_env ''s2'' (sample_digest ''hi'') 2 (Some race_copy)
       (run_blobs (run_ops blob_env race_ops blob_start)) of
     Inl _ \<Rightarrow> False
   | Inr (c, s) \<Rightarrow> \<exists>b. readCommitted blob_env (crec_digest c) s = Inr b \<and>
       sha256_hex blob_env b = crec_digest c \<and> int (length b) = crec_size c"
proof -
  let ?r = "run_ops blob_env race_ops blob_start"
  have pending: "list_ex (\<lambda>t. t = PromoteTemp ''s2'' (sample_digest ''hi'') 2 (Some race_copy))
      (run_pending ?r)"
    by code_simp
  have "case promote_publish blob_env ''s2'' (sample_digest ''hi'') 2 (Some race_copy)
      (run_blobs ?r) of Inl _ \<Rightarrow> False | Inr _ \<Rightarrow> True"
    by code_simp
  then obtain c s where moved: "promote_publish blob_env ''s2'' (sample_digest ''hi'') 2
      (Some race_copy) (run_blobs ?r) = Inr (c, s)"
    by (auto split: sum.splits)
  from pending have "PromoteTemp ''s2'' (sample_digest ''hi'') 2 (Some race_copy)
      \<in> set (run_pending ?r)"
    by (auto simp: list_ex_iff)
  from promotion_receipt_sound [OF this moved] moved show ?thesis by simp
qed

text \<open>What a promotion finds before its rename: the content committed already, or a verified
  copy and no object under the digest.\<close>

definition promotion_ready :: "env \<Rightarrow> string \<Rightarrow> blob_entry option \<Rightarrow> blobs \<Rightarrow> bool" where
  "promotion_ready h bytes p s \<longleftrightarrow>
     (case p of
        None \<Rightarrow> readCommitted h (sha256_hex h bytes) s = Inr bytes
      | Some t \<Rightarrow> holds h (Some t) bytes \<and> map_of (committed_root s) (sha256_hex h bytes) = None)"

lemma promote_prepare_ready:
  assumes "digest_host h" and "intact h s" and "isValidStagingId sid"
    and staged: "holds h (map_of (staging_root s) sid) bytes"
    and "\<And>b. sha256_hex h b = sha256_hex h bytes \<Longrightarrow> b = bytes"
  obtains p where "promote_prepare h sid (sha256_hex h bytes) (int (length bytes)) s = Inr p"
    and "promotion_ready h bytes p s"
proof (cases "map_of (committed_root s) (sha256_hex h bytes)")
  case (Some e)
  have dig: "is_sha256_text (sha256_hex h bytes)" using assms(1) by (simp add: digest_host_def)
  from Some assms(2) obtain b where "holds h (Some e) b" "sha256_hex h b = sha256_hex h bytes"
    by (auto simp: intact_iff)
  with assms(5) have e: "holds h (Some e) bytes" by metis
  then have "promote_prepare h sid (sha256_hex h bytes) (int (length bytes)) s = Inr None"
    using Some dig assms(3) holds_directory [OF e]
    by (simp add: promote_prepare_def measureObject_def)
  then show thesis using e Some dig
    by (intro that [of None]) (simp_all add: readCommitted_Inr promotion_ready_def)
next
  case None
  obtain u where u: "writeObjectMetadata h bytes (measureObject h bytes) = Inr u"
    "holds h (Some u) bytes"
    using digest_host_write [OF assms(1)] by blast
  obtain v w where vw: "map_of (staging_root s) sid
      = Some (ObjectDirectory (Some bytes) (Sidecar (sha256_hex h bytes) v) w)"
    "is_size_text v" "decimal_value v = length bytes" "is_sha256_text (sha256_hex h bytes)"
    using staged by (auto simp: holds_def)
  have "promote_prepare h sid (sha256_hex h bytes) (int (length bytes)) s = Inr (Some u)"
    using None assms(3) u(1) vw
    by (simp add: promote_prepare_def directoryExists_def readObjectMetadata_def readMetadata_def
        measureObject_def)
  with u(2) None show thesis by (intro that [of "Some u"]) (simp_all add: promotion_ready_def)
qed

lemma promote_publish_ready:
  assumes "promotion_ready h bytes p s" and "isValidStagingId sid" and "digest_host h"
  obtains s' where "promote_publish h sid (sha256_hex h bytes) (int (length bytes)) p s
      = Inr (committedReceipt (measureObject h bytes), s')"
    and "readCommitted h (sha256_hex h bytes) s' = Inr bytes"
    and "map_of (staging_root s') sid = None"
proof -
  have "is_sha256_text (sha256_hex h bytes)" using assms(3) by (simp add: digest_host_def)
  with assms have "\<exists>s'. promote_publish h sid (sha256_hex h bytes) (int (length bytes)) p s
        = Inr (committedReceipt (measureObject h bytes), s') \<and>
      readCommitted h (sha256_hex h bytes) s' = Inr bytes"
    by (cases p) (auto simp: promotion_ready_def promote_publish_def tx_simps removeStaged_def
        publishObjectDirectory_def validateStagingId_def readCommitted_Inr measureObject_def
        update_conv')
  then obtain s' where moved: "promote_publish h sid (sha256_hex h bytes) (int (length bytes)) p s
        = Inr (committedReceipt (measureObject h bytes), s')"
    and "readCommitted h (sha256_hex h bytes) s' = Inr bytes" by blast
  then show thesis using promote_publish_Inr(2) [OF moved]
    by (intro that [OF moved]) (simp_all add: delete_conv')
qed

text \<open>C27. Upload, promotion and reading fit together: bytes staged under a free name can be read
  back from the staging area, their promotion succeeds, the committed content is the bytes and
  the staged object is gone, provided no other content has the same digest.\<close>

theorem stage_promote_roundtrip:
  assumes "digest_host h" and "intact h s" and "isValidStagingId sid"
    and "map_of (staging_root s) sid = None"
    and "\<And>b. sha256_hex h b = sha256_hex h bytes \<Longrightarrow> b = bytes"
  shows "\<exists>s1 s2. stage h sid bytes plain_stage s
        = Inr (stagingReceipt sid (measureObject h bytes), s1) \<and>
      readStaged h sid s1 = Inr bytes \<and>
      promote h sid (sha256_hex h bytes) (int (length bytes)) s1
        = Inr (committedReceipt (measureObject h bytes), s2) \<and>
      readCommitted h (sha256_hex h bytes) s2 = Inr bytes \<and>
      map_of (staging_root s2) sid = None"
proof -
  obtain t where t: "stage_prepare h sid bytes plain_stage = Inr (measureObject h bytes, t)"
    "holds h (Some t) bytes"
    using stage_prepare_ok [OF assms(1,3)] by blast
  let ?s1 = "s\<lparr>staging_root := AList.update sid t (staging_root s)\<rparr>"
  have staged: "stage h sid bytes plain_stage s
      = Inr (stagingReceipt sid (measureObject h bytes), ?s1)"
    using t assms(4) by (simp add: stage_def stage_publish_def publishObjectDirectory_def)
  have entry: "holds h (map_of (staging_root ?s1) sid) bytes"
    using t(2) by (simp add: update_conv')
  with assms(3) have read: "readStaged h sid ?s1 = Inr bytes" by (simp add: readStaged_Inr)
  have "intact h ?s1" using assms(2) by (simp add: intact_def)
  from promote_prepare_ready [OF assms(1) this assms(3) entry assms(5)]
  obtain p where p: "promote_prepare h sid (sha256_hex h bytes) (int (length bytes)) ?s1 = Inr p"
    and ready: "promotion_ready h bytes p ?s1" by blast
  from promote_publish_ready [OF ready assms(3,1)] obtain s2 where
    "promote_publish h sid (sha256_hex h bytes) (int (length bytes)) p ?s1
      = Inr (committedReceipt (measureObject h bytes), s2)"
    "readCommitted h (sha256_hex h bytes) s2 = Inr bytes" "map_of (staging_root s2) sid = None" .
  with staged read p show ?thesis by (auto simp: promote_def)
qed

theorem stage_promote_roundtrip_witness:
  "\<exists>h s1 s2. stage h ''s1'' ''hi'' plain_stage (run_blobs blob_start)
       = Inr (stagingReceipt ''s1'' (measureObject h ''hi''), s1) \<and>
     promote h ''s1'' (sha256_hex h ''hi'') 2 s1
       = Inr (committedReceipt (measureObject h ''hi''), s2) \<and>
     readCommitted h (sha256_hex h ''hi'') s2 = Inr ''hi''"
proof -
  let ?h = "sample_env\<lparr>sha256_hex :=
      (\<lambda>b. replicate 64 (if b = ''hi'' then CHR ''1'' else CHR ''0''))\<rparr>"
  have "digest_host ?h"
    by (auto simp: digest_host_def is_sha256_text_def is_hex_def list_all_iff)
  moreover have "intact ?h (run_blobs blob_start)" by (rule run_ok_intact) simp
  moreover have "isValidStagingId ''s1''" by code_simp
  moreover have "map_of (staging_root (run_blobs blob_start)) ''s1'' = None"
    by (simp add: blob_start_def)
  moreover have "b = ''hi''" if "sha256_hex ?h b = sha256_hex ?h ''hi''" for b
  proof (rule ccontr)
    assume "b \<noteq> ''hi''"
    with that have "replicate 64 (CHR ''0'') = replicate 64 (CHR ''1'')" by simp
    then show False by (simp add: replicate_eq_replicate)
  qed
  ultimately obtain s1 s2 where
    "stage ?h ''s1'' ''hi'' plain_stage (run_blobs blob_start)
       = Inr (stagingReceipt ''s1'' (measureObject ?h ''hi''), s1) \<and>
     readStaged ?h ''s1'' s1 = Inr ''hi'' \<and>
     promote ?h ''s1'' (sha256_hex ?h ''hi'') (int (length ''hi'')) s1
       = Inr (committedReceipt (measureObject ?h ''hi''), s2) \<and>
     readCommitted ?h (sha256_hex ?h ''hi'') s2 = Inr ''hi'' \<and>
     map_of (staging_root s2) ''s1'' = None"
    using stage_promote_roundtrip [of ?h "run_blobs blob_start" "''s1''" "''hi''"] by blast
  moreover have "int (length ''hi'') = 2" by simp
  ultimately show ?thesis by metis
qed

text \<open>A staging name is taken once: staging under a name that holds an object returns the same
  receipt when the bytes have the object's digest and size, and is a conflict otherwise; the
  store does not change.\<close>

theorem stage_taken:
  assumes "digest_host h" and "readStaged h sid s = Inr b"
  shows "stage h sid bytes plain_stage s =
     (if measureObject h bytes = measureObject h b
      then Inr (stagingReceipt sid (measureObject h b), s)
      else Inl (BlobStoreError ''staging_conflict''))"
proof -
  have sid: "isValidStagingId sid" and there: "holds h (map_of (staging_root s) sid) b"
    using assms(2) by (auto simp: readStaged_Inr)
  obtain t where t: "stage_prepare h sid bytes plain_stage = Inr (measureObject h bytes, t)"
    "holds h (Some t) bytes"
    using stage_prepare_ok [OF assms(1) sid] by blast
  obtain x m w where e: "map_of (staging_root s) sid = Some (ObjectDirectory x m w)"
    using there by (auto simp: holds_def)
  with there have "holds h (Some (ObjectDirectory x m w)) b" by simp
  with t e show ?thesis
    by (simp add: stage_def stage_publish_def publishObjectDirectory_def eq_commute)
qed

theorem stage_taken_witness:
  "case stage blob_env ''s1'' ''hi'' plain_stage (run_blobs blob_start) of
     Inl _ \<Rightarrow> False
   | Inr (_, s) \<Rightarrow> stage blob_env ''s1'' ''ho'' plain_stage s = Inl (BlobStoreError ''staging_conflict'')"
proof -
  let ?s = "run_blobs (run_ops blob_env [BeginStage ''s1'' ''hi'' plain_stage, Finish 0] blob_start)"
  have here: "readStaged blob_env ''s1'' ?s = Inr ''hi''" by code_simp
  have "measureObject blob_env ''ho'' \<noteq> measureObject blob_env ''hi''" by code_simp
  with stage_taken [OF sample_digest_ok here, of "''ho''"]
  have "stage blob_env ''s1'' ''ho'' plain_stage ?s = Inl (BlobStoreError ''staging_conflict'')"
    by simp
  moreover have "case stage blob_env ''s1'' ''hi'' plain_stage (run_blobs blob_start) of
      Inl _ \<Rightarrow> False | Inr (_, s) \<Rightarrow> s = ?s"
    by code_simp
  ultimately show ?thesis by (auto split: sum.splits)
qed

end
