(* ===== verification/Capability.thy ===== *)
theory Capability
  imports Prelude
begin

section \<open>Capability grant handles\<close>

text \<open>
  \<open>capabilities/capability-handle.ts\<close>: the opaque handle of a capability grant is a prefix
  and the base64url text of the grant's UUID. Bytes are characters; the decoder of the host
  skips what is not in an alphabet and drops an incomplete last group.
\<close>

definition HEX_LETTERS :: string where
  "HEX_LETTERS = ''0123456789abcdefABCDEF''"

definition hex_digits :: "nat \<Rightarrow> string \<Rightarrow> bool" where
  "hex_digits n s \<longleftrightarrow> length s = n \<and> list_all (\<lambda>c. c \<in> set HEX_LETTERS) s"

text \<open>\<open>/^[0-9a-f]{8}-[0-9a-f]{4}-[0-9a-f]{4}-[89ab][0-9a-f]{3}-[0-9a-f]{12}$/i\<close>\<close>

definition UUID_PATTERN :: "string \<Rightarrow> bool" where
  "UUID_PATTERN s \<longleftrightarrow> length s = 36 \<and>
     hex_digits 8 (take 8 s) \<and> s ! 8 = CHR ''-'' \<and>
     hex_digits 4 (take 4 (drop 9 s)) \<and> s ! 13 = CHR ''-'' \<and>
     hex_digits 4 (take 4 (drop 14 s)) \<and> s ! 18 = CHR ''-'' \<and>
     s ! 19 \<in> set ''89abAB'' \<and> hex_digits 3 (take 3 (drop 20 s)) \<and> s ! 23 = CHR ''-'' \<and>
     hex_digits 12 (drop 24 s)"

definition BASE64URL :: string where
  "BASE64URL = ''ABCDEFGHIJKLMNOPQRSTUVWXYZabcdefghijklmnopqrstuvwxyz0123456789-_''"

definition sextet :: "nat \<Rightarrow> char" where
  "sextet n = BASE64URL ! n"

fun position :: "char \<Rightarrow> string \<Rightarrow> nat option" where
  "position c [] = None"
| "position c (x # xs) = (if x = c then Some 0 else map_option Suc (position c xs))"

text \<open>The decoder accepts the standard alphabet as well.\<close>

definition sextet_value :: "char \<Rightarrow> nat option" where
  "sextet_value c =
     (if c = CHR ''+'' then Some 62 else if c = CHR ''/'' then Some 63 else position c BASE64URL)"

fun base64url :: "string \<Rightarrow> string" where
  "base64url [] = []"
| "base64url [a] = [sextet (of_char a div 4), sextet (of_char a mod 4 * 16)]"
| "base64url [a, b] =
     [sextet (of_char a div 4), sextet (of_char a mod 4 * 16 + of_char b div 16),
      sextet (of_char b mod 16 * 4)]"
| "base64url (a # b # c # s) =
     sextet (of_char a div 4) # sextet (of_char a mod 4 * 16 + of_char b div 16) #
     sextet (of_char b mod 16 * 4 + of_char c div 64) # sextet (of_char c mod 64) # base64url s"

fun sextets_bytes :: "nat list \<Rightarrow> string" where
  "sextets_bytes (w # x # y # z # r) =
     char_of (w * 4 + x div 16) # char_of (x mod 16 * 16 + y div 4) #
     char_of (y mod 4 * 64 + z) # sextets_bytes r"
| "sextets_bytes [w, x, y] = [char_of (w * 4 + x div 16), char_of (x mod 16 * 16 + y div 4)]"
| "sextets_bytes [w, x] = [char_of (w * 4 + x div 16)]"
| "sextets_bytes _ = []"

definition base64url_bytes :: "string \<Rightarrow> string" where
  "base64url_bytes s = sextets_bytes (List.map_filter sextet_value s)"

definition CAPABILITY_HANDLE_PREFIX :: string where
  "CAPABILITY_HANDLE_PREFIX = ''ffcap_''"

definition encodeCapabilityGrantHandle :: "string \<Rightarrow> error + string" where
  "encodeCapabilityGrantHandle gid =
     (if UUID_PATTERN gid then Inr (CAPABILITY_HANDLE_PREFIX @ base64url gid)
      else Inl (PlainError ''capability grant id must be a UUID''))"

definition decodeCapabilityGrantHandle :: "string \<Rightarrow> string option" where
  "decodeCapabilityGrantHandle handle =
     (if take (length CAPABILITY_HANDLE_PREFIX) handle \<noteq> CAPABILITY_HANDLE_PREFIX then None
      else let gid = base64url_bytes (drop (length CAPABILITY_HANDLE_PREFIX) handle)
           in if UUID_PATTERN gid then Some gid else None)"

subsection \<open>Lemmas\<close>

lemma sextet_value_sextet [simp]: "n < 64 \<Longrightarrow> sextet_value (sextet n) = Some n"
proof -
  have "list_all (\<lambda>k. sextet_value (sextet k) = Some k) [0..<64]" by code_simp
  moreover assume "n < 64"
  ultimately show ?thesis by (simp add: list_all_iff)
qed

lemma byte_less [simp]: "(of_char c :: nat) < 256"
  by (rule nat_of_char_less_256)

lemma byte_div [simp]: "(of_char c :: nat) div 4 < 64" "(of_char c :: nat) div 16 < 16"
    "(of_char c :: nat) div 64 < 4"
  using byte_less [of c] by (simp_all add: div_less_iff_less_mult del: byte_less)

lemma two_parts: "x < m \<Longrightarrow> y < k \<Longrightarrow> x * k + y < m * (k :: nat)"
proof -
  assume "x < m" and "y < k"
  then have "x * k + y < Suc x * k" by simp
  also have "\<dots> \<le> m * k" using \<open>x < m\<close> by (intro mult_le_mono1) simp
  finally show ?thesis .
qed

lemma sextet_bounds [simp]:
  "(of_char a :: nat) mod 4 * 16 < 64"
  "(of_char a :: nat) mod 4 * 16 + of_char b div 16 < 64"
  "(of_char b :: nat) mod 16 * 4 < 64"
  "(of_char b :: nat) mod 16 * 4 + of_char c div 64 < 64"
  "(of_char c :: nat) mod 64 < 64"
  using two_parts [of "of_char a mod 4" 4 "of_char b div 16" 16]
    two_parts [of "of_char b mod 16" 16 "of_char c div 64" 4]
    mod_less_divisor [of 4 "of_char a :: nat"] mod_less_divisor [of 16 "of_char b :: nat"]
  by simp_all

lemma regroup3:
  fixes a b c :: nat
  assumes "b < 256" and "c < 256"
  shows "a div 4 * 4 + (a mod 4 * 16 + b div 16) div 16 = a \<and>
    (a mod 4 * 16 + b div 16) mod 16 * 16 + (b mod 16 * 4 + c div 64) div 4 = b \<and>
    (b mod 16 * 4 + c div 64) mod 4 * 64 + c mod 64 = c"
proof -
  have "b div 16 < 16" and "c div 64 < 4" using assms by (simp_all add: div_less_iff_less_mult)
  then have "(a mod 4 * 16 + b div 16) div 16 = a mod 4" "(a mod 4 * 16 + b div 16) mod 16 = b div 16"
    "(b mod 16 * 4 + c div 64) div 4 = b mod 16" "(b mod 16 * 4 + c div 64) mod 4 = c div 64"
    by simp_all
  then show ?thesis by simp
qed

lemma regroup2:
  fixes a b :: nat
  assumes "b < 256"
  shows "a div 4 * 4 + (a mod 4 * 16 + b div 16) div 16 = a \<and>
    (a mod 4 * 16 + b div 16) mod 16 * 16 + b mod 16 * 4 div 4 = b"
proof -
  have "b div 16 < 16" using assms by (simp add: div_less_iff_less_mult)
  then have "(a mod 4 * 16 + b div 16) div 16 = a mod 4" "(a mod 4 * 16 + b div 16) mod 16 = b div 16"
    by simp_all
  then show ?thesis by simp
qed

lemma regroup1: "(a :: nat) div 4 * 4 + a mod 4 * 16 div 16 = a"
  by simp

lemma map_filter_Cons: "List.map_filter f (x # xs)
    = (case f x of None \<Rightarrow> List.map_filter f xs | Some y \<Rightarrow> y # List.map_filter f xs)"
  by (simp add: List.map_filter_def split: option.splits)

lemma base64url_roundtrip: "base64url_bytes (base64url s) = s"
proof (induction s rule: base64url.induct)
  case 1
  then show ?case by (simp add: base64url_bytes_def List.map_filter_def)
next
  case (2 a)
  then show ?case
    by (simp add: base64url_bytes_def map_filter_Cons List.map_filter_def regroup1)
next
  case (3 a b)
  then show ?case
    using regroup2 [of "of_char b" "of_char a"]
    by (simp add: base64url_bytes_def map_filter_Cons List.map_filter_def)
next
  case (4 a b c s)
  then show ?case
    using regroup3 [of "of_char b" "of_char c" "of_char a"]
    by (simp add: base64url_bytes_def map_filter_Cons)
qed

lemma encode_decode: "encodeCapabilityGrantHandle g = Inr h \<Longrightarrow> decodeCapabilityGrantHandle h = Some g"
  by (auto simp: encodeCapabilityGrantHandle_def decodeCapabilityGrantHandle_def Let_def
      base64url_roundtrip split: if_splits)

subsection \<open>Properties\<close>

text \<open>A capability handle decodes to the grant it was made for: every UUID has a handle,
  no two grants share one, and nothing but a UUID ever comes out of a handle.\<close>

theorem capability_handle_roundtrip:
  assumes "UUID_PATTERN gid"
  shows "\<exists>h. encodeCapabilityGrantHandle gid = Inr h \<and> decodeCapabilityGrantHandle h = Some gid \<and>
     (\<forall>g. encodeCapabilityGrantHandle g = Inr h \<longrightarrow> g = gid)"
proof -
  have "gid = g" if "base64url g = base64url gid" for g
    using that by (metis base64url_roundtrip)
  then show ?thesis using assms
    by (auto simp: encodeCapabilityGrantHandle_def decodeCapabilityGrantHandle_def
        base64url_roundtrip)
qed

theorem capability_handle_roundtrip_witness:
  "\<exists>h. encodeCapabilityGrantHandle ''01890a5d-ac96-774b-bcce-b302099a8057'' = Inr h \<and>
     decodeCapabilityGrantHandle h = Some ''01890a5d-ac96-774b-bcce-b302099a8057''"
proof -
  have "UUID_PATTERN ''01890a5d-ac96-774b-bcce-b302099a8057''" by code_simp
  from capability_handle_roundtrip [OF this] show ?thesis by blast
qed

text \<open>Whatever text is offered as a handle, a grant identifier decoded from it has the
  shape of a UUID and the text carries the prefix.\<close>

theorem decoded_handle_is_uuid:
  "case decodeCapabilityGrantHandle h of None \<Rightarrow> True
     | Some gid \<Rightarrow> UUID_PATTERN gid \<and>
         take (length CAPABILITY_HANDLE_PREFIX) h = CAPABILITY_HANDLE_PREFIX"
  by (auto simp: decodeCapabilityGrantHandle_def Let_def split: option.splits if_splits)

end
