(* ===== verification/Store.thy ===== *)
theory Store
  imports Database
begin

section \<open>Constraints, triggers and row operations of the store\<close>

text \<open>
  The CHECK constraints the migrations put on the rows of the lifecycle tables, the draws of
  fresh identifiers, and the row operations with their triggers. Every service operation
  writes the lifecycle tables through these operations only.
\<close>

subsection \<open>Drawing identifiers\<close>

definition fresh_uuid :: "env \<Rightarrow> (db, string) tx" where
  "fresh_uuid e = (\<lambda>s. Inr (new_uuid e (drawn s), s\<lparr>drawn := Suc (drawn s)\<rparr>))"

definition fresh_token :: "env \<Rightarrow> (db, string) tx" where
  "fresh_token e = (\<lambda>s. Inr (new_token e (drawn s), s\<lparr>drawn := Suc (drawn s)\<rparr>))"

lemma fresh_uuid_app [tx_simps]:
  "fresh_uuid e s = Inr (new_uuid e (drawn s), s\<lparr>drawn := Suc (drawn s)\<rparr>)"
  by (simp add: fresh_uuid_def)

lemma fresh_token_app [tx_simps]:
  "fresh_token e s = Inr (new_token e (drawn s), s\<lparr>drawn := Suc (drawn s)\<rparr>)"
  by (simp add: fresh_token_def)

lemma fresh_uuid_Inr:
  "fresh_uuid e s = Inr (u, s') \<longleftrightarrow> u = new_uuid e (drawn s) \<and> s' = s\<lparr>drawn := Suc (drawn s)\<rparr>"
  by (auto simp: fresh_uuid_def)

lemma fresh_token_Inr:
  "fresh_token e s = Inr (u, s') \<longleftrightarrow> u = new_token e (drawn s) \<and> s' = s\<lparr>drawn := Suc (drawn s)\<rparr>"
  by (auto simp: fresh_token_def)

subsection \<open>CHECK constraints\<close>

definition leased_fields :: "string option \<Rightarrow> string option \<Rightarrow> int option \<Rightarrow> bool" where
  "leased_fields own tok until \<longleftrightarrow> own \<noteq> None \<and> tok \<noteq> None \<and> until \<noteq> None"

definition no_lease :: "string option \<Rightarrow> string option \<Rightarrow> int option \<Rightarrow> bool" where
  "no_lease own tok until \<longleftrightarrow> own = None \<and> tok = None \<and> until = None"

definition active :: "attempt_state \<Rightarrow> bool" where
  "active st \<longleftrightarrow> st = ALeased \<or> st = ARunning"

definition attempt_ok :: "attempt \<Rightarrow> bool" where
  "attempt_ok a \<longleftrightarrow>
     0 < att_number a \<and>
     active (att_status a) = leased_fields (att_owner a) (att_token a) (att_expires a) \<and>
     (active (att_status a) \<or> no_lease (att_owner a) (att_token a) (att_expires a)) \<and>
     (att_status a \<in> {ACompleted, AFailed, ACancelled, AAbandoned}) = (att_completed_at a \<noteq> None) \<and>
     (att_status a = AFailed) = (att_failure a \<noteq> None)"

definition delivery_ok :: "delivery \<Rightarrow> bool" where
  "delivery_ok d \<longleftrightarrow>
     ((del_src_command d = None) \<noteq> (del_src_event d = None)) \<and>
     (del_status d = DLeased) = leased_fields (del_owner d) (del_token d) (del_expires d) \<and>
     (del_status d = DLeased \<or> no_lease (del_owner d) (del_token d) (del_expires d)) \<and>
     (del_status d = DCompleted) = (del_completed_at d \<noteq> None) \<and>
     (del_status d = DFailed) = (del_failed_at d \<noteq> None \<and> del_failure d \<noteq> None) \<and>
     (del_status d = DDeadLettered) = (del_dead_at d \<noteq> None)"

definition execution_ok :: "execution \<Rightarrow> bool" where
  "execution_ok x \<longleftrightarrow>
     0 \<le> exe_epoch x \<and>
     (exe_status x = ECompleted) = (exe_completed_at x \<noteq> None) \<and>
     (exe_status x = EFailed) = (exe_failed_at x \<noteq> None \<and> exe_failure x \<noteq> None)"

definition command_ok :: "command \<Rightarrow> bool" where
  "command_ok c \<longleftrightarrow>
     (cmd_status c = CAccepted \<and> cmd_accepted_at c \<noteq> None \<and> cmd_rejected_at c = None
        \<and> cmd_rejection c = None)
   \<or> (cmd_status c = CRejected \<and> cmd_rejected_at c \<noteq> None \<and> cmd_rejection c \<noteq> None
        \<and> cmd_accepted_at c = None)
   \<or> cmd_status c \<notin> {CAccepted, CRejected}"

definition staging_ok :: "staging \<Rightarrow> bool" where
  "staging_ok g \<longleftrightarrow>
     (stg_status g = StgStaged \<and> stg_promoted g = None \<and> stg_abandoned g = None)
   \<or> (stg_status g = StgPromoted \<and> stg_artifact g \<noteq> None \<and> stg_promoted g \<noteq> None
        \<and> stg_abandoned g = None)
   \<or> (stg_status g = StgAbandoned \<and> stg_abandoned g \<noteq> None \<and> stg_promoted g = None)"

definition artifact_ok :: "artifact \<Rightarrow> bool" where
  "artifact_ok a \<longleftrightarrow>
     0 \<le> art_size a \<and>
     (art_state a = ArtCommitted) = (art_locator a \<noteq> None) \<and>
     (art_state a = ArtTombstoned) = (art_tombstoned a \<noteq> None)"

definition approval_ok :: "approval \<Rightarrow> bool" where
  "approval_ok a \<longleftrightarrow>
     (apr_status a \<in> {AprApproved, AprDenied, AprCancelled}) = (apr_decided_at a \<noteq> None) \<and>
     (apr_status a \<in> {AprApproved, AprDenied}) = (apr_decided_by a \<noteq> None) \<and>
     (if apr_status a \<in> {AprApproved, AprDenied}
      then apr_reason a \<noteq> None \<and> apr_client_request a \<noteq> None \<and> apr_request_digest a \<noteq> None
      else apr_reason a = None \<and> apr_client_request a = None \<and> apr_request_digest a = None)"

definition action_ok :: "external_action \<Rightarrow> bool" where
  "action_ok x \<longleftrightarrow>
     (xa_status x \<in> {XAwaitingApproval, XAuthorized, XDispatching, XAcknowledged, XReconciled})
       = (xa_policy_decision x \<noteq> None)
     \<or> xa_status x \<in> {XProposed, XDenied, XFailed, XCancelled, XIndeterminate}"

definition budget_ok :: "budget \<Rightarrow> bool" where
  "budget_ok b \<longleftrightarrow> 0 \<le> bud_limit b \<and> bud_outcome b \<noteq> Admit"

definition reservation_ok :: "reservation \<Rightarrow> bool" where
  "reservation_ok r \<longleftrightarrow>
     0 \<le> res_quantity r \<and> (case res_actual r of None \<Rightarrow> True | Some q \<Rightarrow> 0 \<le> q)"

definition ledger_ok :: "ledger_entry \<Rightarrow> bool" where
  "ledger_ok l \<longleftrightarrow> 0 \<le> led_quantity l \<and> (led_execution l \<noteq> None \<or> led_action l \<noteq> None)"

text \<open>Every stored row satisfies the constraints of its table.\<close>

definition db_checks :: "db \<Rightarrow> bool" where
  "db_checks s \<longleftrightarrow>
     list_all attempt_ok (attempts s) \<and> list_all delivery_ok (deliveries s) \<and>
     list_all execution_ok (executions s) \<and> list_all command_ok (commands s) \<and>
     list_all staging_ok (stagings s) \<and> list_all artifact_ok (artifacts s) \<and>
     list_all approval_ok (approvals s) \<and> list_all action_ok (external_actions s) \<and>
     list_all budget_ok (budgets s) \<and> list_all reservation_ok (reservations s)"

subsection \<open>Triggers\<close>

text \<open>
  \<open>sync_attempt_delivery_lease\<close>, after an update of an attempt: a changed lease of an active
  attempt is copied to the deliveries of its execution that hold the same token.
\<close>

definition sync_delivery :: "db \<Rightarrow> attempt \<Rightarrow> delivery \<Rightarrow> bool" where
  "sync_delivery s new d \<longleftrightarrow>
     list_ex (\<lambda>i. inp_execution i = att_execution new \<and> inp_delivery i = del_id d)
       (execution_inputs s) \<and>
     del_status d = DLeased \<and> att_token new \<noteq> None \<and> del_token d = att_token new"

definition sync_attempt_delivery_lease :: "attempt \<times> attempt \<Rightarrow> db \<Rightarrow> db" where
  "sync_attempt_delivery_lease on s =
     (let old = fst on; new = snd on in
      if active (att_status new) \<and> att_token new \<noteq> None \<and> att_expires new \<noteq> None \<and>
         (att_expires new \<noteq> att_expires old \<or> att_owner new \<noteq> att_owner old \<or>
          att_status new \<noteq> att_status old)
      then s\<lparr>deliveries :=
        set_rows (sync_delivery s new)
          (\<lambda>d. d\<lparr>del_status := DLeased, del_owner := att_owner new, del_token := att_token new,
                 del_expires := att_expires new\<rparr>) (deliveries s)\<rparr>
      else s)"

text \<open>
  \<open>release_terminal_execution_admission\<close>, after an update of an execution: an execution that
  becomes completed or failed releases its reservation of concurrent executions.
\<close>

definition releases :: "db \<Rightarrow> execution \<Rightarrow> reservation \<Rightarrow> bool" where
  "releases s new r \<longleftrightarrow>
     list_ex (\<lambda>b. bud_id b = res_budget r \<and> bud_type b = ''concurrent_executions'') (budgets s) \<and>
     res_execution r = Some (exe_id new) \<and> res_status r = ResReserved"

definition release_terminal_execution_admission ::
  "env \<Rightarrow> execution \<times> execution \<Rightarrow> db \<Rightarrow> db" where
  "release_terminal_execution_admission e on s =
     (let old = fst on; new = snd on in
      if exe_status new \<in> {ECompleted, EFailed} \<and> exe_status old \<noteq> exe_status new
      then s\<lparr>reservations :=
        set_rows (releases s new)
          (\<lambda>r. r\<lparr>res_status := ResReleased,
                 res_reconciled_at :=
                   (case res_reconciled_at r of None \<Rightarrow> Some (db_now e) | Some t \<Rightarrow> Some t)\<rparr>)
          (reservations s)\<rparr>
      else s)"

subsection \<open>Updates\<close>

definition update_attempts ::
  "(attempt \<Rightarrow> bool) \<Rightarrow> (attempt \<Rightarrow> attempt) \<Rightarrow> (db, nat) tx" where
  "update_attempts p f = (\<lambda>s.
     case update_rows ''execution_attempts_check'' attempt_ok p f (attempts s) of
       Inl e \<Rightarrow> Inl e
     | Inr rows \<Rightarrow>
         Inr (length (filter p (attempts s)),
              fold sync_attempt_delivery_lease
                (map (\<lambda>r. (r, f r)) (filter p (attempts s))) (s\<lparr>attempts := rows\<rparr>)))"

definition update_executions ::
  "env \<Rightarrow> (execution \<Rightarrow> bool) \<Rightarrow> (execution \<Rightarrow> execution) \<Rightarrow> (db, nat) tx" where
  "update_executions e p f = (\<lambda>s.
     case update_rows ''executions_check'' execution_ok p f (executions s) of
       Inl err \<Rightarrow> Inl err
     | Inr rows \<Rightarrow>
         Inr (length (filter p (executions s)),
              fold (release_terminal_execution_admission e)
                (map (\<lambda>r. (r, f r)) (filter p (executions s))) (s\<lparr>executions := rows\<rparr>)))"

definition update_deliveries ::
  "(delivery \<Rightarrow> bool) \<Rightarrow> (delivery \<Rightarrow> delivery) \<Rightarrow> (db, nat) tx" where
  "update_deliveries p f = (\<lambda>s.
     case update_rows ''deliveries_check'' delivery_ok p f (deliveries s) of
       Inl e \<Rightarrow> Inl e
     | Inr rows \<Rightarrow> Inr (length (filter p (deliveries s)), s\<lparr>deliveries := rows\<rparr>))"

definition update_stagings ::
  "(staging \<Rightarrow> bool) \<Rightarrow> (staging \<Rightarrow> staging) \<Rightarrow> (db, nat) tx" where
  "update_stagings p f = (\<lambda>s.
     case update_rows ''artifact_staging_status_consistency'' staging_ok p f (stagings s) of
       Inl e \<Rightarrow> Inl e
     | Inr rows \<Rightarrow> Inr (length (filter p (stagings s)), s\<lparr>stagings := rows\<rparr>))"

definition update_approvals ::
  "(approval \<Rightarrow> bool) \<Rightarrow> (approval \<Rightarrow> approval) \<Rightarrow> (db, nat) tx" where
  "update_approvals p f = (\<lambda>s.
     case update_rows ''approvals_check'' approval_ok p f (approvals s) of
       Inl e \<Rightarrow> Inl e
     | Inr rows \<Rightarrow> Inr (length (filter p (approvals s)), s\<lparr>approvals := rows\<rparr>))"

definition update_actions ::
  "(external_action \<Rightarrow> bool) \<Rightarrow> (external_action \<Rightarrow> external_action) \<Rightarrow> (db, nat) tx" where
  "update_actions p f = (\<lambda>s.
     case update_rows ''external_actions_check'' action_ok p f (external_actions s) of
       Inl e \<Rightarrow> Inl e
     | Inr rows \<Rightarrow>
         Inr (length (filter p (external_actions s)), s\<lparr>external_actions := rows\<rparr>))"

definition update_artifacts ::
  "(artifact \<Rightarrow> bool) \<Rightarrow> (artifact \<Rightarrow> artifact) \<Rightarrow> (db, nat) tx" where
  "update_artifacts p f = (\<lambda>s.
     case update_rows ''artifacts_check'' artifact_ok p f (artifacts s) of
       Inl e \<Rightarrow> Inl e
     | Inr rows \<Rightarrow> Inr (length (filter p (artifacts s)), s\<lparr>artifacts := rows\<rparr>))"

subsection \<open>Inserts\<close>

text \<open>\<open>insert into execution_attempts\<close>, plain and with \<open>on conflict do nothing\<close>: the pair
  of execution and number is unique, and so is the identifier, the primary key, which is not what
  the conflict clause names.\<close>

definition attempt_taken :: "attempt \<Rightarrow> db \<Rightarrow> bool" where
  "attempt_taken a s \<longleftrightarrow> att_id a \<in> set (map att_id (attempts s))"

definition same_attempt_key :: "attempt \<Rightarrow> attempt \<Rightarrow> bool" where
  "same_attempt_key a b \<longleftrightarrow> att_execution a = att_execution b \<and> att_number a = att_number b"

definition insert_attempt :: "attempt \<Rightarrow> (db, unit) tx" where
  "insert_attempt a = (\<lambda>s.
     if \<not> attempt_ok a then Inl (DbViolation ''execution_attempts_check'')
     else if attempt_taken a s then Inl (DbViolation ''execution_attempts_pkey'')
     else if list_ex (same_attempt_key a) (attempts s)
     then Inl (DbViolation ''execution_attempts_execution_id_attempt_number_key'')
     else Inr ((), s\<lparr>attempts := attempts s @ [a]\<rparr>))"

definition insert_attempt_or_nothing :: "attempt \<Rightarrow> (db, bool) tx" where
  "insert_attempt_or_nothing a = (\<lambda>s.
     if \<not> attempt_ok a then Inl (DbViolation ''execution_attempts_check'')
     else if list_ex (same_attempt_key a) (attempts s) then Inr (False, s)
     else if attempt_taken a s then Inl (DbViolation ''execution_attempts_pkey'')
     else Inr (True, s\<lparr>attempts := attempts s @ [a]\<rparr>))"

text \<open>\<open>insert into executions\<close>: besides the primary key, one execution per delivery and one per
  logical identity.\<close>

definition same_logical_identity :: "execution \<Rightarrow> execution \<Rightarrow> bool" where
  "same_logical_identity x y \<longleftrightarrow>
     exe_region x = exe_region y \<and> exe_component x = exe_component y \<and> exe_rev x = exe_rev y \<and>
     exe_epoch x = exe_epoch y \<and> exe_digest x = exe_digest y"

definition insert_execution :: "execution \<Rightarrow> (db, unit) tx" where
  "insert_execution x = (\<lambda>s.
     if \<not> execution_ok x then Inl (DbViolation ''executions_check'')
     else if exe_id x \<in> set (map exe_id (executions s)) then Inl (DbViolation ''executions_pkey'')
     else if list_ex (\<lambda>y. exe_delivery y = exe_delivery x) (executions s)
     then Inl (DbViolation ''executions_delivery_id_key'')
     else if list_ex (same_logical_identity x) (executions s)
     then Inl (DbViolation ''executions_logical_identity_unique'')
     else Inr ((), s\<lparr>executions := executions s @ [x]\<rparr>))"

subsection \<open>Lemmas on the row operations\<close>

lemma sync_lease_frame [frame, simp]:
  "attempts (sync_attempt_delivery_lease on s) = attempts s"
  "executions (sync_attempt_delivery_lease on s) = executions s"
  "execution_inputs (sync_attempt_delivery_lease on s) = execution_inputs s"
  "regions (sync_attempt_delivery_lease on s) = regions s"
  "commands (sync_attempt_delivery_lease on s) = commands s"
  "stagings (sync_attempt_delivery_lease on s) = stagings s"
  "artifacts (sync_attempt_delivery_lease on s) = artifacts s"
  "approvals (sync_attempt_delivery_lease on s) = approvals s"
  "external_actions (sync_attempt_delivery_lease on s) = external_actions s"
  "budgets (sync_attempt_delivery_lease on s) = budgets s"
  "reservations (sync_attempt_delivery_lease on s) = reservations s"
  "submissions (sync_attempt_delivery_lease on s) = submissions s"
  "ledger (sync_attempt_delivery_lease on s) = ledger s"
  "drawn (sync_attempt_delivery_lease on s) = drawn s"
  by (simp_all add: sync_attempt_delivery_lease_def Let_def)

lemma fold_sync_frame [frame, simp]:
  "attempts (fold sync_attempt_delivery_lease ons s) = attempts s"
  "executions (fold sync_attempt_delivery_lease ons s) = executions s"
  "execution_inputs (fold sync_attempt_delivery_lease ons s) = execution_inputs s"
  "regions (fold sync_attempt_delivery_lease ons s) = regions s"
  "commands (fold sync_attempt_delivery_lease ons s) = commands s"
  "stagings (fold sync_attempt_delivery_lease ons s) = stagings s"
  "artifacts (fold sync_attempt_delivery_lease ons s) = artifacts s"
  "approvals (fold sync_attempt_delivery_lease ons s) = approvals s"
  "external_actions (fold sync_attempt_delivery_lease ons s) = external_actions s"
  "budgets (fold sync_attempt_delivery_lease ons s) = budgets s"
  "reservations (fold sync_attempt_delivery_lease ons s) = reservations s"
  "submissions (fold sync_attempt_delivery_lease ons s) = submissions s"
  "ledger (fold sync_attempt_delivery_lease ons s) = ledger s"
  "drawn (fold sync_attempt_delivery_lease ons s) = drawn s"
  by (induction ons arbitrary: s) simp_all

lemma release_frame [frame, simp]:
  "attempts (release_terminal_execution_admission e on s) = attempts s"
  "executions (release_terminal_execution_admission e on s) = executions s"
  "execution_inputs (release_terminal_execution_admission e on s) = execution_inputs s"
  "regions (release_terminal_execution_admission e on s) = regions s"
  "commands (release_terminal_execution_admission e on s) = commands s"
  "stagings (release_terminal_execution_admission e on s) = stagings s"
  "artifacts (release_terminal_execution_admission e on s) = artifacts s"
  "approvals (release_terminal_execution_admission e on s) = approvals s"
  "external_actions (release_terminal_execution_admission e on s) = external_actions s"
  "budgets (release_terminal_execution_admission e on s) = budgets s"
  "deliveries (release_terminal_execution_admission e on s) = deliveries s"
  "submissions (release_terminal_execution_admission e on s) = submissions s"
  "ledger (release_terminal_execution_admission e on s) = ledger s"
  "drawn (release_terminal_execution_admission e on s) = drawn s"
  by (simp_all add: release_terminal_execution_admission_def Let_def)

lemma fold_release_frame [frame, simp]:
  "attempts (fold (release_terminal_execution_admission e) ons s) = attempts s"
  "executions (fold (release_terminal_execution_admission e) ons s) = executions s"
  "execution_inputs (fold (release_terminal_execution_admission e) ons s) = execution_inputs s"
  "regions (fold (release_terminal_execution_admission e) ons s) = regions s"
  "commands (fold (release_terminal_execution_admission e) ons s) = commands s"
  "stagings (fold (release_terminal_execution_admission e) ons s) = stagings s"
  "artifacts (fold (release_terminal_execution_admission e) ons s) = artifacts s"
  "approvals (fold (release_terminal_execution_admission e) ons s) = approvals s"
  "external_actions (fold (release_terminal_execution_admission e) ons s) = external_actions s"
  "budgets (fold (release_terminal_execution_admission e) ons s) = budgets s"
  "deliveries (fold (release_terminal_execution_admission e) ons s) = deliveries s"
  "submissions (fold (release_terminal_execution_admission e) ons s) = submissions s"
  "ledger (fold (release_terminal_execution_admission e) ons s) = ledger s"
  "drawn (fold (release_terminal_execution_admission e) ons s) = drawn s"
  by (induction ons arbitrary: s) simp_all

text \<open>An attempt that is no longer active passes nothing on.\<close>

lemma sync_inactive:
  "\<not> active (att_status (snd on)) \<Longrightarrow> sync_attempt_delivery_lease on s = s"
  by (simp add: sync_attempt_delivery_lease_def Let_def)

lemma fold_sync_inactive:
  "(\<And>r. \<not> active (att_status (f r))) \<Longrightarrow>
   fold sync_attempt_delivery_lease (map (\<lambda>r. (r, f r)) rows) s = s"
  by (induction rows) (simp_all add: sync_inactive)

lemma update_attempts_Inr:
  assumes "update_attempts p f s = Inr (n, s')"
  shows "\<forall>r\<in>set (attempts s). p r \<longrightarrow> attempt_ok (f r)"
    and "attempts s' = set_rows p f (attempts s)"
    and "n = length (filter p (attempts s))"
  using assms by (auto simp: update_attempts_def update_rows_Inr split: sum.splits)

lemma update_attempts_inactive:
  assumes "\<And>r. \<not> active (att_status (f r))"
  shows "update_attempts p f s =
    (if \<forall>r\<in>set (attempts s). p r \<longrightarrow> attempt_ok (f r)
     then Inr (length (filter p (attempts s)), s\<lparr>attempts := set_rows p f (attempts s)\<rparr>)
     else Inl (DbViolation ''execution_attempts_check''))"
  using assms
  by (auto simp: update_attempts_def update_rows_def set_rows_def list_all_iff fold_sync_inactive)

lemma update_deliveries_eq:
  "update_deliveries p f s =
    (if \<forall>r\<in>set (deliveries s). p r \<longrightarrow> delivery_ok (f r)
     then Inr (length (filter p (deliveries s)), s\<lparr>deliveries := set_rows p f (deliveries s)\<rparr>)
     else Inl (DbViolation ''deliveries_check''))"
  by (auto simp: update_deliveries_def update_rows_def set_rows_def list_all_iff)

lemma update_executions_eq:
  "update_executions e p f s =
    (if \<forall>r\<in>set (executions s). p r \<longrightarrow> execution_ok (f r)
     then Inr (length (filter p (executions s)),
               fold (release_terminal_execution_admission e)
                 (map (\<lambda>r. (r, f r)) (filter p (executions s)))
                 (s\<lparr>executions := set_rows p f (executions s)\<rparr>))
     else Inl (DbViolation ''executions_check''))"
  by (auto simp only: update_executions_def update_rows_def set_rows_def list_all_iff sum.case
      if_True if_False split: if_split)

lemma update_executions_Inr:
  assumes "update_executions e p f s = Inr (n, s')"
  shows "\<forall>r\<in>set (executions s). p r \<longrightarrow> execution_ok (f r)"
    and "executions s' = set_rows p f (executions s)"
    and "s' = fold (release_terminal_execution_admission e)
                (map (\<lambda>r. (r, f r)) (filter p (executions s)))
                (s\<lparr>executions := set_rows p f (executions s)\<rparr>)"
proof -
  show ok: "\<forall>r\<in>set (executions s). p r \<longrightarrow> execution_ok (f r)"
  proof (rule ccontr)
    assume "\<not> ?thesis"
    then have "update_executions e p f s = Inl (DbViolation ''executions_check'')"
      by (simp only: update_executions_eq if_False)
    with assms show False by simp
  qed
  have "update_executions e p f s = Inr (length (filter p (executions s)),
      fold (release_terminal_execution_admission e) (map (\<lambda>r. (r, f r)) (filter p (executions s)))
        (s\<lparr>executions := set_rows p f (executions s)\<rparr>))"
    by (simp only: update_executions_eq if_P [OF ok])
  with assms show s': "s' = fold (release_terminal_execution_admission e)
      (map (\<lambda>r. (r, f r)) (filter p (executions s)))
      (s\<lparr>executions := set_rows p f (executions s)\<rparr>)"
    by (metis Inr_inject snd_conv)
  show "executions s' = set_rows p f (executions s)" unfolding s' by simp
qed

text \<open>The constraints of a delivery and of an attempt, per status.\<close>

lemma delivery_ok_leased:
  "del_status d = DLeased \<Longrightarrow> delivery_ok d \<longleftrightarrow>
     ((del_src_command d = None) \<noteq> (del_src_event d = None)) \<and>
     leased_fields (del_owner d) (del_token d) (del_expires d) \<and> del_completed_at d = None \<and>
     \<not> (del_failed_at d \<noteq> None \<and> del_failure d \<noteq> None) \<and> del_dead_at d = None"
  by (simp add: delivery_ok_def)

lemma attempt_ok_active:
  "active (att_status a) \<Longrightarrow> attempt_ok a \<longleftrightarrow>
     0 < att_number a \<and> leased_fields (att_owner a) (att_token a) (att_expires a) \<and>
     att_completed_at a = None \<and> att_failure a = None"
  by (auto simp: attempt_ok_def active_def)

lemma attempt_ok_pending:
  "att_status a = APending \<Longrightarrow> attempt_ok a \<longleftrightarrow>
     0 < att_number a \<and> no_lease (att_owner a) (att_token a) (att_expires a) \<and>
     att_completed_at a = None \<and> att_failure a = None"
  by (auto simp: attempt_ok_def active_def leased_fields_def no_lease_def)

lemma sync_lease_delivery_ok:
  assumes "list_all delivery_ok (deliveries s)" and "attempt_ok (snd on)"
  shows "list_all delivery_ok (deliveries (sync_attempt_delivery_lease on s))"
proof -
  have "delivery_ok (d\<lparr>del_status := DLeased, del_owner := att_owner a, del_token := att_token a,
      del_expires := att_expires a\<rparr>)"
    if "delivery_ok d" and "sync_delivery s a d" and "active (att_status a)" and "attempt_ok a"
    for d a
    using that by (auto simp: delivery_ok_leased attempt_ok_active sync_delivery_def)
  with assms show ?thesis
    by (auto simp: sync_attempt_delivery_lease_def Let_def list_all_iff set_set_rows)
qed

lemma fold_sync_delivery_ok:
  "list_all delivery_ok (deliveries s) \<Longrightarrow> (\<And>on. on \<in> set ons \<Longrightarrow> attempt_ok (snd on)) \<Longrightarrow>
   list_all delivery_ok (deliveries (fold sync_attempt_delivery_lease ons s))"
  by (induction ons arbitrary: s) (simp_all add: sync_lease_delivery_ok)

lemma release_reservation_ok:
  "list_all reservation_ok (reservations s) \<Longrightarrow>
   list_all reservation_ok (reservations (release_terminal_execution_admission e on s))"
  by (auto simp: release_terminal_execution_admission_def Let_def list_all_iff set_set_rows
      reservation_ok_def)

lemma fold_release_reservation_ok:
  "list_all reservation_ok (reservations s) \<Longrightarrow>
   list_all reservation_ok (reservations (fold (release_terminal_execution_admission e) ons s))"
  by (induction ons arbitrary: s) (simp_all add: release_reservation_ok)

subsection \<open>The constraints survive every row operation\<close>

lemma checks_update_attempts: "keeps db_checks (update_attempts p f)"
proof (rule keepsI)
  fix s n s'
  assume checks: "db_checks s" and upd: "update_attempts p f s = Inr (n, s')"
  note ok = update_attempts_Inr(1)[OF upd]
  have s': "s' = fold sync_attempt_delivery_lease (map (\<lambda>r. (r, f r)) (filter p (attempts s)))
      (s\<lparr>attempts := set_rows p f (attempts s)\<rparr>)"
    using upd by (auto simp: update_attempts_def update_rows_Inr split: sum.splits)
  have "list_all attempt_ok (set_rows p f (attempts s))"
    using checks ok by (auto simp: db_checks_def intro: list_all_set_rows)
  moreover have "list_all delivery_ok (deliveries s')"
    unfolding s' using checks ok by (intro fold_sync_delivery_ok) (auto simp: db_checks_def)
  ultimately show "db_checks s'" using checks by (simp add: db_checks_def s')
qed

lemma checks_update_executions: "keeps db_checks (update_executions e p f)"
proof (rule keepsI)
  fix s n s'
  assume checks: "db_checks s" and upd: "update_executions e p f s = Inr (n, s')"
  note ok = update_executions_Inr(1)[OF upd] and s' = update_executions_Inr(3)[OF upd]
  have "list_all execution_ok (set_rows p f (executions s))"
    using checks ok by (auto simp: db_checks_def intro: list_all_set_rows)
  moreover have "list_all reservation_ok (reservations s')"
    unfolding s' using checks by (intro fold_release_reservation_ok) (simp add: db_checks_def)
  ultimately show "db_checks s'" using checks by (simp add: db_checks_def s')
qed

lemma checks_update_deliveries: "keeps db_checks (update_deliveries p f)"
  by (rule keepsI)
    (auto simp: update_deliveries_eq db_checks_def intro: list_all_set_rows split: if_splits)

lemma checks_update_stagings: "keeps db_checks (update_stagings p f)"
  by (rule keepsI)
    (auto simp: update_stagings_def update_rows_Inr db_checks_def
      intro: list_all_set_rows split: sum.splits)

lemma checks_update_approvals: "keeps db_checks (update_approvals p f)"
  by (rule keepsI)
    (auto simp: update_approvals_def update_rows_Inr db_checks_def
      intro: list_all_set_rows split: sum.splits)

lemma checks_update_actions: "keeps db_checks (update_actions p f)"
  by (rule keepsI)
    (auto simp: update_actions_def update_rows_Inr db_checks_def
      intro: list_all_set_rows split: sum.splits)

lemma checks_update_artifacts: "keeps db_checks (update_artifacts p f)"
  by (rule keepsI)
    (auto simp: update_artifacts_def update_rows_Inr db_checks_def
      intro: list_all_set_rows split: sum.splits)

lemma checks_insert_attempt: "keeps db_checks (insert_attempt a)"
  by (rule keepsI) (auto simp: insert_attempt_def db_checks_def split: if_splits)

lemma checks_insert_attempt_or_nothing: "keeps db_checks (insert_attempt_or_nothing a)"
  by (rule keepsI) (auto simp: insert_attempt_or_nothing_def db_checks_def split: if_splits)

lemma checks_insert_execution: "keeps db_checks (insert_execution x)"
  by (rule keepsI) (auto simp: insert_execution_def db_checks_def split: if_splits)

lemma checks_fresh_uuid: "keeps db_checks (fresh_uuid e)"
  by (rule keepsI) (auto simp: fresh_uuid_def db_checks_def)

lemma checks_fresh_token: "keeps db_checks (fresh_token e)"
  by (rule keepsI) (auto simp: fresh_token_def db_checks_def)

lemmas checks_intros =
  checks_update_attempts checks_update_executions checks_update_deliveries checks_update_stagings
  checks_update_approvals checks_update_actions checks_update_artifacts checks_insert_attempt
  checks_insert_attempt_or_nothing checks_insert_execution checks_fresh_uuid checks_fresh_token

lemma db_checks_empty: "db_checks empty_db"
  by (simp add: db_checks_def empty_db_def)

end
