(* ===== verification/Artifacts.thy ===== *)
theory Artifacts
  imports Blobs Capability Store
begin

section \<open>Artifacts: repository, validation, publication, reconciliation\<close>

text \<open>
  \<open>packages/db/src/repositories/artifact-repository.ts\<close> and \<open>runtime-core/src/artifacts\<close>.
  These services work on the database and on the blob store, which does not roll back, and
  the validation service keeps two caches for the life of the process; \<open>world\<close> is the three
  together. A service without a configured blob store has \<open>w_blobs = None\<close>.
\<close>

record caches =
  receipts :: "(string \<times> string) list"
  validators :: "(string \<times> json) list"

record world =
  w_db :: db
  w_blobs :: "blobs option"
  w_caches :: caches

definition in_db :: "(db, 'a) tx \<Rightarrow> (world, 'a) io" where
  "in_db m = (\<lambda>w. case m (w_db w) of
     Inl e \<Rightarrow> (Inl e, w) | Inr (x, s) \<Rightarrow> (Inr x, w\<lparr>w_db := s\<rparr>))"

definition in_blobs :: "(blobs, 'a) tx \<Rightarrow> (world, 'a) io" where
  "in_blobs m = (\<lambda>w. case w_blobs w of
     None \<Rightarrow> (Inl (PlainError ''TypeError''), w)
   | Some b \<Rightarrow> (case m b of
       Inl e \<Rightarrow> (Inl e, w) | Inr (x, b') \<Rightarrow> (Inr x, w\<lparr>w_blobs := Some b'\<rparr>)))"

definition ask_blobs :: "(blobs \<Rightarrow> error + 'a) \<Rightarrow> (world, 'a) io" where
  "ask_blobs f = (\<lambda>w. case w_blobs w of
     None \<Rightarrow> (Inl (PlainError ''TypeError''), w) | Some b \<Rightarrow> (f b, w))"

text \<open>A database transaction around an \<open>io\<close>: only the database rolls back.\<close>

definition transaction_io :: "(world, 'a) io \<Rightarrow> (world, 'a) io" where
  "transaction_io m = (\<lambda>w. case m w of
     (Inl e, w') \<Rightarrow> (Inl e, w'\<lparr>w_db := w_db w\<rparr>) | (Inr x, w') \<Rightarrow> (Inr x, w'))"

definition catch_io :: "(world, 'a) io \<Rightarrow> (error \<Rightarrow> (world, 'a) io) \<Rightarrow> (world, 'a) io" where
  "catch_io m f = (\<lambda>w. case m w of (Inl e, w') \<Rightarrow> f e w' | (Inr x, w') \<Rightarrow> (Inr x, w'))"

subsection \<open>Repository\<close>

definition readArtifactSchemaById :: "string \<Rightarrow> db \<Rightarrow> artifact_schema option" where
  "readArtifactSchemaById i s = List.find (\<lambda>c. sch_id c = i) (artifact_schemas s)"

definition readStagingById :: "string \<Rightarrow> db \<Rightarrow> staging option" where
  "readStagingById i s = List.find (\<lambda>g. stg_id g = i) (stagings s)"

definition readStagingRowsByLocator :: "string \<Rightarrow> db \<Rightarrow> staging list" where
  "readStagingRowsByLocator l s = filter (\<lambda>g. stg_locator g = l) (stagings s)"

definition readStagingRowsByArtifactId :: "string \<Rightarrow> db \<Rightarrow> staging list" where
  "readStagingRowsByArtifactId i s =
     sort_key stg_created (filter (\<lambda>g. stg_artifact g = Some i) (stagings s))"

definition lockArtifactByDigest :: "string \<Rightarrow> db \<Rightarrow> artifact option" where
  "lockArtifactByDigest d s = List.find (\<lambda>a. art_digest a = d) (artifacts s)"

definition lockArtifactById :: "string \<Rightarrow> db \<Rightarrow> artifact option" where
  "lockArtifactById i s = List.find (\<lambda>a. art_id a = i) (artifacts s)"

record new_artifact =
  na_digest :: string
  na_size :: int
  na_schema :: string
  na_media :: string
  na_locator :: string
  na_provenance :: json

definition artifact_row :: "string \<Rightarrow> new_artifact \<Rightarrow> artifact" where
  "artifact_row i n =
     \<lparr>art_id = i, art_digest = na_digest n, art_size = na_size n, art_schema = na_schema n,
      art_state = ArtCommitted, art_media = na_media n, art_locator = Some (na_locator n),
      art_provenance = na_provenance n, art_tombstoned = None\<rparr>"

text \<open>\<open>insert into artifacts .. on conflict (digest_algorithm, digest) do nothing\<close>.\<close>

definition insert_artifact_or_nothing :: "artifact \<Rightarrow> (db, bool) tx" where
  "insert_artifact_or_nothing a = (\<lambda>s.
     if \<not> artifact_ok a then Inl (DbViolation ''artifacts_check'')
     else if list_ex (\<lambda>b. art_digest b = art_digest a) (artifacts s) then Inr (False, s)
     else Inr (True, s\<lparr>artifacts := artifacts s @ [a]\<rparr>))"

definition createCommittedArtifactIdempotently ::
  "env \<Rightarrow> new_artifact \<Rightarrow> (db, artifact \<times> bool) tx" where
  "createCommittedArtifactIdempotently e n =
     bind_tx (fresh_uuid e) (\<lambda>i.
     bind_tx (insert_artifact_or_nothing (artifact_row i n)) (\<lambda>inserted.
     if inserted then ret (artifact_row i n, True)
     else bind_tx (get (lockArtifactByDigest (na_digest n))) (\<lambda>old.
       bind_tx (or_throw old
           (PlainError ''artifact insert conflicted but no artifact was found'')) (\<lambda>a.
       ret (a, False)))))"

definition linkStagingRowToArtifact :: "string \<Rightarrow> string \<Rightarrow> (db, nat) tx" where
  "linkStagingRowToArtifact row art =
     update_stagings (\<lambda>g. stg_id g = row) (\<lambda>g. g\<lparr>stg_artifact := Some art\<rparr>)"

definition markStagingPromoted :: "string \<Rightarrow> string \<Rightarrow> int \<Rightarrow> (db, nat) tx" where
  "markStagingPromoted row art at' =
     update_stagings (\<lambda>g. stg_id g = row)
       (\<lambda>g. g\<lparr>stg_status := StgPromoted, stg_artifact := Some art, stg_promoted := Some at',
              stg_abandoned := None\<rparr>)"

definition markStagingAbandoned :: "string \<Rightarrow> int \<Rightarrow> (db, nat) tx" where
  "markStagingAbandoned row at' =
     update_stagings (\<lambda>g. stg_id g = row)
       (\<lambda>g. g\<lparr>stg_status := StgAbandoned, stg_abandoned := Some at', stg_promoted := None\<rparr>)"

definition listReconciliationCandidates ::
  "staging_state option \<Rightarrow> int option \<Rightarrow> nat \<Rightarrow> db \<Rightarrow> staging list" where
  "listReconciliationCandidates st before n s =
     take n (sort_key stg_created
       (filter (\<lambda>g. (case st of None \<Rightarrow> True | Some v \<Rightarrow> stg_status g = v) \<and>
                    (case before of None \<Rightarrow> True | Some t \<Rightarrow> stg_created g < t)) (stagings s)))"

definition tombstoneArtifact :: "string \<Rightarrow> int \<Rightarrow> (db, nat) tx" where
  "tombstoneArtifact i at' =
     update_artifacts (\<lambda>a. art_id a = i \<and> art_state a \<noteq> ArtTombstoned)
       (\<lambda>a. a\<lparr>art_state := ArtTombstoned, art_tombstoned := Some at', art_locator := None\<rparr>)"

text \<open>Artifacts are stored in the order of their creation.\<close>

definition findCommittedArtifactsNeedingBlobCheck :: "nat \<Rightarrow> db \<Rightarrow> artifact list" where
  "findCommittedArtifactsNeedingBlobCheck n s =
     take n (filter (\<lambda>a. art_state a = ArtCommitted) (artifacts s))"

subsection \<open>Validation\<close>

definition VALIDATION_RECEIPT_LIMIT :: nat where
  "VALIDATION_RECEIPT_LIMIT = 1024"

definition COMPILED_VALIDATOR_LIMIT :: nat where
  "COMPILED_VALIDATOR_LIMIT = 1024"

definition to_lower :: "char \<Rightarrow> char" where
  "to_lower c = (if 65 \<le> (of_char c :: nat) \<and> of_char c \<le> (90 :: nat)
                 then char_of (of_char c + 32 :: nat) else c)"

definition ends_with :: "string \<Rightarrow> string \<Rightarrow> bool" where
  "ends_with t s \<longleftrightarrow> length t \<le> length s \<and> drop (length s - length t) s = t"

definition isJsonMediaType :: "string \<Rightarrow> bool" where
  "isJsonMediaType mt \<longleftrightarrow>
     (let base = map to_lower (trim (takeWhile (\<lambda>c. c \<noteq> CHR '';'') mt))
      in base = ''application/json'' \<or> ends_with ''+json'' base)"

text \<open>A \<open>Map\<close> used as a least-recently-used cache: the newest entry is last.\<close>

definition lru_put :: "nat \<Rightarrow> string \<Rightarrow> 'v \<Rightarrow> (string \<times> 'v) list \<Rightarrow> (string \<times> 'v) list" where
  "lru_put n k v m =
     (let m' = filter (\<lambda>kv. fst kv \<noteq> k) m @ [(k, v)] in drop (length m' - n) m')"

definition rememberReceipt :: "string \<Rightarrow> string \<Rightarrow> (world, unit) io" where
  "rememberReceipt row fp = (\<lambda>w. (Inr (), w\<lparr>w_caches := (w_caches w)\<lparr>receipts :=
     lru_put VALIDATION_RECEIPT_LIMIT row fp (receipts (w_caches w))\<rparr>\<rparr>))"

text \<open>The compiled validator of a schema is represented by the schema it was compiled from.\<close>

definition compiledValidator :: "env \<Rightarrow> string \<Rightarrow> json \<Rightarrow> (world, json) io" where
  "compiledValidator h dg schema = (\<lambda>w.
     let m = validators (w_caches w) in
     case map_of m dg of
       Some v \<Rightarrow> (Inr v, w\<lparr>w_caches := (w_caches w)\<lparr>validators :=
                   filter (\<lambda>kv. fst kv \<noteq> dg) m @ [(dg, v)]\<rparr>\<rparr>)
     | None \<Rightarrow>
         if schema_compiles h schema
         then (Inr schema, w\<lparr>w_caches := (w_caches w)\<lparr>validators :=
                 lru_put COMPILED_VALIDATOR_LIMIT dg schema m\<rparr>\<rparr>)
         else (Inl (PlainError ''schema compilation failed''), w))"

definition fingerprint :: "staging \<Rightarrow> artifact_schema \<Rightarrow> string" where
  "fingerprint g c =
     join '':'' [stg_id g, stg_ref g, stg_digest g, decimal_text (nat (stg_size g)), stg_schema g,
       stg_media g, sch_digest c]"

record validated =
  v_row :: staging
  v_schema :: artifact_schema
  v_instance :: "json option"
  v_cached :: bool

definition current_schema :: "string \<Rightarrow> db \<Rightarrow> artifact_schema option" where
  "current_schema i s =
     (case readArtifactSchemaById i s of
        None \<Rightarrow> None | Some c \<Rightarrow> if sch_retired c = None then Some c else None)"

definition validate_bytes ::
  "env \<Rightarrow> int \<Rightarrow> staging \<Rightarrow> artifact_schema \<Rightarrow> string \<Rightarrow> (world, json) io" where
  "validate_bytes h maxJsonBytes row schema bytes =
     bind_io (guard_io (int (length bytes) \<le> maxJsonBytes)
        (ArtifactDomainError ''artifact_too_large'')) (\<lambda>_.
     bind_io (guard_io (sha256_hex h bytes = stg_digest row)
        (ArtifactDomainError ''digest_mismatch'')) (\<lambda>_.
     bind_io (guard_io (int (length bytes) = stg_size row)
        (ArtifactDomainError ''size_mismatch'')) (\<lambda>_.
     bind_io (or_throw_io (json_parse h bytes) (ArtifactDomainError ''invalid_json'')) (\<lambda>inst.
     bind_io (compiledValidator h (sch_digest schema) (sch_schema schema)) (\<lambda>v.
     bind_io (guard_io (schema_valid h v inst)
        (ArtifactDomainError ''schema_validation_failed'')) (\<lambda>_.
     ret_io inst))))))"

definition validateStagedArtifact :: "env \<Rightarrow> int \<Rightarrow> string \<Rightarrow> (world, validated) io" where
  "validateStagedArtifact h maxJsonBytes rowId =
     bind_io (get_io (\<lambda>w. readStagingById rowId (w_db w))) (\<lambda>found.
     bind_io (or_throw_io found (ArtifactDomainError ''staging_not_found'')) (\<lambda>row.
     bind_io (guard_io (stg_status row = StgStaged)
        (ArtifactDomainError ''staging_not_active'')) (\<lambda>_.
     bind_io (get_io (\<lambda>w. current_schema (stg_schema row) (w_db w))) (\<lambda>sch.
     bind_io (or_throw_io sch (ArtifactDomainError ''schema_not_found'')) (\<lambda>schema.
     bind_io (guard_io (isJsonMediaType (stg_media row))
        (ArtifactDomainError ''unsupported_media_type'')) (\<lambda>_.
     bind_io (get_io (\<lambda>w. map_of (receipts (w_caches w)) (stg_id row))) (\<lambda>seen.
     if seen = Some (fingerprint row schema)
     then ret_io \<lparr>v_row = row, v_schema = schema, v_instance = None, v_cached = True\<rparr>
     else
       bind_io (ask_blobs (readStaged h (stg_ref row))) (\<lambda>bytes.
       bind_io (validate_bytes h maxJsonBytes row schema bytes) (\<lambda>inst.
       bind_io (rememberReceipt (stg_id row) (fingerprint row schema)) (\<lambda>_.
       ret_io \<lparr>v_row = row, v_schema = schema, v_instance = Some inst, v_cached = False\<rparr>))))))))))"

subsection \<open>Publication\<close>

datatype publication =
    Created
  | Existing
  | MetadataCommittedBlobPromoted
  | MetadataCommittedPromotionPending

definition assertCompatible :: "artifact \<Rightarrow> staging \<Rightarrow> (db, unit) tx" where
  "assertCompatible a g =
     bind_tx (guard (art_state a \<noteq> ArtTombstoned) (ArtifactDomainError ''artifact_tombstoned'')) (\<lambda>_.
     guard (art_size a = stg_size g \<and> art_schema a = stg_schema g \<and> art_media a = stg_media g)
       (ArtifactDomainError ''artifact_conflict''))"

definition publish_body :: "env \<Rightarrow> string \<Rightarrow> json \<Rightarrow> (db, artifact \<times> publication) tx" where
  "publish_body e rowId provenance =
     bind_tx (get (readStagingById rowId)) (\<lambda>found.
     bind_tx (or_throw found (ArtifactDomainError ''staging_not_found'')) (\<lambda>row.
     bind_tx (guard (stg_status row = StgStaged) (ArtifactDomainError ''staging_not_active'')) (\<lambda>_.
     bind_tx (get (lockArtifactByDigest (stg_digest row))) (\<lambda>existing.
     case existing of
       Some a \<Rightarrow>
         bind_tx (assertCompatible a row) (\<lambda>_.
         bind_tx (linkStagingRowToArtifact (stg_id row) (art_id a)) (\<lambda>_. ret (a, Existing)))
     | None \<Rightarrow>
         bind_tx (createCommittedArtifactIdempotently e
           \<lparr>na_digest = stg_digest row, na_size = stg_size row, na_schema = stg_schema row,
            na_media = stg_media row, na_locator = ''sha256:'' @ stg_digest row,
            na_provenance = provenance\<rparr>) (\<lambda>(a, created).
         bind_tx (assertCompatible a row) (\<lambda>_.
         bind_tx (linkStagingRowToArtifact (stg_id row) (art_id a)) (\<lambda>_.
         ret (a, if created then Created else Existing))))))))"

definition publish :: "env \<Rightarrow> int \<Rightarrow> string \<Rightarrow> json \<Rightarrow> (world, artifact \<times> publication) io" where
  "publish e maxJsonBytes rowId provenance =
     bind_io (validateStagedArtifact e maxJsonBytes rowId) (\<lambda>_.
     bind_io (in_db (publish_body e rowId provenance)) (\<lambda>(a, d).
     catch_io
       (bind_io (in_blobs (promote e rowId (art_digest a) (art_size a))) (\<lambda>_.
        bind_io (in_db (markStagingPromoted rowId (art_id a) (clock e))) (\<lambda>_.
        ret_io (a, if d = Created then MetadataCommittedBlobPromoted else d))))
       (\<lambda>_. ret_io (a, MetadataCommittedPromotionPending))))"

subsection \<open>Tombstones\<close>

definition tombstone :: "env \<Rightarrow> string \<Rightarrow> (db, artifact option) io" where
  "tombstone e i = transaction
     (bind_tx (get (lockArtifactById i)) (\<lambda>row.
      case row of
        None \<Rightarrow> ret None
      | Some a \<Rightarrow>
          if art_state a = ArtTombstoned then ret (Some a)
          else bind_tx (tombstoneArtifact i (clock e)) (\<lambda>_. get (lockArtifactById i))))"

subsection \<open>Reconciliation\<close>

record reconciliation_report =
  rep_dry_run :: bool
  rep_scanned :: nat
  rep_promoted :: nat
  rep_would_promote :: nat
  rep_consistent :: nat
  rep_abandoned :: nat
  rep_would_abandon :: nat
  rep_orphans :: nat
  rep_removed :: nat
  rep_would_remove :: nat
  rep_unresolved :: "(string \<times> string) list"
  rep_next :: "string option"

record reconcile_input =
  ri_limit :: js_number
  ri_cursor :: "string option"
  ri_remove_orphans :: bool
  ri_grace_seconds :: "int option"
  ri_dry_run :: bool

definition encodeArtifactReconciliationCursor :: "env \<Rightarrow> json \<Rightarrow> string" where
  "encodeArtifactReconciliationCursor e v =
     base64url (stringify e (JObj [(''v'', JNum 1), (''value'', v)]))"

definition decodeArtifactReconciliationCursor :: "env \<Rightarrow> string \<Rightarrow> error + string option" where
  "decodeArtifactReconciliationCursor e c =
     (let bad = Inl (ArtifactDomainError ''reconciliation_unresolved'')
      in case json_parse e (base64url_bytes c) of
           None \<Rightarrow> bad
         | Some j \<Rightarrow>
             if json_field j ''v'' \<noteq> Some (JNum 1) then bad
             else case json_field j ''value'' of
                 Some (JObj kvs) \<Rightarrow>
                   (case map_of kvs ''blob'' of
                      None \<Rightarrow> Inr None | Some (JStr b) \<Rightarrow> Inr (Some b) | Some _ \<Rightarrow> bad)
               | Some (JArr _) \<Rightarrow> Inr None
               | _ \<Rightarrow> bad)"

text \<open>\<open>promotionDiagnostic\<close>: which failures of a promotion are reported; the others are thrown.\<close>

definition promotionDiagnostic :: "error \<Rightarrow> string \<Rightarrow> (string \<times> string) option" where
  "promotionDiagnostic err artifactId =
     (case err of
        BlobStoreError code \<Rightarrow>
          if code = ''not_found'' then Some (''missing_staged_bytes'', artifactId)
          else if code \<in> {''digest_mismatch'', ''size_mismatch'', ''staging_conflict''}
          then Some (''staged_bytes_mismatch'', artifactId)
          else None
      | _ \<Rightarrow> None)"

definition promote_or_report :: "env \<Rightarrow> artifact \<Rightarrow> staging \<Rightarrow> (world, (string \<times> string) option) io" where
  "promote_or_report e a g =
     catch_io
       (bind_io (in_blobs (promote e (stg_ref g) (art_digest a) (art_size a))) (\<lambda>_. ret_io None))
       (\<lambda>err. case promotionDiagnostic err (art_id a) of
          None \<Rightarrow> throw_io err | Some d \<Rightarrow> ret_io (Some d))"

definition reconcile_staged ::
  "env \<Rightarrow> bool \<Rightarrow> artifact \<Rightarrow> reconciliation_report \<Rightarrow> staging \<Rightarrow>
   (world, reconciliation_report) io" where
  "reconcile_staged e dryRun a rep g =
     (if dryRun then ret_io (rep\<lparr>rep_would_promote := Suc (rep_would_promote rep)\<rparr>)
      else bind_io (promote_or_report e a g) (\<lambda>diag.
        case diag of
          Some d \<Rightarrow> ret_io (rep\<lparr>rep_unresolved := rep_unresolved rep @ [d]\<rparr>)
        | None \<Rightarrow>
            bind_io (in_db (markStagingPromoted (stg_id g) (art_id a) (clock e))) (\<lambda>_.
            ret_io (rep\<lparr>rep_promoted := Suc (rep_promoted rep)\<rparr>))))"

definition reconcile_artifact ::
  "env \<Rightarrow> bool \<Rightarrow> artifact \<Rightarrow> reconciliation_report \<Rightarrow> (world, reconciliation_report) io" where
  "reconcile_artifact e dryRun a rep0 =
     (let rep = rep0\<lparr>rep_scanned := Suc (rep_scanned rep0)\<rparr> in
     bind_io (ask_blobs (committedExists e (art_digest a))) (\<lambda>there.
     if there then ret_io (rep\<lparr>rep_consistent := Suc (rep_consistent rep)\<rparr>)
     else bind_io (get_io (\<lambda>w. List.find (\<lambda>g. stg_status g = StgStaged)
                     (readStagingRowsByArtifactId (art_id a) (w_db w)))) (\<lambda>found.
       case found of
         None \<Rightarrow> ret_io (rep\<lparr>rep_unresolved :=
                   rep_unresolved rep @ [(''missing_committed_bytes'', art_id a)]\<rparr>)
       | Some g \<Rightarrow> reconcile_staged e dryRun a rep g)))"

definition reconcile_staging ::
  "env \<Rightarrow> bool \<Rightarrow> staging \<Rightarrow> reconciliation_report \<Rightarrow> (world, reconciliation_report) io" where
  "reconcile_staging e dryRun g rep =
     (if stg_artifact g \<noteq> None then ret_io rep
      else bind_io (ask_blobs (stagedExists e (stg_ref g))) (\<lambda>there.
        if there then ret_io rep
        else if dryRun then ret_io (rep\<lparr>rep_would_abandon := Suc (rep_would_abandon rep)\<rparr>)
        else bind_io (in_db (markStagingAbandoned (stg_id g) (clock e))) (\<lambda>_.
          ret_io (rep\<lparr>rep_abandoned := Suc (rep_abandoned rep)\<rparr>))))"

definition reconcile_object ::
  "bool \<Rightarrow> bool \<Rightarrow> int \<Rightarrow> staged_object \<Rightarrow> reconciliation_report \<Rightarrow>
   (world, reconciliation_report) io" where
  "reconcile_object dryRun removeOrphans cutoff obj rep0 =
     bind_io (get_io (\<lambda>w. readStagingRowsByLocator (srec_locator (sobj_receipt obj)) (w_db w))) (\<lambda>rows.
     if rows \<noteq> [] \<or> cutoff \<le> sobj_modified obj then ret_io rep0
     else let rep = rep0\<lparr>rep_orphans := Suc (rep_orphans rep0)\<rparr> in
       if \<not> removeOrphans then ret_io rep
       else if dryRun then ret_io (rep\<lparr>rep_would_remove := Suc (rep_would_remove rep)\<rparr>)
       else bind_io (in_blobs (removeStaged (srec_id (sobj_receipt obj)))) (\<lambda>_.
         ret_io (rep\<lparr>rep_removed := Suc (rep_removed rep)\<rparr>)))"

definition empty_report :: "bool \<Rightarrow> reconciliation_report" where
  "empty_report dryRun =
     \<lparr>rep_dry_run = dryRun, rep_scanned = 0, rep_promoted = 0, rep_would_promote = 0,
      rep_consistent = 0, rep_abandoned = 0, rep_would_abandon = 0, rep_orphans = 0,
      rep_removed = 0, rep_would_remove = 0, rep_unresolved = [], rep_next = None\<rparr>"

definition positive_integer :: "js_number \<Rightarrow> nat option" where
  "positive_integer n =
     (case n of
        NotFinite \<Rightarrow> None
      | Finite q \<Rightarrow> if q = of_int \<lfloor>q\<rfloor> \<and> 1 \<le> q then Some (nat \<lfloor>q\<rfloor>) else None)"

definition blob_cursor :: "env \<Rightarrow> string option \<Rightarrow> (world, string option) io" where
  "blob_cursor e c =
     (case c of
        None \<Rightarrow> ret_io None
      | Some t \<Rightarrow>
          if t = [] then ret_io None
          else case decodeArtifactReconciliationCursor e t of
            Inl err \<Rightarrow> throw_io err | Inr b \<Rightarrow> ret_io b)"

definition runBatch :: "env \<Rightarrow> reconcile_input \<Rightarrow> (world, reconciliation_report) io" where
  "runBatch e i =
     bind_io (or_throw_io (positive_integer (ri_limit i))
        (ArtifactDomainError ''reconciliation_unresolved'')) (\<lambda>n.
     let grace = (case ri_grace_seconds i of None \<Rightarrow> 3600 | Some g \<Rightarrow> g) in
     bind_io (guard_io (0 \<le> grace) (ArtifactDomainError ''reconciliation_unresolved'')) (\<lambda>_.
     bind_io (blob_cursor e (ri_cursor i)) (\<lambda>after.
     let cutoff = clock e - grace * 1000 in
     bind_io (get_io (\<lambda>w. findCommittedArtifactsNeedingBlobCheck n (w_db w))) (\<lambda>arts.
     bind_io (fold_io (reconcile_artifact e (ri_dry_run i)) arts (empty_report (ri_dry_run i))) (\<lambda>rep1.
     bind_io (get_io (\<lambda>w. listReconciliationCandidates (Some StgStaged) (Some cutoff) n (w_db w)))
       (\<lambda>rows.
     bind_io (fold_io (reconcile_staging e (ri_dry_run i)) rows rep1) (\<lambda>rep2.
     bind_io (ask_blobs (listStaged e (ri_limit i) after)) (\<lambda>page.
     bind_io (fold_io (reconcile_object (ri_dry_run i) (ri_remove_orphans i) cutoff)
                (page_objects page) rep2) (\<lambda>rep3.
     ret_io (case page_cursor page of
         None \<Rightarrow> rep3
       | Some c \<Rightarrow> rep3\<lparr>rep_next :=
           Some (encodeArtifactReconciliationCursor e (JObj [(''blob'', JStr c)]))\<rparr>))))))))))"

subsection \<open>Prevalidation of a proposed result\<close>

definition hasExistingSubmission :: "string option \<Rightarrow> db \<Rightarrow> bool" where
  "hasExistingSubmission attemptId s =
     (case attemptId of
        None \<Rightarrow> False | Some a \<Rightarrow> list_ex (\<lambda>x. sub_attempt x = a) (submissions s))"

definition staged_references :: "submitted_result \<Rightarrow> string list" where
  "staged_references r =
     remdups (List.map_filter st_staging_id
       (sr_artifacts r @ (case sr_state r of None \<Rightarrow> [] | Some g \<Rightarrow> [g]) @
        map ap_request (sr_actions r)))"

definition prevalidate :: "env \<Rightarrow> int \<Rightarrow> submitted_result \<Rightarrow> (world, unit) io" where
  "prevalidate e maxJsonBytes r =
     (if sr_status r \<noteq> RsCompleted then ret_io ()
      else let refs = staged_references r in
        if refs = [] then ret_io ()
        else bind_io (get_io (\<lambda>w. filter (\<lambda>g. stg_attempt g = sr_attempt r \<and> stg_ref g \<in> set refs)
                        (stagings (w_db w)))) (\<lambda>rows.
          bind_io (guard_io (length rows = length refs)
             (ArtifactDomainError ''staging_not_found'')) (\<lambda>_.
          for_io rows (\<lambda>g. bind_io (validateStagedArtifact e maxJsonBytes (stg_id g)) (\<lambda>_.
            ret_io ())))))"

subsection \<open>Lemmas on the combinators\<close>

lemma in_db_Inr: "in_db m w = (Inr x, w') \<longleftrightarrow> (\<exists>s. m (w_db w) = Inr (x, s) \<and> w' = w\<lparr>w_db := s\<rparr>)"
  by (auto simp: in_db_def split: sum.splits)

lemma ask_blobs_Inr:
  "ask_blobs f w = (Inr x, w') \<longleftrightarrow> (\<exists>b. w_blobs w = Some b \<and> f b = Inr x) \<and> w' = w"
  by (auto simp: ask_blobs_def split: option.splits)

lemma in_blobs_Inr:
  "in_blobs m w = (Inr x, w') \<longleftrightarrow>
     (\<exists>b b'. w_blobs w = Some b \<and> m b = Inr (x, b') \<and> w' = w\<lparr>w_blobs := Some b'\<rparr>)"
  by (auto simp: in_blobs_def split: option.splits sum.splits)

lemma transaction_io_Inr: "transaction_io m w = (Inr x, w') \<longleftrightarrow> m w = (Inr x, w')"
  by (auto simp: transaction_io_def split: prod.splits sum.splits)

lemma transaction_io_Inl:
  assumes "transaction_io m w = (Inl e, w')"
  obtains v where "m w = (Inl e, v)" and "w' = v\<lparr>w_db := w_db w\<rparr>"
  using assms by (auto simp: transaction_io_def split: prod.splits sum.splits)

lemma holds_io_in_db: "keeps P m \<Longrightarrow> holds_io (\<lambda>w. P (w_db w)) (in_db m)"
  by (rule holds_ioI) (auto simp: in_db_def keeps_def split: sum.splits)

lemma holds_io_ask [intro!, simp]: "holds_io P (ask_blobs f)"
  by (rule holds_ioI) (auto simp: ask_blobs_def split: option.splits)

lemma holds_io_catch [intro!]:
  assumes "holds_io P m" and "\<And>e. holds_io P (f e)"
  shows "holds_io P (catch_io m f)"
proof (rule holds_ioI)
  fix w
  assume "P w"
  obtain r v where m: "m w = (r, v)" by (cases "m w")
  with assms(1) \<open>P w\<close> have "P v" by (metis holds_ioD)
  with m assms(2) show "P (snd (catch_io m f w))"
    by (cases r) (auto simp: catch_io_def holds_io_def)
qed

subsection \<open>Validation is sound\<close>

definition good_bytes :: "env \<Rightarrow> staging \<Rightarrow> artifact_schema \<Rightarrow> string \<Rightarrow> json \<Rightarrow> bool" where
  "good_bytes h g c bytes inst \<longleftrightarrow>
     sha256_hex h bytes = stg_digest g \<and> int (length bytes) = stg_size g \<and>
     json_parse h bytes = Some inst \<and> schema_valid h (sch_schema c) inst"

text \<open>What the caches hold is true of the stored rows: a receipt was given for bytes with the
  digest of its row, and a cached validator is the one of the schema with its digest.\<close>

definition receipts_ok :: "env \<Rightarrow> db \<Rightarrow> (string \<times> string) list \<Rightarrow> bool" where
  "receipts_ok h s rs \<longleftrightarrow>
     (\<forall>(i, fp)\<in>set rs. \<forall>g c. readStagingById i s = Some g \<longrightarrow>
        readArtifactSchemaById (stg_schema g) s = Some c \<longrightarrow>
        (\<exists>bytes inst. good_bytes h g c bytes inst))"

definition validators_ok :: "db \<Rightarrow> (string \<times> json) list \<Rightarrow> bool" where
  "validators_ok s vs \<longleftrightarrow>
     (\<forall>(dg, v)\<in>set vs. \<forall>c\<in>set (artifact_schemas s). sch_digest c = dg \<longrightarrow> sch_schema c = v)"

definition schemas_by_digest :: "db \<Rightarrow> bool" where
  "schemas_by_digest s \<longleftrightarrow>
     (\<forall>a\<in>set (artifact_schemas s). \<forall>b\<in>set (artifact_schemas s).
        sch_digest a = sch_digest b \<longrightarrow> sch_schema a = sch_schema b)"

definition caches_ok :: "env \<Rightarrow> world \<Rightarrow> bool" where
  "caches_ok h w \<longleftrightarrow>
     schemas_by_digest (w_db w) \<and> receipts_ok h (w_db w) (receipts (w_caches w)) \<and>
     validators_ok (w_db w) (validators (w_caches w))"

lemma set_lru_put: "set (lru_put n k v m) \<subseteq> insert (k, v) (set m)"
  by (auto simp: lru_put_def Let_def dest!: in_set_dropD)

lemma current_schema_Some:
  "current_schema i s = Some c \<longleftrightarrow> readArtifactSchemaById i s = Some c \<and> sch_retired c = None"
  by (auto simp: current_schema_def split: option.splits if_splits)

lemma validators_ok_insert:
  assumes "validators_ok s vs" and "c \<in> set (artifact_schemas s)" and "schemas_by_digest s"
    and "set vs' \<subseteq> insert (sch_digest c, sch_schema c) (set vs)"
  shows "validators_ok s vs'"
  unfolding validators_ok_def
proof (rule ballI, clarify)
  fix v b
  assume "(sch_digest b, v) \<in> set vs'" and b: "b \<in> set (artifact_schemas s)"
  with assms(4) consider "(sch_digest b, v) = (sch_digest c, sch_schema c)"
    | "(sch_digest b, v) \<in> set vs" by auto
  then show "sch_schema b = v"
  proof cases
    case 1
    with assms(2,3) b show ?thesis
      unfolding schemas_by_digest_def by (metis prod.inject)
  next
    case 2
    with assms(1) have "\<forall>x\<in>set (artifact_schemas s). sch_digest x = sch_digest b \<longrightarrow> sch_schema x = v"
      unfolding validators_ok_def by (auto dest: bspec)
    with b show ?thesis by blast
  qed
qed

lemma receipts_ok_insert:
  assumes "receipts_ok h s rs" and "readStagingById i s = Some g"
    and "readArtifactSchemaById (stg_schema g) s = Some c" and "good_bytes h g c bytes inst"
    and "set rs' \<subseteq> insert (i, fp) (set rs)"
  shows "receipts_ok h s rs'"
  unfolding receipts_ok_def
proof (rule ballI, clarify)
  fix j f g' c'
  assume "(j, f) \<in> set rs'" and g': "readStagingById j s = Some g'"
    and c': "readArtifactSchemaById (stg_schema g') s = Some c'"
  with assms(5) consider "j = i" | "(j, f) \<in> set rs" by auto
  then show "\<exists>bytes inst. good_bytes h g' c' bytes inst"
  proof cases
    case 1
    with g' c' assms(2,3) have "g' = g" and "c' = c" by auto
    with assms(4) show ?thesis by blast
  next
    case 2
    with assms(1) g' c' show ?thesis by (auto simp: receipts_ok_def)
  qed
qed

lemma compiledValidator_Inr:
  assumes "compiledValidator h (sch_digest c) (sch_schema c) w = (Inr v, w')"
    and "caches_ok h w" and "c \<in> set (artifact_schemas (w_db w))"
  shows "v = sch_schema c" and "caches_ok h w'" and "w_db w' = w_db w" and "w_blobs w' = w_blobs w"
proof -
  have "v = sch_schema c \<and> w_db w' = w_db w \<and> w_blobs w' = w_blobs w \<and>
      receipts (w_caches w') = receipts (w_caches w) \<and>
      set (validators (w_caches w')) \<subseteq> insert (sch_digest c, v) (set (validators (w_caches w)))"
  proof (cases "map_of (validators (w_caches w)) (sch_digest c)")
    case None
    with assms(1) show ?thesis
      using set_lru_put [of COMPILED_VALIDATOR_LIMIT "sch_digest c" "sch_schema c"
          "validators (w_caches w)"]
      by (auto simp: compiledValidator_def Let_def split: if_splits)
  next
    case (Some x)
    then have "(sch_digest c, x) \<in> set (validators (w_caches w))" by (rule map_of_SomeD)
    with assms(2,3) have "sch_schema c = x" by (auto simp: caches_ok_def validators_ok_def)
    with assms(1) Some show ?thesis by (auto simp: compiledValidator_def Let_def)
  qed
  then show "v = sch_schema c" and "w_db w' = w_db w" and "w_blobs w' = w_blobs w"
    and "caches_ok h w'"
    using assms(2) validators_ok_insert [of "w_db w" "validators (w_caches w)" c
        "validators (w_caches w')"] assms(3)
    by (auto simp: caches_ok_def)
qed

lemma validate_bytes_Inr:
  assumes "validate_bytes h m g c bytes w = (Inr inst, w')"
    and "caches_ok h w" and "c \<in> set (artifact_schemas (w_db w))"
  shows "good_bytes h g c bytes inst" and "caches_ok h w'" and "w_db w' = w_db w"
    and "w_blobs w' = w_blobs w"
proof -
  obtain v where v: "compiledValidator h (sch_digest c) (sch_schema c) w = (Inr v, w')"
    and rest: "sha256_hex h bytes = stg_digest g" "int (length bytes) = stg_size g"
      "json_parse h bytes = Some inst" "schema_valid h v inst"
    using assms(1) by (auto simp: validate_bytes_def io_Inr)
  note c = compiledValidator_Inr [OF v assms(2,3)]
  with rest show "good_bytes h g c bytes inst" by (simp add: good_bytes_def)
  from c show "caches_ok h w'" and "w_db w' = w_db w" and "w_blobs w' = w_blobs w" by auto
qed

lemma remember_ok:
  assumes "rememberReceipt i fp w = (Inr u, w')" and "caches_ok h w"
    and "readStagingById i (w_db w) = Some g"
    and "readArtifactSchemaById (stg_schema g) (w_db w) = Some c" and "good_bytes h g c bytes inst"
  shows "caches_ok h w'" and "w_db w' = w_db w" and "w_blobs w' = w_blobs w"
  using assms(1,2) receipts_ok_insert [OF _ assms(3-5) set_lru_put]
  by (auto simp: rememberReceipt_def caches_ok_def)

lemma readStaging_id: "readStagingById i s = Some g \<Longrightarrow> stg_id g = i"
  by (auto simp: readStagingById_def dest: find_Some_mem)

lemma validate_Inr:
  assumes "validateStagedArtifact h m i w = (Inr v, w')" and "caches_ok h w"
  shows "readStagingById i (w_db w) = Some (v_row v)"
    and "current_schema (stg_schema (v_row v)) (w_db w) = Some (v_schema v)"
    and "stg_status (v_row v) = StgStaged" and "isJsonMediaType (stg_media (v_row v))"
    and "\<exists>bytes inst. good_bytes h (v_row v) (v_schema v) bytes inst"
    and "caches_ok h w'" and "w_db w' = w_db w" and "w_blobs w' = w_blobs w"
proof -
  obtain g c where g: "readStagingById i (w_db w) = Some g" "stg_status g = StgStaged"
    and c: "current_schema (stg_schema g) (w_db w) = Some c" and mt: "isJsonMediaType (stg_media g)"
    and body: "(if map_of (receipts (w_caches w)) (stg_id g) = Some (fingerprint g c)
       then ret_io \<lparr>v_row = g, v_schema = c, v_instance = None, v_cached = True\<rparr>
       else bind_io (ask_blobs (readStaged h (stg_ref g))) (\<lambda>bytes.
         bind_io (validate_bytes h m g c bytes) (\<lambda>inst.
         bind_io (rememberReceipt (stg_id g) (fingerprint g c)) (\<lambda>_.
         ret_io \<lparr>v_row = g, v_schema = c, v_instance = Some inst, v_cached = False\<rparr>)))) w
       = (Inr v, w')"
    using assms(1) by (auto simp: validateStagedArtifact_def io_Inr)
  have cr: "readArtifactSchemaById (stg_schema g) (w_db w) = Some c"
    using c by (simp add: current_schema_Some)
  then have mem: "c \<in> set (artifact_schemas (w_db w))"
    by (auto simp: readArtifactSchemaById_def dest: find_Some_mem)
  have id: "stg_id g = i" using g(1) by (rule readStaging_id)
  have "v_row v = g \<and> v_schema v = c \<and> (\<exists>bytes inst. good_bytes h g c bytes inst) \<and>
      caches_ok h w' \<and> w_db w' = w_db w \<and> w_blobs w' = w_blobs w"
  proof (cases "map_of (receipts (w_caches w)) (stg_id g) = Some (fingerprint g c)")
    case True
    then have "(i, fingerprint g c) \<in> set (receipts (w_caches w))" by (simp add: id map_of_SomeD)
    with assms(2) g(1) cr have "\<exists>bytes inst. good_bytes h g c bytes inst"
      by (fastforce simp: caches_ok_def receipts_ok_def)
    with True body assms(2) show ?thesis by (auto simp: io_Inr)
  next
    case False
    with body obtain bytes inst w1 where v: "validate_bytes h m g c bytes w = (Inr inst, w1)"
      and r: "rememberReceipt (stg_id g) (fingerprint g c) w1 = (Inr (), w')"
      and res: "v = \<lparr>v_row = g, v_schema = c, v_instance = Some inst, v_cached = False\<rparr>"
      by (auto simp: io_Inr ask_blobs_Inr)
    note b = validate_bytes_Inr [OF v assms(2) mem]
    from b(3) g(1) cr id have "readStagingById (stg_id g) (w_db w1) = Some g"
      "readArtifactSchemaById (stg_schema g) (w_db w1) = Some c" by simp_all
    from remember_ok [OF r b(2) this b(1)] b res show ?thesis by auto
  qed
  with g c mt show "readStagingById i (w_db w) = Some (v_row v)"
    and "current_schema (stg_schema (v_row v)) (w_db w) = Some (v_schema v)"
    and "stg_status (v_row v) = StgStaged" and "isJsonMediaType (stg_media (v_row v))"
    and "\<exists>bytes inst. good_bytes h (v_row v) (v_schema v) bytes inst"
    and "caches_ok h w'" and "w_db w' = w_db w" and "w_blobs w' = w_blobs w"
    by auto
qed

lemma validate_db:
  "w_db (snd (validateStagedArtifact h m i w)) = w_db w \<and>
   w_blobs (snd (validateStagedArtifact h m i w)) = w_blobs w"
proof -
  let ?P = "\<lambda>v. w_db v = w_db w \<and> w_blobs v = w_blobs w"
  have "holds_io ?P (compiledValidator h d c)" for d c
    by (rule holds_ioI) (auto simp: compiledValidator_def Let_def split: option.splits)
  moreover have "holds_io ?P (rememberReceipt j f)" for j f
    by (rule holds_ioI) (auto simp: rememberReceipt_def)
  ultimately have "holds_io ?P (validateStagedArtifact h m i)"
    unfolding validateStagedArtifact_def validate_bytes_def by (intro holds_io_bind holds_io_if) auto
  then show ?thesis by (simp add: holds_io_def)
qed

subsection \<open>Reconciliation\<close>

lemma holds_io_fold_mem:
  "(\<And>x b. x \<in> set xs \<Longrightarrow> holds_io P (f x b)) \<Longrightarrow> holds_io P (fold_io f xs acc)"
proof (induction xs arbitrary: acc)
  case (Cons x xs)
  then show ?case by (simp add: holds_io_bind)
qed simp

lemma holds_io_get:
  "(\<And>s. P s \<Longrightarrow> P (snd (k (f s) s))) \<Longrightarrow> holds_io P (bind_io (get_io f) k)"
  by (simp add: holds_io_def bind_io_def get_io_def)

lemma bind_or_throw_io: "bind_io (or_throw_io (Some x) err) k = k x"
  by (rule ext) (simp add: bind_io_def or_throw_io_def)

lemma holds_io_in_blobs: "(\<And>w b. P w \<Longrightarrow> P (w\<lparr>w_blobs := Some b\<rparr>)) \<Longrightarrow> holds_io P (in_blobs m)"
  by (rule holds_ioI) (auto simp: in_blobs_def split: option.splits sum.splits)

lemma holds_io_cursor [simp]: "holds_io P (blob_cursor e c)"
  by (auto simp: blob_cursor_def split: option.splits sum.splits)

lemma holds_io_get_fold:
  assumes "\<And>acc. holds_io P (\<lambda>w. fold_io h (f w) acc w)" and "\<And>x. holds_io P (k x)"
  shows "holds_io P (bind_io (get_io f) (\<lambda>xs. bind_io (fold_io h xs acc) k))"
proof (rule holds_io_get)
  fix w
  assume "P w"
  with assms(1) [of acc] have "P (snd (fold_io h (f w) acc w))" by (simp add: holds_io_def)
  then show "P (snd (bind_io (fold_io h (f w) acc) k w))"
    using assms(2) by (auto simp: bind_io_def holds_io_def split: prod.splits sum.splits)
qed

lemma dry_run_steps:
  "holds_io P (reconcile_artifact e True a rep)" "holds_io P (reconcile_staging e True g rep)"
  "holds_io P (reconcile_object True r c obj rep)"
  unfolding reconcile_artifact_def reconcile_staged_def reconcile_staging_def
    reconcile_object_def Let_def if_True
  by (intro holds_io_bind holds_io_if holds_io_option holds_io_simple holds_io_ask)+

text \<open>A batch keeps what its three loops keep.\<close>

lemma runBatch_holds:
  assumes "\<And>n rep. positive_integer (ri_limit i) = Some n \<Longrightarrow> holds_io P (\<lambda>w.
      fold_io (reconcile_artifact e (ri_dry_run i))
        (findCommittedArtifactsNeedingBlobCheck n (w_db w)) rep w)"
    and "\<And>st t n rep. holds_io P (\<lambda>w. fold_io (reconcile_staging e (ri_dry_run i))
        (listReconciliationCandidates st t n (w_db w)) rep w)"
    and "\<And>r c obj rep. holds_io P (reconcile_object (ri_dry_run i) r c obj rep)"
  shows "holds_io P (runBatch e i)"
proof (cases "positive_integer (ri_limit i)")
  case None
  then show ?thesis
    by (simp add: runBatch_def holds_io_def bind_io_def or_throw_io_def)
next
  case (Some n)
  show ?thesis
    unfolding runBatch_def Some Let_def bind_or_throw_io
    by (intro holds_io_get_fold assms(1) [OF Some] assms(2,3) holds_io_bind holds_io_fold
        holds_io_simple holds_io_ask holds_io_cursor)
qed

text \<open>The rows the three loops leave alone: a staged row linked to an artifact outside the window
  of the batch.\<close>

definition parked :: "artifact list \<Rightarrow> artifact \<Rightarrow> staging \<Rightarrow> world \<Rightarrow> bool" where
  "parked arts a g w \<longleftrightarrow>
     artifacts (w_db w) = arts \<and> distinct (map stg_id (stagings (w_db w))) \<and>
     g \<in> set (stagings (w_db w)) \<and> stg_artifact g = Some (art_id a)"

lemma parked_update:
  assumes "parked arts a g w" and "update_stagings (\<lambda>x. stg_id x = i) f (w_db w) = Inr (n, s)"
    and "i \<noteq> stg_id g" and "\<And>x. stg_id (f x) = stg_id x"
  shows "parked arts a g (w\<lparr>w_db := s\<rparr>)"
proof -
  let ?p = "\<lambda>x. stg_id x = i"
  have s: "s = (w_db w)\<lparr>stagings := set_rows ?p f (stagings (w_db w))\<rparr>"
    using assms(2) by (auto simp: update_stagings_def update_rows_Inr split: sum.splits)
  have "map stg_id (set_rows ?p f (stagings (w_db w))) = map stg_id (stagings (w_db w))"
    using assms(4) by (intro map_set_rows) simp
  moreover have "g \<in> set (set_rows ?p f (stagings (w_db w)))"
    using assms(1,3) by (auto simp: parked_def set_set_rows)
  ultimately show ?thesis using assms(1) by (simp add: parked_def s)
qed

lemma parked_stays:
  assumes "i \<noteq> stg_id g"
  shows "holds_io (parked arts a g) (in_db (markStagingPromoted i r t))"
    and "holds_io (parked arts a g) (in_db (markStagingAbandoned i t))"
proof -
  have "holds_io (parked arts a g) (in_db (update_stagings (\<lambda>x. stg_id x = i) f))"
    if "\<And>x. stg_id (f x) = stg_id x" for f
    using parked_update [OF _ _ assms that]
    by (intro holds_ioI) (auto simp: in_db_def split: sum.splits)
  then show "holds_io (parked arts a g) (in_db (markStagingPromoted i r t))"
    and "holds_io (parked arts a g) (in_db (markStagingAbandoned i t))"
    by (simp_all add: markStagingPromoted_def markStagingAbandoned_def)
qed

lemma parked_blobs: "holds_io (parked arts a g) (in_blobs m)"
  by (rule holds_io_in_blobs) (simp add: parked_def)

lemma parked_promote: "holds_io (parked arts a g) (promote_or_report e b x)"
  unfolding promote_or_report_def
  by (intro holds_io_catch holds_io_bind parked_blobs) (auto split: option.splits)

lemma parked_other:
  "parked arts a g w \<Longrightarrow> x \<in> set (stagings (w_db w)) \<Longrightarrow> stg_artifact x \<noteq> Some (art_id a) \<Longrightarrow>
   stg_id x \<noteq> stg_id g"
  using distinct_keys_unique [of stg_id "stagings (w_db w)" x g] by (auto simp: parked_def)

lemma parked_artifact:
  assumes "art_id b \<noteq> art_id a"
  shows "holds_io (parked arts a g) (reconcile_artifact e dry b rep)"
proof -
  let ?found = "\<lambda>w. List.find (\<lambda>g. stg_status g = StgStaged)
      (readStagingRowsByArtifactId (art_id b) (w_db w))"
  have "holds_io (parked arts a g)
      (case ?found w of None \<Rightarrow> ret_io r | Some x \<Rightarrow> reconcile_staged e dry b r' x)"
    if w: "parked arts a g w" for w r r'
  proof (cases "?found w")
    case (Some x)
    then have "x \<in> set (stagings (w_db w))" and "stg_artifact x = Some (art_id b)"
      by (auto simp: readStagingRowsByArtifactId_def dest!: find_Some_mem)
    with parked_other [OF w] assms have "stg_id x \<noteq> stg_id g" by auto
    then show ?thesis unfolding Some option.case reconcile_staged_def
      by (intro holds_io_if holds_io_bind holds_io_option parked_promote parked_stays
          holds_io_simple)
  qed simp
  then show ?thesis
    unfolding reconcile_artifact_def Let_def
    by (intro holds_io_bind holds_io_ask holds_io_if holds_io_simple holds_io_get)
      (simp add: holds_io_def)
qed

lemma parked_staging:
  assumes "stg_artifact x \<noteq> None \<or> stg_id x \<noteq> stg_id g"
  shows "holds_io (parked arts a g) (reconcile_staging e dry x rep)"
proof (cases "stg_artifact x = None")
  case True
  with assms have "stg_id x \<noteq> stg_id g" by simp
  then show ?thesis unfolding reconcile_staging_def
    by (intro holds_io_if holds_io_bind holds_io_ask holds_io_simple parked_stays)
qed (simp add: reconcile_staging_def)

lemma parked_batch:
  assumes "\<And>n. positive_integer (ri_limit i) = Some n \<Longrightarrow>
      art_id a \<notin> art_id ` set (take n (filter (\<lambda>a. art_state a = ArtCommitted) arts))"
  shows "holds_io (parked arts a g) (runBatch e i)"
proof (rule runBatch_holds)
  fix n rep
  assume n: "positive_integer (ri_limit i) = Some n"
  have "holds_io (parked arts a g) (fold_io (reconcile_artifact e (ri_dry_run i))
      (take n (filter (\<lambda>a. art_state a = ArtCommitted) arts)) rep)"
    using assms [OF n] by (intro holds_io_fold_mem parked_artifact) (metis imageI)
  then show "holds_io (parked arts a g) (\<lambda>w. fold_io (reconcile_artifact e (ri_dry_run i))
      (findCommittedArtifactsNeedingBlobCheck n (w_db w)) rep w)"
    by (auto simp: holds_io_def findCommittedArtifactsNeedingBlobCheck_def parked_def)
next
  fix st t n rep
  have "holds_io (parked arts a g) (fold_io (reconcile_staging e (ri_dry_run i))
      (listReconciliationCandidates st t n (w_db w)) rep)" if "parked arts a g w" for w
  proof (intro holds_io_fold_mem parked_staging)
    fix x
    assume "x \<in> set (listReconciliationCandidates st t n (w_db w))"
    then have "x \<in> set (stagings (w_db w))"
      by (auto simp: listReconciliationCandidates_def dest: in_set_takeD)
    with parked_other [OF that] show "stg_artifact x \<noteq> None \<or> stg_id x \<noteq> stg_id g" by auto
  qed
  then show "holds_io (parked arts a g) (\<lambda>w. fold_io (reconcile_staging e (ri_dry_run i))
      (listReconciliationCandidates st t n (w_db w)) rep w)"
    by (auto simp: holds_io_def)
next
  fix r c obj rep
  show "holds_io (parked arts a g) (reconcile_object (ri_dry_run i) r c obj rep)"
    unfolding reconcile_object_def Let_def
    by (intro holds_io_bind holds_io_if holds_io_simple parked_blobs)
qed

subsection \<open>Properties\<close>

text \<open>A world with one staged JSON document for the examples.\<close>

definition art_env :: env where
  "art_env = blob_env\<lparr>json_parse := (\<lambda>s. Some (JStr s))\<rparr>"

definition sample_staging :: "string \<Rightarrow> staging" where
  "sample_staging i =
     \<lparr>stg_id = i, stg_attempt = ''a1'', stg_ref = ''s1'', stg_digest = sample_digest ''hi'',
      stg_size = 2, stg_schema = ''c1'', stg_media = ''Application/JSON; charset=utf-8'',
      stg_locator = ''file:staging/s1'', stg_status = StgStaged, stg_metadata = JObj [],
      stg_artifact = None, stg_promoted = None, stg_abandoned = None, stg_created = 0\<rparr>"

definition sample_schema :: artifact_schema where
  "sample_schema = \<lparr>sch_id = ''c1'', sch_name = ''s'', sch_version = ''1'', sch_digest = ''d1'',
     sch_schema = JObj [], sch_retired = None\<rparr>"

definition staged_blobs :: blobs where
  "staged_blobs = run_blobs (run_ops blob_env [BeginStage ''s1'' ''hi'' plain_stage, Finish 0] blob_start)"

definition sample_world :: world where
  "sample_world =
     \<lparr>w_db = empty_db\<lparr>stagings := [sample_staging ''g1''], artifact_schemas := [sample_schema]\<rparr>,
      w_blobs = Some staged_blobs, w_caches = \<lparr>receipts = [], validators = []\<rparr>\<rparr>"



text \<open>A dry run of the reconciliation only reports: it changes neither a row nor a blob,
  whatever it finds and also when it fails.\<close>

theorem dry_run_changes_nothing:
  assumes "ri_dry_run i"
  shows "snd (runBatch e i w) = w"
proof -
  have "holds_io (\<lambda>v. v = w) (runBatch e i)"
  proof (rule runBatch_holds)
    fix n rep
    have "holds_io (\<lambda>v. v = w) (fold_io (reconcile_artifact e (ri_dry_run i)) xs rep)" for xs
      using assms dry_run_steps(1) by (intro holds_io_fold) simp
    then show "holds_io (\<lambda>v. v = w) (\<lambda>w. fold_io (reconcile_artifact e (ri_dry_run i))
        (findCommittedArtifactsNeedingBlobCheck n (w_db w)) rep w)"
      by (simp add: holds_io_def)
  next
    fix st t n rep
    have "holds_io (\<lambda>v. v = w) (fold_io (reconcile_staging e (ri_dry_run i)) xs rep)" for xs
      using assms dry_run_steps(2) by (intro holds_io_fold) simp
    then show "holds_io (\<lambda>v. v = w) (\<lambda>w. fold_io (reconcile_staging e (ri_dry_run i))
        (listReconciliationCandidates st t n (w_db w)) rep w)"
      by (simp add: holds_io_def)
  next
    fix r c obj rep
    show "holds_io (\<lambda>v. v = w) (reconcile_object (ri_dry_run i) r c obj rep)"
      using assms dry_run_steps(3) by simp
  qed
  then show ?thesis by (simp add: holds_io_def)
qed

definition sample_batch :: "bool \<Rightarrow> reconcile_input" where
  "sample_batch dry = \<lparr>ri_limit = Finite 1, ri_cursor = None, ri_remove_orphans = True,
     ri_grace_seconds = Some 0, ri_dry_run = dry\<rparr>"

theorem dry_run_changes_nothing_witness:
  "snd (runBatch art_env (sample_batch True) sample_world) = sample_world"
  by (rule dry_run_changes_nothing) (simp add: sample_batch_def)

text \<open>The recovery of committed artifacts looks at a fixed window: a batch examines the oldest
  \<open>limit\<close> committed artifacts and has no cursor over them, so a staged row whose artifact lies
  beyond the window is still there, unpromoted, after any number of batches with that limit.\<close>

theorem reconcile_window:
  assumes "positive_integer (ri_limit i) = Some n"
    and "a \<in> set (drop n (filter (\<lambda>a. art_state a = ArtCommitted) (artifacts (w_db w))))"
    and "distinct (map art_id (artifacts (w_db w)))" and "distinct (map stg_id (stagings (w_db w)))"
    and "g \<in> set (stagings (w_db w))" and "stg_artifact g = Some (art_id a)"
  shows "g \<in> set (stagings (w_db (((\<lambda>w. snd (runBatch e i w)) ^^ k) w)))"
proof -
  let ?arts = "artifacts (w_db w)"
  let ?l = "filter (\<lambda>a. art_state a = ArtCommitted) ?arts"
  have "distinct (map art_id ?l)" using assms(3) by (simp add: distinct_map_filter)
  then have "distinct (map art_id (take n ?l) @ map art_id (drop n ?l))"
    by (metis append_take_drop_id map_append)
  with assms(2) have "art_id a \<notin> art_id ` set (take n ?l)" by auto
  with assms(1) have step: "holds_io (parked ?arts a g) (runBatch e i)"
    by (intro parked_batch) simp
  have "parked ?arts a g (((\<lambda>w. snd (runBatch e i w)) ^^ k) w)"
    using step assms(4-6) by (induction k) (auto simp: holds_io_def parked_def)
  then show ?thesis by (simp add: parked_def)
qed

definition sample_artifact :: "string \<Rightarrow> string \<Rightarrow> artifact" where
  "sample_artifact i d =
     \<lparr>art_id = i, art_digest = d, art_size = 2, art_schema = ''c1'', art_state = ArtCommitted,
      art_media = ''application/json'', art_locator = Some d, art_provenance = JNull,
      art_tombstoned = None\<rparr>"

definition window_world :: world where
  "window_world = sample_world\<lparr>w_db := empty_db\<lparr>
     artifacts := [sample_artifact ''x'' (sample_digest ''ho''), sample_artifact ''y'' (sample_digest ''hi'')],
     stagings := [(sample_staging ''g1'')\<lparr>stg_artifact := Some ''y''\<rparr>]\<rparr>\<rparr>"

theorem reconcile_window_witness:
  "(sample_staging ''g1'')\<lparr>stg_artifact := Some ''y''\<rparr>
     \<in> set (stagings (w_db (((\<lambda>w. snd (runBatch art_env (sample_batch False) w)) ^^ 5) window_world)))"
  by (rule reconcile_window [where n = 1 and a = "sample_artifact ''y'' (sample_digest ''hi'')"])
    (simp_all add: sample_batch_def positive_integer_def window_world_def sample_artifact_def
      sample_staging_def)

definition cursor_document :: "string \<Rightarrow> json" where
  "cursor_document c = JObj [(''v'', JNum 1), (''value'', JObj [(''blob'', JStr c)])]"

text \<open>The cursor a batch hands out is accepted by the next one and denotes the same staged
  object, when \<open>JSON.parse\<close> reads back what \<open>JSON.stringify\<close> wrote for it.\<close>

theorem reconciliation_cursor_roundtrip:
  assumes "json_parse e (stringify e (cursor_document c)) = Some (cursor_document c)"
  shows "decodeArtifactReconciliationCursor e
     (encodeArtifactReconciliationCursor e (JObj [(''blob'', JStr c)])) = Inr (Some c)"
  using assms unfolding cursor_document_def
  by (simp add: decodeArtifactReconciliationCursor_def encodeArtifactReconciliationCursor_def
      base64url_roundtrip Let_def del: stringify.simps)

theorem reconciliation_cursor_roundtrip_witness:
  "case sample_env\<lparr>num_text := (\<lambda>q. ''1''),
       json_parse := (\<lambda>s. if hd s = CHR ''{'' then Some (cursor_document ''s1'') else None)\<rparr> of e \<Rightarrow>
     decodeArtifactReconciliationCursor e
       (encodeArtifactReconciliationCursor e (JObj [(''blob'', JStr ''s1'')])) = Inr (Some ''s1'')"
proof -
  let ?e = "sample_env\<lparr>num_text := (\<lambda>q. ''1''),
       json_parse := (\<lambda>s. if hd s = CHR ''{'' then Some (cursor_document ''s1'') else None)\<rparr>"
  have "json_parse ?e (stringify ?e (cursor_document ''s1'')) = Some (cursor_document ''s1'')"
    by (simp add: cursor_document_def)
  from reconciliation_cursor_roundtrip [OF this] show ?thesis by simp
qed

end

