(* ===== verification/Admission.thy ===== *)
theory Admission
  imports Store
begin

section \<open>Resource admission\<close>

text \<open>
  \<open>scheduling/resource-admission-service.ts\<close>, \<open>execution-admission.ts\<close> and \<open>lease.ts\<close>:
  the budgets of a region and its ancestors, the reservations against them, and the ledger of
  what was consumed. Quantities are \<open>bigint\<close>s in the program and \<open>int8\<close> columns in the
  store; declared limits are double-precision numbers.
\<close>

subsection \<open>Budget declarations\<close>

text \<open>Multiplication of doubles: the exact product, rounded to 53 significant bits, half to
  even. Exponents below the normal range do not matter for what follows (the result would not be
  an integer), nor does overflow (it would not be safe).\<close>

function bit_length :: "int \<Rightarrow> nat" where
  "bit_length n = (if n \<le> 0 then 0 else Suc (bit_length (n div 2)))"
  by pat_completeness auto
termination by (relation "measure nat") auto

declare bit_length.simps [simp del]

definition binary_exponent :: "rat \<Rightarrow> int" where
  "binary_exponent q =
     (let x = int (bit_length (fst (quotient_of q))) - int (bit_length (snd (quotient_of q)))
      in if 2 powi x \<le> q then x else x - 1)"

definition half_even :: "rat \<Rightarrow> int" where
  "half_even q =
     (let n = \<lfloor>q\<rfloor>; r = q - of_int n
      in if r < 1/2 then n else if 1/2 < r then n + 1 else if even n then n else n + 1)"

definition fl_round :: "rat \<Rightarrow> rat" where
  "fl_round q =
     (if q \<le> 0 then 0
      else let u = 2 powi (binary_exponent q - 52) in of_int (half_even (q / u)) * u)"

definition max_safe :: int where
  "max_safe = 2 ^ 53 - 1"

text \<open>\<open>Number.isSafeInteger\<close> on a finite number.\<close>

definition safe_integer :: "rat \<Rightarrow> bool" where
  "safe_integer q \<longleftrightarrow> snd (quotient_of q) = 1 \<and> \<bar>fst (quotient_of q)\<bar> \<le> max_safe"

record budget_limit =
  bl_type :: string
  bl_quantity :: int
  bl_unit :: string
  bl_outcome :: admission_outcome

definition BUDGET_FIELDS :: "(string \<times> string \<times> string \<times> int) list" where
  "BUDGET_FIELDS =
    [(''maximumConcurrentRegions'', ''concurrent_regions'', ''count'', 1),
     (''maximumConcurrentExecutions'', ''concurrent_executions'', ''count'', 1),
     (''modelTokens'', ''model_tokens'', ''tokens'', 1),
     (''networkRequests'', ''network_calls'', ''calls'', 1),
     (''humanAttentionMinutes'', ''human_attention'', ''minutes'', 1),
     (''dailyMonetaryCostUsd'', ''monetary_cost'', ''micro_usd'', 1000000),
     (''monetaryCostUsd'', ''monetary_cost'', ''micro_usd'', 1000000)]"

text \<open>\<open>value\<close> is \<open>None\<close> when it is not a number.\<close>

fun toScaledInteger :: "js_number option \<Rightarrow> int \<Rightarrow> error + int" where
  "toScaledInteger (Some (Finite q)) scale =
     (if q < 0 then Inl (PlainError ''budget values must be finite non-negative numbers'')
      else let scaled = fl_round (q * of_int scale)
           in if safe_integer scaled then Inr \<lfloor>scaled\<rfloor>
              else Inl (PlainError ''budget value cannot be represented exactly''))"
| "toScaledInteger _ scale = Inl (PlainError ''budget values must be finite non-negative numbers'')"

fun normalize_fields :: "(string \<times> js_number option) list \<Rightarrow> error + budget_limit list" where
  "normalize_fields [] = Inr []"
| "normalize_fields ((field, v) # rest) =
     (case map_of BUDGET_FIELDS field of
        None \<Rightarrow> normalize_fields rest
      | Some (rtype, runit, scale) \<Rightarrow>
          (case toScaledInteger v scale of
             Inl e \<Rightarrow> Inl e
           | Inr q \<Rightarrow> (case normalize_fields rest of
                 Inl e \<Rightarrow> Inl e
               | Inr ls \<Rightarrow> Inr (\<lparr>bl_type = rtype, bl_quantity = q, bl_unit = runit,
                                 bl_outcome = Defer\<rparr> # ls))))"

definition normalizeBudgetDeclaration ::
  "env \<Rightarrow> (string \<times> js_number option) list option \<Rightarrow> error + budget_limit list" where
  "normalizeBudgetDeclaration e decl =
     (case decl of
        None \<Rightarrow> Inr []
      | Some entries \<Rightarrow>
          map_sum id (sort_cmp (\<lambda>l r. locale_compare e (bl_type l) (bl_type r)))
            (normalize_fields entries))"

subsection \<open>The admission calculation\<close>

record admission_calculation =
  ac_outcome :: admission_outcome
  ac_remaining :: int
  ac_requested :: int

definition calculateAdmission ::
  "int \<Rightarrow> int \<Rightarrow> int \<Rightarrow> int \<Rightarrow> admission_outcome \<Rightarrow> admission_calculation" where
  "calculateAdmission limit consumed reserved requested exhaustion =
     (let remaining = limit - consumed - reserved
      in \<lparr>ac_outcome = (if requested \<le> remaining then Admit else exhaustion),
          ac_remaining = remaining, ac_requested = requested\<rparr>)"

subsection \<open>The region tree\<close>

text \<open>The recursive queries follow \<open>parent_region_id\<close>. A parent exists before its child, so a
  chain is no longer than the table; the number of regions bounds the recursion.\<close>

fun ancestors_upto :: "nat \<Rightarrow> region list \<Rightarrow> string \<Rightarrow> string list" where
  "ancestors_upto 0 rs rid = []"
| "ancestors_upto (Suc n) rs rid =
     (case List.find (\<lambda>r. reg_id r = rid) rs of
        None \<Rightarrow> []
      | Some r \<Rightarrow> rid # (case reg_parent r of None \<Rightarrow> [] | Some p \<Rightarrow> ancestors_upto n rs p))"

definition region_ancestors :: "db \<Rightarrow> string \<Rightarrow> string list" where
  "region_ancestors s rid = ancestors_upto (length (regions s)) (regions s) rid"

fun descendants_upto :: "nat \<Rightarrow> region list \<Rightarrow> string \<Rightarrow> string list" where
  "descendants_upto 0 rs rid = []"
| "descendants_upto (Suc n) rs rid =
     (if \<exists>r\<in>set rs. reg_id r = rid
      then rid # concat (map (\<lambda>c. descendants_upto n rs (reg_id c))
                           (filter (\<lambda>c. reg_parent c = Some rid) rs))
      else [])"

definition region_descendants :: "db \<Rightarrow> string \<Rightarrow> string list" where
  "region_descendants s rid = descendants_upto (length (regions s)) (regions s) rid"

subsection \<open>Reservations\<close>

definition int8_ok :: "int \<Rightarrow> bool" where
  "int8_ok n \<longleftrightarrow> - (2 ^ 63) \<le> n \<and> n < 2 ^ 63"

record reserve_input =
  ri_region :: string
  ri_type :: string
  ri_quantity :: int
  ri_key :: string
  ri_subject_kind :: string
  ri_subject_id :: string
  ri_execution :: "string option"
  ri_attempt :: "string option"
  ri_action :: "string option"

record admission_result =
  am_outcome :: admission_outcome
  am_request :: string
  am_reservations :: "string list"
  am_limiting :: "string option"
  am_remaining :: "int option"

definition active_budget :: "string \<Rightarrow> string \<Rightarrow> budget \<Rightarrow> bool" where
  "active_budget rid rtype b \<longleftrightarrow> bud_scope_kind b = ''region'' \<and> bud_scope_id b = rid \<and>
     bud_type b = rtype \<and> bud_retired b = None"

definition applicable_budgets :: "db \<Rightarrow> string \<Rightarrow> string \<Rightarrow> budget list" where
  "applicable_budgets s rid rtype =
     concat (map (\<lambda>a. sort_key bud_id (filter (active_budget a rtype) (budgets s)))
              (region_ancestors s rid))"

definition reserved_quantity :: "db \<Rightarrow> string \<Rightarrow> int" where
  "reserved_quantity s bid =
     sum_list (map res_quantity
       (filter (\<lambda>r. res_budget r = bid \<and> res_status r = ResReserved) (reservations s)))"

definition consumed_quantity :: "db \<Rightarrow> string \<Rightarrow> string \<Rightarrow> int" where
  "consumed_quantity s rtype scope =
     sum_list (map led_quantity
       (filter (\<lambda>l. led_type l = rtype \<and> led_region l \<in> set (region_descendants s scope))
         (ledger s)))"

definition budget_decision :: "db \<Rightarrow> reserve_input \<Rightarrow> budget \<Rightarrow> admission_calculation" where
  "budget_decision s i b =
     calculateAdmission (bud_limit b) (consumed_quantity s (ri_type i) (bud_scope_id b))
       (reserved_quantity s (bud_id b)) (ri_quantity i) (bud_outcome b)"

definition insert_decision :: "admission_decision \<Rightarrow> (db, unit) tx" where
  "insert_decision d =
     bind_tx (guard (0 \<le> ad_quantity d) (DbViolation ''admission_decisions_requested_quantity_check''))
     (\<lambda>_. bind_tx (guard (int8_ok (ad_quantity d) \<and>
             (case ad_remaining d of None \<Rightarrow> True | Some r \<Rightarrow> int8_ok r))
             (DbViolation ''bigint out of range''))
     (\<lambda>_. modify (\<lambda>s. s\<lparr>admission_decisions := admission_decisions s @ [d]\<rparr>)))"

definition recordDecision ::
  "env \<Rightarrow> reserve_input \<Rightarrow> string \<Rightarrow> string option \<Rightarrow> string option \<Rightarrow> admission_outcome \<Rightarrow>
   string \<Rightarrow> int option \<Rightarrow> (db, unit) tx" where
  "recordDecision e i req bid rid outcome reason remaining =
     bind_tx (fresh_uuid e) (\<lambda>did.
     insert_decision \<lparr>ad_id = did, ad_subject_kind = ri_subject_kind i,
       ad_subject_id = ri_subject_id i, ad_budget = bid, ad_type = ri_type i,
       ad_outcome = outcome, ad_reason = reason, ad_quantity = ri_quantity i,
       ad_remaining = remaining, ad_request = req, ad_reservation = rid\<rparr>)"

definition insert_reservation :: "reservation \<Rightarrow> (db, unit) tx" where
  "insert_reservation r = (\<lambda>s.
     if \<not> reservation_ok r \<or> \<not> int8_ok (res_quantity r)
     then Inl (DbViolation ''resource_reservations_quantity_check'')
     else if list_ex (\<lambda>x. res_budget x = res_budget r \<and> res_key x = res_key r) (reservations s)
     then Inl (DbViolation ''resource_reservations_budget_idempotency_unique'')
     else Inr ((), s\<lparr>reservations := reservations s @ [r]\<rparr>))"

definition reservation_row ::
  "env \<Rightarrow> reserve_input \<Rightarrow> string \<Rightarrow> budget \<Rightarrow> string \<Rightarrow> reservation" where
  "reservation_row e i req b rid =
     \<lparr>res_id = rid, res_request = req, res_budget = bud_id b, res_region = ri_region i,
      res_execution = ri_execution i, res_attempt = ri_attempt i, res_action = ri_action i,
      res_key = ri_key i, res_quantity = ri_quantity i, res_actual = None,
      res_status = ResReserved, res_reserved_at = db_now e, res_reconciled_at = None\<rparr>"

definition reserve_one ::
  "env \<Rightarrow> reserve_input \<Rightarrow> string \<Rightarrow> budget \<Rightarrow> (db, string) tx" where
  "reserve_one e i req b =
     bind_tx (fresh_uuid e) (\<lambda>rid.
     bind_tx (insert_reservation (reservation_row e i req b rid)) (\<lambda>_.
     bind_tx (recordDecision e i req (Some (bud_id b)) (Some rid) Admit
                (''reserved '' @ ri_type i) None) (\<lambda>_.
     ret rid)))"

definition reserveInTransaction :: "env \<Rightarrow> reserve_input \<Rightarrow> (db, admission_result) tx" where
  "reserveInTransaction e i =
     bind_tx (get (\<lambda>s. sort_key res_budget (filter (\<lambda>r. res_key r = ri_key i) (reservations s))))
     (\<lambda>prior. case prior of
       r # _ \<Rightarrow> ret \<lparr>am_outcome = Admit, am_request = res_request r,
                    am_reservations = map res_id prior, am_limiting = None,
                    am_remaining = None\<rparr>
     | [] \<Rightarrow>
       bind_tx (get (\<lambda>s. applicable_budgets s (ri_region i) (ri_type i))) (\<lambda>bs.
       bind_tx (fresh_uuid e) (\<lambda>req.
       if bs = [] then
         bind_tx (recordDecision e i req None None Admit ''no applicable budget'' None) (\<lambda>_.
         ret \<lparr>am_outcome = Admit, am_request = req, am_reservations = [], am_limiting = None,
              am_remaining = None\<rparr>)
       else
         bind_tx (get (\<lambda>s. map_option (\<lambda>b. (b, budget_decision s i b))
                    (List.find (\<lambda>b. ac_outcome (budget_decision s i b) \<noteq> Admit) bs))) (\<lambda>refusal.
         case refusal of
           Some (b, calc) \<Rightarrow>
             bind_tx (recordDecision e i req (Some (bud_id b)) None (ac_outcome calc)
                        (''budget exhausted for '' @ ri_type i) (Some (ac_remaining calc))) (\<lambda>_.
             ret \<lparr>am_outcome = ac_outcome calc, am_request = req, am_reservations = [],
                  am_limiting = Some (bud_id b), am_remaining = Some (ac_remaining calc)\<rparr>)
         | None \<Rightarrow>
             bind_tx (map_tx (reserve_one e i req) bs) (\<lambda>ids.
             ret \<lparr>am_outcome = Admit, am_request = req, am_reservations = ids,
                  am_limiting = None, am_remaining = None\<rparr>)))))"

definition reserve :: "env \<Rightarrow> reserve_input \<Rightarrow> (db, admission_result) io" where
  "reserve e i = (\<lambda>s.
     if ri_quantity i < 0 then (Inl (PlainError ''reservation quantity must be non-negative''), s)
     else if ri_key i = '''' then (Inl (PlainError ''idempotency key is required''), s)
     else transaction (reserveInTransaction e i) s)"

definition release_rows :: "env \<Rightarrow> string \<Rightarrow> reservation list \<Rightarrow> reservation list" where
  "release_rows e req =
     set_rows (\<lambda>r. res_request r = req \<and> res_status r = ResReserved)
       (\<lambda>r. r\<lparr>res_status := ResReleased, res_reconciled_at := Some (db_now e)\<rparr>)"

definition release :: "env \<Rightarrow> string \<Rightarrow> (db, unit) io" where
  "release e req = (\<lambda>s. (Inr (), s\<lparr>reservations := release_rows e req (reservations s)\<rparr>))"

definition insert_ledger_or_nothing :: "ledger_entry \<Rightarrow> (db, unit) tx" where
  "insert_ledger_or_nothing l = (\<lambda>s.
     if \<not> ledger_ok l \<or> \<not> int8_ok (led_quantity l)
     then Inl (DbViolation ''resource_ledger_quantity_check'')
     else if list_ex (\<lambda>x. led_request l \<noteq> None \<and> led_request x = led_request l \<and>
                          led_type x = led_type l) (ledger s)
     then Inr ((), s)
     else Inr ((), s\<lparr>ledger := ledger s @ [l]\<rparr>))"

definition reconcile_body :: "env \<Rightarrow> string \<Rightarrow> int \<Rightarrow> (db, bool) tx" where
  "reconcile_body e req actual =
     bind_tx (get (\<lambda>s. concat (map (\<lambda>r. map (\<lambda>b. (r, b))
                          (filter (\<lambda>b. bud_id b = res_budget r) (budgets s)))
                (sort_key res_budget (filter (\<lambda>r. res_request r = req) (reservations s))))))
     (\<lambda>rows. case rows of
       [] \<Rightarrow> ret False
     | (r, b) # _ \<Rightarrow>
         bind_tx (fresh_uuid e) (\<lambda>lid.
         bind_tx (insert_ledger_or_nothing
           \<lparr>led_id = lid, led_region = res_region r, led_execution = res_execution r,
            led_attempt = res_attempt r, led_action = res_action r, led_type = bud_type b,
            led_quantity = actual, led_unit = bud_unit b, led_request = Some req\<rparr>) (\<lambda>_.
         bind_tx (modify (\<lambda>s. s\<lparr>reservations :=
           set_rows (\<lambda>r. res_request r = req \<and> res_status r = ResReserved)
             (\<lambda>r. r\<lparr>res_status := ResReconciled, res_actual := Some actual,
                    res_reconciled_at := Some (db_now e)\<rparr>) (reservations s)\<rparr>)) (\<lambda>_.
         ret True))))"

definition reconcile :: "env \<Rightarrow> string \<Rightarrow> int \<Rightarrow> (db, bool) io" where
  "reconcile e req actual = (\<lambda>s.
     if actual < 0 then (Inl (PlainError ''actual quantity must be non-negative''), s)
     else transaction (reconcile_body e req actual) s)"

subsection \<open>Configuration\<close>

definition insert_budget :: "budget \<Rightarrow> (db, unit) tx" where
  "insert_budget b = (\<lambda>s.
     if \<not> budget_ok b \<or> \<not> int8_ok (bud_limit b)
     then Inl (DbViolation ''resource_budgets_limit_quantity_check'')
     else if list_ex (\<lambda>x. bud_retired x = None \<and> bud_scope_kind x = bud_scope_kind b \<and>
                          bud_scope_id x = bud_scope_id b \<and> bud_type x = bud_type b) (budgets s)
     then Inl (DbViolation ''resource_budgets_active_scope_resource_unique'')
     else Inr ((), s\<lparr>budgets := budgets s @ [b]\<rparr>))"

definition retire_budget :: "env \<Rightarrow> string \<Rightarrow> (db, unit) tx" where
  "retire_budget e bid = modify (\<lambda>s. s\<lparr>budgets :=
     set_rows (\<lambda>b. bud_id b = bid) (\<lambda>b. b\<lparr>bud_retired := Some (db_now e)\<rparr>) (budgets s)\<rparr>)"

definition parent_budget ::
  "string option \<Rightarrow> budget_limit \<Rightarrow> (db, string option) tx" where
  "parent_budget parent l =
     (case parent of
        None \<Rightarrow> ret None
      | Some p \<Rightarrow>
          bind_tx (get (\<lambda>s. List.find (active_budget p (bl_type l)) (budgets s))) (\<lambda>found.
          case found of
            None \<Rightarrow> ret None
          | Some b \<Rightarrow>
              bind_tx (guard (bl_quantity l \<le> bud_limit b)
                (PlainError (''child budget '' @ bl_type l @ '' cannot exceed parent limit''))) (\<lambda>_.
              ret (Some (bud_id b)))))"

definition unchanged_budget :: "budget_limit \<Rightarrow> string option \<Rightarrow> budget \<Rightarrow> bool" where
  "unchanged_budget l parent b \<longleftrightarrow> bud_parent b = parent \<and> bud_limit b = bl_quantity l \<and>
     bud_unit b = bl_unit l \<and> bud_outcome b = bl_outcome l"

definition budget_row ::
  "string \<Rightarrow> budget_limit \<Rightarrow> string option \<Rightarrow> string \<Rightarrow> budget" where
  "budget_row rid l parent bid =
     \<lparr>bud_id = bid, bud_scope_kind = ''region'', bud_scope_id = rid, bud_parent = parent,
      bud_type = bl_type l, bud_limit = bl_quantity l, bud_unit = bl_unit l,
      bud_outcome = bl_outcome l, bud_retired = None\<rparr>"

definition configure_limit ::
  "env \<Rightarrow> string \<Rightarrow> string option \<Rightarrow> budget list \<Rightarrow> budget_limit \<Rightarrow> (db, unit) tx" where
  "configure_limit e rid parent existing l =
     bind_tx (parent_budget parent l) (\<lambda>pid.
     let current = List.find (\<lambda>b. bud_type b = bl_type l) existing in
     if (case current of None \<Rightarrow> False | Some b \<Rightarrow> unchanged_budget l pid b) then ret ()
     else
       bind_tx (case current of None \<Rightarrow> ret () | Some b \<Rightarrow> retire_budget e (bud_id b)) (\<lambda>_.
       bind_tx (fresh_uuid e) (\<lambda>bid.
       insert_budget (budget_row rid l pid bid))))"

definition configureRegionBudgets ::
  "env \<Rightarrow> string \<Rightarrow> string option \<Rightarrow> (string \<times> js_number option) list option \<Rightarrow> (db, unit) tx"
where
  "configureRegionBudgets e rid parent decl =
     (case normalizeBudgetDeclaration e decl of
        Inl err \<Rightarrow> throw err
      | Inr limits \<Rightarrow>
          bind_tx (get (\<lambda>s. filter (\<lambda>b. bud_scope_kind b = ''region'' \<and> bud_scope_id b = rid \<and>
                              bud_retired b = None) (budgets s))) (\<lambda>existing.
          bind_tx (for_tx (filter (\<lambda>b. bud_type b \<notin> bl_type ` set limits) existing)
                     (\<lambda>b. retire_budget e (bud_id b))) (\<lambda>_.
          for_tx limits (configure_limit e rid parent existing))))"

subsection \<open>Execution leases\<close>

definition reserveExecutionLeaseAdmission ::
  "env \<Rightarrow> string \<Rightarrow> string \<Rightarrow> string option \<Rightarrow> (db, admission_result) tx" where
  "reserveExecutionLeaseAdmission e rid xid aid =
     reserveInTransaction e
       \<lparr>ri_region = rid, ri_type = ''concurrent_executions'', ri_quantity = 1,
        ri_key = ''execution:'' @ xid @ '':concurrent-executions'',
        ri_subject_kind = ''execution'', ri_subject_id = xid, ri_execution = Some xid,
        ri_attempt = aid, ri_action = None\<rparr>"

definition executionLeaseMayProceed :: "admission_result \<Rightarrow> bool" where
  "executionLeaseMayProceed r \<longleftrightarrow> am_outcome r = Admit"

definition validateLeaseDuration :: "js_number \<Rightarrow> error + int" where
  "validateLeaseDuration ms =
     (case ms of
        Finite q \<Rightarrow> (if snd (quotient_of q) = 1 \<and> 0 < q \<and> q \<le> 15 * 60000 then Inr \<lfloor>q\<rfloor>
                     else Inl (PlainError ''leaseDurationMs must be between 1ms and 15 minutes''))
      | NotFinite \<Rightarrow> Inl (PlainError ''leaseDurationMs must be between 1ms and 15 minutes''))"

subsection \<open>Exactness of declared limits\<close>

lemma half_even_of_int [simp]: "half_even (of_int n) = n"
  by (simp add: half_even_def)

lemma bit_length_bounds: "0 < n \<Longrightarrow> 2 ^ (bit_length n - 1) \<le> n \<and> n < 2 ^ bit_length n"
proof (induction n rule: bit_length.induct)
  case (1 n)
  have step: "bit_length n = Suc (bit_length (n div 2))" using 1(2) by (simp add: bit_length.simps)
  show ?case
  proof (cases "n = 1")
    case True
    then show ?thesis by (simp add: step bit_length.simps)
  next
    case False
    with 1(2) have "0 < n div 2" by simp
    with 1 have IH: "2 ^ (bit_length (n div 2) - 1) \<le> n div 2" "n div 2 < 2 ^ bit_length (n div 2)"
      by auto
    have "0 < bit_length (n div 2)" using \<open>0 < n div 2\<close> by (simp add: bit_length.simps)
    then have "(2 :: int) ^ bit_length (n div 2) = 2 * 2 ^ (bit_length (n div 2) - 1)"
      by (simp flip: power_Suc)
    moreover have "n div 2 * 2 \<le> n" and "n < n div 2 * 2 + 2" by presburger+
    ultimately have "2 ^ bit_length (n div 2) \<le> n" and "n < 2 * 2 ^ bit_length (n div 2)"
      using IH by linarith+
    then show ?thesis by (simp add: step)
  qed
qed

lemma bit_length_pos: "0 < n \<Longrightarrow> 0 < bit_length n"
  by (subst bit_length.simps) simp

lemma bit_length_le:
  assumes "0 < n" and "n < 2 ^ w"
  shows "bit_length n \<le> w"
proof -
  have "(2 :: int) ^ (bit_length n - 1) < 2 ^ w"
    using bit_length_bounds [OF assms(1)] assms(2) by linarith
  then have "bit_length n - 1 < w" by (simp add: power_strict_increasing_iff)
  then show ?thesis by simp
qed

lemma binary_exponent_of_int:
  assumes "0 < n"
  shows "binary_exponent (of_int n) = int (bit_length n) - 1"
proof -
  let ?f = "bit_length n"
  have f: "0 < ?f" using assms by (rule bit_length_pos)
  have "(2 :: int) ^ (?f - 1) \<le> n" using bit_length_bounds [OF assms] by simp
  then have "(2 :: rat) ^ (?f - 1) \<le> of_int n" by (metis of_int_le_iff of_int_numeral of_int_power)
  moreover have "(2 :: rat) powi (int ?f - 1) = 2 ^ (?f - 1)"
    using f by (simp add: power_int_def nat_diff_distrib)
  moreover have "bit_length 1 = 1" by (simp add: bit_length.simps)
  ultimately show ?thesis by (simp add: binary_exponent_def Let_def quotient_of_int)
qed

lemma fl_round_exact:
  assumes "0 \<le> n" and "n \<le> max_safe"
  shows "fl_round (of_int n) = of_int n"
proof (cases "n = 0")
  case True
  then show ?thesis by (simp add: fl_round_def)
next
  case False
  with assms have pos: "0 < n" by simp
  let ?f = "bit_length n"
  have "n < 2 ^ 53" using assms by (simp add: max_safe_def)
  with pos have f: "?f \<le> 53" by (rule bit_length_le)
  let ?u = "(2 :: rat) powi (int ?f - 1 - 52)"
  have u: "?u = inverse (2 ^ (53 - ?f))"
  proof (cases "?f = 53")
    case True
    then show ?thesis by simp
  next
    case False
    with f have "\<not> 0 \<le> int ?f - 53" and "nat (53 - int ?f) = 53 - ?f" by auto
    then show ?thesis by (simp add: power_int_def power_inverse power_one_over inverse_eq_divide)
  qed
  have "of_int n / ?u = (of_int (n * 2 ^ (53 - ?f)) :: rat)" unfolding u by (simp add: field_simps)
  then have "half_even (of_int n / ?u) = n * 2 ^ (53 - ?f)" by (simp only: half_even_of_int)
  then have "of_int (half_even (of_int n / ?u)) * ?u = of_int (n * 2 ^ (53 - ?f)) * ?u"
    by (simp only:)
  also have "\<dots> = (of_int n :: rat)" unfolding u by simp
  finally have "of_int (half_even (of_int n / ?u)) * ?u = (of_int n :: rat)" .
  then show ?thesis using pos by (simp add: fl_round_def binary_exponent_of_int Let_def)
qed

subsection \<open>What a reservation changes\<close>

lemma recordDecision_Inr:
  assumes "recordDecision e i req bid rid oc reason remaining s = Inr (u, s')"
  shows "\<exists>d. s' = s\<lparr>drawn := Suc (drawn s), admission_decisions := admission_decisions s @ [d]\<rparr> \<and>
     ad_outcome d = oc \<and> ad_budget d = bid \<and> ad_subject_id d = ri_subject_id i \<and>
     ad_remaining d = remaining \<and> ad_request d = req"
  using assms
  by (auto simp: recordDecision_def insert_decision_def bind_tx_app fresh_uuid_app guard_app
      modify_app split: if_splits)

lemma reserve_one_Inr:
  assumes "reserve_one e i req b s = Inr (rid, s')"
  obtains n ds where "s' = s\<lparr>drawn := n, reservations := reservations s @ [reservation_row e i req b rid],
      admission_decisions := ds\<rparr>"
    and "\<forall>x\<in>set (reservations s). \<not> (res_budget x = bud_id b \<and> res_key x = ri_key i)"
    and "0 \<le> ri_quantity i"
proof -
  let ?row = "reservation_row e i req b rid"
  from assms obtain s1 u where ins: "insert_reservation ?row (s\<lparr>drawn := Suc (drawn s)\<rparr>) = Inr (u, s1)"
    and rec: "recordDecision e i req (Some (bud_id b)) (Some rid) Admit (''reserved '' @ ri_type i)
                None s1 = Inr ((), s')"
    by (auto simp: reserve_one_def bind_tx_Inr fresh_uuid_Inr ret_Inr)
  from ins have s1: "s1 = s\<lparr>drawn := Suc (drawn s), reservations := reservations s @ [?row]\<rparr>"
    and "\<forall>x\<in>set (reservations s). \<not> (res_budget x = bud_id b \<and> res_key x = ri_key i)"
    and "0 \<le> ri_quantity i"
    by (auto simp: insert_reservation_def reservation_row_def reservation_ok_def list_ex_iff
        split: if_splits)
  moreover from recordDecision_Inr [OF rec] obtain d where
    "s' = s1\<lparr>drawn := Suc (drawn s1), admission_decisions := admission_decisions s1 @ [d]\<rparr>" by blast
  ultimately show thesis
    by (intro that [where n = "Suc (Suc (drawn s))" and ds = "admission_decisions s @ [d]"]) simp_all
qed

text \<open>Reserving against a list of budgets: one row per budget, all with the key of the
  request, so no budget occurs twice and none has a row with that key yet.\<close>

lemma reserve_all_Inr:
  assumes "map_tx (reserve_one e i req) bs s = Inr (ids, s')"
  shows "(\<exists>n ds. s' = s\<lparr>drawn := n,
       reservations := reservations s @ map2 (reservation_row e i req) bs ids,
       admission_decisions := ds\<rparr>) \<and>
     length ids = length bs \<and> distinct (map bud_id bs) \<and>
     (\<forall>b\<in>set bs. \<forall>x\<in>set (reservations s). \<not> (res_budget x = bud_id b \<and> res_key x = ri_key i)) \<and>
     (bs \<noteq> [] \<longrightarrow> 0 \<le> ri_quantity i)"
  using assms
proof (induction bs arbitrary: s ids)
  case Nil
  have "s = s\<lparr>drawn := drawn s, reservations := reservations s @ map2 (reservation_row e i req) [] ids,
      admission_decisions := admission_decisions s\<rparr>" by simp
  then have "\<exists>n ds. s = s\<lparr>drawn := n,
      reservations := reservations s @ map2 (reservation_row e i req) [] ids,
      admission_decisions := ds\<rparr>" by blast
  with Nil show ?case by (simp add: ret_Inr)
next
  case (Cons b bs)
  from Cons.prems obtain rid s1 ids' where one: "reserve_one e i req b s = Inr (rid, s1)"
    and rest: "map_tx (reserve_one e i req) bs s1 = Inr (ids', s')" and ids: "ids = rid # ids'"
    by (auto simp: bind_tx_Inr ret_Inr)
  from one obtain n ds where s1: "s1 = s\<lparr>drawn := n,
      reservations := reservations s @ [reservation_row e i req b rid], admission_decisions := ds\<rparr>"
    and free: "\<forall>x\<in>set (reservations s). \<not> (res_budget x = bud_id b \<and> res_key x = ri_key i)"
    and q: "0 \<le> ri_quantity i"
    by (rule reserve_one_Inr)
  note IH = Cons.IH [OF rest]
  from IH obtain n' ds' where s': "s' = s1\<lparr>drawn := n',
      reservations := reservations s1 @ map2 (reservation_row e i req) bs ids',
      admission_decisions := ds'\<rparr>" by blast
  have "s' = s\<lparr>drawn := n',
      reservations := reservations s @ map2 (reservation_row e i req) (b # bs) (rid # ids'),
      admission_decisions := ds'\<rparr>" by (simp add: s' s1)
  moreover have "bud_id b \<notin> bud_id ` set bs" and
    "\<forall>b\<in>set bs. \<forall>x\<in>set (reservations s). \<not> (res_budget x = bud_id b \<and> res_key x = ri_key i)"
    using IH by (auto simp: s1 reservation_row_def)
  ultimately show ?case using IH free q ids by auto
qed

lemma reserved_quantity_append:
  "reservations s' = reservations s @ rows \<Longrightarrow>
   reserved_quantity s' b = reserved_quantity s b +
     sum_list (map res_quantity (filter (\<lambda>r. res_budget r = b \<and> res_status r = ResReserved) rows))"
  by (simp add: reserved_quantity_def)

lemma reserved_by_rows:
  assumes "length ids = length bs" and "distinct (map bud_id bs)"
  shows "sum_list (map res_quantity (filter (\<lambda>r. res_budget r = k \<and> res_status r = ResReserved)
       (map2 (reservation_row e i req) bs ids))) =
     (if k \<in> bud_id ` set bs then ri_quantity i else 0)"
  using assms
proof (induction ids bs rule: list_induct2)
  case Nil
  then show ?case by simp
next
  case (Cons rid ids b bs)
  then show ?case by (auto simp: reservation_row_def image_iff)
qed

text \<open>The budget constraint: what is consumed and what is reserved stay within the limit.\<close>

definition within_limit :: "db \<Rightarrow> budget \<Rightarrow> bool" where
  "within_limit s b \<longleftrightarrow>
     consumed_quantity s (bud_type b) (bud_scope_id b) + reserved_quantity s (bud_id b) \<le> bud_limit b"

lemma consumed_quantity_cong:
  "regions s' = regions s \<Longrightarrow> ledger s' = ledger s \<Longrightarrow>
   consumed_quantity s' t k = consumed_quantity s t k"
  by (simp add: consumed_quantity_def region_descendants_def)

lemma applicable_type: "b \<in> set (applicable_budgets s rid t) \<Longrightarrow> bud_type b = t"
  by (auto simp: applicable_budgets_def active_budget_def)

lemma budget_decision_admits:
  "ac_outcome (budget_decision s i b) = Admit \<longleftrightarrow>
     bud_outcome b = Admit \<or>
     consumed_quantity s (ri_type i) (bud_scope_id b) + reserved_quantity s (bud_id b)
       + ri_quantity i \<le> bud_limit b"
  by (auto simp: budget_decision_def calculateAdmission_def Let_def)

text \<open>The three outcomes of a reservation.\<close>

lemma reserveInTransaction_Inr:
  assumes "reserveInTransaction e i s = Inr (r, s')"
  obtains (prior) "filter (\<lambda>x. res_key x = ri_key i) (reservations s) \<noteq> []" and "s' = s"
      and "am_outcome r = Admit"
      and "am_request r = res_request (hd (sort_key res_budget
             (filter (\<lambda>x. res_key x = ri_key i) (reservations s))))"
      and "am_reservations r = map res_id (sort_key res_budget
             (filter (\<lambda>x. res_key x = ri_key i) (reservations s)))"
  | (unlimited) n d where "filter (\<lambda>x. res_key x = ri_key i) (reservations s) = []"
      and "applicable_budgets s (ri_region i) (ri_type i) = []"
      and "s' = s\<lparr>drawn := n, admission_decisions := admission_decisions s @ [d]\<rparr>"
      and "ad_outcome d = Admit" and "am_outcome r = Admit" and "am_reservations r = []"
  | (refused) b n d where "filter (\<lambda>x. res_key x = ri_key i) (reservations s) = []"
      and "b \<in> set (applicable_budgets s (ri_region i) (ri_type i))"
      and "ac_outcome (budget_decision s i b) \<noteq> Admit"
      and "am_outcome r = ac_outcome (budget_decision s i b)"
      and "am_limiting r = Some (bud_id b)" and "am_reservations r = []"
      and "am_remaining r = Some (ac_remaining (budget_decision s i b))"
      and "s' = s\<lparr>drawn := n, admission_decisions := admission_decisions s @ [d]\<rparr>"
      and "ad_outcome d = am_outcome r"
  | (admitted) t where "filter (\<lambda>x. res_key x = ri_key i) (reservations s) = []"
      and "applicable_budgets s (ri_region i) (ri_type i) \<noteq> []"
      and "\<forall>b\<in>set (applicable_budgets s (ri_region i) (ri_type i)).
             ac_outcome (budget_decision s i b) = Admit"
      and "t = s\<lparr>drawn := Suc (drawn s)\<rparr>"
      and "map_tx (reserve_one e i (new_uuid e (drawn s)))
             (applicable_budgets s (ri_region i) (ri_type i)) t = Inr (am_reservations r, s')"
      and "am_outcome r = Admit" and "am_request r = new_uuid e (drawn s)"
proof (cases "filter (\<lambda>x. res_key x = ri_key i) (reservations s) = []")
  case False
  then obtain x xs where xs: "sort_key res_budget
      (filter (\<lambda>x. res_key x = ri_key i) (reservations s)) = x # xs"
    by (metis list.exhaust set_empty set_sort)
  with assms have "s' = s" "am_outcome r = Admit" "am_request r = res_request x"
    "am_reservations r = map res_id (x # xs)"
    by (auto simp: reserveInTransaction_def bind_tx_Inr get_Inr ret_Inr)
  with False xs show thesis by (intro prior) simp_all
next
  case None: True
  let ?bs = "applicable_budgets s (ri_region i) (ri_type i)"
  let ?t = "s\<lparr>drawn := Suc (drawn s)\<rparr>"
  have t [simp]: "applicable_budgets ?t = applicable_budgets s"
    "budget_decision ?t i = budget_decision s i"
    by (auto simp: applicable_budgets_def region_ancestors_def budget_decision_def fun_eq_iff
        consumed_quantity_def region_descendants_def reserved_quantity_def)
  show thesis
  proof (cases "?bs = []")
    case True
    with assms None obtain u where rec: "recordDecision e i (new_uuid e (drawn s)) None None Admit
        ''no applicable budget'' None ?t = Inr (u, s')"
      and r: "am_outcome r = Admit" "am_reservations r = []"
      by (auto simp: reserveInTransaction_def bind_tx_Inr get_Inr ret_Inr fresh_uuid_Inr)
    from recordDecision_Inr [OF rec] show thesis
      using unlimited [OF None True _ _ r] by auto
  next
    case False
    show thesis
    proof (cases "List.find (\<lambda>b. ac_outcome (budget_decision s i b) \<noteq> Admit) ?bs")
      case (Some b)
      then have b: "b \<in> set ?bs" "ac_outcome (budget_decision s i b) \<noteq> Admit"
        by (auto dest: find_Some_mem)
      from assms None False Some obtain u where
        rec: "recordDecision e i (new_uuid e (drawn s)) (Some (bud_id b)) None
          (ac_outcome (budget_decision s i b)) (''budget exhausted for '' @ ri_type i)
          (Some (ac_remaining (budget_decision s i b))) ?t = Inr (u, s')"
        and r: "r = \<lparr>am_outcome = ac_outcome (budget_decision s i b),
          am_request = new_uuid e (drawn s), am_reservations = [],
          am_limiting = Some (bud_id b), am_remaining = Some (ac_remaining (budget_decision s i b))\<rparr>"
        by (auto simp: reserveInTransaction_def bind_tx_Inr get_Inr ret_Inr fresh_uuid_Inr)
      from recordDecision_Inr [OF rec] show thesis
        using refused [OF None b] r by auto
    next
      case all: None
      from assms None False all have
        "map_tx (reserve_one e i (new_uuid e (drawn s))) ?bs ?t = Inr (am_reservations r, s')"
        "am_outcome r = Admit" "am_request r = new_uuid e (drawn s)"
        by (auto simp: reserveInTransaction_def bind_tx_Inr get_Inr ret_Inr fresh_uuid_Inr)
      with None False all show thesis by (intro admitted) (auto simp: find_None_iff)
    qed
  qed
qed

lemma admitted_reservations:
  assumes "map_tx (reserve_one e i req) bs t = Inr (ids, s')"
    and "t = s\<lparr>drawn := n\<rparr>"
  shows "reservations s' = reservations s @ map2 (reservation_row e i req) bs ids"
    and "regions s' = regions s" and "ledger s' = ledger s" and "budgets s' = budgets s"
    and "length ids = length bs" and "distinct (map bud_id bs)"
    and "reserved_quantity s' k =
      reserved_quantity s k + (if k \<in> bud_id ` set bs then ri_quantity i else 0)"
proof -
  note all = reserve_all_Inr [OF assms(1)]
  then show len: "length ids = length bs" and dist: "distinct (map bud_id bs)" by blast+
  from all show rows: "reservations s' = reservations s @ map2 (reservation_row e i req) bs ids"
    and "regions s' = regions s" and "ledger s' = ledger s" and "budgets s' = budgets s"
    by (auto simp: assms(2))
  show "reserved_quantity s' k =
      reserved_quantity s k + (if k \<in> bud_id ` set bs then ri_quantity i else 0)"
    unfolding reserved_quantity_append [OF rows] reserved_by_rows [OF len dist] by simp
qed

lemma within_limit_cong:
  "regions s' = regions s \<Longrightarrow> ledger s' = ledger s \<Longrightarrow>
   reserved_quantity s' (bud_id b) = reserved_quantity s (bud_id b) \<Longrightarrow>
   within_limit s' b = within_limit s b"
  by (simp only: within_limit_def consumed_quantity_cong [of s' s])

text \<open>Only the reservations, the decision log and the counter of draws change.\<close>

lemma reserve_frame:
  assumes "reserveInTransaction e i s = Inr (r, s')"
  shows "\<exists>n rs ds. s' = s\<lparr>drawn := n, reservations := rs, admission_decisions := ds\<rparr>"
  using assms
proof (cases rule: reserveInTransaction_Inr)
  case prior
  have "s = s\<lparr>drawn := drawn s, reservations := reservations s,
      admission_decisions := admission_decisions s\<rparr>" by simp
  with prior show ?thesis by blast
next
  case (unlimited n d)
  have "s' = s\<lparr>drawn := n, reservations := reservations s,
      admission_decisions := admission_decisions s @ [d]\<rparr>" by (simp add: unlimited)
  then show ?thesis by blast
next
  case (refused b n d)
  have "s' = s\<lparr>drawn := n, reservations := reservations s,
      admission_decisions := admission_decisions s @ [d]\<rparr>" by (simp add: refused)
  then show ?thesis by blast
next
  case (admitted t)
  from reserve_all_Inr [OF admitted(5)] obtain n rs ds where
    "s' = t\<lparr>drawn := n, reservations := rs, admission_decisions := ds\<rparr>" by blast
  then have "s' = s\<lparr>drawn := n, reservations := rs, admission_decisions := ds\<rparr>"
    by (simp add: admitted(4))
  then show ?thesis by blast
qed

text \<open>The constraints survive.\<close>

lemma checks_recordDecision: "keeps db_checks (recordDecision e i req bid rid oc reason remaining)"
  by (rule keepsI) (auto dest!: recordDecision_Inr simp: db_checks_def)

lemma checks_reserve_one: "keeps db_checks (reserve_one e i req b)"
  unfolding reserve_one_def
  by (intro keeps_bind checks_fresh_uuid checks_recordDecision keeps_ret)
    (auto intro!: keepsI simp: insert_reservation_def db_checks_def split: if_splits)

lemma checks_reserve: "keeps db_checks (reserveInTransaction e i)"
proof (rule keepsI)
  fix s r s'
  assume checks: "db_checks s" and "reserveInTransaction e i s = Inr (r, s')"
  from this(2) show "db_checks s'"
  proof (cases rule: reserveInTransaction_Inr)
    case (admitted t)
    have "db_checks t" using checks by (simp add: admitted(4) db_checks_def)
    with admitted(5) show ?thesis by (metis keepsD keeps_map checks_reserve_one)
  qed (use checks in \<open>simp_all add: db_checks_def\<close>)
qed

subsection \<open>Properties\<close>


text \<open>A request is admitted exactly when every budget of its type on the region and its
  ancestors has enough left; otherwise nothing is reserved, and the answer names a budget that
  is short, with what is left of it.\<close>

theorem reserve_admits_iff:
  assumes "reserveInTransaction e i s = Inr (r, s')" and "list_all budget_ok (budgets s)"
    and "\<forall>x\<in>set (reservations s). res_key x \<noteq> ri_key i"
  shows "(am_outcome r = Admit \<longleftrightarrow>
      (\<forall>b\<in>set (applicable_budgets s (ri_region i) (ri_type i)).
         ri_quantity i \<le> bud_limit b - consumed_quantity s (ri_type i) (bud_scope_id b)
           - reserved_quantity s (bud_id b))) \<and>
    (am_outcome r \<noteq> Admit \<longrightarrow> reservations s' = reservations s \<and>
      (\<exists>b\<in>set (applicable_budgets s (ri_region i) (ri_type i)).
         am_outcome r = bud_outcome b \<and> am_limiting r = Some (bud_id b) \<and>
         (\<exists>left < ri_quantity i. am_remaining r = Some left \<and>
            left = bud_limit b - consumed_quantity s (ri_type i) (bud_scope_id b)
              - reserved_quantity s (bud_id b))))"
proof -
  have ok: "bud_outcome b \<noteq> Admit"
    if "b \<in> set (applicable_budgets s (ri_region i) (ri_type i))" for b
    using assms(2) that by (auto simp: applicable_budgets_def list_all_iff budget_ok_def)
  have none: "filter (\<lambda>x. res_key x = ri_key i) (reservations s) = []"
    using assms(3) by (simp add: filter_empty_conv)
  from assms(1) show ?thesis
  proof (cases rule: reserveInTransaction_Inr)
    case prior
    with none show ?thesis by simp
  next
    case unlimited
    then show ?thesis by simp
  next
    case (refused b n d)
    with ok [of b] have short: "bud_limit b - consumed_quantity s (ri_type i) (bud_scope_id b)
        - reserved_quantity s (bud_id b) < ri_quantity i" and "am_outcome r = bud_outcome b"
      by (auto simp: budget_decision_admits budget_decision_def calculateAdmission_def Let_def
          split: if_splits)
    moreover have "am_remaining r = Some (bud_limit b - consumed_quantity s (ri_type i) (bud_scope_id b)
        - reserved_quantity s (bud_id b))"
      using refused(7) by (simp add: budget_decision_def calculateAdmission_def Let_def)
    ultimately show ?thesis using refused(2,4,5,8) ok [of b] by (fastforce simp: not_le)
  next
    case (admitted t)
    then show ?thesis using ok by (auto simp: budget_decision_admits algebra_simps)
  qed
qed

text \<open>Reservations are idempotent by key: a repeated request under the key of an admitted
  one returns the same request identifier and the same reservations, and writes nothing.\<close>

theorem reserve_idempotent:
  assumes "reserveInTransaction e i s = Inr (r, s')" and "am_outcome r = Admit"
    and "am_reservations r \<noteq> []" and "ri_key j = ri_key i"
  shows "\<exists>r'. reserveInTransaction e' j s' = Inr (r', s') \<and> am_outcome r' = Admit \<and>
     am_request r' = am_request r \<and> set (am_reservations r') = set (am_reservations r)"
proof -
  have replay: "reserveInTransaction e' j s' = Inr (\<lparr>am_outcome = Admit,
      am_request = res_request (hd xs), am_reservations = map res_id xs, am_limiting = None,
      am_remaining = None\<rparr>, s')"
    if "sort_key res_budget (filter (\<lambda>x. res_key x = ri_key j) (reservations s')) = xs" "xs \<noteq> []" for xs
    using that by (cases xs) (auto simp: reserveInTransaction_def bind_tx_app get_app ret_app)
  from assms(1) show ?thesis
  proof (cases rule: reserveInTransaction_Inr)
    case prior
    then have "sort_key res_budget (filter (\<lambda>x. res_key x = ri_key j) (reservations s')) \<noteq> []"
      using assms(4) by (metis set_empty set_sort)
    with prior assms(4) replay [OF refl] show ?thesis by simp
  next
    case (admitted t)
    note adm = admitted_reservations [OF admitted(5,4)]
    let ?rows = "map2 (reservation_row e i (new_uuid e (drawn s)))
        (applicable_budgets s (ri_region i) (ri_type i)) (am_reservations r)"
    have key: "res_key x = ri_key i \<and> res_request x = am_request r" if "x \<in> set ?rows" for x
      using that admitted(7) by (auto simp: reservation_row_def)
    then have "filter (\<lambda>x. res_key x = ri_key j) ?rows = ?rows"
      using assms(4) by (intro filter_True) auto
    then have rows: "filter (\<lambda>x. res_key x = ri_key j) (reservations s') = ?rows"
      using admitted(1) assms(4) by (simp add: adm)
    let ?xs = "sort_key res_budget ?rows"
    have "?rows \<noteq> []" using admitted(2) assms(3) adm by (auto simp: zip_eq_Nil_iff)
    then have ne: "?xs \<noteq> []" by (metis set_empty set_sort)
    then have "hd ?xs \<in> set ?rows" by (metis hd_in_set set_sort)
    then have "res_request (hd ?xs) = am_request r" using key by blast
    moreover have "set (map res_id ?xs) = set (am_reservations r)"
    proof -
      have "map res_id ?rows = am_reservations r"
        using adm(5) by (intro nth_equalityI) (simp_all add: reservation_row_def)
      then show ?thesis by (metis (no_types) list.set_map set_sort)
    qed
    ultimately show ?thesis using replay [of ?xs] ne rows by auto
  qed (use assms in simp_all)
qed

text \<open>Limits are exact: a declared number whose scaled value is a safe integer becomes
  exactly that integer, the double-precision multiplication notwithstanding.\<close>

theorem toScaledInteger_exact:
  assumes "q * of_int scale = of_int n" and "0 \<le> q" and "0 \<le> n" and "n \<le> max_safe"
  shows "toScaledInteger (Some (Finite q)) scale = Inr n"
proof -
  have "fl_round (q * of_int scale) = of_int n" using assms by (simp add: fl_round_exact)
  with assms show ?thesis by (simp add: safe_integer_def Let_def)
qed

lemma configure_limit_inserts:
  assumes "configure_limit e rid parent existing l s = Inr (u, s')"
    and "List.find (\<lambda>b. bud_type b = bl_type l) existing = None"
  shows "\<exists>b\<in>set (budgets s'). active_budget rid (bl_type l) b"
  using assms
  by (auto simp: configure_limit_def tx_Inr Let_def insert_budget_def fresh_uuid_Inr budget_row_def
      active_budget_def split: if_splits)

lemma configure_limit_refused:
  assumes "\<exists>b\<in>set (budgets s). active_budget rid (bl_type l) b"
    and "List.find (\<lambda>b. bud_type b = bl_type l) existing = None"
  shows "\<exists>err. configure_limit e rid parent existing l s = Inl err"
proof (rule ccontr)
  assume "\<not> ?thesis"
  then obtain u s' where "configure_limit e rid parent existing l s = Inr (u, s')"
    by (cases "configure_limit e rid parent existing l s") auto
  moreover obtain b where "b \<in> set (budgets s)" "active_budget rid (bl_type l) b"
    using assms(1) by blast
  ultimately show False
    using assms(2)
    by (auto simp: configure_limit_def tx_Inr Let_def insert_budget_def fresh_uuid_Inr budget_row_def
        active_budget_def parent_budget_def list_ex_iff split: if_splits option.splits)
qed

text \<open>A declaration that gives both \<open>dailyMonetaryCostUsd\<close> and \<open>monetaryCostUsd\<close> can
  never be configured: both fields normalise to the resource type \<open>monetary_cost\<close>, and the
  second insert violates the index of active budgets.\<close>

theorem monetary_budgets_clash:
  assumes "toScaledInteger v 1000000 = Inr p" and "toScaledInteger w 1000000 = Inr q"
    and "\<forall>b\<in>set (budgets s). \<not> active_budget rid ''monetary_cost'' b"
  shows "\<exists>err. configureRegionBudgets e rid parent
      (Some [(''dailyMonetaryCostUsd'', v), (''monetaryCostUsd'', w)]) s = Inl err"
proof -
  let ?d = "\<lparr>bl_type = ''monetary_cost'', bl_quantity = p, bl_unit = ''micro_usd'', bl_outcome = Defer\<rparr>"
  let ?m = "\<lparr>bl_type = ''monetary_cost'', bl_quantity = q, bl_unit = ''micro_usd'', bl_outcome = Defer\<rparr>"
  let ?ls = "sort_cmp (\<lambda>l r. locale_compare e (bl_type l) (bl_type r)) [?d, ?m]"
  define existing where "existing = filter (\<lambda>b. bud_scope_kind b = ''region'' \<and> bud_scope_id b = rid \<and>
     bud_retired b = None) (budgets s)"
  have decl: "normalizeBudgetDeclaration e (Some [(''dailyMonetaryCostUsd'', v), (''monetaryCostUsd'', w)])
      = Inr ?ls"
    using assms(1,2) by (simp add: normalizeBudgetDeclaration_def BUDGET_FIELDS_def)
  have none: "List.find (\<lambda>b. bud_type b = ''monetary_cost'') existing = None"
    using assms(3) by (auto simp: existing_def find_None_iff active_budget_def)
  obtain l1 l2 where ls: "?ls = [l1, l2]" and ty: "bl_type l1 = ''monetary_cost''" "bl_type l2 = ''monetary_cost''"
  proof -
    have "?ls = [?d, ?m] \<or> ?ls = [?m, ?d]" by (simp add: sort_cmp_def)
    then show thesis by (rule disjE) (erule that, simp, simp)+
  qed
  have two: "\<exists>err. for_tx [l1, l2] (configure_limit e rid parent existing) t = Inl err" for t
  proof (cases "configure_limit e rid parent existing l1 t")
    case (Inl err)
    then show ?thesis by (simp add: bind_tx_app)
  next
    case (Inr x)
    then obtain u t' where t': "configure_limit e rid parent existing l1 t = Inr (u, t')" by (cases x) auto
    have "\<exists>b\<in>set (budgets t'). active_budget rid (bl_type l1) b"
      by (rule configure_limit_inserts [OF t']) (simp only: ty none)
    then have "\<exists>b\<in>set (budgets t'). active_budget rid (bl_type l2) b" by (simp only: ty)
    then obtain err where "configure_limit e rid parent existing l2 t' = Inl err"
      using configure_limit_refused [of t' rid l2 existing e parent] by (auto simp: ty none)
    with t' show ?thesis by (simp add: bind_tx_app)
  qed
  show ?thesis
    unfolding configureRegionBudgets_def decl sum.case ls
    by (auto simp only: bind_tx_app get_app existing_def [symmetric] sum.case prod.case
        split: sum.splits prod.splits) (metis two sum.distinct(1))
qed

subsection \<open>Examples\<close>

text \<open>A region below a parent; both have a budget of the type \<open>model_tokens\<close>, the parent's
  is the tighter one.\<close>

definition sample_budget :: "string \<Rightarrow> string \<Rightarrow> int \<Rightarrow> budget" where
  "sample_budget bid scope n =
     \<lparr>bud_id = bid, bud_scope_kind = ''region'', bud_scope_id = scope, bud_parent = None,
      bud_type = ''model_tokens'', bud_limit = n, bud_unit = ''tokens'', bud_outcome = Defer,
      bud_retired = None\<rparr>"

definition sample_region :: "string \<Rightarrow> string option \<Rightarrow> region" where
  "sample_region rid parent =
     \<lparr>reg_id = rid, reg_parent = parent, reg_name = rid, reg_status = RRunning, reg_epoch = 0,
      reg_active_rev = None\<rparr>"

definition budget_store :: db where
  "budget_store = empty_db\<lparr>regions := [sample_region ''p'' None, sample_region ''r'' (Some ''p'')],
     budgets := [sample_budget ''b1'' ''r'' 5, sample_budget ''b2'' ''p'' 3]\<rparr>"

definition sample_reserve :: "string \<Rightarrow> reserve_input" where
  "sample_reserve k =
     \<lparr>ri_region = ''r'', ri_type = ''model_tokens'', ri_quantity = 2, ri_key = k,
      ri_subject_kind = ''execution'', ri_subject_id = ''x'', ri_execution = None,
      ri_attempt = None, ri_action = None\<rparr>"

definition reserved_store :: db where
  "reserved_store = snd (reserve sample_env (sample_reserve ''k'') budget_store)"

lemma sample_reserves:
  "case reserveInTransaction sample_env (sample_reserve ''k'') budget_store of Inl _ \<Rightarrow> False
     | Inr (r, s') \<Rightarrow> am_outcome r = Admit \<and> length (am_reservations r) = 2"
  by code_simp

lemma sample_refused:
  "case reserveInTransaction sample_env (sample_reserve ''k2'') reserved_store of Inl _ \<Rightarrow> False
     | Inr (r, s') \<Rightarrow> am_outcome r = Defer \<and> am_limiting r = Some ''b2'' \<and> am_remaining r = Some 1"
  by code_simp

lemma sample_reserve_runs:
  obtains r s' where "reserveInTransaction sample_env (sample_reserve ''k'') budget_store = Inr (r, s')"
    and "am_outcome r = Admit" and "length (am_reservations r) = 2"
  using sample_reserves by (auto split: sum.splits prod.splits)

lemma budget_store_ok:
  "list_all budget_ok (budgets budget_store) \<and> distinct (map bud_id (budgets budget_store)) \<and>
   list_all (within_limit budget_store) (budgets budget_store)"
  by code_simp


theorem reserve_admits_iff_witness:
  "\<exists>r s'. reserveInTransaction sample_env (sample_reserve ''k2'') reserved_store = Inr (r, s') \<and>
     am_outcome r = Defer \<and> reservations s' = reservations reserved_store"
proof -
  obtain r s' where run: "reserveInTransaction sample_env (sample_reserve ''k2'') reserved_store = Inr (r, s')"
    and oc: "am_outcome r = Defer" using sample_refused by (auto split: sum.splits prod.splits)
  have "list_all budget_ok (budgets reserved_store)" by code_simp
  moreover have "list_all (\<lambda>x. res_key x \<noteq> ri_key (sample_reserve ''k2'')) (reservations reserved_store)"
    by code_simp
  ultimately have "reservations s' = reservations reserved_store"
    using reserve_admits_iff [OF run] oc by (simp add: list_all_iff)
  with run oc show ?thesis by blast
qed

theorem reserve_idempotent_witness:
  "\<exists>r s' r'. reserveInTransaction sample_env (sample_reserve ''k'') budget_store = Inr (r, s') \<and>
     reserveInTransaction sample_env (sample_reserve ''k'') s' = Inr (r', s') \<and>
     am_request r' = am_request r"
proof -
  obtain r s' where run: "reserveInTransaction sample_env (sample_reserve ''k'') budget_store = Inr (r, s')"
    and r: "am_outcome r = Admit" "length (am_reservations r) = 2" by (rule sample_reserve_runs)
  then have "am_reservations r \<noteq> []" by auto
  from reserve_idempotent [OF run r(1) this refl, of sample_env] run show ?thesis by blast
qed

theorem toScaledInteger_exact_witness:
  "toScaledInteger (Some (Finite (5 / 2))) 1000000 = Inr 2500000"
  by (rule toScaledInteger_exact) (simp_all add: max_safe_def)

theorem monetary_budgets_clash_witness:
  "\<exists>err. configureRegionBudgets sample_env ''r'' None
      (Some [(''dailyMonetaryCostUsd'', Some (Finite 1)), (''monetaryCostUsd'', Some (Finite 2))])
      budget_store = Inl err"
proof -
  have "toScaledInteger (Some (Finite 1)) 1000000 = Inr 1000000"
    and "toScaledInteger (Some (Finite 2)) 1000000 = Inr 2000000" by code_simp+
  moreover have "list_all (\<lambda>b. \<not> active_budget ''r'' ''monetary_cost'' b) (budgets budget_store)"
    by code_simp
  ultimately show ?thesis by (intro monetary_budgets_clash) (auto simp: list_all_iff)
qed

end
