(* ===== verification/Commands.thy ===== *)
theory Commands
  imports Canonical Store
begin

section \<open>Events, routing and command submission\<close>

text \<open>
  \<open>events/event-service.ts\<close>, \<open>routing/routing-service.ts\<close> and \<open>commands/command-service.ts\<close>:
  the append-only event log with its per-stream sequence numbers, the routing of a command or
  a component event to deliveries, and the idempotent submission of commands.
\<close>

subsection \<open>Event service\<close>

text \<open>\<open>insert .. on conflict (stream_key) do update\<close>: the first event of a stream gets 1.\<close>

definition allocateSequence :: "string \<Rightarrow> (db, nat) tx" where
  "allocateSequence key = (\<lambda>s.
     case map_of (stream_sequences s) key of
       None \<Rightarrow> Inr (1, s\<lparr>stream_sequences := stream_sequences s @ [(key, 2)]\<rparr>)
     | Some n \<Rightarrow> Inr (n, s\<lparr>stream_sequences :=
         map (\<lambda>kn. if fst kn = key then (key, Suc n) else kn) (stream_sequences s)\<rparr>))"

record new_event =
  ne_region :: string
  ne_type :: string
  ne_payload :: json
  ne_stream :: string
  ne_correlation :: "string option"
  ne_source_kind :: string
  ne_command :: "string option"
  ne_event :: "string option"
  ne_execution :: "string option"
  ne_attempt :: "string option"
  ne_component :: "string option"
  ne_port :: "string option"

fun coalesce :: "'a option list \<Rightarrow> 'a \<Rightarrow> 'a" where
  "coalesce [] d = d"
| "coalesce (Some x # xs) d = x"
| "coalesce (None # xs) d = coalesce xs d"

definition has_source :: "event \<Rightarrow> bool" where
  "has_source v \<longleftrightarrow> ev_source_kind v = ''system'' \<or> ev_src_command v \<noteq> None \<or>
     ev_src_event v \<noteq> None \<or> ev_src_execution v \<noteq> None \<or> ev_src_attempt v \<noteq> None \<or>
     ev_src_component v \<noteq> None"

definition append_event :: "event \<Rightarrow> (db, unit) tx" where
  "append_event v = (\<lambda>s.
     if \<not> has_source v then Inl (DbViolation ''events_check'')
     else if list_ex (\<lambda>w. ev_stream w = ev_stream v \<and> ev_seq w = ev_seq v) (events s)
     then Inl (DbViolation ''events_stream_key_sequence_number_key'')
     else Inr ((), s\<lparr>events := events s @ [v]\<rparr>))"

definition event_row :: "env \<Rightarrow> new_event \<Rightarrow> string \<Rightarrow> nat \<Rightarrow> event" where
  "event_row e i vid sqn =
     \<lparr>ev_id = vid, ev_region = ne_region i, ev_type = ne_type i, ev_payload = ne_payload i,
      ev_stream = ne_stream i, ev_seq = sqn,
      ev_correlation =
        coalesce [ne_correlation i, ne_command i, ne_event i, ne_execution i] vid,
      ev_source_kind = ne_source_kind i, ev_src_command = ne_command i,
      ev_src_event = ne_event i, ev_src_execution = ne_execution i,
      ev_src_attempt = ne_attempt i, ev_src_component = ne_component i, ev_src_port = ne_port i,
      ev_created = db_now e\<rparr>"

definition insert_event :: "env \<Rightarrow> new_event \<Rightarrow> (db, event) tx" where
  "insert_event e i =
     bind_tx (guard (\<not> (ne_source_kind i = ''component'' \<and> ne_port i \<in> {None, Some ''''}))
               (PlainError ''component events require sourcePortName'')) (\<lambda>_.
     bind_tx (fresh_uuid e) (\<lambda>vid.
     bind_tx (allocateSequence (ne_stream i)) (\<lambda>sqn.
     bind_tx (append_event (event_row e i vid sqn)) (\<lambda>_.
     ret (event_row e i vid sqn)))))"

subsection \<open>Routing service\<close>

text \<open>\<open>a?.b?.c\<close>: absent and null both end the chain.\<close>

fun json_path :: "json \<Rightarrow> string list \<Rightarrow> json option" where
  "json_path j [] = (if j = JNull then None else Some j)"
| "json_path j (k # ks) = (case json_field j k of None \<Rightarrow> None | Some i \<Rightarrow> json_path i ks)"

fun json_items :: "json \<Rightarrow> json list" where
  "json_items (JArr js) = js"
| "json_items _ = []"

definition string_field :: "json \<Rightarrow> string \<Rightarrow> string" where
  "string_field j k = (case json_field j k of Some (JStr s) \<Rightarrow> s | _ \<Rightarrow> '''')"

definition topologyIngress :: "json \<Rightarrow> string \<Rightarrow> (string \<times> string) list" where
  "topologyIngress topology ctype =
     (let cmds = (case json_path topology [''spec'', ''initialTopology'', ''ingress'', ''commands'']
                  of Some c \<Rightarrow> c
                   | None \<Rightarrow> (case json_path topology [''ingress'', ''commands''] of
                       Some c \<Rightarrow> c | None \<Rightarrow> JObj []))
      in case json_path cmds [ctype, ''targets''] of
           None \<Rightarrow> []
         | Some ts \<Rightarrow> map (\<lambda>t. (string_field t ''component'', string_field t ''port'')) (json_items ts))"

text \<open>The unique indexes on the source, the revision, the target and the port.\<close>

definition same_route :: "delivery \<Rightarrow> delivery \<Rightarrow> bool" where
  "same_route d d' \<longleftrightarrow>
     (del_src_command d \<noteq> None \<and> del_src_command d = del_src_command d' \<or>
      del_src_event d \<noteq> None \<and> del_src_event d = del_src_event d') \<and>
     del_rev d = del_rev d' \<and> del_target d = del_target d' \<and> del_port d = del_port d'"

text \<open>The insert trigger \<open>ff_delivery_insert_defaults\<close>: the payload is that of the source.\<close>

definition delivery_defaults :: "db \<Rightarrow> delivery \<Rightarrow> delivery" where
  "delivery_defaults s d = d\<lparr>del_payload :=
     coalesce
       [map_option cmd_payload
          (List.find (\<lambda>c. Some (cmd_id c) = del_src_command d) (commands s)),
        map_option ev_payload
          (List.find (\<lambda>v. Some (ev_id v) = del_src_event d) (events s))]
       (del_payload d)\<rparr>"

text \<open>\<open>insert into deliveries .. on conflict do nothing\<close>, then the select of the row that is
  there when nothing was inserted.\<close>

definition insert_delivery :: "delivery \<Rightarrow> (db, delivery) tx" where
  "insert_delivery d = (\<lambda>s.
     let d' = delivery_defaults s d in
     if \<not> delivery_ok d' then Inl (DbViolation ''deliveries_check'')
     else case List.find (same_route d') (deliveries s) of
         None \<Rightarrow> Inr (d', s\<lparr>deliveries := deliveries s @ [d']\<rparr>)
       | Some old \<Rightarrow> Inr (old, s))"

definition delivery_row ::
  "env \<Rightarrow> string \<Rightarrow> string \<Rightarrow> string \<Rightarrow> string \<Rightarrow> string \<Rightarrow> string option \<Rightarrow> string option \<Rightarrow> string \<Rightarrow>
   json \<Rightarrow> delivery" where
  "delivery_row e did rgn rvn tgt port src_cmd src_ev corr payload =
     \<lparr>del_id = did, del_region = rgn, del_rev = rvn, del_target = tgt, del_port = port,
      del_src_command = src_cmd, del_src_event = src_ev, del_correlation = corr,
      del_payload = payload, del_digest = payloadDigest e payload, del_status = DReady,
      del_available = db_now e, del_owner = None, del_token = None, del_expires = None,
      del_attempts = 0, del_completed_at = None, del_failed_at = None, del_dead_at = None,
      del_failure = None, del_created = db_now e\<rparr>"

definition routeCommand ::
  "env \<Rightarrow> command \<Rightarrow> topology_revision \<Rightarrow> (db, delivery list) tx" where
  "routeCommand e c revision =
     map_tx (\<lambda>target.
       bind_tx (get (\<lambda>s. List.find (\<lambda>i. ci_rev i = rev_id revision \<and> ci_name i = fst target)
                           (component_instances s))) (\<lambda>found.
       bind_tx (or_throw found (NoResultError ''component_instances'')) (\<lambda>inst.
       bind_tx (fresh_uuid e) (\<lambda>did.
       insert_delivery
         (delivery_row e did (cmd_region c) (rev_id revision) (ci_id inst) (snd target)
            (Some (cmd_id c)) None (coalesce [cmd_correlation c] (cmd_id c)) (cmd_payload c))))))
     (topologyIngress (rev_topology revision) (cmd_type c))"

definition routeComponentEvent :: "env \<Rightarrow> event \<Rightarrow> string \<Rightarrow> (db, delivery list) tx" where
  "routeComponentEvent e v rvn =
     (case (ev_src_component v, ev_src_port v) of
        (Some src, Some port) \<Rightarrow>
          if src = '''' \<or> port = ''''
          then throw (PlainError ''component event requires source component and port'')
          else
            bind_tx (get (\<lambda>s. filter (\<lambda>c. con_rev c = rvn \<and> con_source c = src \<and>
                                con_source_port c = port) (connections s))) (\<lambda>cons.
            map_tx (\<lambda>c. bind_tx (fresh_uuid e) (\<lambda>did.
              insert_delivery
                (delivery_row e did (ev_region v) rvn (con_target c) (con_target_port c)
                   None (Some (ev_id v)) (ev_correlation v) (ev_payload v)))) cons)
      | _ \<Rightarrow> throw (PlainError ''component event requires source component and port''))"

subsection \<open>Command service\<close>

record submit_input =
  si_region :: string
  si_type :: string
  si_source :: "json option"
  si_payload :: "json option"
  si_correlation :: "string option"
  si_key :: "string option"
  si_expires :: "string option"

datatype disposition = Accepted | Replayed | Rejected

record submit_result =
  cr_command :: string
  cr_status :: command_state
  cr_correlation :: string
  cr_event :: string
  cr_deliveries :: "string list"
  cr_disposition :: disposition
  cr_rejection :: "json option"

text \<open>\<open>if (input.idempotencyKey)\<close>: absent and empty keys are both false.\<close>

definition truthy :: "string option \<Rightarrow> bool" where
  "truthy x \<longleftrightarrow> x \<noteq> None \<and> x \<noteq> Some ''''"

text \<open>\<open>input.expiresAt ? new Date(input.expiresAt) : null\<close>, with the check for an invalid date.\<close>

definition parse_expiry :: "env \<Rightarrow> string option \<Rightarrow> error + int option" where
  "parse_expiry e x =
     (if truthy x
      then (case date_parse e (the x) of
          None \<Rightarrow> Inl (PlainError ''expiresAt must be a valid timestamp'')
        | Some t \<Rightarrow> Inr (Some t))
      else Inr None)"

definition strip_slash :: "string \<Rightarrow> string" where
  "strip_slash r = (case r of c # r' \<Rightarrow> (if c = CHR ''/'' then r' else r) | [] \<Rightarrow> [])"

definition submit_digest :: "env \<Rightarrow> submit_input \<Rightarrow> string" where
  "submit_digest e i =
     commandRequestDigest e (si_region i) (si_type i) (si_source i) (si_payload i)
       (si_correlation i) (si_expires i)"

definition rejection_json :: "string \<Rightarrow> string \<Rightarrow> json" where
  "rejection_json code msg = JObj [(''code'', JStr code), (''message'', JStr msg)]"

definition same_command_key :: "command \<Rightarrow> command \<Rightarrow> bool" where
  "same_command_key c d \<longleftrightarrow>
     cmd_region c = cmd_region d \<and> cmd_key c \<noteq> None \<and> cmd_key c = cmd_key d"

definition insert_command :: "bool \<Rightarrow> command \<Rightarrow> (db, command option) tx" where
  "insert_command do_nothing c = (\<lambda>s.
     if \<not> command_ok c then Inl (DbViolation ''commands_accept_reject_consistency'')
     else if list_ex (same_command_key c) (commands s)
     then (if do_nothing then Inr (None, s)
           else Inl (DbViolation ''commands_region_id_idempotency_key_key''))
     else Inr (Some c, s\<lparr>commands := commands s @ [c]\<rparr>))"

definition replay :: "command \<Rightarrow> string \<Rightarrow> (db, submit_result) tx" where
  "replay existing digest =
     bind_tx (guard (cmd_digest existing = digest) CommandConflictError) (\<lambda>_.
     bind_tx (get (\<lambda>s. sort_key (\<lambda>v. (ev_created v, ev_id v))
                  (filter (\<lambda>v. ev_src_command v = Some (cmd_id existing)) (events s)))) (\<lambda>evs.
     bind_tx (or_throw (case evs of [] \<Rightarrow> None | v # _ \<Rightarrow> Some v) (NoResultError ''events'')) (\<lambda>v.
     bind_tx (get (\<lambda>s. sort_key (\<lambda>d. (del_created d, del_id d))
                  (filter (\<lambda>d. del_src_command d = Some (cmd_id existing)) (deliveries s)))) (\<lambda>ds.
     ret \<lparr>cr_command = cmd_id existing, cr_status = cmd_status existing,
          cr_correlation = coalesce [cmd_correlation existing] '''', cr_event = ev_id v,
          cr_deliveries = map del_id ds,
          cr_disposition = (if cmd_status existing = CRejected then Rejected else Replayed),
          cr_rejection = cmd_rejection existing\<rparr>))))"

definition rejection_of ::
  "env \<Rightarrow> int option \<Rightarrow> topology_revision option \<Rightarrow> json option" where
  "rejection_of e expires revision =
     (if (case expires of None \<Rightarrow> False | Some t \<Rightarrow> t \<le> clock e)
      then Some (rejection_json ''command_expired'' ''Command expiry is in the past'')
      else if revision = None
      then Some (rejection_json ''no_active_topology'' ''Region has no active topology revision'')
      else None)"

definition command_row ::
  "env \<Rightarrow> submit_input \<Rightarrow> region \<Rightarrow> int option \<Rightarrow> json option \<Rightarrow> string \<Rightarrow> string \<Rightarrow> command" where
  "command_row e i rgn expires rejected digest cid =
     \<lparr>cmd_id = cid, cmd_region = reg_id rgn, cmd_type = si_type i,
      cmd_payload = or_empty (si_payload i), cmd_source = or_empty (si_source i),
      cmd_status = (if rejected = None then CAccepted else CRejected),
      cmd_correlation = Some (coalesce [si_correlation i] cid), cmd_key = si_key i,
      cmd_expires = expires, cmd_digest = digest, cmd_rejection = rejected,
      cmd_accepted_at = (if rejected = None then Some (clock e) else None),
      cmd_rejected_at = (if rejected = None then None else Some (clock e))\<rparr>"

text \<open>The part of \<open>submit\<close> after the command row exists: its event and its deliveries.\<close>

definition publish_command ::
  "env \<Rightarrow> submit_input \<Rightarrow> topology_revision option \<Rightarrow> json option \<Rightarrow> command \<Rightarrow>
   (db, submit_result) tx" where
  "publish_command e i revision rejected c =
     bind_tx (insert_event e
       \<lparr>ne_region = cmd_region c,
        ne_type = (if rejected = None then ''command.accepted'' else ''command.rejected''),
        ne_payload = (case rejected of None \<Rightarrow> or_empty (si_payload i) | Some r \<Rightarrow> r),
        ne_stream = ''region:'' @ cmd_region c @ '':commands'',
        ne_correlation = Some (coalesce [si_correlation i] (cmd_id c)),
        ne_source_kind = ''command'', ne_command = Some (cmd_id c), ne_event = None,
        ne_execution = None, ne_attempt = None, ne_component = None, ne_port = None\<rparr>) (\<lambda>v.
     bind_tx (if rejected \<noteq> None then ret []
              else bind_tx (or_throw revision (NoResultError ''topology_revisions''))
                     (routeCommand e c)) (\<lambda>ds.
     ret \<lparr>cr_command = cmd_id c, cr_status = cmd_status c,
          cr_correlation = coalesce [si_correlation i] (cmd_id c), cr_event = ev_id v,
          cr_deliveries = map del_id ds,
          cr_disposition = (if rejected = None then Accepted else Rejected),
          cr_rejection = rejected\<rparr>))"

definition find_by_key :: "string \<Rightarrow> string option \<Rightarrow> db \<Rightarrow> command option" where
  "find_by_key rgn key s =
     List.find (\<lambda>c. cmd_region c = rgn \<and> key \<noteq> None \<and> cmd_key c = key) (commands s)"

definition submit_body ::
  "env \<Rightarrow> submit_input \<Rightarrow> int option \<Rightarrow> (db, submit_result) tx" where
  "submit_body e i expires =
     bind_tx (get (\<lambda>s. List.find (\<lambda>r. reg_name r = strip_slash (si_region i)) (regions s))) (\<lambda>found.
     bind_tx (or_throw found (PlainError ''region_not_found'')) (\<lambda>rgn.
     bind_tx (get (\<lambda>s. case reg_active_rev rgn of None \<Rightarrow> None
                 | Some rid \<Rightarrow> List.find (\<lambda>t. rev_id t = rid) (topology_revisions s))) (\<lambda>revision.
     bind_tx (get (\<lambda>s. if truthy (si_key i) then find_by_key (reg_id rgn) (si_key i) s else None))
       (\<lambda>existing.
     case existing of
       Some c \<Rightarrow> replay c (submit_digest e i)
     | None \<Rightarrow>
         let rejected = rejection_of e expires revision in
         bind_tx (fresh_uuid e) (\<lambda>cid.
         bind_tx (insert_command (truthy (si_key i))
                    (command_row e i rgn expires rejected (submit_digest e i) cid)) (\<lambda>inserted.
         case inserted of
           Some c \<Rightarrow> publish_command e i revision rejected c
         | None \<Rightarrow>
             bind_tx (get (find_by_key (reg_id rgn) (si_key i))) (\<lambda>concurrent.
             bind_tx (or_throw concurrent (NoResultError ''commands'')) (\<lambda>c.
             replay c (submit_digest e i)))))))))"

definition submit :: "env \<Rightarrow> submit_input \<Rightarrow> (db, submit_result) io" where
  "submit e i = (\<lambda>s.
     if blank (si_type i) then (Inl (PlainError ''commandType is required''), s)
     else case parse_expiry e (si_expires i) of
         Inl err \<Rightarrow> (Inl err, s)
       | Inr expires \<Rightarrow> transaction (submit_body e i expires) s)"

subsection \<open>The event log\<close>

definition next_seq :: "db \<Rightarrow> string \<Rightarrow> nat" where
  "next_seq s k = (case map_of (stream_sequences s) k of None \<Rightarrow> 1 | Some n \<Rightarrow> n)"

text \<open>Every stream carries the numbers 1, 2, .. in the order its events were appended, and the
  counter is the number the next event gets.\<close>

definition streams_gapless :: "db \<Rightarrow> bool" where
  "streams_gapless s \<longleftrightarrow>
     distinct (map fst (stream_sequences s)) \<and> (\<forall>kn\<in>set (stream_sequences s). 1 \<le> snd kn) \<and>
     (\<forall>k. map ev_seq (filter (\<lambda>v. ev_stream v = k) (events s)) = [1..<next_seq s k])"

lemma map_of_set_key:
  "map_of (map (\<lambda>kn. if fst kn = k then (k, x) else kn) xs) j
    = (if j = k \<and> k \<in> fst ` set xs then Some x else map_of xs j)"
  by (induction xs) (auto simp: map_of_eq_None_iff split: if_splits)

lemma allocateSequence_Inr:
  assumes "allocateSequence k s = Inr (n, s')" and "streams_gapless s"
  obtains qs where "s' = s\<lparr>stream_sequences := qs\<rparr>" and "n = next_seq s k"
    and "distinct (map fst qs)" and "\<forall>kn\<in>set qs. 1 \<le> snd kn"
    and "\<And>j. next_seq s' j = (if j = k then Suc n else next_seq s j)"
proof (cases "map_of (stream_sequences s) k")
  case None
  let ?qs = "stream_sequences s @ [(k, 2)]"
  have new: "k \<notin> fst ` set (stream_sequences s)" using None by (simp add: map_of_eq_None_iff)
  have s': "s' = s\<lparr>stream_sequences := ?qs\<rparr>" and n: "n = 1"
    using assms(1) None by (auto simp: allocateSequence_def)
  show ?thesis
  proof (rule that [OF s'])
    show "n = next_seq s k" using None n by (simp add: next_seq_def)
    show "distinct (map fst ?qs)" using assms(2) new by (simp add: streams_gapless_def)
    show "\<forall>kn\<in>set ?qs. 1 \<le> snd kn" using assms(2) by (simp add: streams_gapless_def)
    show "next_seq s' j = (if j = k then Suc n else next_seq s j)" for j
      using None by (auto simp: s' n next_seq_def map_add_def split: option.splits)
  qed
next
  case (Some m)
  let ?qs = "map (\<lambda>kn. if fst kn = k then (k, Suc m) else kn) (stream_sequences s)"
  have mem: "k \<in> fst ` set (stream_sequences s)" using Some by (force dest: map_of_SomeD)
  have s': "s' = s\<lparr>stream_sequences := ?qs\<rparr>" and n: "n = m"
    using assms(1) Some by (auto simp: allocateSequence_def)
  show ?thesis
  proof (rule that [OF s'])
    show "n = next_seq s k" using Some n by (simp add: next_seq_def)
    have keys: "map fst ?qs = map fst (stream_sequences s)" by (simp add: o_def)
    show "distinct (map fst ?qs)" unfolding keys using assms(2) by (simp add: streams_gapless_def)
    show "\<forall>kn\<in>set ?qs. 1 \<le> snd kn" using assms(2) by (auto simp: streams_gapless_def)
    show "next_seq s' j = (if j = k then Suc n else next_seq s j)" for j
      using mem by (auto simp: s' n next_seq_def map_of_set_key)
  qed
qed

definition event_admissible :: "new_event \<Rightarrow> bool" where
  "event_admissible i \<longleftrightarrow>
     (ne_source_kind i = ''component'' \<longrightarrow> ne_port i \<noteq> None \<and> ne_port i \<noteq> Some '''') \<and>
     (ne_source_kind i = ''system'' \<or> ne_command i \<noteq> None \<or> ne_event i \<noteq> None \<or>
      ne_execution i \<noteq> None \<or> ne_attempt i \<noteq> None \<or> ne_component i \<noteq> None)"

lemma insert_event_gapless:
  assumes gapless: "streams_gapless s" and adm: "event_admissible i"
  obtains v s' where "insert_event e i s = Inr (v, s')" and "streams_gapless s'"
    and "ev_seq v = next_seq s (ne_stream i)" and "events s' = events s @ [v]"
proof -
  let ?k = "ne_stream i"
  let ?s0 = "s\<lparr>drawn := Suc (drawn s)\<rparr>"
  have g0: "streams_gapless ?s0" using gapless by (simp add: streams_gapless_def next_seq_def)
  obtain n s1 where alloc: "allocateSequence ?k ?s0 = Inr (n, s1)"
    by (cases "map_of (stream_sequences s) ?k") (auto simp: allocateSequence_def)
  from alloc g0 obtain qs where s1: "s1 = ?s0\<lparr>stream_sequences := qs\<rparr>"
    and n: "n = next_seq ?s0 ?k" and dist: "distinct (map fst qs)" "\<forall>kn\<in>set qs. 1 \<le> snd kn"
    and nx: "\<And>j. next_seq s1 j = (if j = ?k then Suc n else next_seq ?s0 j)"
    by (rule allocateSequence_Inr) (rule that)
  let ?v = "event_row e i (new_uuid e (drawn s)) n"
  let ?s' = "s1\<lparr>events := events s1 @ [?v]\<rparr>"
  have ns: "n = next_seq s ?k" using n by (simp add: next_seq_def)
  have seqs: "map ev_seq (filter (\<lambda>v. ev_stream v = k) (events s)) = [1..<next_seq s k]" for k
    using gapless by (simp add: streams_gapless_def)
  have "ev_seq w \<noteq> n" if "w \<in> set (events s)" and "ev_stream w = ?k" for w
  proof -
    have "ev_seq w \<in> set (map ev_seq (filter (\<lambda>v. ev_stream v = ?k) (events s)))" using that by simp
    then show ?thesis unfolding seqs ns by simp
  qed
  then have "append_event ?v s1 = Inr ((), ?s')"
    using adm by (auto simp: append_event_def list_ex_iff event_row_def has_source_def
        event_admissible_def s1)
  then have ins: "insert_event e i s = Inr (?v, ?s')"
    using adm alloc by (auto simp: insert_event_def event_admissible_def tx_simps)
  have "1 \<le> n"
    using gapless unfolding ns next_seq_def streams_gapless_def
    by (auto split: option.splits dest!: map_of_SomeD)
  then have "map ev_seq (filter (\<lambda>v. ev_stream v = k) (events ?s')) = [1..<next_seq ?s' k]" for k
    using seqs [of k] nx [of k] ns by (auto simp: s1 event_row_def next_seq_def)
  then have "streams_gapless ?s'" using dist by (simp add: streams_gapless_def s1)
  with ins ns that show thesis by (simp add: s1 event_row_def)
qed

lemma insert_event_Inr:
  assumes "insert_event e i s = Inr (v, s')"
  obtains qs sqn where "s' = s\<lparr>drawn := Suc (drawn s), stream_sequences := qs,
      events := events s @ [v]\<rparr>" and "v = event_row e i (new_uuid e (drawn s)) sqn"
proof -
  from assms obtain sqn s1 where alloc: "allocateSequence (ne_stream i)
      (s\<lparr>drawn := Suc (drawn s)\<rparr>) = Inr (sqn, s1)"
    and app: "append_event (event_row e i (new_uuid e (drawn s)) sqn) s1 = Inr ((), s')"
    and v: "v = event_row e i (new_uuid e (drawn s)) sqn"
    by (auto simp: insert_event_def tx_Inr fresh_uuid_Inr)
  from alloc obtain qs where "s1 = s\<lparr>drawn := Suc (drawn s), stream_sequences := qs\<rparr>"
    by (auto simp: allocateSequence_def split: option.splits)
  with app v have "s' = s\<lparr>drawn := Suc (drawn s), stream_sequences := qs, events := events s @ [v]\<rparr>"
    by (auto simp: append_event_def split: if_splits)
  then show thesis using v by (rule that)
qed

subsection \<open>Routing\<close>

lemma same_route_defaults [simp]:
  "same_route (delivery_defaults s d) = same_route d"
  "same_route x (delivery_defaults s d) = same_route x d"
  by (simp_all add: same_route_def delivery_defaults_def fun_eq_iff)

lemma insert_delivery_Inr:
  assumes "insert_delivery d s = Inr (x, s')"
  shows "\<exists>ds. s' = s\<lparr>deliveries := deliveries s @ ds\<rparr>"
    and "List.find (same_route d) (deliveries s') = Some x"
    and "x \<in> set (deliveries s')"
    and "set (deliveries s') = insert x (set (deliveries s))"
    and "same_route d x \<or> (x = delivery_defaults s d)"
proof -
  have "s' = s\<lparr>deliveries := deliveries s @ []\<rparr> \<or> s' = s\<lparr>deliveries := deliveries s @ [x]\<rparr>"
    using assms by (auto simp: insert_delivery_def Let_def split: if_splits option.splits)
  then show "\<exists>ds. s' = s\<lparr>deliveries := deliveries s @ ds\<rparr>" by blast
  have ok: "delivery_ok (delivery_defaults s d)"
    using assms by (auto simp: insert_delivery_def Let_def split: if_splits)
  have "same_route d (delivery_defaults s d)"
    using ok by (auto simp: same_route_def delivery_ok_def delivery_defaults_def)
  then show find: "List.find (same_route d) (deliveries s') = Some x"
    using assms
    by (auto simp: insert_delivery_def Let_def find_append_fresh split: if_splits option.splits)
  then show "x \<in> set (deliveries s')" by (auto dest: find_Some_mem)
  then show "set (deliveries s') = insert x (set (deliveries s))"
    using assms by (auto simp: insert_delivery_def Let_def split: if_splits option.splits)
  show "same_route d x \<or> x = delivery_defaults s d" using find by (auto dest: find_Some_mem)
qed

text \<open>Inserting a list of deliveries one by one: only the counter of draws and the deliveries
  change, and the deliveries gain exactly the returned ones.\<close>

definition adds_deliveries :: "(delivery \<Rightarrow> bool) \<Rightarrow> db \<Rightarrow> delivery list \<Rightarrow> db \<Rightarrow> bool" where
  "adds_deliveries P s ds s' \<longleftrightarrow>
     (\<exists>n rows. s' = s\<lparr>drawn := n, deliveries := deliveries s @ rows\<rparr>) \<and>
     set (deliveries s') = set ds \<union> set (deliveries s) \<and> list_all P ds"

lemma adds_deliveries_Nil: "adds_deliveries P s [] s"
proof -
  have "s = s\<lparr>drawn := drawn s, deliveries := deliveries s @ []\<rparr>" by simp
  then have "\<exists>n rows. s = s\<lparr>drawn := n, deliveries := deliveries s @ rows\<rparr>" by blast
  then show ?thesis by (simp add: adds_deliveries_def)
qed

lemma adds_deliveries_Cons:
  assumes "adds_deliveries P s [x] s1" and "adds_deliveries P s1 ds s2"
  shows "adds_deliveries P s (x # ds) s2"
proof -
  from assms obtain n rows m rows' where s1: "s1 = s\<lparr>drawn := n, deliveries := deliveries s @ rows\<rparr>"
    and s2: "s2 = s1\<lparr>drawn := m, deliveries := deliveries s1 @ rows'\<rparr>"
    by (auto simp: adds_deliveries_def)
  have "s2 = s\<lparr>drawn := m, deliveries := deliveries s @ (rows @ rows')\<rparr>" by (simp add: s1 s2)
  then show ?thesis using assms unfolding adds_deliveries_def by auto
qed

lemma adds_deliveries_insert:
  assumes "insert_delivery d (s\<lparr>drawn := n\<rparr>) = Inr (x, s')"
    and "\<And>y. same_route d y \<Longrightarrow> P y" and "P (delivery_defaults (s\<lparr>drawn := n\<rparr>) d)"
  shows "adds_deliveries P s [x] s'"
proof -
  note ins = insert_delivery_Inr [OF assms(1)]
  obtain rows where "s' = (s\<lparr>drawn := n\<rparr>)\<lparr>deliveries := deliveries s @ rows\<rparr>"
    using ins(1) by auto
  then have "\<exists>n rows. s' = s\<lparr>drawn := n, deliveries := deliveries s @ rows\<rparr>" by auto
  moreover have "set (deliveries s') = set [x] \<union> set (deliveries s)" using ins(4) by simp
  moreover have "P x" using ins(5) assms(2,3) by auto
  ultimately show ?thesis unfolding adds_deliveries_def by simp
qed

lemma adds_deliveries_map:
  assumes "map_tx f xs s = Inr (ds, s')"
    and "\<And>x t y t'. x \<in> set xs \<Longrightarrow> f x t = Inr (y, t') \<Longrightarrow> adds_deliveries P t [y] t'"
  shows "adds_deliveries P s ds s'"
  using assms
proof (induction xs arbitrary: s ds)
  case Nil
  then show ?case by (simp add: ret_Inr adds_deliveries_Nil)
next
  case (Cons x xs)
  from Cons.prems(1) obtain y t ys where "f x s = Inr (y, t)" and rest: "map_tx f xs t = Inr (ys, s')"
    and ds: "ds = y # ys" by (auto simp: tx_Inr)
  then have "adds_deliveries P s [y] t" by (intro Cons.prems(2) [of x]) simp_all
  moreover have "adds_deliveries P t ys s'"
    by (rule Cons.IH [OF rest], rule Cons.prems(2)) simp_all
  ultimately show ?case unfolding ds by (rule adds_deliveries_Cons)
qed

lemma routeCommand_adds:
  assumes "routeCommand e c revision s = Inr (ds, s')"
  shows "adds_deliveries (\<lambda>d. del_src_command d = Some (cmd_id c)) s ds s'"
  using assms unfolding routeCommand_def
proof (rule adds_deliveries_map)
  fix target t y t'
  assume "bind_tx (get (\<lambda>s. List.find (\<lambda>i. ci_rev i = rev_id revision \<and> ci_name i = fst target)
                           (component_instances s))) (\<lambda>found.
       bind_tx (or_throw found (NoResultError ''component_instances'')) (\<lambda>inst.
       bind_tx (fresh_uuid e) (\<lambda>did.
       insert_delivery
         (delivery_row e did (cmd_region c) (rev_id revision) (ci_id inst) (snd target)
            (Some (cmd_id c)) None (coalesce [cmd_correlation c] (cmd_id c)) (cmd_payload c))))) t
      = Inr (y, t')"
  then obtain inst :: component_instance where "insert_delivery
         (delivery_row e (new_uuid e (drawn t)) (cmd_region c) (rev_id revision) (ci_id inst) (snd target)
            (Some (cmd_id c)) None (coalesce [cmd_correlation c] (cmd_id c)) (cmd_payload c))
         (t\<lparr>drawn := Suc (drawn t)\<rparr>) = Inr (y, t')"
    by (auto simp: tx_Inr fresh_uuid_Inr)
  then show "adds_deliveries (\<lambda>d. del_src_command d = Some (cmd_id c)) t [y] t'"
    by (rule adds_deliveries_insert)
      (auto simp: same_route_def delivery_row_def delivery_defaults_def)
qed

subsection \<open>Submission\<close>

lemma publish_command_Inr:
  assumes "publish_command e i revision rejected c s = Inr (r, s')"
  obtains v n qs rows ds where
    "s' = s\<lparr>drawn := n, stream_sequences := qs, events := events s @ [v],
            deliveries := deliveries s @ rows\<rparr>"
    and "ev_src_command v = Some (cmd_id c)"
    and "r = \<lparr>cr_command = cmd_id c, cr_status = cmd_status c,
          cr_correlation = coalesce [si_correlation i] (cmd_id c), cr_event = ev_id v,
          cr_deliveries = map del_id ds,
          cr_disposition = (if rejected = None then Accepted else Rejected),
          cr_rejection = rejected\<rparr>"
    and "set (deliveries s @ rows) = set ds \<union> set (deliveries s)"
    and "\<forall>d\<in>set ds. del_src_command d = Some (cmd_id c)"
    and "rejected \<noteq> None \<Longrightarrow> rows = [] \<and> ds = []"
    and "ev_type v = (if rejected = None then ''command.accepted'' else ''command.rejected'')"
proof -
  from assms obtain v s1 ds where
    ev: "insert_event e
       \<lparr>ne_region = cmd_region c,
        ne_type = (if rejected = None then ''command.accepted'' else ''command.rejected''),
        ne_payload = (case rejected of None \<Rightarrow> or_empty (si_payload i) | Some r \<Rightarrow> r),
        ne_stream = ''region:'' @ cmd_region c @ '':commands'',
        ne_correlation = Some (coalesce [si_correlation i] (cmd_id c)),
        ne_source_kind = ''command'', ne_command = Some (cmd_id c), ne_event = None,
        ne_execution = None, ne_attempt = None, ne_component = None, ne_port = None\<rparr> s
       = Inr (v, s1)"
    and route: "(if rejected \<noteq> None then ret []
              else bind_tx (or_throw revision (NoResultError ''topology_revisions''))
                     (routeCommand e c)) s1 = Inr (ds, s')"
    and r: "r = \<lparr>cr_command = cmd_id c, cr_status = cmd_status c,
          cr_correlation = coalesce [si_correlation i] (cmd_id c), cr_event = ev_id v,
          cr_deliveries = map del_id ds,
          cr_disposition = (if rejected = None then Accepted else Rejected),
          cr_rejection = rejected\<rparr>"
    unfolding publish_command_def bind_tx_Inr ret_Inr by blast
  from ev obtain qs sqn where
    s1: "s1 = s\<lparr>drawn := Suc (drawn s), stream_sequences := qs, events := events s @ [v]\<rparr>"
    and row: "v = event_row e
       \<lparr>ne_region = cmd_region c,
        ne_type = (if rejected = None then ''command.accepted'' else ''command.rejected''),
        ne_payload = (case rejected of None \<Rightarrow> or_empty (si_payload i) | Some r \<Rightarrow> r),
        ne_stream = ''region:'' @ cmd_region c @ '':commands'',
        ne_correlation = Some (coalesce [si_correlation i] (cmd_id c)),
        ne_source_kind = ''command'', ne_command = Some (cmd_id c), ne_event = None,
        ne_execution = None, ne_attempt = None, ne_component = None, ne_port = None\<rparr>
       (new_uuid e (drawn s)) sqn"
    by (rule insert_event_Inr)
  have v: "ev_src_command v = Some (cmd_id c)"
      "ev_type v = (if rejected = None then ''command.accepted'' else ''command.rejected'')"
    by (simp_all add: row event_row_def)
  have add: "adds_deliveries (\<lambda>d. del_src_command d = Some (cmd_id c)) s1 ds s'"
    using route by (auto simp: tx_Inr adds_deliveries_Nil routeCommand_adds split: if_splits)
  then obtain n rows where s': "s' = s1\<lparr>drawn := n, deliveries := deliveries s1 @ rows\<rparr>"
    by (auto simp: adds_deliveries_def)
  have none: "rows = [] \<and> ds = []" if "rejected \<noteq> None"
  proof -
    have "s' = s1" and "ds = []" using route that by (auto simp: tx_Inr)
    then have "deliveries s1 @ rows = deliveries s1" using s' by (metis db.select_convs(11) db.surjective db.update_convs(11))
    with \<open>ds = []\<close> show ?thesis by simp
  qed
  show thesis
  proof (rule that [OF _ v(1) r])
    show "s' = s\<lparr>drawn := n, stream_sequences := qs, events := events s @ [v],
            deliveries := deliveries s @ rows\<rparr>" by (simp add: s' s1)
    show "set (deliveries s @ rows) = set ds \<union> set (deliveries s)"
      using add by (auto simp: adds_deliveries_def s' s1)
    show "\<forall>d\<in>set ds. del_src_command d = Some (cmd_id c)"
      using add by (auto simp: adds_deliveries_def list_all_iff)
  qed (use none v(2) in auto)
qed

text \<open>The next identifier is new: nothing in the store names it as its source.\<close>

definition next_command_fresh :: "env \<Rightarrow> db \<Rightarrow> bool" where
  "next_command_fresh e s \<longleftrightarrow>
     list_all (\<lambda>v. ev_src_command v \<noteq> Some (new_uuid e (drawn s))) (events s) \<and>
     list_all (\<lambda>d. del_src_command d \<noteq> Some (new_uuid e (drawn s))) (deliveries s)"

definition replayed :: "submit_result \<Rightarrow> submit_result" where
  "replayed r = r\<lparr>cr_disposition :=
     (if cr_disposition r = Rejected then Rejected else Replayed)\<rparr>"

lemma insert_command_Inr:
  "insert_command b c s = Inr (x, s') \<longleftrightarrow> command_ok c \<and>
     (if list_ex (same_command_key c) (commands s) then b \<and> x = None \<and> s' = s
      else x = Some c \<and> s' = s\<lparr>commands := commands s @ [c]\<rparr>)"
  by (auto simp: insert_command_def)

lemma same_command_key_find:
  "find_by_key (cmd_region c) (cmd_key c) s = None \<Longrightarrow> \<not> list_ex (same_command_key c) (commands s)"
  by (auto simp: find_by_key_def same_command_key_def list_ex_iff find_None_iff)

text \<open>A submission that succeeds either replays the command of its key or records a new one.\<close>

lemma submit_body_Inr:
  assumes "submit_body e i expires s = Inr (r, s')"
  obtains (replays) rgn c where
      "List.find (\<lambda>r. reg_name r = strip_slash (si_region i)) (regions s) = Some rgn"
      "truthy (si_key i)" "find_by_key (reg_id rgn) (si_key i) s = Some c"
      "replay c (submit_digest e i) s = Inr (r, s')"
  | (records) rgn revision c where
      "List.find (\<lambda>r. reg_name r = strip_slash (si_region i)) (regions s) = Some rgn"
      "truthy (si_key i) \<Longrightarrow> find_by_key (reg_id rgn) (si_key i) s = None"
      "c = command_row e i rgn expires (rejection_of e expires revision) (submit_digest e i)
             (new_uuid e (drawn s))"
      "command_ok c" "\<not> list_ex (same_command_key c) (commands s)"
      "publish_command e i revision (rejection_of e expires revision) c
         (s\<lparr>drawn := Suc (drawn s), commands := commands s @ [c]\<rparr>) = Inr (r, s')"
      "revision = (case reg_active_rev rgn of None \<Rightarrow> None
         | Some rid \<Rightarrow> List.find (\<lambda>t. rev_id t = rid) (topology_revisions s))"
proof -
  from assms obtain rgn where rgn: "List.find (\<lambda>r. reg_name r = strip_slash (si_region i)) (regions s) = Some rgn"
    by (auto simp: submit_body_def tx_Inr)
  let ?revision = "case reg_active_rev rgn of None \<Rightarrow> None
         | Some rid \<Rightarrow> List.find (\<lambda>t. rev_id t = rid) (topology_revisions s)"
  define existing where "existing = (if truthy (si_key i) then find_by_key (reg_id rgn) (si_key i) s else None)"
  let ?c = "command_row e i rgn expires (rejection_of e expires ?revision) (submit_digest e i)
             (new_uuid e (drawn s))"
  have keys: "cmd_region ?c = reg_id rgn" "cmd_key ?c = si_key i" by (simp_all add: command_row_def)
  show thesis
  proof (cases existing)
    case (Some old)
    with assms rgn have "replay old (submit_digest e i) s = Inr (r, s')"
      by (simp add: submit_body_def bind_tx_app get_app or_throw_app existing_def)
    with Some rgn show thesis by (intro replays) (auto simp: existing_def split: if_splits)
  next
    case None
    with assms rgn obtain x t where ins: "insert_command (truthy (si_key i)) ?c
        (s\<lparr>drawn := Suc (drawn s)\<rparr>) = Inr (x, t)"
      and cont: "(case x of Some c \<Rightarrow>
            publish_command e i ?revision (rejection_of e expires ?revision) c
         | None \<Rightarrow>
             bind_tx (get (find_by_key (reg_id rgn) (si_key i))) (\<lambda>concurrent.
             bind_tx (or_throw concurrent (NoResultError ''commands'')) (\<lambda>c.
             replay c (submit_digest e i)))) t = Inr (r, s')"
      by (auto simp: submit_body_def existing_def bind_tx_app get_app fresh_uuid_app or_throw_app
          Let_def split: sum.splits)
    have nokey: "truthy (si_key i) \<Longrightarrow> find_by_key (reg_id rgn) (si_key i) s = None"
      using None by (simp add: existing_def)
    have nodup: "\<not> list_ex (same_command_key ?c) (commands s)"
      if "truthy (si_key i)"
      by (rule same_command_key_find) (simp only: keys nokey [OF that])
    from ins nodup have ok: "command_ok ?c" and new: "\<not> list_ex (same_command_key ?c) (commands s)"
      and x: "x = Some ?c" and t: "t = s\<lparr>drawn := Suc (drawn s), commands := commands s @ [?c]\<rparr>"
      by (simp_all only: insert_command_Inr split: if_splits) simp_all
    show thesis
      by (rule records [OF rgn nokey refl ok new _ refl]) (use cont x t in simp_all)
  qed
qed

lemma replay_Inr:
  "replay c dg s = Inr (r, s') \<longleftrightarrow> s' = s \<and> cmd_digest c = dg \<and>
     (\<exists>v vs. sort_key (\<lambda>v. (ev_created v, ev_id v))
               (filter (\<lambda>v. ev_src_command v = Some (cmd_id c)) (events s)) = v # vs \<and>
        r = \<lparr>cr_command = cmd_id c, cr_status = cmd_status c,
          cr_correlation = coalesce [cmd_correlation c] '''', cr_event = ev_id v,
          cr_deliveries = map del_id (sort_key (\<lambda>d. (del_created d, del_id d))
                  (filter (\<lambda>d. del_src_command d = Some (cmd_id c)) (deliveries s))),
          cr_disposition = (if cmd_status c = CRejected then Rejected else Replayed),
          cr_rejection = cmd_rejection c\<rparr>)"
  by (auto simp: replay_def tx_Inr split: list.splits)

lemma replay_replayed: "replay c dg s = Inr (r, s') \<Longrightarrow> replayed r = r"
  by (auto simp: replay_Inr replayed_def)

text \<open>After a successful submission with a key, a lookup by that key finds a command whose
  replay gives the same result.\<close>

lemma submit_body_recorded:
  assumes body: "submit_body e i expires s = Inr (r, s')" and key: "truthy (si_key i)"
    and fresh: "next_command_fresh e s"
  shows "\<exists>rgn c ids.
     List.find (\<lambda>r. reg_name r = strip_slash (si_region i)) (regions s') = Some rgn \<and>
     find_by_key (reg_id rgn) (si_key i) s' = Some c \<and>
     replay c (submit_digest e i) s' = Inr ((replayed r)\<lparr>cr_deliveries := ids\<rparr>, s') \<and>
     set ids = set (cr_deliveries r)"
  using body
proof (cases rule: submit_body_Inr)
  case (replays rgn c)
  have "s' = s" using replays(4) by (simp add: replay_Inr)
  moreover have "(replayed r)\<lparr>cr_deliveries := cr_deliveries r\<rparr> = r"
    using replay_replayed [OF replays(4)] by simp
  ultimately show ?thesis using replays
    by (intro exI [of _ rgn] exI [of _ c] exI [of _ "cr_deliveries r"]) simp
next
  case (records rgn revision c)
  let ?rej = "rejection_of e expires revision"
  let ?s0 = "s\<lparr>drawn := Suc (drawn s), commands := commands s @ [c]\<rparr>"
  from records(6) obtain v n qs rows ds where
    s'0: "s' = ?s0\<lparr>drawn := n, stream_sequences := qs, events := events ?s0 @ [v],
            deliveries := deliveries ?s0 @ rows\<rparr>"
    and v: "ev_src_command v = Some (cmd_id c)"
    and r: "r = \<lparr>cr_command = cmd_id c, cr_status = cmd_status c,
          cr_correlation = coalesce [si_correlation i] (cmd_id c), cr_event = ev_id v,
          cr_deliveries = map del_id ds,
          cr_disposition = (if ?rej = None then Accepted else Rejected),
          cr_rejection = ?rej\<rparr>"
    and ds0: "set (deliveries ?s0 @ rows) = set ds \<union> set (deliveries ?s0)"
    and ds1: "\<forall>d\<in>set ds. del_src_command d = Some (cmd_id c)"
    by (rule publish_command_Inr)
  have s': "s' = s\<lparr>drawn := n, commands := commands s @ [c], stream_sequences := qs,
      events := events s @ [v], deliveries := deliveries s @ rows\<rparr>"
    by (simp add: s'0)
  have ds: "set (deliveries s @ rows) = set ds \<union> set (deliveries s)" using ds0 by simp
  have c: "cmd_id c = new_uuid e (drawn s)" "cmd_region c = reg_id rgn" "cmd_key c = si_key i"
    "cmd_digest c = submit_digest e i" "cmd_rejection c = ?rej"
    "cmd_status c = (if ?rej = None then CAccepted else CRejected)"
    "cmd_correlation c = Some (coalesce [si_correlation i] (cmd_id c))"
    by (simp_all add: records(3) command_row_def)
  have old: "\<forall>w\<in>set (events s). ev_src_command w \<noteq> Some (cmd_id c)"
    "\<forall>d\<in>set (deliveries s). del_src_command d \<noteq> Some (cmd_id c)"
    using fresh by (auto simp: next_command_fresh_def list_all_iff c(1))
  then have evs: "filter (\<lambda>w. ev_src_command w = Some (cmd_id c)) (events s') = [v]"
    by (simp add: s' v)
  let ?ids = "map del_id (sort_key (\<lambda>d. (del_created d, del_id d))
                  (filter (\<lambda>d. del_src_command d = Some (cmd_id c)) (deliveries s')))"
  have "find_by_key (reg_id rgn) (si_key i) s' = Some c"
    using records(2) [OF key] key
    by (simp add: find_by_key_def s' find_append_fresh c truthy_def)
  moreover have "replay c (submit_digest e i) s' = Inr ((replayed r)\<lparr>cr_deliveries := ?ids\<rparr>, s')"
    by (simp add: replay_Inr evs c(2-) r replayed_def)
  moreover have "set ?ids = set (cr_deliveries r)"
  proof -
    have "{d \<in> set (deliveries s'). del_src_command d = Some (cmd_id c)} = set ds"
      using ds ds1 old(2) by (auto simp: s')
    then show ?thesis by (simp add: r)
  qed
  moreover have "List.find (\<lambda>r. reg_name r = strip_slash (si_region i)) (regions s') = Some rgn"
    using records(1) by (simp add: s')
  ultimately show ?thesis by blast
qed

text \<open>The same host at another time.\<close>

definition at_time :: "env \<Rightarrow> int \<Rightarrow> int \<Rightarrow> env" where
  "at_time e t u = e\<lparr>clock := t, db_now := u\<rparr>"

lemma stringify_at_time [simp]: "stringify (at_time e t u) j = stringify e j"
proof (induction j)
  case (JObj kvs)
  have "stringify (at_time e t u) (snd kv) = stringify e (snd kv)" if "kv \<in> set kvs" for kv
    using JObj [of kv "snd kv"] that by (cases kv) simp
  then show ?case by (simp add: case_prod_beta cong: map_cong)
qed (simp_all add: at_time_def cong: map_cong)

lemma sha256_at_time [simp]: "sha256_hex (at_time e t u) = sha256_hex e"
  by (simp add: at_time_def)

lemma submit_digest_at_time [simp]: "submit_digest (at_time e t u) i = submit_digest e i"
  by (simp only: submit_digest_def commandRequestDigest_def json_digest_def canonical_text_def
      stringify_at_time sha256_at_time)

lemma parse_expiry_at_time [simp]: "parse_expiry (at_time e t u) x = parse_expiry e x"
  by (simp add: parse_expiry_def at_time_def)

lemma submit_Inr:
  "submit e i s = (Inr r, s') \<longleftrightarrow> \<not> blank (si_type i) \<and>
     (\<exists>x. parse_expiry e (si_expires i) = Inr x \<and> submit_body e i x s = Inr (r, s'))"
  by (auto simp: submit_def transaction_cases split: sum.splits)

lemma submit_body_existing:
  assumes "List.find (\<lambda>r. reg_name r = strip_slash (si_region i)) (regions s) = Some rgn"
    and "truthy (si_key i)" and "find_by_key (reg_id rgn) (si_key i) s = Some c"
  shows "submit_body e i expires s = replay c (submit_digest e i) s"
  using assms by (simp add: submit_body_def bind_tx_app get_app or_throw_app)

text \<open>The constraints survive.\<close>

lemma checks_insert_event: "keeps db_checks (insert_event e i)"
  unfolding insert_event_def
  by (intro keeps_bind keeps_guard checks_fresh_uuid keeps_ret)
    (auto intro!: keepsI simp: allocateSequence_def append_event_def db_checks_def
      split: option.splits if_splits)

lemma checks_insert_delivery: "keeps db_checks (insert_delivery d)"
  by (rule keepsI) (auto simp: insert_delivery_def db_checks_def Let_def split: option.splits if_splits)

lemma checks_insert_command: "keeps db_checks (insert_command b c)"
  by (rule keepsI) (auto simp: insert_command_def db_checks_def split: if_splits)

lemma checks_replay: "keeps db_checks (replay c dg)"
  by (rule keepsI) (auto simp: replay_Inr)

lemma checks_routeCommand: "keeps db_checks (routeCommand e c v)"
  unfolding routeCommand_def
  by (intro keeps_map keeps_bind keeps_get keeps_or_throw checks_fresh_uuid checks_insert_delivery)

lemma checks_routeComponentEvent: "keeps db_checks (routeComponentEvent e v rvn)"
  unfolding routeComponentEvent_def
  by (auto intro!: keeps_map checks_fresh_uuid checks_insert_delivery split: option.splits)

lemma checks_publish_command: "keeps db_checks (publish_command e i revision rejected c)"
  unfolding publish_command_def
  by (intro keeps_bind checks_insert_event keeps_if keeps_ret keeps_or_throw checks_routeCommand)

lemmas checks_command_intros =
  checks_insert_event checks_insert_delivery checks_insert_command checks_replay
  checks_routeCommand checks_routeComponentEvent checks_publish_command

lemma checks_submit_body: "keeps db_checks (submit_body e i x)"
  unfolding submit_body_def Let_def
  by (intro keeps_bind keeps_get keeps_or_throw keeps_option checks_command_intros
      checks_fresh_uuid)

text \<open>A keyed submission is one of the requests a client may send again.\<close>

interpretation submissions: keyed_request
  "\<lambda>t. submit (at_time e t t) i" "\<lambda>s. truthy (si_key i) \<and> next_command_fresh e s"
  "\<lambda>r r'. cr_command r' = cr_command r \<and> set (cr_deliveries r') = set (cr_deliveries r)"
proof
  show "submit (at_time e t t) i s = (Inl err, s') \<Longrightarrow> s' = s" for t s err s'
    by (auto simp: submit_def transaction_cases split: if_splits sum.splits)
  show "\<exists>r'. submit (at_time e u u) i s' = (Inr r', s') \<and>
      cr_command r' = cr_command r \<and> set (cr_deliveries r') = set (cr_deliveries r)"
    if fresh: "truthy (si_key i) \<and> next_command_fresh e s"
      and run: "submit (at_time e t t) i s = (Inr r, s')" for t s r s' u
  proof -
    from run obtain x where x: "\<not> blank (si_type i)" "parse_expiry e (si_expires i) = Inr x"
      and body: "submit_body (at_time e t t) i x s = Inr (r, s')" by (auto simp: submit_Inr)
    have "next_command_fresh (at_time e t t) s" using fresh by (simp add: next_command_fresh_def at_time_def)
    from submit_body_recorded [OF body _ this] fresh obtain rgn c ids where
      "List.find (\<lambda>r. reg_name r = strip_slash (si_region i)) (regions s') = Some rgn"
      "find_by_key (reg_id rgn) (si_key i) s' = Some c"
      "replay c (submit_digest (at_time e t t) i) s' = Inr ((replayed r)\<lparr>cr_deliveries := ids\<rparr>, s')"
      "set ids = set (cr_deliveries r)" by blast
    with x fresh show ?thesis by (auto simp: submit_Inr submit_body_existing replayed_def)
  qed
qed

text \<open>A command that is submitted again and again is recorded at most once.\<close>

lemma submit_once:
  assumes "truthy (si_key i)" and "next_command_fresh e s"
  shows "resent (\<lambda>t. submit (at_time e t t) i) ts s = s \<or>
    (\<exists>t\<in>set ts. \<exists>r. submit (at_time e t t) i s = (Inr r, resent (\<lambda>t. submit (at_time e t t) i) ts s))"
  using submissions.once assms by blast

subsection \<open>Properties\<close>

text \<open>The event log is append-only and gapless: an admissible event is always inserted,
  never refused by the uniqueness of (stream, sequence number), carries the next number of its
  stream, and the numbers of every stream stay 1, 2, 3, .. in order of insertion.\<close>

theorem insert_event_appends:
  assumes "streams_gapless s" and "event_admissible i"
  shows "\<exists>v s'. insert_event e i s = Inr (v, s') \<and> streams_gapless s' \<and>
     ev_seq v = next_seq s (ne_stream i) \<and> events s' = events s @ [v]"
proof -
  obtain v s' where "insert_event e i s = Inr (v, s')" "streams_gapless s'"
    "ev_seq v = next_seq s (ne_stream i)" "events s' = events s @ [v]"
    using assms by (rule insert_event_gapless)
  then show ?thesis by blast
qed

definition sample_event :: new_event where
  "sample_event = \<lparr>ne_region = ''r'', ne_type = ''tick'', ne_payload = JNull,
     ne_stream = ''region:r'', ne_correlation = None, ne_source_kind = ''system'',
     ne_command = None, ne_event = None, ne_execution = None, ne_attempt = None,
     ne_component = None, ne_port = None\<rparr>"

theorem insert_event_appends_witness:
  "\<exists>v s'. insert_event sample_env sample_event empty_db = Inr (v, s') \<and> streams_gapless s' \<and>
     ev_seq v = next_seq empty_db ''region:r'' \<and> events s' = events empty_db @ [v]"
  using insert_event_appends [of empty_db sample_event sample_env]
  by (simp add: streams_gapless_def next_seq_def empty_db_def event_admissible_def
      sample_event_def)

text \<open>C15. Submission is idempotent: once a submission with an idempotency key has succeeded,
  submitting the same request again, at any later time, returns the recorded outcome (same
  command, event, status, rejection and set of deliveries; an accepted one is reported as
  replayed) and writes nothing. The hypothesis is that the identifier drawn for the command was
  not in use.\<close>

theorem submit_idempotent:
  assumes "submit e i s = (Inr r, s')" and "truthy (si_key i)" and "next_command_fresh e s"
  shows "\<exists>ids. submit (at_time e t u) i s' = (Inr ((replayed r)\<lparr>cr_deliveries := ids\<rparr>), s') \<and>
     set ids = set (cr_deliveries r)"
proof -
  from assms(1) obtain x where x: "\<not> blank (si_type i)" "parse_expiry e (si_expires i) = Inr x"
    and body: "submit_body e i x s = Inr (r, s')" by (auto simp: submit_Inr)
  from submit_body_recorded [OF body assms(2,3)] obtain rgn c ids where
    "List.find (\<lambda>r. reg_name r = strip_slash (si_region i)) (regions s') = Some rgn"
    "find_by_key (reg_id rgn) (si_key i) s' = Some c"
    "replay c (submit_digest e i) s' = Inr ((replayed r)\<lparr>cr_deliveries := ids\<rparr>, s')"
    "set ids = set (cr_deliveries r)" by blast
  with x assms(2) show ?thesis by (auto simp: submit_Inr submit_body_existing)
qed

text \<open>An idempotency key is bound to one request: after a successful submission, a request
  to the same region under the same key with a different digest is refused with a conflict and
  the store is unchanged.\<close>

theorem submit_key_conflict:
  assumes "submit e i s = (Inr r, s')" and "truthy (si_key i)" and "next_command_fresh e s"
    and "si_key j = si_key i" and "si_region j = si_region i" and "\<not> blank (si_type j)"
    and "parse_expiry e (si_expires j) = Inr y" and "submit_digest e j \<noteq> submit_digest e i"
  shows "submit (at_time e t u) j s' = (Inl CommandConflictError, s')"
proof -
  from assms(1) obtain x where body: "submit_body e i x s = Inr (r, s')" by (auto simp: submit_Inr)
  from submit_body_recorded [OF body assms(2,3)] obtain rgn c ids where
    "List.find (\<lambda>r. reg_name r = strip_slash (si_region i)) (regions s') = Some rgn"
    "find_by_key (reg_id rgn) (si_key i) s' = Some c"
    and rep: "replay c (submit_digest e i) s' = Inr ((replayed r)\<lparr>cr_deliveries := ids\<rparr>, s')"
    by blast
  moreover have "cmd_digest c \<noteq> submit_digest e j" using rep assms(8) by (auto simp: replay_Inr)
  ultimately show ?thesis using assms(2,4,5,6,7)
    by (simp add: submit_def submit_body_existing replay_def transaction_def bind_tx_app guard_app)
qed

text \<open>A store with one running region whose topology routes the command type \<open>go\<close>.\<close>

definition sample_store :: db where
  "sample_store = empty_db\<lparr>regions := [\<lparr>reg_id = ''r'', reg_parent = None, reg_name = ''inv'',
       reg_status = RRunning, reg_epoch = 0, reg_active_rev = Some ''v''\<rparr>],
     topology_revisions := [\<lparr>rev_id = ''v'', rev_region = ''r'', rev_number = 1, rev_digest = ''h'', rev_topology =
       JObj [(''ingress'', JObj [(''commands'', JObj [(''go'', JObj [(''targets'',
         JArr [JObj [(''component'', JStr ''c''), (''port'', JStr ''in'')]])])])])]\<rparr>],
     component_instances := [\<lparr>ci_id = ''ci'', ci_region = ''r'', ci_rev = ''v'', ci_def = ''d'', ci_name = ''c'',
       ci_configuration = JObj []\<rparr>]\<rparr>"

definition sample_submit :: submit_input where
  "sample_submit = \<lparr>si_region = ''/inv'', si_type = ''go'', si_source = None, si_payload = None,
     si_correlation = None, si_key = Some ''k'', si_expires = None\<rparr>"

lemma sample_submit_accepted:
  "case fst (submit sample_env sample_submit sample_store) of Inl _ \<Rightarrow> False
     | Inr r \<Rightarrow> cr_disposition r = Accepted \<and> length (cr_deliveries r) = 1"
  by code_simp

lemma sample_submit_runs:
  obtains r s' where "submit sample_env sample_submit sample_store = (Inr r, s')"
    and "cr_disposition r = Accepted" and "length (cr_deliveries r) = 1"
  using sample_submit_accepted
  by (cases "submit sample_env sample_submit sample_store") (auto split: sum.splits)

lemma sample_submit_fresh: "next_command_fresh sample_env sample_store"
  by (simp add: next_command_fresh_def sample_store_def empty_db_def)

theorem submit_idempotent_witness:
  "\<exists>r s' ids. submit sample_env sample_submit sample_store = (Inr r, s') \<and>
     cr_disposition r = Accepted \<and> length (cr_deliveries r) = 1 \<and>
     submit (at_time sample_env 2000 2000) sample_submit s'
       = (Inr ((replayed r)\<lparr>cr_deliveries := ids\<rparr>), s') \<and> set ids = set (cr_deliveries r)"
proof -
  obtain r s' where "submit sample_env sample_submit sample_store = (Inr r, s')"
    "cr_disposition r = Accepted" "length (cr_deliveries r) = 1" by (rule sample_submit_runs)
  with submit_idempotent [of sample_env sample_submit sample_store r s' 2000 2000]
    sample_submit_fresh show ?thesis by (auto simp: truthy_def sample_submit_def)
qed

theorem submit_key_conflict_witness:
  "\<exists>r s'. submit sample_env sample_submit sample_store = (Inr r, s') \<and>
     submit (at_time sample_env 2000 2000) (sample_submit\<lparr>si_type := ''stop''\<rparr>) s'
       = (Inl CommandConflictError, s')"
proof -
  obtain r s' where run: "submit sample_env sample_submit sample_store = (Inr r, s')"
    by (rule sample_submit_runs)
  have "submit_digest sample_env (sample_submit\<lparr>si_type := ''stop''\<rparr>)
      \<noteq> submit_digest sample_env sample_submit" by code_simp
  moreover have "\<not> blank (si_type (sample_submit\<lparr>si_type := ''stop''\<rparr>))" by code_simp
  ultimately have "submit (at_time sample_env 2000 2000) (sample_submit\<lparr>si_type := ''stop''\<rparr>) s'
       = (Inl CommandConflictError, s')"
    using submit_key_conflict [OF run _ sample_submit_fresh, of "sample_submit\<lparr>si_type := ''stop''\<rparr>"]
    by (simp add: truthy_def sample_submit_def parse_expiry_def)
  with run show ?thesis by blast
qed

text \<open>A command whose expiry has passed is recorded as rejected: no delivery is created
  for it, its only event is \<open>command.rejected\<close>, and the result names the reason.\<close>

theorem submit_expired_rejected:
  assumes "submit e i s = (Inr r, s')" and "parse_expiry e (si_expires i) = Inr (Some t)"
    and "t \<le> clock e" and "\<forall>rgn. find_by_key rgn (si_key i) s = None"
  shows "cr_disposition r = Rejected \<and> cr_deliveries r = [] \<and> deliveries s' = deliveries s \<and>
     cr_rejection r = Some (rejection_json ''command_expired'' ''Command expiry is in the past'') \<and>
     (\<exists>v. events s' = events s @ [v] \<and> ev_type v = ''command.rejected'')"
proof -
  from assms(1,2) have body: "submit_body e i (Some t) s = Inr (r, s')" by (auto simp: submit_Inr)
  then show ?thesis
  proof (cases rule: submit_body_Inr)
    case (replays rgn c)
    with assms(4) show ?thesis by simp
  next
    case (records rgn revision c)
    have "rejection_of e (Some t) revision
        = Some (rejection_json ''command_expired'' ''Command expiry is in the past'')"
      using assms(3) by (simp add: rejection_of_def)
    with records(6) show ?thesis by (auto elim!: publish_command_Inr)
  qed
qed

theorem submit_expired_rejected_witness:
  "\<exists>r s'. submit sample_env (sample_submit\<lparr>si_expires := Some ''1970''\<rparr>) sample_store = (Inr r, s') \<and>
     cr_disposition r = Rejected \<and> deliveries s' = deliveries sample_store"
proof -
  let ?i = "sample_submit\<lparr>si_expires := Some ''1970''\<rparr>"
  have "case fst (submit sample_env ?i sample_store) of Inl _ \<Rightarrow> False | Inr r \<Rightarrow> True" by code_simp
  then obtain r s' where run: "submit sample_env ?i sample_store = (Inr r, s')"
    by (cases "submit sample_env ?i sample_store") (auto split: sum.splits)
  have "parse_expiry sample_env (si_expires ?i) = Inr (Some 0)"
    by (simp add: parse_expiry_def truthy_def sample_env_def)
  from submit_expired_rejected [OF run this] have
    "cr_disposition r = Rejected \<and> deliveries s' = deliveries sample_store"
    by (simp add: sample_env_def find_by_key_def sample_store_def empty_db_def)
  with run show ?thesis by blast
qed

end
