(* ===== verification/Scheduler.thy ===== *)
theory Scheduler
  imports Admission Commands
begin

section \<open>The execution lease scheduler\<close>

text \<open>
  \<open>scheduling/scheduler-service.ts\<close>: one poll of a worker. Ready deliveries are grouped by
  region, topology revision, target component and correlation; the first group whose inputs are
  complete (each port with the number of deliveries its fan-in rule expects) becomes an
  execution, an attempt and a lease. A group that is not complete is looked at again after
  250 ms. Row locks need no counterpart: a transaction is one step of the model.
\<close>

subsection \<open>JavaScript conversions\<close>

fun js_text :: "env \<Rightarrow> json \<Rightarrow> string" where
  "js_text e JNull = ''null''"
| "js_text e (JBool b) = (if b then ''true'' else ''false'')"
| "js_text e (JNum q) = num_text e q"
| "js_text e (JStr s) = s"
| "js_text e (JArr js) = join '','' (map (\<lambda>j. if j = JNull then '''' else js_text e j) js)"
| "js_text e (JObj kvs) = ''[object Object]''"

text \<open>\<open>Number(x)\<close>; \<open>None\<close> is NaN.\<close>

fun js_to_number :: "env \<Rightarrow> json \<Rightarrow> rat option" where
  "js_to_number e JNull = Some 0"
| "js_to_number e (JBool b) = Some (if b then 1 else 0)"
| "js_to_number e (JNum q) = Some q"
| "js_to_number e (JStr s) = number_parse e s"
| "js_to_number e (JArr js) = number_parse e (js_text e (JArr js))"
| "js_to_number e (JObj kvs) = None"

fun split_on :: "char \<Rightarrow> string \<Rightarrow> string list" where
  "split_on c [] = [[]]"
| "split_on c (x # xs) =
     (if x = c then [] # split_on c xs
      else (case split_on c xs of [] \<Rightarrow> [[x]] | p # ps \<Rightarrow> (x # p) # ps))"

subsection \<open>Fan-in rules\<close>

text \<open>One rule \<open>{input: 'instance.port', completion: {expected: n}}\<close>.\<close>

definition fan_in_rule :: "env \<Rightarrow> string \<Rightarrow> json \<Rightarrow> (string \<times> nat) option" where
  "fan_in_rule e name rule =
     (let parts = split_on CHR ''.''
            (case json_field rule ''input'' of None \<Rightarrow> '''' | Some j \<Rightarrow>
               if j = JNull then '''' else js_text e j) in
      case parts of
        inst # port # _ \<Rightarrow>
          (if inst \<noteq> name then None
           else case json_field rule ''completion'' of None \<Rightarrow> None | Some c \<Rightarrow>
             (case json_field c ''expected'' of None \<Rightarrow> None | Some x \<Rightarrow>
               (case js_to_number e x of None \<Rightarrow> None | Some q \<Rightarrow>
                 (if snd (quotient_of q) = 1 \<and> 0 < q then Some (port, nat \<lfloor>q\<rfloor>) else None))))
      | _ \<Rightarrow> None)"

definition fan_in_rules :: "json \<Rightarrow> json list" where
  "fan_in_rules topology =
     (case json_path topology [''spec'', ''fanIn''] of
        Some r \<Rightarrow> json_items r
      | None \<Rightarrow> (case json_path topology [''fanIn''] of Some r \<Rightarrow> json_items r | None \<Rightarrow> []))"

text \<open>Reading a field of a null rule is a \<open>TypeError\<close>.\<close>

definition fan_in_expected :: "env \<Rightarrow> json \<Rightarrow> string \<Rightarrow> error + (string \<rightharpoonup> nat)" where
  "fan_in_expected e topology name =
     (if JNull \<in> set (fan_in_rules topology)
      then Inl (PlainError ''Cannot read properties of null of a rule'')
      else Inr (map_of (rev (List.map_filter (fan_in_rule e name) (fan_in_rules topology)))))"

definition expected_count :: "(string \<rightharpoonup> nat) \<Rightarrow> string \<Rightarrow> nat" where
  "expected_count fan port = (case fan port of None \<Rightarrow> 1 | Some n \<Rightarrow> n)"

subsection \<open>Candidates\<close>

record lease_options =
  lo_worker :: string
  lo_duration :: js_number
  lo_selectors :: "string list option"

record leased_attempt =
  le_execution :: string
  le_attempt :: string
  le_number :: nat
  le_token :: string
  le_expires :: int
  le_inputs :: "(string \<times> string \<times> json) list"

definition CANDIDATE_GROUP_LIMIT :: nat where
  "CANDIDATE_GROUP_LIMIT = 50"

definition INCOMPLETE_GROUP_RECHECK_MS :: int where
  "INCOMPLETE_GROUP_RECHECK_MS = 250"

definition group_of :: "delivery \<Rightarrow> string \<times> string \<times> string \<times> string" where
  "group_of d = (del_region d, del_rev d, del_target d, del_correlation d)"

definition group_text :: "delivery \<Rightarrow> string" where
  "group_text d = join '':'' [del_region d, del_rev d, del_target d, del_correlation d]"

definition candidate_rank :: "delivery \<Rightarrow> int \<times> int \<times> string" where
  "candidate_rank d = (del_available d, del_created d, del_id d)"

definition selector_matches :: "string list option \<Rightarrow> db \<Rightarrow> delivery \<Rightarrow> bool" where
  "selector_matches sel s d \<longleftrightarrow>
     list_ex (\<lambda>ci. ci_id ci = del_target d \<and>
       list_ex (\<lambda>cd. cdef_id cd = ci_def ci \<and>
         (case sel of None \<Rightarrow> True
          | Some names \<Rightarrow> cdef_name cd @ ''@'' @ cdef_version cd \<in> set names))
         (component_definitions s))
       (component_instances s)"

text \<open>\<open>row_number() over (partition by the group order by the rank) = 1\<close>.\<close>

function group_heads :: "delivery list \<Rightarrow> delivery list" where
  "group_heads [] = []"
| "group_heads (d # ds) = d # group_heads (filter (\<lambda>x. group_of x \<noteq> group_of d) ds)"
  by pat_completeness auto
termination by (relation "measure length") (auto simp: le_imp_less_Suc)

definition lease_candidates :: "int \<Rightarrow> string list option \<Rightarrow> db \<Rightarrow> delivery list" where
  "lease_candidates now sel s =
     take CANDIDATE_GROUP_LIMIT
       (group_heads (sort_key candidate_rank
         (filter (\<lambda>d. del_status d = DReady \<and> del_available d \<le> now \<and> selector_matches sel s d)
           (deliveries s))))"

subsection \<open>One candidate\<close>

definition defer_group :: "int \<Rightarrow> delivery \<Rightarrow> (db, leased_attempt option) tx" where
  "defer_group now c =
     bind_tx (update_deliveries
       (\<lambda>d. del_status d = DReady \<and> group_of d = group_of c \<and> del_available d \<le> now)
       (\<lambda>d. d\<lparr>del_available := now + INCOMPLETE_GROUP_RECHECK_MS\<rparr>)) (\<lambda>_. ret None)"

definition ready_in_group :: "int \<Rightarrow> delivery \<Rightarrow> delivery \<Rightarrow> bool" where
  "ready_in_group now c d \<longleftrightarrow>
     del_status d = DReady \<and> group_of d = group_of c \<and> del_available d \<le> now"

definition input_ports :: "component_instance \<Rightarrow> db \<Rightarrow> port_definition list" where
  "input_ports ci s =
     sort_key port_name
       (filter (\<lambda>p. port_def p = ci_def ci \<and> port_direction p = PInput) (port_definitions s))"

definition port_deliveries :: "int \<Rightarrow> delivery \<Rightarrow> string \<Rightarrow> db \<Rightarrow> delivery list" where
  "port_deliveries now c port s =
     sort_key (\<lambda>d. (del_created d, del_id d))
       (filter (\<lambda>d. ready_in_group now c d \<and> del_port d = port) (deliveries s))"

text \<open>The deliveries of the required ports; \<open>None\<close> as soon as one port has not exactly the
  expected number.\<close>

fun required_inputs ::
  "int \<Rightarrow> delivery \<Rightarrow> (string \<rightharpoonup> nat) \<Rightarrow> db \<Rightarrow> port_definition list \<Rightarrow> delivery list option" where
  "required_inputs now c fan s [] = Some []"
| "required_inputs now c fan s (p # ps) =
     (let rows = port_deliveries now c (port_name p) s in
      if length rows \<noteq> expected_count fan (port_name p) then None
      else map_option (\<lambda>rest. rows @ rest) (required_inputs now c fan s ps))"

definition optional_ports :: "component_instance \<Rightarrow> db \<Rightarrow> string list" where
  "optional_ports ci s = map port_name (filter (\<lambda>p. \<not> port_required p) (input_ports ci s))"

text \<open>The deliveries of the optional ports, port by port: too many at a port is \<open>None\<close>, too
  few leaves the port out.\<close>

fun optional_inputs ::
  "int \<Rightarrow> delivery \<Rightarrow> (string \<rightharpoonup> nat) \<Rightarrow> db \<Rightarrow> string list \<Rightarrow> delivery list option" where
  "optional_inputs now c fan s [] = Some []"
| "optional_inputs now c fan s (p # ps) =
     (let rows = port_deliveries now c p s in
      if expected_count fan p < length rows then None
      else map_option (\<lambda>rest. (if length rows = expected_count fan p then rows else []) @ rest)
             (optional_inputs now c fan s ps))"

definition select_inputs ::
  "int \<Rightarrow> delivery \<Rightarrow> (string \<rightharpoonup> nat) \<Rightarrow> component_instance \<Rightarrow> db \<Rightarrow> delivery list option" where
  "select_inputs now c fan ci s =
     (case required_inputs now c fan s (filter port_required (input_ports ci s)) of
        None \<Rightarrow> None
      | Some req \<Rightarrow>
          (case optional_inputs now c fan s (optional_ports ci s) of
             None \<Rightarrow> None
           | Some opt \<Rightarrow> if req @ opt = [] then None else Some (req @ opt)))"

definition input_order :: "env \<Rightarrow> delivery \<Rightarrow> delivery \<Rightarrow> int" where
  "input_order e l r =
     (let k = locale_compare e (del_port l) (del_port r)
      in if k \<noteq> 0 then k else locale_compare e (del_id l) (del_id r))"

definition delivery_identity :: "delivery \<Rightarrow> input_identity" where
  "delivery_identity d =
     \<lparr>ii_port = del_port d, ii_delivery = del_id d,
      ii_source_kind = (if truthy (del_src_command d) then ''command'' else ''event''),
      ii_source = coalesce [del_src_command d, del_src_event d] '''',
      ii_digest = del_digest d\<rparr>"

definition insert_input :: "env \<Rightarrow> string \<Rightarrow> delivery \<Rightarrow> (db, unit) tx" where
  "insert_input e xid d =
     bind_tx (fresh_uuid e) (\<lambda>_. modify (\<lambda>s.
       if list_ex (\<lambda>i. inp_execution i = xid \<and> inp_port i = del_port d \<and> inp_delivery i = del_id d)
            (execution_inputs s)
       then s
       else s\<lparr>execution_inputs := execution_inputs s @
              [\<lparr>inp_execution = xid, inp_port = del_port d, inp_delivery = del_id d,
                inp_payload = del_payload d\<rparr>]\<rparr>))"

text \<open>The attempt to lease: the first due pending one, or a new first attempt; nothing when
  the execution has attempts but none is due.\<close>

definition due_attempts :: "int \<Rightarrow> string \<Rightarrow> db \<Rightarrow> attempt list" where
  "due_attempts now xid s =
     sort_key att_number
       (filter (\<lambda>a. att_execution a = xid \<and> att_status a = APending \<and>
                 (case att_started a of None \<Rightarrow> True | Some t \<Rightarrow> t \<le> now)) (attempts s))"

definition lease_fields :: "string \<Rightarrow> string \<Rightarrow> int \<Rightarrow> int \<Rightarrow> attempt \<Rightarrow> attempt" where
  "lease_fields worker tok until now a =
     a\<lparr>att_status := ALeased, att_owner := Some worker, att_token := Some tok,
       att_expires := Some until, att_started := Some now\<rparr>"

definition lease_attempt ::
  "env \<Rightarrow> string \<Rightarrow> int \<Rightarrow> int \<Rightarrow> string \<Rightarrow> (db, attempt option) tx" where
  "lease_attempt e worker now until xid =
     bind_tx (get (due_attempts now xid)) (\<lambda>due.
     case due of
       a # _ \<Rightarrow>
         bind_tx (fresh_token e) (\<lambda>tok.
         bind_tx (update_attempts (\<lambda>b. att_id b = att_id a) (lease_fields worker tok until now)) (\<lambda>_.
         ret (Some (lease_fields worker tok until now a))))
     | [] \<Rightarrow>
         bind_tx (get (\<lambda>s. list_ex (\<lambda>a. att_execution a = xid) (attempts s))) (\<lambda>existing.
         if existing then ret None
         else
           bind_tx (fresh_uuid e) (\<lambda>aid.
           bind_tx (fresh_token e) (\<lambda>tok.
           let a = \<lparr>att_id = aid, att_execution = xid, att_number = 1, att_status = ALeased,
                    att_owner = Some worker, att_token = Some tok, att_expires = Some until,
                    att_started = Some now, att_completed_at = None, att_failure = None\<rparr>
           in bind_tx (insert_attempt a) (\<lambda>_. ret (Some a))))))"

definition create_execution ::
  "env \<Rightarrow> delivery \<Rightarrow> region \<Rightarrow> string \<Rightarrow> string \<Rightarrow> (db, execution) tx" where
  "create_execution e c rgn trigger digest =
     bind_tx (fresh_uuid e) (\<lambda>xid.
     let x = \<lparr>exe_id = xid, exe_delivery = trigger, exe_region = del_region c,
              exe_component = del_target c, exe_rev = del_rev c, exe_epoch = reg_epoch rgn,
              exe_digest = digest, exe_status = ERunning, exe_completed_at = None,
              exe_failed_at = None, exe_failure = None\<rparr>
     in bind_tx (insert_execution x) (\<lambda>_. ret x))"

definition delete_execution :: "string \<Rightarrow> (db, unit) tx" where
  "delete_execution xid =
     modify (\<lambda>s. s\<lparr>executions := filter (\<lambda>x. exe_id x \<noteq> xid) (executions s)\<rparr>)"

definition lease_delivery :: "attempt \<Rightarrow> string \<Rightarrow> delivery \<Rightarrow> delivery" where
  "lease_delivery a worker d =
     d\<lparr>del_status := DLeased, del_owner := Some worker, del_token := att_token a,
       del_expires := att_expires a, del_attempts := del_attempts d + 1\<rparr>"

definition leased_result :: "string \<Rightarrow> attempt \<Rightarrow> delivery list \<Rightarrow> leased_attempt" where
  "leased_result xid a selected =
     \<lparr>le_execution = xid, le_attempt = att_id a, le_number = att_number a,
      le_token = coalesce [att_token a] '''', le_expires = coalesce [att_expires a] 0,
      le_inputs = map (\<lambda>d. (del_port d, del_id d, del_payload d)) selected\<rparr>"

text \<open>The part of \<open>tryCandidate\<close> after the inputs are chosen.\<close>

definition lease_selected ::
  "env \<Rightarrow> string \<Rightarrow> int \<Rightarrow> int \<Rightarrow> delivery \<Rightarrow> region \<Rightarrow> delivery list \<Rightarrow> (db, leased_attempt option) tx"
where
  "lease_selected e worker now until c rgn selected =
     (let digest = inputSetDigest e (map delivery_identity selected);
          trigger = hd (sort_cmp (\<lambda>l r. locale_compare e (del_id l) (del_id r)) selected) in
      bind_tx (get (\<lambda>s. List.find (\<lambda>x. exe_region x = del_region c \<and> exe_component x = del_target c \<and>
                 exe_rev x = del_rev c \<and> exe_epoch x = reg_epoch rgn \<and> exe_digest x = digest)
               (executions s))) (\<lambda>existing.
      if (case existing of None \<Rightarrow> False | Some x \<Rightarrow> exe_status x \<noteq> ERunning)
      then defer_group now c
      else
        bind_tx (case existing of Some x \<Rightarrow> ret x
                 | None \<Rightarrow> create_execution e c rgn (del_id trigger) digest) (\<lambda>x.
        bind_tx (reserveExecutionLeaseAdmission e (del_region c) (exe_id x) None) (\<lambda>admission.
        if \<not> executionLeaseMayProceed admission
        then bind_tx (if existing = None then delete_execution (exe_id x) else ret ()) (\<lambda>_.
               defer_group now c)
        else
          bind_tx (for_tx selected (insert_input e (exe_id x))) (\<lambda>_.
          bind_tx (lease_attempt e worker now until (exe_id x)) (\<lambda>leased.
          case leased of
            None \<Rightarrow> defer_group now c
          | Some a \<Rightarrow>
              bind_tx (update_deliveries (\<lambda>d. del_id d \<in> del_id ` set selected)
                         (lease_delivery a worker)) (\<lambda>_.
              ret (Some (leased_result (exe_id x) a selected)))))))))"

definition tryCandidate ::
  "env \<Rightarrow> string \<Rightarrow> int \<Rightarrow> int \<Rightarrow> delivery \<Rightarrow> (db, leased_attempt option) tx" where
  "tryCandidate e worker now until c =
     (if \<not> advisory_free e (group_text c) then ret None
      else
        bind_tx (get (\<lambda>s. List.find (\<lambda>r. reg_id r = del_region c) (regions s))) (\<lambda>region.
        bind_tx (or_throw region (NoResultError ''regions'')) (\<lambda>rgn.
        if reg_status rgn \<noteq> RRunning then defer_group now c
        else
          bind_tx (get (\<lambda>s. List.find (\<lambda>i. ci_id i = del_target c) (component_instances s))) (\<lambda>component.
          bind_tx (or_throw component (NoResultError ''component_instances'')) (\<lambda>ci.
          bind_tx (get (\<lambda>s. List.find (\<lambda>t. rev_id t = del_rev c) (topology_revisions s))) (\<lambda>revision.
          bind_tx (or_throw revision (NoResultError ''topology_revisions'')) (\<lambda>tr.
          case fan_in_expected e (rev_topology tr) (ci_name ci) of
            Inl err \<Rightarrow> throw err
          | Inr fan \<Rightarrow>
              bind_tx (get (input_ports ci)) (\<lambda>ports.
              if \<not> list_ex (\<lambda>p. port_name p = del_port c) ports then defer_group now c
              else
                bind_tx (get (select_inputs now c fan ci)) (\<lambda>chosen.
                case chosen of
                  None \<Rightarrow> defer_group now c
                | Some inputs \<Rightarrow>
                    lease_selected e worker now until c rgn
                      (sort_cmp (input_order e) inputs))))))))))"

fun try_candidates ::
  "env \<Rightarrow> string \<Rightarrow> int \<Rightarrow> int \<Rightarrow> delivery list \<Rightarrow> (db, leased_attempt option) tx" where
  "try_candidates e worker now until [] = ret None"
| "try_candidates e worker now until (c # cs) =
     bind_tx (tryCandidate e worker now until c) (\<lambda>scheduled.
     case scheduled of Some l \<Rightarrow> ret (Some l) | None \<Rightarrow> try_candidates e worker now until cs)"

definition leaseNextAttempt :: "env \<Rightarrow> lease_options \<Rightarrow> (db, leased_attempt option) io" where
  "leaseNextAttempt e opts = (\<lambda>s.
     case validateLeaseDuration (lo_duration opts) of
       Inl err \<Rightarrow> (Inl err, s)
     | Inr ms \<Rightarrow>
         if lo_selectors opts = Some [] then (Inr None, s)
         else transaction
           (bind_tx (get (lease_candidates (clock e) (lo_selectors opts)))
              (try_candidates e (lo_worker opts) (clock e) (clock e + ms))) s)"

definition listExpiredLeases :: "int \<Rightarrow> db \<Rightarrow> attempt list" where
  "listExpiredLeases now s =
     filter (\<lambda>a. (att_status a = ALeased \<or> att_status a = ARunning) \<and>
               (case att_expires a of None \<Rightarrow> False | Some t \<Rightarrow> t < now)) (attempts s)"

subsection \<open>A poll that leases nothing\<close>

text \<open>Two stores that differ only in when ready deliveries are looked at again, in the
  execution bookkeeping and in the admission log.\<close>

definition postponed :: "db \<Rightarrow> db \<Rightarrow> bool" where
  "postponed s s' \<longleftrightarrow>
     attempts s' = attempts s \<and> regions s' = regions s \<and>
     component_instances s' = component_instances s \<and>
     component_definitions s' = component_definitions s \<and>
     port_definitions s' = port_definitions s \<and> topology_revisions s' = topology_revisions s \<and>
     map (\<lambda>d. d\<lparr>del_available := 0\<rparr>) (deliveries s')
       = map (\<lambda>d. d\<lparr>del_available := 0\<rparr>) (deliveries s)"

lemma postponed_refl [simp]: "postponed s s"
  by (simp add: postponed_def)

lemma postponed_trans: "postponed s t \<Longrightarrow> postponed t u \<Longrightarrow> postponed s u"
  by (simp add: postponed_def)

lemma defer_group_Inr:
  assumes "defer_group now c s = Inr (r, s')"
  shows "r = None" and "postponed s s'" and "executions s' = executions s"
proof -
  from assms show "r = None" "executions s' = executions s"
    by (auto simp: defer_group_def bind_tx_app ret_app update_deliveries_eq split: if_splits)
  from assms have "s' = s\<lparr>deliveries := set_rows
       (\<lambda>d. del_status d = DReady \<and> group_of d = group_of c \<and> del_available d \<le> now)
       (\<lambda>d. d\<lparr>del_available := now + INCOMPLETE_GROUP_RECHECK_MS\<rparr>) (deliveries s)\<rparr>"
    by (auto simp: defer_group_def bind_tx_app ret_app update_deliveries_eq split: if_splits)
  then show "postponed s s'" by (simp add: postponed_def map_set_rows)
qed

lemma postponed_delivery:
  assumes "postponed s s'" and "d \<in> set (deliveries s')"
  obtains a where "d\<lparr>del_available := a\<rparr> \<in> set (deliveries s)"
proof -
  have "d\<lparr>del_available := 0\<rparr> \<in> set (map (\<lambda>d. d\<lparr>del_available := 0\<rparr>) (deliveries s))"
    using assms by (metis (no_types, lifting) image_eqI list.set_map postponed_def)
  then obtain d0 where d0: "d0 \<in> set (deliveries s)" "d\<lparr>del_available := 0\<rparr> = d0\<lparr>del_available := 0\<rparr>"
    by auto
  then have "d\<lparr>del_available := del_available d0\<rparr> = d0"
    by (metis delivery.surjective delivery.update_convs(12))
  with d0 that show thesis by metis
qed

lemma tryCandidate_Inr:
  assumes "tryCandidate e w now until c s = Inr (r, s')"
  obtains (locked) "r = None" and "s' = s"
  | (deferred) "defer_group now c s = Inr (r, s')"
  | (selected) rgn ci tr fan inputs where
      "List.find (\<lambda>r. reg_id r = del_region c) (regions s) = Some rgn" and "reg_status rgn = RRunning"
      and "List.find (\<lambda>i. ci_id i = del_target c) (component_instances s) = Some ci"
      and "List.find (\<lambda>t. rev_id t = del_rev c) (topology_revisions s) = Some tr"
      and "fan_in_expected e (rev_topology tr) (ci_name ci) = Inr fan"
      and "select_inputs now c fan ci s = Some inputs"
      and "lease_selected e w now until c rgn (sort_cmp (input_order e) inputs) s = Inr (r, s')"
proof (cases "advisory_free e (group_text c)")
  case False
  with assms show thesis by (intro locked) (simp_all add: tryCandidate_def ret_app)
next
  case True
  with assms obtain rgn where rgn: "List.find (\<lambda>r. reg_id r = del_region c) (regions s) = Some rgn"
    by (auto simp: tryCandidate_def bind_tx_app get_app or_throw_app split: option.splits)
  show thesis
  proof (cases "reg_status rgn = RRunning")
    case False
    with assms True rgn show thesis
      by (intro deferred) (simp add: tryCandidate_def bind_tx_app get_app or_throw_app)
  next
    case run: True
    with assms True rgn obtain ci where
      ci: "List.find (\<lambda>i. ci_id i = del_target c) (component_instances s) = Some ci"
      by (auto simp: tryCandidate_def bind_tx_app get_app or_throw_app split: option.splits)
    with assms True rgn run obtain tr where
      tr: "List.find (\<lambda>t. rev_id t = del_rev c) (topology_revisions s) = Some tr"
      by (auto simp: tryCandidate_def bind_tx_app get_app or_throw_app split: option.splits)
    from assms True rgn run ci tr obtain fan where
      fan: "fan_in_expected e (rev_topology tr) (ci_name ci) = Inr fan"
      by (cases "fan_in_expected e (rev_topology tr) (ci_name ci)")
        (auto simp: tryCandidate_def bind_tx_app get_app or_throw_app throw_app)
    note unfolded = tryCandidate_def bind_tx_app get_app or_throw_app
    show thesis
    proof (cases "list_ex (\<lambda>p. port_name p = del_port c) (input_ports ci s)")
      case False
      with assms True rgn run ci tr fan show thesis by (intro deferred) (simp add: unfolded)
    next
      case port: True
      show thesis
      proof (cases "select_inputs now c fan ci s")
        case None
        with assms True rgn run ci tr fan port show thesis
          by (intro deferred) (simp add: unfolded)
      next
        case (Some inputs)
        with assms True rgn run ci tr fan port show thesis
          by (intro selected [OF rgn run ci tr fan Some]) (simp add: unfolded)
      qed
    qed
  qed
qed

lemma insert_inputs_Inr:
  assumes "for_tx ds (insert_input e xid) s = Inr (u, s')"
  shows "(\<exists>n xs. s' = s\<lparr>drawn := n, execution_inputs := xs\<rparr>) \<and>
     set (execution_inputs s) \<subseteq> set (execution_inputs s') \<and>
     (\<forall>d\<in>set ds. list_ex (\<lambda>i. inp_execution i = xid \<and> inp_port i = del_port d \<and>
        inp_delivery i = del_id d) (execution_inputs s'))"
  using assms
proof (induction ds arbitrary: s)
  case Nil
  have "s = s\<lparr>drawn := drawn s, execution_inputs := execution_inputs s\<rparr>" by simp
  then have "\<exists>n xs. s = s\<lparr>drawn := n, execution_inputs := xs\<rparr>" by blast
  with Nil show ?case by (simp add: ret_Inr)
next
  case (Cons d ds)
  from Cons.prems obtain t where one: "insert_input e xid d s = Inr ((), t)"
    and rest: "for_tx ds (insert_input e xid) t = Inr (u, s')" by (auto simp: bind_tx_Inr)
  have "\<exists>xs. t = s\<lparr>drawn := Suc (drawn s), execution_inputs := xs\<rparr> \<and> set (execution_inputs s) \<subseteq> set xs \<and>
     list_ex (\<lambda>i. inp_execution i = xid \<and> inp_port i = del_port d \<and> inp_delivery i = del_id d) xs"
  proof (cases "list_ex (\<lambda>i. inp_execution i = xid \<and> inp_port i = del_port d \<and>
      inp_delivery i = del_id d) (execution_inputs s)")
    case True
    with one have "t = s\<lparr>drawn := Suc (drawn s)\<rparr>"
      by (auto simp: insert_input_def bind_tx_app fresh_uuid_app modify_app)
    then have "t = s\<lparr>drawn := Suc (drawn s), execution_inputs := execution_inputs s\<rparr>" by simp
    with True show ?thesis by blast
  next
    case False
    with one show ?thesis by (auto simp: insert_input_def bind_tx_app fresh_uuid_app modify_app)
  qed
  then obtain xs where t: "t = s\<lparr>drawn := Suc (drawn s), execution_inputs := xs\<rparr>"
    and sub: "set (execution_inputs s) \<subseteq> set xs" and here: "list_ex (\<lambda>i. inp_execution i = xid \<and>
      inp_port i = del_port d \<and> inp_delivery i = del_id d) xs" by blast
  note IH = Cons.IH [OF rest]
  then obtain n ys where "s' = t\<lparr>drawn := n, execution_inputs := ys\<rparr>" by blast
  then have "s' = s\<lparr>drawn := n, execution_inputs := ys\<rparr>" by (simp add: t)
  then have "\<exists>n ys. s' = s\<lparr>drawn := n, execution_inputs := ys\<rparr>" by blast
  moreover have "xs = execution_inputs t" by (simp add: t)
  ultimately show ?case using IH sub here by (auto simp: list_ex_iff)
qed

lemma lease_attempt_None:
  assumes "lease_attempt e w now until xid s = Inr (None, s')"
  shows "s' = s" and "xid \<in> att_execution ` set (attempts s)"
  using assms
  by (auto simp: lease_attempt_def bind_tx_app get_app ret_app fresh_token_app fresh_uuid_app Let_def
      list_ex_iff split: list.splits if_splits sum.splits prod.splits)

lemma create_execution_Inr:
  assumes "create_execution e c rgn trigger digest s = Inr (x, s')"
  shows "x = \<lparr>exe_id = new_uuid e (drawn s), exe_delivery = trigger, exe_region = del_region c,
              exe_component = del_target c, exe_rev = del_rev c, exe_epoch = reg_epoch rgn,
              exe_digest = digest, exe_status = ERunning, exe_completed_at = None,
              exe_failed_at = None, exe_failure = None\<rparr>"
    and "s' = s\<lparr>drawn := Suc (drawn s), executions := executions s @ [x]\<rparr>"
    and "\<not> list_ex (\<lambda>y. exe_delivery y = exe_delivery x) (executions s)"
    and "\<not> list_ex (same_logical_identity x) (executions s)"
    and "exe_id x \<notin> exe_id ` set (executions s)"
  using assms
  by (auto simp: create_execution_def bind_tx_app fresh_uuid_app Let_def insert_execution_def ret_app
      list_ex_iff split: if_splits)

text \<open>The execution table with at most the execution \<open>x\<close> added.\<close>

definition with_execution :: "execution \<Rightarrow> db \<Rightarrow> db \<Rightarrow> bool" where
  "with_execution x s t \<longleftrightarrow> executions t = executions s \<or>
     executions t = executions s @ [x] \<and> exe_id x \<notin> exe_id ` set (executions s)"

text \<open>After the inputs are chosen: either the group is postponed, or the attempt is leased.
  \<open>t\<close> is the store just before the attempt is written.\<close>

lemma lease_selected_Inr:
  assumes "lease_selected e w now until c rgn selected s = Inr (r, s')"
  obtains (deferred) x t where "defer_group now c t = Inr (r, s')" and "postponed s t"
      and "with_execution x s t"
      and "executions t = executions s \<or> exe_id x \<in> att_execution ` set (attempts s)"
  | (leased) x t u a where
      "x \<in> set (executions t)" and "exe_status x = ERunning" and "exe_epoch x = reg_epoch rgn"
      and "exe_region x = del_region c" and "exe_component x = del_target c"
      and "attempts t = attempts s" and "deliveries t = deliveries s" and "regions t = regions s"
      and "\<forall>d\<in>set selected. list_ex (\<lambda>i. inp_execution i = exe_id x \<and> inp_port i = del_port d \<and>
             inp_delivery i = del_id d) (execution_inputs t)"
      and "lease_attempt e w now until (exe_id x) t = Inr (Some a, u)"
      and "update_deliveries (\<lambda>d. del_id d \<in> del_id ` set selected) (lease_delivery a w) u
             = Inr (length (filter (\<lambda>d. del_id d \<in> del_id ` set selected) (deliveries u)), s')"
      and "r = Some (leased_result (exe_id x) a selected)" and "with_execution x s t"
proof -
  define digest where "digest = inputSetDigest e (map delivery_identity selected)"
  define trigger where "trigger = hd (sort_cmp (\<lambda>l r. locale_compare e (del_id l) (del_id r)) selected)"
  define existing where "existing = List.find (\<lambda>x. exe_region x = del_region c \<and>
      exe_component x = del_target c \<and> exe_rev x = del_rev c \<and> exe_epoch x = reg_epoch rgn \<and>
      exe_digest x = digest) (executions s)"
  note unfolded = lease_selected_def Let_def digest_def [symmetric] trigger_def [symmetric]
    bind_tx_app get_app existing_def [symmetric] sum.case prod.case
  show thesis
  proof (cases "case existing of None \<Rightarrow> False | Some x \<Rightarrow> exe_status x \<noteq> ERunning")
    case True
    with assms have "defer_group now c s = Inr (r, s')" by (simp only: unfolded if_True)
    then show thesis by (rule deferred) (simp_all add: with_execution_def)
  next
    case False
    let ?rest = "\<lambda>x. bind_tx (reserveExecutionLeaseAdmission e (del_region c) (exe_id x) None) (\<lambda>admission.
        if \<not> executionLeaseMayProceed admission
        then bind_tx (if existing = None then delete_execution (exe_id x) else ret ()) (\<lambda>_.
               defer_group now c)
        else
          bind_tx (for_tx selected (insert_input e (exe_id x))) (\<lambda>_.
          bind_tx (lease_attempt e w now until (exe_id x)) (\<lambda>leased.
          case leased of
            None \<Rightarrow> defer_group now c
          | Some a \<Rightarrow>
              bind_tx (update_deliveries (\<lambda>d. del_id d \<in> del_id ` set selected)
                         (lease_delivery a w)) (\<lambda>_.
              ret (Some (leased_result (exe_id x) a selected))))))"
    from assms False have "bind_tx (case existing of Some x \<Rightarrow> ret x
        | None \<Rightarrow> create_execution e c rgn (del_id trigger) digest) ?rest s = Inr (r, s')"
      by (simp only: lease_selected_def Let_def digest_def [symmetric] trigger_def [symmetric]
          bind_tx_app [of "get f" for f] get_app existing_def [symmetric] sum.case prod.case if_False)
    then obtain x s1 where x: "(case existing of Some x \<Rightarrow> ret x
                 | None \<Rightarrow> create_execution e c rgn (del_id trigger) digest) s = Inr (x, s1)"
      and rest: "?rest x s1 = Inr (r, s')"
      by (rule bind_tx_InrE)
    have xs: "x \<in> set (executions s1)" "exe_status x = ERunning" "exe_epoch x = reg_epoch rgn"
      "exe_region x = del_region c" "exe_component x = del_target c"
      and s1: "postponed s s1" "attempts s1 = attempts s" "deliveries s1 = deliveries s" "regions s1 = regions s"
      and new: "if existing = None then executions s1 = executions s @ [x] \<and>
        exe_id x \<notin> exe_id ` set (executions s) else executions s1 = executions s"
    proof -
      have "(x \<in> set (executions s1) \<and> exe_status x = ERunning \<and> exe_epoch x = reg_epoch rgn \<and>
        exe_region x = del_region c \<and> exe_component x = del_target c) \<and>
        (postponed s s1 \<and> attempts s1 = attempts s \<and> deliveries s1 = deliveries s \<and> regions s1 = regions s) \<and>
        (if existing = None then executions s1 = executions s @ [x] \<and>
          exe_id x \<notin> exe_id ` set (executions s) else executions s1 = executions s)"
      proof (cases existing)
        case None
        with x have "create_execution e c rgn (del_id trigger) digest s = Inr (x, s1)" by simp
        from create_execution_Inr(1,2,5) [OF this] None show ?thesis by (simp add: postponed_def)
      next
        case (Some y)
        then have "y \<in> set (executions s)" "exe_epoch y = reg_epoch rgn" "exe_region y = del_region c"
          "exe_component y = del_target c" unfolding existing_def by (auto dest: find_Some_mem)
        with x Some False show ?thesis by (simp add: ret_Inr)
      qed
      then show "x \<in> set (executions s1)" "exe_status x = ERunning" "exe_epoch x = reg_epoch rgn"
      "exe_region x = del_region c" "exe_component x = del_target c"
      "postponed s s1" "attempts s1 = attempts s" "deliveries s1 = deliveries s" "regions s1 = regions s"
      "if existing = None then executions s1 = executions s @ [x] \<and>
        exe_id x \<notin> exe_id ` set (executions s) else executions s1 = executions s"
        by simp_all
    qed
    from rest obtain adm s2 where adm: "reserveExecutionLeaseAdmission e (del_region c) (exe_id x) None s1
        = Inr (adm, s2)"
      and rest2: "(if \<not> executionLeaseMayProceed adm
        then bind_tx (if existing = None then delete_execution (exe_id x) else ret ()) (\<lambda>_.
               defer_group now c)
        else
          bind_tx (for_tx selected (insert_input e (exe_id x))) (\<lambda>_.
          bind_tx (lease_attempt e w now until (exe_id x)) (\<lambda>leased.
          case leased of
            None \<Rightarrow> defer_group now c
          | Some a \<Rightarrow>
              bind_tx (update_deliveries (\<lambda>d. del_id d \<in> del_id ` set selected)
                         (lease_delivery a w)) (\<lambda>_.
              ret (Some (leased_result (exe_id x) a selected)))))) s2 = Inr (r, s')"
      by (rule bind_tx_InrE)
    from reserve_frame [OF adm [unfolded reserveExecutionLeaseAdmission_def]] obtain n rs ds where
      s2: "s2 = s1\<lparr>drawn := n, reservations := rs, admission_decisions := ds\<rparr>" by blast
    show thesis
    proof (cases "executionLeaseMayProceed adm")
      case False
      with rest2 obtain t where t: "(if existing = None then delete_execution (exe_id x) else ret ()) s2
          = Inr ((), t)" and d: "defer_group now c t = Inr (r, s')"
        by (auto simp: bind_tx_Inr)
      have "postponed s t" using t s1
        by (auto simp: postponed_def s2 delete_execution_def modify_app ret_app split: if_splits)
      moreover have "executions t = executions s"
      proof (cases existing)
        case None
        with new have "executions s1 = executions s @ [x]" "\<forall>y\<in>set (executions s). exe_id y \<noteq> exe_id x"
          by (simp, metis image_eqI)
        with t None show ?thesis by (auto simp: s2 delete_execution_def modify_app)
      next
        case (Some y)
        with t new show ?thesis by (auto simp: s2 ret_app)
      qed
      ultimately show thesis by (intro deferred [OF d]) (simp_all add: with_execution_def)
    next
      case True
      with rest2 obtain t lo u where inp: "for_tx selected (insert_input e (exe_id x)) s2 = Inr ((), t)"
        and la: "lease_attempt e w now until (exe_id x) t = Inr (lo, u)"
        and fin: "(case lo of
            None \<Rightarrow> defer_group now c
          | Some a \<Rightarrow>
              bind_tx (update_deliveries (\<lambda>d. del_id d \<in> del_id ` set selected)
                         (lease_delivery a w)) (\<lambda>_.
              ret (Some (leased_result (exe_id x) a selected)))) u = Inr (r, s')"
        by (auto elim!: bind_tx_InrE)
      note ins = insert_inputs_Inr [OF inp]
      have t: "executions t = executions s1" "attempts t = attempts s" "deliveries t = deliveries s"
        "regions t = regions s" "postponed s t"
        using ins s1 by (auto simp: s2 postponed_def)
      have "with_execution x s t" using new t(1) by (simp add: with_execution_def split: if_splits)
      show thesis
      proof (cases lo)
        case None
        with la have "u = t" "exe_id x \<in> att_execution ` set (attempts s)"
          using t(2) by (auto dest: lease_attempt_None)
        with fin None t show thesis by (intro deferred [OF _ _ \<open>with_execution x s t\<close>]) auto
      next
        case (Some a)
        with fin obtain n where upd: "update_deliveries (\<lambda>d. del_id d \<in> del_id ` set selected)
            (lease_delivery a w) u = Inr (n, s')" and r: "r = Some (leased_result (exe_id x) a selected)"
          by (auto simp: bind_tx_Inr ret_Inr)
        have "n = length (filter (\<lambda>d. del_id d \<in> del_id ` set selected) (deliveries u))"
          using upd by (auto simp: update_deliveries_eq split: if_splits)
        with upd have upd': "update_deliveries (\<lambda>d. del_id d \<in> del_id ` set selected) (lease_delivery a w) u
             = Inr (length (filter (\<lambda>d. del_id d \<in> del_id ` set selected) (deliveries u)), s')" by simp
        show thesis
          by (rule leased [OF _ xs(2-5) t(2-4) _ la [unfolded Some] upd' r \<open>with_execution x s t\<close>])
            (use xs(1) t(1) ins in auto)
      qed
    qed
  qed
qed

subsection \<open>A poll that leases\<close>

lemma sync_keeps_unleased:
  "d \<in> set (deliveries s) \<Longrightarrow> del_status d \<noteq> DLeased \<Longrightarrow>
   d \<in> set (deliveries (fold sync_attempt_delivery_lease ons s))"
proof (induction ons arbitrary: s)
  case Nil
  then show ?case by simp
next
  case (Cons on ons)
  have "d \<in> set (deliveries (sync_attempt_delivery_lease on s))"
    using Cons.prems
    by (auto simp: sync_attempt_delivery_lease_def Let_def set_set_rows sync_delivery_def)
  then show ?case using Cons by simp
qed

lemma lease_attempt_Some:
  assumes "lease_attempt e w now until xid t = Inr (Some a, u)"
  shows "a \<in> set (attempts u)" and "att_execution a = xid" and "att_status a = ALeased"
    and "att_owner a = Some w" and "att_token a \<noteq> None" and "att_expires a = Some until"
    and "(\<exists>a0\<in>set (attempts t). att_id a0 = att_id a \<and> att_number a0 = att_number a \<and>
            att_execution a0 = xid \<and> att_status a0 = APending) \<or>
         att_number a = 1 \<and> (\<forall>a0\<in>set (attempts t). att_execution a0 \<noteq> xid)"
    and "executions u = executions t" and "regions u = regions t"
    and "execution_inputs u = execution_inputs t"
    and "\<And>d. d \<in> set (deliveries t) \<Longrightarrow> del_status d \<noteq> DLeased \<Longrightarrow> d \<in> set (deliveries u)"
proof -
  have "a \<in> set (attempts u) \<and> att_execution a = xid \<and> att_status a = ALeased \<and>
    att_owner a = Some w \<and> att_token a \<noteq> None \<and> att_expires a = Some until \<and>
    ((\<exists>a0\<in>set (attempts t). att_id a0 = att_id a \<and> att_number a0 = att_number a \<and>
            att_execution a0 = xid \<and> att_status a0 = APending) \<or>
         att_number a = 1 \<and> (\<forall>a0\<in>set (attempts t). att_execution a0 \<noteq> xid)) \<and>
    executions u = executions t \<and> regions u = regions t \<and> execution_inputs u = execution_inputs t \<and>
    (\<forall>d\<in>set (deliveries t). del_status d \<noteq> DLeased \<longrightarrow> d \<in> set (deliveries u))"
  proof (cases "due_attempts now xid t")
    case Nil
    with assms show ?thesis
      by (auto simp: lease_attempt_def bind_tx_app get_app fresh_uuid_app fresh_token_app Let_def
          ret_app insert_attempt_def list_ex_iff split: if_splits)
  next
    case (Cons a0 rest)
    then have "a0 \<in> set (due_attempts now xid t)" by simp
    then have a0: "a0 \<in> set (attempts t)" "att_execution a0 = xid" "att_status a0 = APending"
      by (auto simp: due_attempts_def)
    let ?f = "lease_fields w (new_token e (drawn t)) until now"
    let ?t = "t\<lparr>drawn := Suc (drawn t)\<rparr>"
    from assms Cons obtain n where upd: "update_attempts (\<lambda>b. att_id b = att_id a0) ?f ?t = Inr (n, u)"
      and a: "a = ?f a0"
      by (auto simp: lease_attempt_def bind_tx_app get_app fresh_token_app ret_app
          split: sum.splits prod.splits)
    have rows: "attempts u = set_rows (\<lambda>b. att_id b = att_id a0) ?f (attempts ?t)"
      using upd by (rule update_attempts_Inr)
    have u: "u = fold sync_attempt_delivery_lease
        (map (\<lambda>r. (r, ?f r)) (filter (\<lambda>b. att_id b = att_id a0) (attempts ?t)))
        (?t\<lparr>attempts := set_rows (\<lambda>b. att_id b = att_id a0) ?f (attempts ?t)\<rparr>)"
      using upd by (auto simp: update_attempts_def update_rows_Inr split: sum.splits)
    have "a \<in> set (attempts u)" using a0 by (auto simp: rows a set_set_rows)
    moreover have "\<forall>d\<in>set (deliveries t). del_status d \<noteq> DLeased \<longrightarrow> d \<in> set (deliveries u)"
      unfolding u by (auto intro: sync_keeps_unleased)
    moreover have "executions u = executions t" "regions u = regions t"
      "execution_inputs u = execution_inputs t" by (simp_all add: u)
    ultimately show ?thesis using a0 by (auto simp: a lease_fields_def)
  qed
  then show "a \<in> set (attempts u)" and "att_execution a = xid" and "att_status a = ALeased"
    and "att_owner a = Some w" and "att_token a \<noteq> None" and "att_expires a = Some until"
    and "(\<exists>a0\<in>set (attempts t). att_id a0 = att_id a \<and> att_number a0 = att_number a \<and>
            att_execution a0 = xid \<and> att_status a0 = APending) \<or>
         att_number a = 1 \<and> (\<forall>a0\<in>set (attempts t). att_execution a0 \<noteq> xid)"
    and "executions u = executions t" and "regions u = regions t"
    and "execution_inputs u = execution_inputs t"
    and "\<And>d. d \<in> set (deliveries t) \<Longrightarrow> del_status d \<noteq> DLeased \<Longrightarrow> d \<in> set (deliveries u)"
    by blast+
qed

text \<open>The chosen inputs.\<close>

lemma port_deliveries_mem:
  "d \<in> set (port_deliveries now c p s) \<longleftrightarrow>
     d \<in> set (deliveries s) \<and> ready_in_group now c d \<and> del_port d = p"
  by (auto simp: port_deliveries_def)

lemma required_inputs_Some:
  "required_inputs now c fan s ps = Some ds \<Longrightarrow>
     ds = concat (map (\<lambda>p. port_deliveries now c (port_name p) s) ps) \<and>
     (\<forall>p\<in>set ps. length (port_deliveries now c (port_name p) s) = expected_count fan (port_name p))"
  by (induction ps arbitrary: ds) (auto simp: Let_def split: if_splits)

lemma optional_inputs_Some:
  "optional_inputs now c fan s ps = Some ds \<Longrightarrow>
     ds = concat (map (\<lambda>p. if length (port_deliveries now c p s) = expected_count fan p
                         then port_deliveries now c p s else []) ps)"
  by (induction ps arbitrary: ds) (auto simp: Let_def split: if_splits)

definition chosen_inputs ::
  "int \<Rightarrow> delivery \<Rightarrow> (string \<rightharpoonup> nat) \<Rightarrow> component_instance \<Rightarrow> db \<Rightarrow> delivery list" where
  "chosen_inputs now c fan ci s =
     concat (map (\<lambda>p. port_deliveries now c (port_name p) s) (filter port_required (input_ports ci s)))
     @ concat (map (\<lambda>p. if length (port_deliveries now c p s) = expected_count fan p
                         then port_deliveries now c p s else []) (optional_ports ci s))"

lemma select_inputs_Some:
  assumes "select_inputs now c fan ci s = Some ds"
  shows "ds = chosen_inputs now c fan ci s" and "ds \<noteq> []"
    and "\<forall>p\<in>set (input_ports ci s). port_required p \<longrightarrow>
       length (port_deliveries now c (port_name p) s) = expected_count fan (port_name p)"
  using assms
  by (auto simp: select_inputs_def chosen_inputs_def dest!: required_inputs_Some optional_inputs_Some
      split: option.splits if_splits)

lemma chosen_inputs_mem:
  assumes "d \<in> set (chosen_inputs now c fan ci s)"
  shows "d \<in> set (deliveries s)" and "ready_in_group now c d"
    and "\<exists>p\<in>set (input_ports ci s). port_name p = del_port d"
  using assms
  by (auto simp: chosen_inputs_def port_deliveries_mem optional_ports_def split: if_splits)

text \<open>With distinct port names, the chosen inputs at a port are all its ready deliveries or
  none.\<close>

lemma filter_port_concat:
  assumes "distinct ps" and "\<And>p. p \<in> set ps \<Longrightarrow> \<forall>d\<in>set (f p). del_port d = p"
  shows "filter (\<lambda>d. del_port d = q) (concat (map f ps)) = (if q \<in> set ps then f q else [])"
  using assms
proof (induction ps)
  case Nil
  then show ?case by simp
next
  case (Cons p ps)
  have "filter (\<lambda>d. del_port d = q) (f p) = (if q = p then f p else [])"
    using Cons.prems(2) [of p] by (auto simp: filter_empty_conv intro: filter_True)
  with Cons show ?case by (cases "q = p") auto
qed

lemma chosen_inputs_at:
  assumes dist: "distinct (map port_name (input_ports ci s))"
    and req: "\<forall>p\<in>set (input_ports ci s). port_required p \<longrightarrow>
       length (port_deliveries now c (port_name p) s) = expected_count fan (port_name p)"
    and p: "p \<in> set (input_ports ci s)"
  shows "length (filter (\<lambda>d. del_port d = port_name p) (chosen_inputs now c fan ci s))
       = (if port_required p then expected_count fan (port_name p)
          else if length (port_deliveries now c (port_name p) s) = expected_count fan (port_name p)
          then expected_count fan (port_name p) else 0)"
proof -
  let ?req = "map port_name (filter port_required (input_ports ci s))"
  let ?opt = "optional_ports ci s"
  let ?g = "\<lambda>p. if length (port_deliveries now c p s) = expected_count fan p
                         then port_deliveries now c p s else []"
  have d: "distinct ?req" "distinct ?opt"
    using dist by (auto simp: optional_ports_def intro: distinct_map_filter)
  have inj: "inj_on port_name (set (input_ports ci s))" using dist by (simp add: distinct_map)
  have mem: "port_name p \<in> set ?req \<longleftrightarrow> port_required p" "port_name p \<in> set ?opt \<longleftrightarrow> \<not> port_required p"
    using p inj by (auto simp: optional_ports_def dest: inj_onD)
  have "filter (\<lambda>d. del_port d = port_name p) (chosen_inputs now c fan ci s)
     = (if port_name p \<in> set ?req then port_deliveries now c (port_name p) s else [])
       @ (if port_name p \<in> set ?opt then ?g (port_name p) else [])"
    using filter_port_concat [OF d(1), of "\<lambda>p. port_deliveries now c p s" "port_name p"]
      filter_port_concat [OF d(2), of ?g "port_name p"]
    by (simp add: chosen_inputs_def o_def port_deliveries_mem)
  then show ?thesis using mem req p by auto
qed

text \<open>What a successful candidate leaves behind.\<close>

definition holds_lease :: "string \<Rightarrow> int \<Rightarrow> leased_attempt \<Rightarrow> db \<Rightarrow> bool" where
  "holds_lease worker until l s \<longleftrightarrow>
     list_ex (\<lambda>a. att_id a = le_attempt l \<and> att_execution a = le_execution l \<and>
        att_number a = le_number l \<and> att_status a = ALeased \<and> att_owner a = Some worker \<and>
        att_token a = Some (le_token l) \<and> att_expires a = Some until) (attempts s) \<and>
     list_ex (\<lambda>x. exe_id x = le_execution l \<and> exe_status x = ERunning \<and>
        list_ex (\<lambda>r. reg_id r = exe_region x \<and> reg_status r = RRunning \<and> reg_epoch r = exe_epoch x)
          (regions s)) (executions s) \<and>
     le_expires l = until \<and> le_inputs l \<noteq> [] \<and>
     list_all (\<lambda>(port, did, payload).
        list_ex (\<lambda>d. del_id d = did \<and> del_port d = port \<and> del_payload d = payload \<and>
           del_status d = DLeased \<and> del_owner d = Some worker \<and>
           del_token d = Some (le_token l) \<and> del_expires d = Some until) (deliveries s) \<and>
        list_ex (\<lambda>i. inp_execution i = le_execution l \<and> inp_port i = port \<and> inp_delivery i = did)
          (execution_inputs s)) (le_inputs l)"

lemma lease_selected_holds:
  assumes run: "lease_selected e w now until c rgn selected s = Inr (Some l, s')"
    and rgn: "rgn \<in> set (regions s)" "reg_id rgn = del_region c" "reg_status rgn = RRunning"
    and sel: "selected \<noteq> []" "\<forall>d\<in>set selected. d \<in> set (deliveries s) \<and> del_status d = DReady"
  shows "holds_lease w until l s' \<and> map (\<lambda>(p, did, _). (p, did)) (le_inputs l)
           = map (\<lambda>d. (del_port d, del_id d)) selected"
  using run
proof (cases rule: lease_selected_Inr)
  case (deferred t)
  then show ?thesis by (auto dest: defer_group_Inr(1))
next
  case (leased x t u a)
  note at = lease_attempt_Some [OF leased(10)]
  let ?P = "\<lambda>d. del_id d \<in> del_id ` set selected"
  have s': "s' = u\<lparr>deliveries := set_rows ?P (lease_delivery a w) (deliveries u)\<rparr>"
    using leased(11) by (auto simp: update_deliveries_eq split: if_splits)
  obtain tok where tok: "att_token a = Some tok" using at(5) by blast
  have l: "l = leased_result (exe_id x) a selected" using leased(12) by simp
  have lf: "le_execution l = exe_id x" "le_attempt l = att_id a" "le_number l = att_number a"
    "le_token l = tok" "le_expires l = until"
    "le_inputs l = map (\<lambda>d. (del_port d, del_id d, del_payload d)) selected"
    using tok at(6) by (simp_all add: l leased_result_def)
  have "list_ex (\<lambda>a. att_id a = le_attempt l \<and> att_execution a = le_execution l \<and>
        att_number a = le_number l \<and> att_status a = ALeased \<and> att_owner a = Some w \<and>
        att_token a = Some (le_token l) \<and> att_expires a = Some until) (attempts s')"
    using at(1-6) tok by (auto simp: s' lf list_ex_iff)
  moreover have "list_ex (\<lambda>x. exe_id x = le_execution l \<and> exe_status x = ERunning \<and>
        list_ex (\<lambda>r. reg_id r = exe_region x \<and> reg_status r = RRunning \<and> reg_epoch r = exe_epoch x)
          (regions s')) (executions s')"
    unfolding list_ex_iff
    by (rule bexI [of _ x], intro conjI bexI [of _ rgn])
      (use leased(1-5,8) rgn at(8,9) in \<open>simp_all add: s' lf\<close>)
  moreover have "list_all (\<lambda>(port, did, payload).
        list_ex (\<lambda>d. del_id d = did \<and> del_port d = port \<and> del_payload d = payload \<and>
           del_status d = DLeased \<and> del_owner d = Some w \<and>
           del_token d = Some (le_token l) \<and> del_expires d = Some until) (deliveries s') \<and>
        list_ex (\<lambda>i. inp_execution i = le_execution l \<and> inp_port i = port \<and> inp_delivery i = did)
          (execution_inputs s')) (le_inputs l)"
  proof -
    have "list_ex (\<lambda>d'. del_id d' = del_id d \<and> del_port d' = del_port d \<and>
           del_payload d' = del_payload d \<and> del_status d' = DLeased \<and> del_owner d' = Some w \<and>
           del_token d' = Some tok \<and> del_expires d' = Some until) (deliveries s')"
      if "d \<in> set selected" for d
    proof -
      have "d \<in> set (deliveries u)" using sel(2) that leased(7) at(11) [of d] by auto
      then have "lease_delivery a w d \<in> set (deliveries s')"
        using that by (auto simp: s' set_set_rows)
      then show ?thesis
        using tok at(6) by (auto simp: list_ex_iff lease_delivery_def intro!: bexI [of _ "lease_delivery a w d"])
    qed
    then show ?thesis using leased(9) at(10) by (auto simp: lf list_all_iff s')
  qed
  moreover have "le_inputs l \<noteq> []" using sel(1) by (simp add: lf)
  ultimately show ?thesis by (simp add: holds_lease_def lf(5)) (simp add: lf)
qed

lemma tryCandidate_lease:
  assumes "tryCandidate e w now until c s = Inr (Some l, s')"
  obtains ci tr fan where "holds_lease w until l s'"
    and "List.find (\<lambda>i. ci_id i = del_target c) (component_instances s) = Some ci"
    and "List.find (\<lambda>t. rev_id t = del_rev c) (topology_revisions s) = Some tr"
    and "fan_in_expected e (rev_topology tr) (ci_name ci) = Inr fan"
    and "select_inputs now c fan ci s = Some (chosen_inputs now c fan ci s)"
    and "map (\<lambda>(p, did, _). (p, did)) (le_inputs l)
           = map (\<lambda>d. (del_port d, del_id d)) (sort_cmp (input_order e) (chosen_inputs now c fan ci s))"
  using assms
proof (cases rule: tryCandidate_Inr)
  case locked
  then show thesis by simp
next
  case deferred
  then show thesis by (auto dest: defer_group_Inr(1))
next
  case (selected rgn ci tr fan inputs)
  note sel = select_inputs_Some [OF selected(6)]
  have rgn: "rgn \<in> set (regions s)" "reg_id rgn = del_region c"
    using selected(1) by (auto dest: find_Some_mem)
  have "\<forall>d\<in>set (sort_cmp (input_order e) inputs). d \<in> set (deliveries s) \<and> del_status d = DReady"
    using chosen_inputs_mem [of _ now c fan ci s] by (auto simp: sel(1) ready_in_group_def)
  moreover have "sort_cmp (input_order e) inputs \<noteq> []" using sel(2) by simp
  ultimately show thesis
    using lease_selected_holds [OF selected(7) rgn selected(2)] that [OF _ selected(3-5)] selected(6) sel(1)
    by auto
qed

lemma tryCandidate_None:
  assumes "tryCandidate e w now until c s = Inr (None, s')"
  shows "postponed s s'"
  using assms
proof (cases rule: tryCandidate_Inr)
  case locked
  then show ?thesis by simp
next
  case deferred
  then show ?thesis by (rule defer_group_Inr(2))
next
  case (selected rgn ci tr fan inputs)
  from selected(7) show ?thesis
  proof (cases rule: lease_selected_Inr)
    case (deferred t)
    then show ?thesis by (metis defer_group_Inr(2) postponed_trans)
  qed simp
qed

lemma try_candidates_Inr:
  assumes "try_candidates e w now until cs s = Inr (r, s')"
  shows "(case r of None \<Rightarrow> postponed s s'
     | Some l \<Rightarrow> \<exists>c\<in>set cs. \<exists>t. postponed s t \<and> tryCandidate e w now until c t = Inr (Some l, s'))"
  using assms
proof (induction cs arbitrary: s)
  case Nil
  then show ?case by (simp add: ret_Inr)
next
  case (Cons c cs)
  from Cons.prems obtain q t where q: "tryCandidate e w now until c s = Inr (q, t)"
    and rest: "(case q of Some l \<Rightarrow> ret (Some l) | None \<Rightarrow> try_candidates e w now until cs) t = Inr (r, s')"
    by (auto simp: bind_tx_Inr)
  show ?case
  proof (cases q)
    case None
    with q have "postponed s t" by (auto dest: tryCandidate_None)
    with Cons.IH [of t] rest None show ?thesis by (auto split: option.splits intro: postponed_trans)
  next
    case (Some l)
    with q rest show ?thesis by (auto simp: ret_Inr)
  qed
qed

lemma leaseNextAttempt_Inr:
  assumes "leaseNextAttempt e opts s = (Inr r, s')"
  obtains (none) "r = None" and "postponed s s'"
  | (lease) ms c t l where "validateLeaseDuration (lo_duration opts) = Inr ms" and "r = Some l"
      and "c \<in> set (lease_candidates (clock e) (lo_selectors opts) s)" and "postponed s t"
      and "tryCandidate e (lo_worker opts) (clock e) (clock e + ms) c t = Inr (Some l, s')"
proof -
  from assms obtain ms where ms: "validateLeaseDuration (lo_duration opts) = Inr ms"
    by (auto simp: leaseNextAttempt_def split: sum.splits)
  show thesis
  proof (cases "lo_selectors opts = Some []")
    case True
    with assms ms show thesis by (intro none) (simp_all add: leaseNextAttempt_def)
  next
    case False
    with assms ms have "try_candidates e (lo_worker opts) (clock e) (clock e + ms)
        (lease_candidates (clock e) (lo_selectors opts) s) s = Inr (r, s')"
      by (simp add: leaseNextAttempt_def transaction_cases bind_tx_app get_app)
    from try_candidates_Inr [OF this] show thesis
      using none lease [OF ms] by (auto split: option.splits)
  qed
qed

lemma validateLeaseDuration_Inr:
  assumes "validateLeaseDuration d = Inr ms"
  shows "0 < ms \<and> ms \<le> 15 * 60000"
proof -
  from assms obtain q where q: "d = Finite q" "snd (quotient_of q) = 1" "0 < q" "q \<le> 15 * 60000"
    "ms = \<lfloor>q\<rfloor>"
    by (auto simp: validateLeaseDuration_def split: js_number.splits if_splits)
  obtain n where n: "quotient_of q = (n, 1)" using q(2) by (metis prod.collapse)
  then have "q = of_int n" by (auto dest: quotient_of_div)
  with q show ?thesis by simp
qed

lemma mem_group_heads: "d \<in> set (group_heads ds) \<Longrightarrow> d \<in> set ds"
  by (induction ds rule: group_heads.induct) auto

lemma mem_lease_candidates:
  "c \<in> set (lease_candidates now sel s) \<Longrightarrow>
     c \<in> set (deliveries s) \<and> del_status c = DReady \<and> del_available c \<le> now \<and> selector_matches sel s c"
  unfolding lease_candidates_def by (drule in_set_takeD, drule mem_group_heads) simp

text \<open>The constraints survive a poll.\<close>

lemma checks_defer_group: "keeps db_checks (defer_group now c)"
  unfolding defer_group_def by (intro keeps_bind checks_update_deliveries keeps_ret)

lemma checks_insert_input: "keeps db_checks (insert_input e xid d)"
  unfolding insert_input_def
  by (intro keeps_bind checks_fresh_uuid keeps_modify) (simp add: db_checks_def)

lemma checks_lease_attempt: "keeps db_checks (lease_attempt e w now until xid)"
  unfolding lease_attempt_def Let_def
  by (intro keeps_bind keeps_get)
    (auto split: list.splits intro!: checks_intros)

lemma checks_create_execution: "keeps db_checks (create_execution e c rgn trigger digest)"
  unfolding create_execution_def Let_def by (intro keeps_bind checks_intros keeps_ret)

lemma checks_delete_execution: "keeps db_checks (delete_execution xid)"
  unfolding delete_execution_def by (rule keeps_modify) (auto simp: db_checks_def list_all_iff)

lemma checks_lease_selected: "keeps db_checks (lease_selected e w now until c rgn selected)"
  unfolding lease_selected_def Let_def reserveExecutionLeaseAdmission_def
  by (intro keeps_bind keeps_get keeps_if keeps_option checks_defer_group checks_create_execution
      checks_delete_execution checks_reserve keeps_for checks_insert_input checks_lease_attempt
      checks_update_deliveries keeps_ret)

lemma checks_tryCandidate: "keeps db_checks (tryCandidate e w now until c)"
  unfolding tryCandidate_def
  by (intro keeps_if keeps_bind keeps_get keeps_or_throw keeps_ret checks_defer_group)
    (auto split: sum.splits option.splits intro!: checks_defer_group checks_lease_selected)

lemma checks_try_candidates: "keeps db_checks (try_candidates e w now until cs)"
  by (induction cs) (auto intro!: checks_tryCandidate)

lemma checks_leaseNextAttempt:
  assumes "db_checks s" and "leaseNextAttempt e opts s = (r, s')"
  shows "db_checks s'"
proof -
  have body: "keeps db_checks (bind_tx (get (lease_candidates now sel)) (try_candidates e w now until))"
    for now sel w until by (intro keeps_bind keeps_get checks_try_candidates)
  show ?thesis using assms
    by (auto simp: leaseNextAttempt_def transaction_cases split: sum.splits if_splits
        elim: keepsD [OF body])
qed

subsection \<open>Properties\<close>

lemma leased_holds:
  assumes "leaseNextAttempt e opts s = (Inr (Some l), s')"
  shows "holds_lease (lo_worker opts) (le_expires l) l s' \<and>
     clock e < le_expires l \<and> le_expires l \<le> clock e + 15 * 60000"
  using assms
proof (cases rule: leaseNextAttempt_Inr)
  case none
  then show ?thesis by simp
next
  case (lease ms c t l')
  have l: "l' = l" using lease(2) by simp
  from lease(5) [unfolded l] have "holds_lease (lo_worker opts) (clock e + ms) l s'"
    by (rule tryCandidate_lease)
  moreover from this have "le_expires l = clock e + ms" by (simp add: holds_lease_def)
  ultimately show ?thesis using validateLeaseDuration_Inr [OF lease(1)] by simp
qed

text \<open>C14. A poll that returns a lease leaves a consistent one behind: the attempt is leased to
  the worker under the returned token until the returned expiry, its execution is running in a
  running region and at that region's lifecycle epoch, there is at least one input, and every
  returned input is a delivery leased under the same owner, token and expiry and recorded as an
  input of the execution. The expiry is within 15 minutes of the clock.\<close>

theorem lease_consistent:
  assumes "leaseNextAttempt e opts s = (Inr (Some l), s')"
  shows "holds_lease (lo_worker opts) (le_expires l) l s' \<and>
     clock e < le_expires l \<and> le_expires l \<le> clock e + 15 * 60000"
  using assms by (rule leased_holds)

text \<open>A poll that returns nothing creates no lease: every attempt is as it was, and the
  deliveries differ at most in when they are looked at again.\<close>

theorem empty_poll_leases_nothing:
  assumes "leaseNextAttempt e opts s = (Inr None, s')"
  shows "attempts s' = attempts s \<and>
     map (\<lambda>d. d\<lparr>del_available := 0\<rparr>) (deliveries s') = map (\<lambda>d. d\<lparr>del_available := 0\<rparr>) (deliveries s)"
  using assms by (cases rule: leaseNextAttempt_Inr) (auto simp: postponed_def)

text \<open>Fan-in is exact: in a leased input set every required input port of the component
  has precisely the number of deliveries its fan-in rule expects (one without a rule), and every
  optional port has either that number or none.\<close>

theorem lease_fan_in_exact:
  assumes "leaseNextAttempt e opts s = (Inr (Some l), s')"
    and "\<forall>ci\<in>set (component_instances s). distinct (map port_name (input_ports ci s))"
  shows "\<exists>c\<in>set (deliveries s). \<exists>ci\<in>set (component_instances s). \<exists>tr\<in>set (topology_revisions s). \<exists>fan.
     ci_id ci = del_target c \<and> rev_id tr = del_rev c \<and>
     fan_in_expected e (rev_topology tr) (ci_name ci) = Inr fan \<and>
     (\<forall>p\<in>set (input_ports ci s).
        length (filter (\<lambda>i. fst i = port_name p) (le_inputs l)) = expected_count fan (port_name p) \<or>
        \<not> port_required p \<and> filter (\<lambda>i. fst i = port_name p) (le_inputs l) = [])"
  using assms(1)
proof (cases rule: leaseNextAttempt_Inr)
  case none
  then show ?thesis by simp
next
  case (lease ms c t l')
  have l: "l' = l" using lease(2) by simp
  from lease(5) [unfolded l] obtain ci tr fan where
    ci: "List.find (\<lambda>i. ci_id i = del_target c) (component_instances t) = Some ci"
    and tr: "List.find (\<lambda>t. rev_id t = del_rev c) (topology_revisions t) = Some tr"
    and fan: "fan_in_expected e (rev_topology tr) (ci_name ci) = Inr fan"
    and sel: "select_inputs (clock e) c fan ci t = Some (chosen_inputs (clock e) c fan ci t)"
    and ins: "map (\<lambda>(p, did, _). (p, did)) (le_inputs l)
      = map (\<lambda>d. (del_port d, del_id d)) (sort_cmp (input_order e) (chosen_inputs (clock e) c fan ci t))"
    by (rule tryCandidate_lease)
  have same: "component_instances t = component_instances s" "topology_revisions t = topology_revisions s"
    "input_ports ci t = input_ports ci s"
    using lease(4) by (simp_all add: postponed_def input_ports_def)
  have memb: "ci \<in> set (component_instances s)" "ci_id ci = del_target c"
    "tr \<in> set (topology_revisions s)" "rev_id tr = del_rev c" "c \<in> set (deliveries s)"
    using ci tr same lease(3) by (auto dest: find_Some_mem mem_lease_candidates)
  have dist: "distinct (map port_name (input_ports ci t))" using assms(2) memb(1) same(3) by simp
  have count: "length (filter (\<lambda>i. fst i = q) (le_inputs l))
      = length (filter (\<lambda>d. del_port d = q) (chosen_inputs (clock e) c fan ci t))" for q
  proof -
    have "map fst (map (\<lambda>(p, did, _). (p, did)) (le_inputs l)) = map fst (le_inputs l)"
      by (simp add: case_prod_beta o_def)
    then have "map fst (le_inputs l)
        = map del_port (sort_cmp (input_order e) (chosen_inputs (clock e) c fan ci t))"
      unfolding ins by (simp add: o_def)
    then have "length (filter (\<lambda>x. x = q) (map fst (le_inputs l)))
        = length (filter (\<lambda>x. x = q) (map del_port (sort_cmp (input_order e) (chosen_inputs (clock e) c fan ci t))))"
      by simp
    then have "length (filter (\<lambda>i. fst i = q) (le_inputs l))
        = length (filter (\<lambda>d. del_port d = q) (sort_cmp (input_order e) (chosen_inputs (clock e) c fan ci t)))"
      by (simp add: filter_map o_def)
    also have "\<dots> = length (filter (\<lambda>d. del_port d = q) (chosen_inputs (clock e) c fan ci t))"
      by (metis mset_filter mset_sort_cmp size_mset)
    finally show ?thesis .
  qed
  have "\<forall>p\<in>set (input_ports ci s).
        length (filter (\<lambda>i. fst i = port_name p) (le_inputs l)) = expected_count fan (port_name p) \<or>
        \<not> port_required p \<and> filter (\<lambda>i. fst i = port_name p) (le_inputs l) = []"
  proof
    fix p assume "p \<in> set (input_ports ci s)"
    then have "p \<in> set (input_ports ci t)" by (simp add: same)
    from chosen_inputs_at [OF dist select_inputs_Some(3) [OF sel] this]
    show "length (filter (\<lambda>i. fst i = port_name p) (le_inputs l)) = expected_count fan (port_name p) \<or>
        \<not> port_required p \<and> filter (\<lambda>i. fst i = port_name p) (le_inputs l) = []"
      unfolding count length_0_conv [symmetric, of "filter _ (le_inputs l)"] by (simp split: if_splits)
  qed
  with memb fan show ?thesis by blast
qed

subsection \<open>Examples\<close>

text \<open>A running region with one component that has a required and an optional input port, and
  one ready delivery at the required port.\<close>

definition sample_delivery :: "string \<Rightarrow> string \<Rightarrow> delivery" where
  "sample_delivery did port =
     \<lparr>del_id = did, del_region = ''r'', del_rev = ''v'', del_target = ''ci'', del_port = port,
      del_src_command = Some ''c'', del_src_event = None, del_correlation = ''c'',
      del_payload = JNull, del_digest = ''h'', del_status = DReady, del_available = 0,
      del_owner = None, del_token = None, del_expires = None, del_attempts = 0,
      del_completed_at = None, del_failed_at = None, del_dead_at = None, del_failure = None,
      del_created = 0\<rparr>"

definition sample_port :: "string \<Rightarrow> bool \<Rightarrow> port_definition" where
  "sample_port name required =
     \<lparr>port_def = ''d'', port_name = name, port_direction = PInput, port_schema = ''s'',
      port_required = required\<rparr>"

definition lease_store :: db where
  "lease_store = empty_db\<lparr>regions := [sample_region ''r'' None],
     topology_revisions := [\<lparr>rev_id = ''v'', rev_region = ''r'', rev_number = 1, rev_digest = ''h'', rev_topology = JObj []\<rparr>],
     component_definitions := [\<lparr>cdef_id = ''d'', cdef_name = ''w'', cdef_version = ''1'', cdef_digest = ''h'',
       cdef_definition = JObj [], cdef_retired = None\<rparr>],
     component_instances := [\<lparr>ci_id = ''ci'', ci_region = ''r'', ci_rev = ''v'', ci_def = ''d'', ci_name = ''n'',
       ci_configuration = JObj []\<rparr>],
     port_definitions := [sample_port ''in'' True, sample_port ''opt'' False],
     deliveries := [sample_delivery ''d1'' ''in'']\<rparr>"

definition sample_options :: lease_options where
  "sample_options = \<lparr>lo_worker = ''w1'', lo_duration = Finite 60000, lo_selectors = Some [''w@1'']\<rparr>"

definition sample_poll :: "(error + leased_attempt option) \<times> db" where
  "sample_poll = leaseNextAttempt sample_env sample_options lease_store"

lemma sample_poll_leases: "case fst sample_poll of Inl _ \<Rightarrow> False | Inr r \<Rightarrow> r \<noteq> None"
  by code_simp

lemma sample_poll_runs:
  obtains l s' where "leaseNextAttempt sample_env sample_options lease_store = (Inr (Some l), s')"
  using sample_poll_leases by (cases sample_poll) (auto simp: sample_poll_def split: sum.splits)

theorem lease_consistent_witness:
  "\<exists>l s'. leaseNextAttempt sample_env sample_options lease_store = (Inr (Some l), s') \<and>
     holds_lease ''w1'' (le_expires l) l s'"
proof -
  obtain l s' where run: "leaseNextAttempt sample_env sample_options lease_store = (Inr (Some l), s')"
    by (rule sample_poll_runs)
  from lease_consistent [OF run] run show ?thesis by (auto simp: sample_options_def)
qed

text \<open>The same store with the region suspended.\<close>

definition suspended_store :: db where
  "suspended_store = lease_store\<lparr>regions := [(sample_region ''r'' None)\<lparr>reg_status := RSuspended\<rparr>]\<rparr>"

lemma suspended_poll: "fst (leaseNextAttempt sample_env sample_options suspended_store) = Inr None"
  by code_simp

theorem empty_poll_leases_nothing_witness:
  "\<exists>s'. leaseNextAttempt sample_env sample_options suspended_store = (Inr None, s') \<and>
     attempts s' = attempts suspended_store \<and> deliveries s' \<noteq> deliveries suspended_store"
proof -
  have run: "leaseNextAttempt sample_env sample_options suspended_store
      = (Inr None, snd (leaseNextAttempt sample_env sample_options suspended_store))"
    using suspended_poll by (metis prod.collapse)
  have "deliveries (snd (leaseNextAttempt sample_env sample_options suspended_store))
      \<noteq> deliveries suspended_store" by code_simp
  with empty_poll_leases_nothing [OF run] run show ?thesis by metis
qed

theorem lease_fan_in_exact_witness:
  "\<exists>l s' fan. leaseNextAttempt sample_env sample_options lease_store = (Inr (Some l), s') \<and>
     length (filter (\<lambda>i. fst i = ''in'') (le_inputs l)) = expected_count fan ''in''"
proof -
  obtain l s' where run: "leaseNextAttempt sample_env sample_options lease_store = (Inr (Some l), s')"
    by (rule sample_poll_runs)
  have dist: "\<forall>ci\<in>set (component_instances lease_store). distinct (map port_name (input_ports ci lease_store))"
    by (simp add: lease_store_def empty_db_def input_ports_def sample_port_def)
  from lease_fan_in_exact [OF run dist] obtain ci fan where
    ci: "ci \<in> set (component_instances lease_store)" and
    ports: "\<forall>p\<in>set (input_ports ci lease_store).
        length (filter (\<lambda>i. fst i = port_name p) (le_inputs l)) = expected_count fan (port_name p) \<or>
        \<not> port_required p \<and> filter (\<lambda>i. fst i = port_name p) (le_inputs l) = []" by blast
  have "sample_port ''in'' True \<in> set (input_ports ci lease_store)"
    using ci by (auto simp: lease_store_def empty_db_def input_ports_def sample_port_def)
  with ports have "length (filter (\<lambda>i. fst i = ''in'') (le_inputs l)) = expected_count fan ''in''"
    by (force simp: sample_port_def)
  with run show ?thesis by blast
qed

end
