(* ===== verification/Commit.thy ===== *)
theory Commit
  imports Artifacts Scheduler
begin

section \<open>Committing the result of an attempt\<close>

text \<open>
  \<open>commit/execution-commit-service.ts\<close>. One transaction checks that the caller still holds the
  lease, records the submission, publishes the staged artifacts and the proposed external
  actions, writes the resource ledger and moves attempt, execution and deliveries to their next
  state. After it committed the blobs are promoted, each on its own; a promotion that fails is
  left to the reconciliation.
\<close>

subsection \<open>Constants and shapes\<close>

definition RETRY_BACKOFF_MS :: "int list" where
  "RETRY_BACKOFF_MS = [1000, 5000, 30000]"

definition RESOURCE_UNITS :: "(string \<times> string) list" where
  "RESOURCE_UNITS =
     [(''cpuMilliseconds'', ''milliseconds''), (''wallMilliseconds'', ''milliseconds''),
      (''inputBytes'', ''bytes''), (''outputBytes'', ''bytes''), (''externalCalls'', ''count'')]"

definition EXTERNAL_ACTION_RISKS :: "string list" where
  "EXTERNAL_ACTION_RISKS = [''low'', ''medium'', ''high'', ''irreversible'']"

definition MAX_JSON_BYTES :: int where
  "MAX_JSON_BYTES = 104857600"

datatype commit_disposition = CommitDuplicate | Committed | RetryScheduled | DeadLettered

record promotion =
  prm_row :: string
  prm_ref :: string
  prm_artifact :: string
  prm_digest :: string
  prm_size :: int

definition isExecutionSource :: "json \<Rightarrow> string \<Rightarrow> string \<Rightarrow> bool" where
  "isExecutionSource v executionId attemptId \<longleftrightarrow>
     json_field v ''kind'' = Some (JStr ''execution'') \<and>
     json_field v ''executionId'' = Some (JStr executionId) \<and>
     json_field v ''attemptId'' = Some (JStr attemptId)"

definition normalizeStaged :: "staged_ref \<Rightarrow> staged_ref" where
  "normalizeStaged g = g\<lparr>st_staging_id :=
     (case st_staging_id g of None \<Rightarrow> st_staging_ref g | Some i \<Rightarrow> Some i)\<rparr>"

definition normalizeSubmittedResult :: "submitted_result \<Rightarrow> submitted_result" where
  "normalizeSubmittedResult r =
     r\<lparr>sr_lifecycle_epoch :=
         (case sr_lifecycle_epoch r of None \<Rightarrow> sr_fencing_epoch r | Some n \<Rightarrow> Some n),
       sr_artifacts := map normalizeStaged (sr_artifacts r),
       sr_state := map_option normalizeStaged (sr_state r)\<rparr>"

text \<open>\<open>Number.isSafeInteger(n) && n >= 0\<close>.\<close>

definition safe_natural :: "js_number \<Rightarrow> bool" where
  "safe_natural n =
     (case n of
        NotFinite \<Rightarrow> False
      | Finite q \<Rightarrow> q = of_int \<lfloor>q\<rfloor> \<and> 0 \<le> q \<and> q \<le> 2 ^ 53 - 1)"

subsection \<open>Authority and metadata checks\<close>

record commit_context =
  cc_attempt :: attempt
  cc_execution :: execution
  cc_region :: region
  cc_component :: component_instance
  cc_deliveries :: "delivery list"
  cc_recorded :: bool

definition input_deliveries :: "string \<Rightarrow> db \<Rightarrow> delivery list" where
  "input_deliveries executionId s =
     sort_key del_id (List.map_filter (\<lambda>i.
       if inp_execution i = executionId then List.find (\<lambda>d. del_id d = inp_delivery i) (deliveries s)
       else None) (execution_inputs s))"

definition assertAuthority ::
  "env \<Rightarrow> bool \<Rightarrow> submitted_result \<Rightarrow> attempt \<Rightarrow> execution \<Rightarrow> region \<Rightarrow> delivery list \<Rightarrow> (db, unit) tx" where
  "assertAuthority e allowExpiredLease r a x rgn ds =
     bind_tx (guard (att_token a = Some (sr_token r))
        (ExecutionCommitError ''stale_lease_token'' 409)) (\<lambda>_.
     bind_tx (guard (allowExpiredLease \<or>
          (case att_expires a of None \<Rightarrow> False | Some t \<Rightarrow> clock e < t))
        (ExecutionCommitError ''lease_expired'' 409)) (\<lambda>_.
     bind_tx (guard (sr_lifecycle_epoch r = Some (exe_epoch x) \<and>
          sr_lifecycle_epoch r = Some (reg_epoch rgn) \<and> reg_status rgn = RRunning)
        (ExecutionCommitError ''stale_lifecycle_epoch'' 409)) (\<lambda>_.
     guard (list_all (\<lambda>d. del_status d = DLeased \<and> del_token d = Some (sr_token r)) ds)
        (ExecutionCommitError ''stale_lease_token'' 409))))"

definition usage_value :: "(string \<times> js_number) list \<Rightarrow> string \<Rightarrow> js_number" where
  "usage_value us k = (case map_of us k of None \<Rightarrow> NotFinite | Some n \<Rightarrow> n)"

definition validateResourceUsage :: "(string \<times> js_number) list option \<Rightarrow> (db, unit) tx" where
  "validateResourceUsage usage =
     (let bad = ExecutionCommitError ''invalid_resource_usage'' 400;
          expected = map fst RESOURCE_UNITS in
      bind_tx (or_throw usage bad) (\<lambda>us.
      bind_tx (guard (length (remdups (map fst us)) = length expected \<and>
          list_all (\<lambda>k. k \<in> set expected) (map fst us)) bad) (\<lambda>_.
      guard (list_all (\<lambda>k. safe_natural (usage_value us k)) expected) bad)))"

definition validateProposedEvent :: "env \<Rightarrow> submitted_result \<Rightarrow> proposed_event \<Rightarrow> (db, unit) tx" where
  "validateProposedEvent e r v =
     (let bad = ExecutionCommitError ''invalid_proposed_event'' 400 in
      bind_tx (guard (\<not> blank (pe_type v) \<and> \<not> blank (pe_subject v) \<and> \<not> blank (pe_schema v) \<and>
          is_sha256_text (pe_schema_digest v) \<and> date_parse e (pe_occurred v) \<noteq> None \<and>
          isExecutionSource (pe_source v) (sr_execution r) (sr_attempt r)) bad) (\<lambda>_.
      bind_tx (get (readArtifactSchemaById (pe_schema v))) (\<lambda>found.
      bind_tx (or_throw found bad) (\<lambda>c.
      bind_tx (guard (sch_retired c = None \<and> sch_digest c = pe_schema_digest v) bad) (\<lambda>_.
      bind_tx (guard (schema_compiles e (sch_schema c))
          (PlainError ''schema compilation failed'')) (\<lambda>_.
      guard (schema_valid e (sch_schema c) (pe_payload v)) bad))))))"

definition find_submission :: "string \<Rightarrow> db \<Rightarrow> submission option" where
  "find_submission attemptId s = List.find (\<lambda>x. sub_attempt x = attemptId) (submissions s)"

text \<open>The reads and checks of the transaction. \<open>None\<close> is the duplicate of a committed result.\<close>

definition load_context ::
  "env \<Rightarrow> bool \<Rightarrow> submitted_result \<Rightarrow> string \<Rightarrow> (db, commit_context option) tx" where
  "load_context e allowExpiredLease r digest =
     (let inactive = ExecutionCommitError ''inactive_attempt'' 409 in
     bind_tx (get (\<lambda>s. List.find (\<lambda>a. att_id a = sr_attempt r \<and> att_execution a = sr_execution r)
        (attempts s))) (\<lambda>a0.
     bind_tx (get (\<lambda>s. List.find (\<lambda>x. exe_id x = sr_execution r) (executions s))) (\<lambda>x0.
     bind_tx (or_throw a0 inactive) (\<lambda>a.
     bind_tx (or_throw x0 inactive) (\<lambda>x.
     bind_tx (get (find_submission (sr_attempt r))) (\<lambda>sub.
     bind_tx (guard (case sub of None \<Rightarrow> True | Some b \<Rightarrow> sub_digest b = digest)
        (ExecutionCommitError ''duplicate_conflicting_result'' 409)) (\<lambda>_.
     if (case sub of None \<Rightarrow> False | Some b \<Rightarrow> sub_committed b \<noteq> None) then ret None
     else
     bind_tx (guard (active (att_status a)) inactive) (\<lambda>_.
     bind_tx (guard (exe_status x = ERunning) inactive) (\<lambda>_.
     bind_tx (get (\<lambda>s. List.find (\<lambda>g. reg_id g = exe_region x) (regions s))) (\<lambda>g0.
     bind_tx (or_throw g0 (NoResultError ''regions'')) (\<lambda>g.
     bind_tx (get (\<lambda>s. List.find (\<lambda>c. ci_id c = exe_component x) (component_instances s))) (\<lambda>c0.
     bind_tx (or_throw c0 (NoResultError ''component_instances'')) (\<lambda>c.
     bind_tx (get (\<lambda>s. List.find (\<lambda>v. rev_id v = exe_rev x) (topology_revisions s))) (\<lambda>v0.
     bind_tx (or_throw v0 (NoResultError ''topology_revisions'')) (\<lambda>_.
     bind_tx (get (input_deliveries (exe_id x))) (\<lambda>ds.
     bind_tx (guard (ds \<noteq> []) inactive) (\<lambda>_.
     bind_tx (assertAuthority e allowExpiredLease r a x g ds) (\<lambda>_.
     bind_tx (validateResourceUsage (sr_usage r)) (\<lambda>_.
     bind_tx (for_tx (sr_events r) (validateProposedEvent e r)) (\<lambda>_.
     bind_tx (guard (sr_status r = RsCompleted \<or> sr_actions r = [])
        (ExecutionCommitError ''external_action_unauthorized'' 400)) (\<lambda>_.
     ret (Some \<lparr>cc_attempt = a, cc_execution = x, cc_region = g, cc_component = c,
                cc_deliveries = ds, cc_recorded = (sub \<noteq> None)\<rparr>))))))))))))))))))))))"

definition insert_submission :: "submission \<Rightarrow> (db, unit) tx" where
  "insert_submission b = (\<lambda>s.
     if list_ex (\<lambda>x. sub_attempt x = sub_attempt b) (submissions s)
     then Inl (DbViolation ''worker_result_submissions_attempt_id_key'')
     else Inr ((), s\<lparr>submissions := submissions s @ [b]\<rparr>))"

definition submission_row :: "env \<Rightarrow> submitted_result \<Rightarrow> string \<Rightarrow> string \<Rightarrow> submission" where
  "submission_row e r digest i =
     \<lparr>sub_id = i, sub_execution = sr_execution r, sub_attempt = sr_attempt r,
      sub_digest = digest, sub_result = r, sub_committed = None, sub_created = db_now e\<rparr>"

definition record_submission :: "env \<Rightarrow> submitted_result \<Rightarrow> string \<Rightarrow> bool \<Rightarrow> (db, unit) tx" where
  "record_submission e r digest recorded =
     (if recorded then ret ()
      else bind_tx (fresh_uuid e) (\<lambda>i.
        insert_submission (submission_row e r digest i)))"

subsection \<open>Staged artifacts\<close>

text \<open>The staging row with the schema and the upload it joins.\<close>

definition staged_row ::
  "string option \<Rightarrow> db \<Rightarrow> (staging \<times> artifact_schema \<times> upload) option" where
  "staged_row ref s =
     (let joins = concat (map (\<lambda>g.
            if Some (stg_ref g) = ref then
              concat (map (\<lambda>c. map (\<lambda>u. (g, c, u))
                (filter (\<lambda>u. up_staging u = Some (stg_id g)) (uploads s)))
              (filter (\<lambda>c. sch_id c = stg_schema g) (artifact_schemas s)))
            else []) (stagings s))
      in case joins of [] \<Rightarrow> None | j # _ \<Rightarrow> Some j)"

definition size_text_is :: "env \<Rightarrow> int \<Rightarrow> js_number \<Rightarrow> bool" where
  "size_text_is e z n =
     (case n of NotFinite \<Rightarrow> False | Finite q \<Rightarrow> decimal_text (nat z) = num_text e q)"

definition ports_of :: "component_instance \<Rightarrow> db \<Rightarrow> port_definition list" where
  "ports_of c s = filter (\<lambda>p. port_def p = ci_def c) (port_definitions s)"

definition staged_matches ::
  "env \<Rightarrow> submitted_result \<Rightarrow> staged_ref \<Rightarrow> port_definition \<Rightarrow>
   staging \<times> artifact_schema \<times> upload \<Rightarrow> bool" where
  "staged_matches e r st port j =
     (case j of (g, c, u) \<Rightarrow>
        stg_attempt g = sr_attempt r \<and> stg_status g = StgStaged \<and> stg_digest g = st_digest st \<and>
        size_text_is e (stg_size g) (st_size st) \<and> stg_schema g = st_schema st \<and>
        port_schema port = st_schema st \<and> stg_media g = st_media st \<and>
        sch_digest c = st_schema_digest st \<and> up_port u = st_port st \<and>
        isExecutionSource (st_provenance st) (sr_execution r) (sr_attempt r))"

definition validateStaged ::
  "env \<Rightarrow> submitted_result \<Rightarrow> staged_ref \<Rightarrow> port_definition list \<Rightarrow> port_direction \<Rightarrow>
   (world, staging) io" where
  "validateStaged e r st ports direction =
     (let bad = ExecutionCommitError ''invalid_staged_artifact'' 400 in
     bind_io (or_throw_io (List.find (\<lambda>p. port_direction p = direction \<and> port_name p = st_port st) ports)
        (ExecutionCommitError ''undeclared_output_port'' 400)) (\<lambda>port.
     bind_io (get_io (\<lambda>w. staged_row (st_staging_id st) (w_db w))) (\<lambda>found.
     bind_io (or_throw_io found bad) (\<lambda>j.
     bind_io (guard_io (staged_matches e r st port j) bad) (\<lambda>_.
     if sr_status r \<noteq> RsCompleted then ret_io (fst j)
     else
       bind_io (get_io w_blobs) (\<lambda>blobs.
       bind_io (guard_io (blobs \<noteq> None) (ExecutionCommitError ''blob_store_unavailable'' 503)) (\<lambda>_.
       bind_io (catch_io
           (bind_io (validateStagedArtifact e MAX_JSON_BYTES (stg_id (fst j))) (\<lambda>_. ret_io ()))
           (\<lambda>_. throw_io bad)) (\<lambda>_.
       ret_io (fst j)))))))))"

definition insert_derivation :: "env \<Rightarrow> derivation \<Rightarrow> (db, unit) tx" where
  "insert_derivation e d =
     bind_tx (fresh_uuid e) (\<lambda>_. modify (\<lambda>s. s\<lparr>derivations := derivations s @ [d]\<rparr>))"

definition artifact_conflicts :: "artifact \<Rightarrow> staging \<Rightarrow> bool" where
  "artifact_conflicts a g \<longleftrightarrow>
     art_size a \<noteq> stg_size g \<or> art_schema a \<noteq> stg_schema g \<or> art_media a \<noteq> stg_media g \<or>
     art_state a = ArtTombstoned"

definition publishArtifact ::
  "env \<Rightarrow> submitted_result \<Rightarrow> staged_ref \<Rightarrow> staging \<Rightarrow> string \<Rightarrow> (db, string \<times> promotion) tx" where
  "publishArtifact e r st row derivationType =
     bind_tx (get (lockArtifactByDigest (stg_digest row))) (\<lambda>found.
     bind_tx (guard (case found of None \<Rightarrow> True | Some a \<Rightarrow> \<not> artifact_conflicts a row)
        (ExecutionCommitError ''artifact_conflict'' 409)) (\<lambda>_.
     bind_tx (case found of
         Some a \<Rightarrow> ret (art_id a)
       | None \<Rightarrow>
           bind_tx (createCommittedArtifactIdempotently e
             \<lparr>na_digest = stg_digest row, na_size = stg_size row, na_schema = stg_schema row,
              na_media = stg_media row, na_locator = ''sha256:'' @ stg_digest row,
              na_provenance = JObj [(''executionId'', JStr (sr_execution r)),
                (''attemptId'', JStr (sr_attempt r)), (''portName'', JStr (st_port st)),
                (''workerProvenance'', st_provenance st)]\<rparr>) (\<lambda>p. ret (art_id (fst p)))) (\<lambda>art.
     bind_tx (linkStagingRowToArtifact (stg_id row) art) (\<lambda>_.
     bind_tx (insert_derivation e
        \<lparr>der_artifact = art, der_execution = sr_execution r, der_attempt = sr_attempt r,
         der_type = derivationType\<rparr>) (\<lambda>_.
     ret (art, \<lparr>prm_row = stg_id row, prm_ref = stg_ref row, prm_artifact = art,
                prm_digest = stg_digest row, prm_size = stg_size row\<rparr>))))))"

record staged_acc =
  sa_seen :: "string option list"
  sa_ids :: "(string option \<times> string) list"
  sa_promotions :: "promotion list"

text \<open>One staged reference: not seen before, valid, and published when the result completed.\<close>

definition commit_staged ::
  "env \<Rightarrow> submitted_result \<Rightarrow> port_definition list \<Rightarrow> port_direction \<Rightarrow> string \<Rightarrow> staged_ref \<Rightarrow>
   staged_acc \<Rightarrow> (world, staged_acc) io" where
  "commit_staged e r ports direction derivationType st acc =
     bind_io (guard_io (st_staging_id st \<notin> set (sa_seen acc))
        (ExecutionCommitError ''invalid_staged_artifact'' 400)) (\<lambda>_.
     bind_io (validateStaged e r st ports direction) (\<lambda>row.
     if sr_status r = RsCompleted then
       bind_io (in_db (publishArtifact e r st row derivationType)) (\<lambda>(art, p).
       ret_io \<lparr>sa_seen = st_staging_id st # sa_seen acc,
               sa_ids = (st_staging_id st, art) # sa_ids acc,
               sa_promotions = sa_promotions acc @ [p]\<rparr>)
     else ret_io (acc\<lparr>sa_seen := st_staging_id st # sa_seen acc\<rparr>)))"

definition empty_acc :: staged_acc where
  "empty_acc = \<lparr>sa_seen = [], sa_ids = [], sa_promotions = []\<rparr>"

definition commit_artifacts ::
  "env \<Rightarrow> submitted_result \<Rightarrow> port_definition list \<Rightarrow> (world, staged_acc) io" where
  "commit_artifacts e r ports =
     bind_io (fold_io (commit_staged e r ports POutput ''execution_output'') (sr_artifacts r) empty_acc)
       (\<lambda>acc.
     case sr_state r of
       None \<Rightarrow> ret_io acc
     | Some st \<Rightarrow> commit_staged e r ports PState ''state_version'' st acc)"

subsection \<open>External actions\<close>

definition validateExternalActionProposal :: "action_proposal \<Rightarrow> bool" where
  "validateExternalActionProposal p \<longleftrightarrow>
     UUID_PATTERN (ap_proposal p) \<and> \<not> blank (ap_type p) \<and> \<not> blank (ap_key p) \<and>
     \<not> blank (ap_handle p) \<and> ap_risk p \<in> set EXTERNAL_ACTION_RISKS"

definition authorized_grant :: "string \<Rightarrow> component_instance \<Rightarrow> db \<Rightarrow> capability_grant option" where
  "authorized_grant gid c s =
     List.find (\<lambda>g. gr_id g = gid \<and> gr_grantee g = ci_def c \<and> gr_status g = GrActive \<and>
       list_ex (\<lambda>k. cap_id k = gr_capability g \<and> cap_retired k = None) (capabilities s))
     (capability_grants s)"

definition same_action :: "external_action \<Rightarrow> external_action \<Rightarrow> bool" where
  "same_action x y \<longleftrightarrow>
     xa_attempt x = xa_attempt y \<and> xa_proposal x = xa_proposal y \<or>
     xa_grant x = xa_grant y \<and> xa_type x = xa_type y \<and> xa_key x = xa_key y"

definition insert_action_or_nothing :: "external_action \<Rightarrow> (db, unit) tx" where
  "insert_action_or_nothing x = (\<lambda>s.
     if \<not> action_ok x then Inl (DbViolation ''external_actions_check'')
     else if list_ex (same_action x) (external_actions s) then Inr ((), s)
     else Inr ((), s\<lparr>external_actions := external_actions s @ [x]\<rparr>))"

definition recorded_action :: "external_action \<Rightarrow> db \<Rightarrow> external_action option" where
  "recorded_action x s =
     (case List.find (\<lambda>y. xa_attempt y = xa_attempt x \<and> xa_proposal y = xa_proposal x)
             (external_actions s) of
        Some y \<Rightarrow> Some y
      | None \<Rightarrow> List.find (\<lambda>y. xa_grant y = xa_grant x \<and> xa_type y = xa_type x \<and> xa_key y = xa_key x)
             (external_actions s))"

definition action_row ::
  "env \<Rightarrow> submitted_result \<Rightarrow> action_proposal \<Rightarrow> capability_grant \<Rightarrow> string \<Rightarrow> string \<Rightarrow> external_action" where
  "action_row e r p g artifact i =
     \<lparr>xa_id = i, xa_execution = sr_execution r, xa_attempt = sr_attempt r,
      xa_proposal = ap_proposal p, xa_grant = gr_id g, xa_request_artifact = artifact,
      xa_policy_decision = None, xa_approval = None, xa_type = ap_type p, xa_risk = ap_risk p,
      xa_status = XProposed, xa_key = ap_key p, xa_created = db_now e\<rparr>"

definition insert_proposed_action ::
  "env \<Rightarrow> submitted_result \<Rightarrow> action_proposal \<Rightarrow> capability_grant \<Rightarrow> string \<Rightarrow> (db, unit) tx" where
  "insert_proposed_action e r p g artifact =
     bind_tx (fresh_uuid e) (\<lambda>i.
     let x = action_row e r p g artifact i in
     bind_tx (insert_action_or_nothing x) (\<lambda>_.
     bind_tx (get (recorded_action x)) (\<lambda>found.
     guard (case found of
         None \<Rightarrow> False
       | Some y \<Rightarrow> xa_execution y = sr_execution r \<and> xa_attempt y = sr_attempt r \<and>
           xa_proposal y = ap_proposal p \<and> xa_request_artifact y = artifact \<and> xa_risk y = ap_risk p)
       (ExecutionCommitError ''duplicate_conflicting_external_action'' 409))))"

definition publish_action ::
  "env \<Rightarrow> submitted_result \<Rightarrow> component_instance \<Rightarrow> port_definition list \<Rightarrow> action_proposal \<Rightarrow>
   staged_acc \<Rightarrow> (world, staged_acc) io" where
  "publish_action e r c ports p acc =
     (let st = ap_request p in
     bind_io (guard_io (validateExternalActionProposal p)
        (ExecutionCommitError ''invalid_external_action_proposal'' 400)) (\<lambda>_.
     bind_io (or_throw_io (decodeCapabilityGrantHandle (ap_handle p))
        (ExecutionCommitError ''external_action_unauthorized'' 403)) (\<lambda>gid.
     bind_io (get_io (\<lambda>w. authorized_grant gid c (w_db w))) (\<lambda>found.
     bind_io (or_throw_io found (ExecutionCommitError ''external_action_unauthorized'' 403)) (\<lambda>g.
     bind_io (validateStaged e r st ports POutput) (\<lambda>row.
     bind_io (case map_of (sa_ids acc) (st_staging_id st) of
         Some art \<Rightarrow> ret_io (art, acc)
       | None \<Rightarrow>
           bind_io (in_db (publishArtifact e r st row ''external_action_request'')) (\<lambda>(art, prm).
           ret_io (art, acc\<lparr>sa_ids := (st_staging_id st, art) # sa_ids acc,
                            sa_promotions := sa_promotions acc @ [prm]\<rparr>))) (\<lambda>(art, acc').
     bind_io (in_db (insert_proposed_action e r p g art)) (\<lambda>_.
     ret_io acc'))))))))"

definition publishExternalActions ::
  "env \<Rightarrow> submitted_result \<Rightarrow> component_instance \<Rightarrow> port_definition list \<Rightarrow> staged_acc \<Rightarrow>
   (world, staged_acc) io" where
  "publishExternalActions e r c ports acc =
     (if sr_status r = RsCompleted then fold_io (publish_action e r c ports) (sr_actions r) acc
      else ret_io acc)"

subsection \<open>Ledger, completion and retry\<close>

definition insert_ledger :: "ledger_entry \<Rightarrow> (db, unit) tx" where
  "insert_ledger l = (\<lambda>s.
     if \<not> ledger_ok l then Inl (DbViolation ''resource_ledger_check'')
     else Inr ((), s\<lparr>ledger := ledger s @ [l]\<rparr>))"

definition usage_quantity :: "js_number \<Rightarrow> int" where
  "usage_quantity n = (case n of NotFinite \<Rightarrow> 0 | Finite q \<Rightarrow> \<lfloor>q\<rfloor>)"

definition ledger_row ::
  "string \<Rightarrow> submitted_result \<Rightarrow> string \<times> string \<Rightarrow> int \<Rightarrow> string \<Rightarrow> ledger_entry" where
  "ledger_row rgn r ku quantity i =
     \<lparr>led_id = i, led_region = rgn, led_execution = Some (sr_execution r),
      led_attempt = Some (sr_attempt r), led_action = None, led_type = fst ku,
      led_quantity = quantity, led_unit = snd ku, led_request = None\<rparr>"

definition writeResourceUsage :: "env \<Rightarrow> string \<Rightarrow> submitted_result \<Rightarrow> (db, unit) tx" where
  "writeResourceUsage e rgn r =
     for_tx RESOURCE_UNITS (\<lambda>ku.
       let quantity = usage_quantity
         (usage_value (case sr_usage r of None \<Rightarrow> [] | Some us \<Rightarrow> us) (fst ku)) in
       if quantity = 0 then ret ()
       else bind_tx (fresh_uuid e) (\<lambda>i. insert_ledger (ledger_row rgn r ku quantity i)))"

text \<open>The trigger on \<open>execution_outputs\<close>: an output without an event on a declared state port
  becomes the component's next state version.\<close>

definition state_port_of :: "execution \<Rightarrow> artifact \<Rightarrow> string \<Rightarrow> db \<Rightarrow> bool" where
  "state_port_of x a port s \<longleftrightarrow>
     list_ex (\<lambda>c. ci_id c = exe_component x \<and>
       list_ex (\<lambda>p. port_def p = ci_def c \<and> port_direction p = PState \<and> port_name p = port \<and>
         port_schema p = art_schema a) (port_definitions s)) (component_instances s)"

definition next_version :: "string \<Rightarrow> db \<Rightarrow> nat" where
  "next_version c s =
     Suc (fold max (map sv_number (filter (\<lambda>v. sv_component v = c) (state_versions s))) 0)"

definition state_version_row ::
  "env \<Rightarrow> string \<Rightarrow> execution_output \<Rightarrow> execution \<Rightarrow> artifact \<Rightarrow> db \<Rightarrow> state_version" where
  "state_version_row e i o' x a s =
     \<lparr>sv_id = i, sv_component = exe_component x, sv_port = out_port o',
      sv_number = next_version (exe_component x) s, sv_artifact = art_id a,
      sv_schema = art_schema a, sv_rev = exe_rev x, sv_region = exe_region x,
      sv_source_kind = ''execution'', sv_source_template = None, sv_origin = None,
      sv_source_execution = Some (out_execution o'), sv_source_attempt = Some (out_attempt o'),
      sv_provenance = JObj [(''kind'', JStr ''execution''),
        (''executionId'', JStr (out_execution o')), (''attemptId'', JStr (out_attempt o'))],
      sv_created = db_now e\<rparr>"

definition record_state_version :: "env \<Rightarrow> string \<Rightarrow> execution_output \<Rightarrow> db \<Rightarrow> db" where
  "record_state_version e i o' s =
     (if out_event o' \<noteq> None then s
      else case (List.find (\<lambda>x. exe_id x = out_execution o') (executions s),
                 List.find (\<lambda>a. art_id a = out_artifact o') (artifacts s)) of
        (Some x, Some a) \<Rightarrow>
          if state_port_of x a (out_port o') s
          then s\<lparr>state_versions := state_versions s @ [state_version_row e i o' x a s]\<rparr> else s
      | _ \<Rightarrow> s)"

definition insert_output :: "env \<Rightarrow> execution_output \<Rightarrow> (db, unit) tx" where
  "insert_output e x =
     bind_tx (fresh_uuid e) (\<lambda>i s.
     if list_ex (\<lambda>y. out_execution y = out_execution x \<and> out_port y = out_port x \<and>
          out_artifact y = out_artifact x) (execution_outputs s)
     then Inl (DbViolation ''execution_outputs_execution_id_port_name_artifact_id_key'')
     else Inr ((), record_state_version e i x
                     (s\<lparr>execution_outputs := execution_outputs s @ [x]\<rparr>)))"

definition artifact_of :: "(string option \<times> string) list \<Rightarrow> staged_ref \<Rightarrow> string" where
  "artifact_of ids st = (case map_of ids (st_staging_id st) of None \<Rightarrow> [] | Some a \<Rightarrow> a)"

definition output_event ::
  "submitted_result \<Rightarrow> commit_context \<Rightarrow> string \<Rightarrow> staged_ref \<Rightarrow> string \<Rightarrow> new_event" where
  "output_event r cc corr st art =
     \<lparr>ne_region = exe_region (cc_execution cc), ne_type = ''component.output'',
      ne_payload = JObj [(''portName'', JStr (st_port st)), (''artifactId'', JStr art)],
      ne_stream = ''component:'' @ ci_id (cc_component cc) @ '':'' @ st_port st,
      ne_correlation = Some corr, ne_source_kind = ''component'', ne_command = None,
      ne_event = None, ne_execution = Some (sr_execution r), ne_attempt = Some (sr_attempt r),
      ne_component = Some (ci_id (cc_component cc)), ne_port = Some (st_port st)\<rparr>"

definition publish_output ::
  "env \<Rightarrow> submitted_result \<Rightarrow> commit_context \<Rightarrow> string \<Rightarrow> (string option \<times> string) list \<Rightarrow>
   staged_ref \<Rightarrow> (db, unit) tx" where
  "publish_output e r cc corr ids st =
     bind_tx (insert_event e (output_event r cc corr st (artifact_of ids st))) (\<lambda>ev.
     bind_tx (insert_output e
        \<lparr>out_execution = sr_execution r, out_attempt = sr_attempt r, out_port = st_port st,
         out_artifact = artifact_of ids st, out_event = Some (ev_id ev)\<rparr>) (\<lambda>_.
     bind_tx (routeComponentEvent e ev (exe_rev (cc_execution cc))) (\<lambda>_. ret ())))"

definition proposed_new_event ::
  "submitted_result \<Rightarrow> commit_context \<Rightarrow> string \<Rightarrow> proposed_event \<Rightarrow> new_event" where
  "proposed_new_event r cc corr v =
     \<lparr>ne_region = exe_region (cc_execution cc), ne_type = pe_type v, ne_payload = pe_payload v,
      ne_stream = ''subject:'' @ pe_subject v, ne_correlation = Some corr,
      ne_source_kind = ''attempt'', ne_command = None, ne_event = None,
      ne_execution = Some (sr_execution r), ne_attempt = Some (sr_attempt r),
      ne_component = None, ne_port = None\<rparr>"

definition publish_outputs ::
  "env \<Rightarrow> submitted_result \<Rightarrow> commit_context \<Rightarrow> (string option \<times> string) list \<Rightarrow> (db, unit) tx" where
  "publish_outputs e r cc ids =
     (let corr = del_correlation (hd (cc_deliveries cc)) in
     bind_tx (for_tx (sr_artifacts r) (publish_output e r cc corr ids)) (\<lambda>_.
     bind_tx (case sr_state r of
         None \<Rightarrow> ret ()
       | Some st \<Rightarrow> insert_output e
           \<lparr>out_execution = sr_execution r, out_attempt = sr_attempt r, out_port = st_port st,
            out_artifact = artifact_of ids st, out_event = None\<rparr>) (\<lambda>_.
     for_tx (sr_events r) (\<lambda>v.
       bind_tx (insert_event e (proposed_new_event r cc corr v)) (\<lambda>_. ret ())))))"

definition completed_delivery :: "int \<Rightarrow> delivery \<Rightarrow> delivery" where
  "completed_delivery now d = d\<lparr>del_status := DCompleted, del_completed_at := Some now,
     del_failed_at := None, del_dead_at := None, del_owner := None, del_token := None,
     del_expires := None\<rparr>"

definition completed_attempt :: "int \<Rightarrow> attempt \<Rightarrow> attempt" where
  "completed_attempt now a = a\<lparr>att_status := ACompleted, att_completed_at := Some now,
     att_failure := None, att_owner := None, att_token := None, att_expires := None\<rparr>"

definition completed_execution :: "int \<Rightarrow> execution \<Rightarrow> execution" where
  "completed_execution now x = x\<lparr>exe_status := ECompleted, exe_completed_at := Some now,
     exe_failed_at := None, exe_failure := None\<rparr>"

definition in_context :: "commit_context \<Rightarrow> delivery \<Rightarrow> bool" where
  "in_context cc d \<longleftrightarrow> del_id d \<in> set (map del_id (cc_deliveries cc))"

definition complete ::
  "env \<Rightarrow> submitted_result \<Rightarrow> commit_context \<Rightarrow> (string option \<times> string) list \<Rightarrow>
   (db, commit_disposition) tx" where
  "complete e r cc ids =
     (let now = clock e in
     bind_tx (publish_outputs e r cc ids) (\<lambda>_.
     bind_tx (update_attempts (\<lambda>a. att_id a = sr_attempt r) (completed_attempt now)) (\<lambda>_.
     bind_tx (update_executions e (\<lambda>x. exe_id x = sr_execution r) (completed_execution now)) (\<lambda>_.
     bind_tx (update_deliveries (in_context cc) (completed_delivery now)) (\<lambda>_.
     ret Committed)))))"

definition default_failure :: "submitted_result \<Rightarrow> json" where
  "default_failure r =
     JObj [(''code'', JStr (if sr_status r = RsCancelled then ''cancelled'' else ''worker_failed'')),
       (''message'', JStr (if sr_status r = RsCancelled then ''worker reported cancelled''
          else ''worker reported failed'')),
       (''retryable'', JBool False)]"

definition reported_failure :: "submitted_result \<Rightarrow> json" where
  "reported_failure r =
     (case sr_failure r of
        None \<Rightarrow> default_failure r | Some j \<Rightarrow> if j = JNull then default_failure r else j)"

definition failed_attempt :: "int \<Rightarrow> submitted_result \<Rightarrow> attempt \<Rightarrow> attempt" where
  "failed_attempt now r a = a\<lparr>
     att_status := (if sr_status r = RsCancelled then ACancelled else AFailed),
     att_completed_at := Some now, att_failure := Some (reported_failure r),
     att_owner := None, att_token := None, att_expires := None\<rparr>"

definition retry_delay :: "attempt \<Rightarrow> int option" where
  "retry_delay a =
     (if att_number a - 1 < length RETRY_BACKOFF_MS \<and> 0 < att_number a
      then Some (RETRY_BACKOFF_MS ! (att_number a - 1)) else None)"

definition retryable :: "submitted_result \<Rightarrow> bool" where
  "retryable r \<longleftrightarrow>
     sr_status r = RsFailed \<and> json_field (reported_failure r) ''retryable'' = Some (JBool True)"

definition retry_attempt :: "commit_context \<Rightarrow> int \<Rightarrow> string \<Rightarrow> attempt" where
  "retry_attempt cc at' i =
     \<lparr>att_id = i, att_execution = exe_id (cc_execution cc),
      att_number = Suc (att_number (cc_attempt cc)), att_status = APending, att_owner = None,
      att_token = None, att_expires = None, att_started = Some at', att_completed_at = None,
      att_failure = None\<rparr>"

definition ready_delivery :: "int \<Rightarrow> delivery \<Rightarrow> delivery" where
  "ready_delivery at' d = d\<lparr>del_status := DReady, del_available := at', del_completed_at := None,
     del_failed_at := None, del_dead_at := None, del_owner := None, del_token := None,
     del_expires := None\<rparr>"

definition dead_delivery :: "int \<Rightarrow> delivery \<Rightarrow> delivery" where
  "dead_delivery now d = d\<lparr>del_status := DDeadLettered, del_completed_at := None,
     del_failed_at := None, del_dead_at := Some now, del_owner := None, del_token := None,
     del_expires := None\<rparr>"

definition failed_execution :: "int \<Rightarrow> json \<Rightarrow> execution \<Rightarrow> execution" where
  "failed_execution now failure x = x\<lparr>exe_status := EFailed, exe_failed_at := Some now,
     exe_completed_at := None, exe_failure := Some failure\<rparr>"

definition schedule_retry :: "env \<Rightarrow> commit_context \<Rightarrow> int \<Rightarrow> (db, commit_disposition) tx" where
  "schedule_retry e cc at' =
     bind_tx (fresh_uuid e) (\<lambda>i.
     bind_tx (insert_attempt_or_nothing (retry_attempt cc at' i)) (\<lambda>_.
     bind_tx (update_deliveries (in_context cc) (ready_delivery at')) (\<lambda>_.
     ret RetryScheduled)))"

definition dead_letter ::
  "env \<Rightarrow> submitted_result \<Rightarrow> commit_context \<Rightarrow> (db, commit_disposition) tx" where
  "dead_letter e r cc =
     bind_tx (update_executions e (\<lambda>x. exe_id x = exe_id (cc_execution cc))
        (failed_execution (clock e) (reported_failure r))) (\<lambda>_.
     bind_tx (update_deliveries (in_context cc) (dead_delivery (clock e))) (\<lambda>_.
     ret DeadLettered))"

definition failOrRetry ::
  "env \<Rightarrow> submitted_result \<Rightarrow> commit_context \<Rightarrow> (db, commit_disposition) tx" where
  "failOrRetry e r cc =
     bind_tx (update_attempts (\<lambda>a. att_id a = sr_attempt r) (failed_attempt (clock e) r)) (\<lambda>_.
     case (if retryable r then retry_delay (cc_attempt cc) else None) of
       Some delay \<Rightarrow> schedule_retry e cc (clock e + delay)
     | None \<Rightarrow> dead_letter e r cc)"

subsection \<open>The commit\<close>

definition uncommitted :: "string \<Rightarrow> string \<Rightarrow> submission \<Rightarrow> bool" where
  "uncommitted attemptId digest b \<longleftrightarrow>
     sub_attempt b = attemptId \<and> sub_digest b = digest \<and> sub_committed b = None"

definition mark_committed :: "env \<Rightarrow> submitted_result \<Rightarrow> string \<Rightarrow> (db, unit) tx" where
  "mark_committed e r digest =
     modify (\<lambda>s. s\<lparr>submissions := set_rows (uncommitted (sr_attempt r) digest)
       (\<lambda>b. b\<lparr>sub_committed := Some (clock e)\<rparr>) (submissions s)\<rparr>)"

definition finish_commit ::
  "env \<Rightarrow> submitted_result \<Rightarrow> string \<Rightarrow> commit_context \<Rightarrow> (string option \<times> string) list \<Rightarrow>
   (db, commit_disposition) tx" where
  "finish_commit e r digest cc ids =
     bind_tx (writeResourceUsage e (reg_id (cc_region cc)) r) (\<lambda>_.
     bind_tx (if sr_status r = RsCompleted then complete e r cc ids else failOrRetry e r cc) (\<lambda>d.
     bind_tx (mark_committed e r digest) (\<lambda>_. ret d)))"

definition publish_results ::
  "env \<Rightarrow> submitted_result \<Rightarrow> commit_context \<Rightarrow> (world, staged_acc) io" where
  "publish_results e r cc =
     bind_io (get_io (\<lambda>w. ports_of (cc_component cc) (w_db w))) (\<lambda>ports.
     bind_io (commit_artifacts e r ports) (\<lambda>acc.
     publishExternalActions e r (cc_component cc) ports acc))"

definition commit_body ::
  "env \<Rightarrow> bool \<Rightarrow> submitted_result \<Rightarrow> string \<Rightarrow>
   (world, commit_disposition \<times> promotion list) io" where
  "commit_body e allowExpiredLease r digest =
     bind_io (in_db (load_context e allowExpiredLease r digest)) (\<lambda>ctx.
     case ctx of
       None \<Rightarrow> ret_io (CommitDuplicate, [])
     | Some cc \<Rightarrow>
         bind_io (in_db (record_submission e r digest (cc_recorded cc))) (\<lambda>_.
         bind_io (publish_results e r cc) (\<lambda>acc.
         bind_io (in_db (finish_commit e r digest cc (sa_ids acc))) (\<lambda>d.
         ret_io (d, sa_promotions acc)))))"

definition rejects :: "error \<Rightarrow> bool" where
  "rejects err = (case err of ExecutionCommitError _ status \<Rightarrow> status < 500 | _ \<Rightarrow> False)"

definition discard_submission :: "submitted_result \<Rightarrow> string \<Rightarrow> db \<Rightarrow> db" where
  "discard_submission r digest s =
     s\<lparr>submissions := filter (\<lambda>b. \<not> uncommitted (sr_attempt r) digest b) (submissions s)\<rparr>"

definition promote_committed :: "env \<Rightarrow> promotion \<Rightarrow> world \<Rightarrow> world" where
  "promote_committed e p w =
     (if w_blobs w = None then w
      else snd (bind_io (in_blobs (promote e (prm_ref p) (prm_digest p) (prm_size p))) (\<lambda>_.
        in_db (markStagingPromoted (prm_row p) (prm_artifact p) (clock e))) w))"

definition commit ::
  "env \<Rightarrow> bool \<Rightarrow> submitted_result \<Rightarrow> string \<Rightarrow> (world, commit_disposition) io" where
  "commit e allowExpiredLease r digest = (\<lambda>w.
     case transaction_io (commit_body e allowExpiredLease r digest) w of
       (Inl err, w') \<Rightarrow>
         (Inl err, if rejects err then w'\<lparr>w_db := discard_submission r digest (w_db w')\<rparr> else w')
     | (Inr (d, promotions), w') \<Rightarrow> (Inr d, fold (promote_committed e) promotions w'))"

definition commitSubmittedResult ::
  "env \<Rightarrow> bool \<Rightarrow> string \<Rightarrow> (world, commit_disposition) io" where
  "commitSubmittedResult e allowExpiredLease attemptId = (\<lambda>w.
     case find_submission attemptId (w_db w) of
       None \<Rightarrow> (Inl (NoResultError ''worker_result_submissions''), w)
     | Some b \<Rightarrow>
         commit e allowExpiredLease (normalizeSubmittedResult (sub_result b)) (sub_digest b) w)"

subsection \<open>What publishing leaves alone\<close>

text \<open>The tables that decide about authority: publication, the event log and the ledger do not
  touch them.\<close>

definition core ::
  "db \<Rightarrow> attempt list \<times> execution list \<times> submission list \<times> execution_input list" where
  "core s = (attempts s, executions s, submissions s, execution_inputs s)"

named_theorems core_intros \<open>operations that keep the core tables\<close>

definition kept ::
  "attempt list \<times> execution list \<times> submission list \<times> execution_input list \<Rightarrow> string set \<Rightarrow> db \<Rightarrow> bool" where
  "kept c ids s \<longleftrightarrow> core s = c \<and> ids \<subseteq> del_id ` set (deliveries s)"

lemma core_fresh [core_intros]: "keeps (kept c ids) (fresh_uuid e)"
  by (rule keepsI) (auto simp: fresh_uuid_def kept_def core_def)

lemma core_stagings [core_intros]: "keeps (kept c ids) (update_stagings p f)"
  by (rule keepsI) (auto simp: update_stagings_def kept_def core_def split: sum.splits)

lemma core_insert_artifact [core_intros]: "keeps (kept c ids) (insert_artifact_or_nothing a)"
  by (rule keepsI) (auto simp: insert_artifact_or_nothing_def kept_def core_def split: if_splits)

lemma core_modify [core_intros]:
  "keeps (kept c ids) (modify (\<lambda>s. s\<lparr>derivations := f s\<rparr>))"
  by (rule keeps_modify) (simp add: kept_def core_def)

lemma core_insert_action [core_intros]: "keeps (kept c ids) (insert_action_or_nothing x)"
  by (rule keepsI) (auto simp: insert_action_or_nothing_def kept_def core_def split: if_splits)

lemma core_insert_ledger [core_intros]: "keeps (kept c ids) (insert_ledger l)"
  by (rule keepsI) (auto simp: insert_ledger_def kept_def core_def split: if_splits)

lemma core_insert_output [core_intros]: "keeps (kept c ids) (insert_output e x)"
  unfolding insert_output_def
  by (rule keeps_bind [OF core_fresh], rule keepsI)
    (auto simp: record_state_version_def kept_def core_def split: if_splits option.splits)

lemma core_insert_delivery [core_intros]: "keeps (kept c ids) (insert_delivery d)"
  by (rule keepsI) (auto simp: insert_delivery_def kept_def core_def Let_def split: if_splits option.splits)

lemma core_allocate [core_intros]: "keeps (kept c ids) (allocateSequence k)"
  by (rule keepsI) (auto simp: allocateSequence_def kept_def core_def split: option.splits)

lemma core_append [core_intros]: "keeps (kept c ids) (append_event v)"
  by (rule keepsI) (auto simp: append_event_def kept_def core_def split: if_splits)

lemma core_insert_event [core_intros]: "keeps (kept c ids) (insert_event e i)"
  unfolding insert_event_def by (intro keeps_bind keeps_guard keeps_ret core_intros)

lemma core_route [core_intros]: "keeps (kept c ids) (routeComponentEvent e v rvn)"
  unfolding routeComponentEvent_def
  by (auto intro!: keeps_bind keeps_map core_intros split: option.splits)

lemma core_create [core_intros]:
  "keeps (kept c ids) (createCommittedArtifactIdempotently e n)"
  unfolding createCommittedArtifactIdempotently_def
  by (intro keeps_bind keeps_if keeps_get keeps_or_throw keeps_ret core_intros)

lemma core_publish [core_intros]: "keeps (kept c ids) (publishArtifact e r st row k)"
  unfolding publishArtifact_def linkStagingRowToArtifact_def insert_derivation_def
  by (intro keeps_bind keeps_get keeps_guard keeps_ret keeps_option core_intros)

lemma core_proposed [core_intros]: "keeps (kept c ids) (insert_proposed_action e r p g art)"
  unfolding insert_proposed_action_def Let_def
  by (intro keeps_bind keeps_get keeps_guard core_intros)

lemma core_usage [core_intros]: "keeps (kept c ids) (writeResourceUsage e rgn r)"
  unfolding writeResourceUsage_def Let_def
  by (intro keeps_for keeps_if keeps_ret keeps_bind core_intros)

lemma core_outputs [core_intros]: "keeps (kept c ids) (publish_outputs e r cc arts)"
  unfolding publish_outputs_def publish_output_def Let_def
  by (intro keeps_for keeps_bind keeps_option keeps_ret core_intros)

lemma holds_io_cong_db:
  assumes "keeps P m"
  shows "holds_io (\<lambda>w. P (w_db w)) (in_db m)"
  using assms by (rule holds_io_in_db)

lemma holds_io_validate:
  "holds_io (\<lambda>w. P (w_db w)) (validateStagedArtifact e m i)"
  by (rule holds_ioI) (simp add: validate_db)

lemma holds_validateStaged: "holds_io (\<lambda>w. P (w_db w)) (validateStaged e r st ports dir)"
  unfolding validateStaged_def Let_def
  by (intro holds_io_bind holds_io_simple holds_io_if holds_io_catch holds_io_validate)

lemma holds_publish_results:
  assumes "\<And>st row k. keeps P (publishArtifact e r st row k)"
    and "\<And>p g art. keeps P (insert_proposed_action e r p g art)"
  shows "holds_io (\<lambda>w. P (w_db w)) (publish_results e r cc)"
proof -
  have one: "holds_io (\<lambda>w. P (w_db w)) (commit_staged e r ports dir k st acc)" for ports dir k st acc
    unfolding commit_staged_def
    by (intro holds_io_bind holds_io_simple holds_io_if holds_validateStaged)
      (auto intro!: holds_io_bind holds_io_in_db assms)
  have two: "holds_io (\<lambda>w. P (w_db w)) (publish_action e r c ports p acc)" for c ports p acc
    unfolding publish_action_def Let_def
    by (intro holds_io_bind holds_io_simple holds_validateStaged)
      (auto intro!: holds_io_bind holds_io_option holds_io_in_db assms)
  show ?thesis
    unfolding publish_results_def commit_artifacts_def publishExternalActions_def
    by (intro holds_io_bind holds_io_simple holds_io_fold holds_io_option holds_io_if one two)
qed

subsection \<open>The row constraints\<close>

lemma checks_insert_artifact: "keeps db_checks (insert_artifact_or_nothing a)"
  by (rule keepsI) (auto simp: insert_artifact_or_nothing_def db_checks_def split: if_splits)

lemma checks_insert_action: "keeps db_checks (insert_action_or_nothing x)"
  by (rule keepsI) (auto simp: insert_action_or_nothing_def db_checks_def split: if_splits)

lemma checks_insert_ledger: "keeps db_checks (insert_ledger l)"
  by (rule keepsI) (auto simp: insert_ledger_def db_checks_def split: if_splits)

lemma checks_insert_output: "keeps db_checks (insert_output e x)"
  unfolding insert_output_def
  by (rule keeps_bind [OF checks_fresh_uuid], rule keepsI)
    (auto simp: record_state_version_def db_checks_def split: if_splits option.splits)

lemma checks_insert_submission: "keeps db_checks (insert_submission b)"
  by (rule keepsI) (auto simp: insert_submission_def db_checks_def split: if_splits)

lemma checks_mark_committed: "keeps db_checks (mark_committed e r digest)"
  unfolding mark_committed_def by (rule keeps_modify) (simp add: db_checks_def)

lemma checks_derivation: "keeps db_checks (insert_derivation e d)"
  unfolding insert_derivation_def
  by (intro keeps_bind keeps_modify checks_fresh_uuid) (simp add: db_checks_def)

lemmas checks_commit_intros =
  checks_intros checks_insert_artifact checks_insert_action checks_insert_ledger
  checks_insert_output checks_insert_submission checks_mark_committed checks_derivation
  checks_insert_event checks_routeComponentEvent

lemma checks_publishArtifact: "keeps db_checks (publishArtifact e r st row k)"
  unfolding publishArtifact_def linkStagingRowToArtifact_def
    createCommittedArtifactIdempotently_def
  by (intro keeps_bind keeps_get keeps_guard keeps_ret keeps_option keeps_if keeps_or_throw
      checks_commit_intros)

lemma checks_proposed: "keeps db_checks (insert_proposed_action e r p g art)"
  unfolding insert_proposed_action_def Let_def
  by (intro keeps_bind keeps_get keeps_guard checks_commit_intros)

lemma checks_finish_commit: "keeps db_checks (finish_commit e r digest cc ids)"
  unfolding finish_commit_def writeResourceUsage_def complete_def failOrRetry_def schedule_retry_def
    dead_letter_def publish_outputs_def publish_output_def Let_def
  by (intro keeps_bind keeps_for keeps_if keeps_option keeps_ret checks_commit_intros)

subsection \<open>What a commit has checked\<close>

lemma for_tx_guard:
  assumes "\<And>x u s s'. f x s = Inr (u, s') \<Longrightarrow> s' = s" and "for_tx xs f s = Inr (u, s')"
  shows "s' = s"
  using assms(2)
proof (induction xs arbitrary: s)
  case Nil
  then show ?case by (simp add: ret_Inr)
next
  case (Cons x xs)
  then obtain v t where "f x s = Inr (v, t)" and "for_tx xs f t = Inr (u, s')"
    by (auto simp: bind_tx_Inr)
  with assms(1) Cons.IH show ?case by blast
qed

lemma validateProposedEvent_Inr: "validateProposedEvent e r v s = Inr (u, s') \<Longrightarrow> s' = s"
  by (auto simp: validateProposedEvent_def Let_def tx_Inr)

lemma assertAuthority_Inr:
  "assertAuthority e allow r a x g ds s = Inr (u, s') \<longleftrightarrow>
     s' = s \<and> att_token a = Some (sr_token r) \<and>
     (allow \<or> (\<exists>t. att_expires a = Some t \<and> clock e < t)) \<and>
     sr_lifecycle_epoch r = Some (exe_epoch x) \<and> sr_lifecycle_epoch r = Some (reg_epoch g) \<and>
     reg_status g = RRunning \<and>
     (\<forall>d\<in>set ds. del_status d = DLeased \<and> del_token d = Some (sr_token r))"
  by (auto simp: assertAuthority_def tx_Inr list_all_iff split: option.splits)

definition authorized :: "env \<Rightarrow> bool \<Rightarrow> submitted_result \<Rightarrow> string \<Rightarrow> commit_context \<Rightarrow> db \<Rightarrow> bool" where
  "authorized e allow r digest cc s \<longleftrightarrow>
     List.find (\<lambda>a. att_id a = sr_attempt r \<and> att_execution a = sr_execution r) (attempts s)
       = Some (cc_attempt cc) \<and>
     List.find (\<lambda>x. exe_id x = sr_execution r) (executions s) = Some (cc_execution cc) \<and>
     List.find (\<lambda>g. reg_id g = exe_region (cc_execution cc)) (regions s) = Some (cc_region cc) \<and>
     active (att_status (cc_attempt cc)) \<and> exe_status (cc_execution cc) = ERunning \<and>
     cc_deliveries cc = input_deliveries (sr_execution r) s \<and> cc_deliveries cc \<noteq> [] \<and>
     att_token (cc_attempt cc) = Some (sr_token r) \<and>
     (allow \<or> (\<exists>t. att_expires (cc_attempt cc) = Some t \<and> clock e < t)) \<and>
     sr_lifecycle_epoch r = Some (exe_epoch (cc_execution cc)) \<and>
     reg_epoch (cc_region cc) = exe_epoch (cc_execution cc) \<and>
     reg_status (cc_region cc) = RRunning \<and>
     (\<forall>d\<in>set (cc_deliveries cc). del_status d = DLeased \<and> del_token d = Some (sr_token r)) \<and>
     (case find_submission (sr_attempt r) s of
        None \<Rightarrow> \<not> cc_recorded cc
      | Some b \<Rightarrow> cc_recorded cc \<and> sub_digest b = digest \<and> sub_committed b = None)"

lemma load_context_Some:
  assumes "load_context e allow r digest s = Inr (Some cc, s')"
  shows "s' = s" and "authorized e allow r digest cc s"
proof -
  have events: "s' = s" if "for_tx (sr_events r) (validateProposedEvent e r) s = Inr (u, s')" for u s s'
    using that by (rule for_tx_guard [rotated]) (rule validateProposedEvent_Inr)
  have usage: "validateResourceUsage us s = Inr (u, s') \<Longrightarrow> s' = s" for us u s s'
    by (auto simp: validateResourceUsage_def Let_def tx_Inr)
  have "s' = s \<and> authorized e allow r digest cc s"
    using assms
    by (auto simp: load_context_def Let_def tx_Inr assertAuthority_Inr authorized_def
        split: if_splits option.splits dest!: events usage dest: find_Some_mem)
  then show "s' = s" and "authorized e allow r digest cc s" by auto
qed

lemma load_context_None:
  assumes "load_context e allow r digest s = Inr (None, s')"
  shows "s' = s" and "\<exists>b. find_submission (sr_attempt r) s = Some b \<and> sub_digest b = digest \<and>
    sub_committed b \<noteq> None"
  using assms
  by (auto simp: load_context_def Let_def tx_Inr split: if_splits option.splits)

subsection \<open>What a commit writes\<close>

definition attempt_of :: "submitted_result \<Rightarrow> attempt \<Rightarrow> bool" where
  "attempt_of r a \<longleftrightarrow> att_id a = sr_attempt r"

definition execution_of :: "submitted_result \<Rightarrow> execution \<Rightarrow> bool" where
  "execution_of r x \<longleftrightarrow> exe_id x = sr_execution r"

text \<open>The lifecycle tables after a step that rewrote the rows of one attempt, its execution and
  its deliveries. \<open>ds\<close> are the deliveries just before.\<close>

definition lifecycle_step ::
  "submitted_result \<Rightarrow> commit_context \<Rightarrow> (attempt \<Rightarrow> attempt) \<Rightarrow> (execution \<Rightarrow> execution) \<Rightarrow>
   (delivery \<Rightarrow> delivery) \<Rightarrow> attempt list \<Rightarrow> string set \<Rightarrow> db \<Rightarrow> db \<Rightarrow> bool" where
  "lifecycle_step r cc fa fx fd new ids s s' \<longleftrightarrow>
     attempts s' = set_rows (attempt_of r) fa (attempts s) @ new \<and>
     executions s' = set_rows (execution_of r) fx (executions s) \<and>
     submissions s' = submissions s \<and> execution_inputs s' = execution_inputs s \<and>
     (\<exists>ds. ids \<subseteq> del_id ` set ds \<and> deliveries s' = set_rows (in_context cc) fd ds)"

lemma set_rows_id: "set_rows p (\<lambda>x. x) xs = xs"
  by (simp add: set_rows_def)

lemma complete_Inr:
  assumes "complete e r cc arts s = Inr (d, s')" and "ids \<subseteq> del_id ` set (deliveries s)"
  shows "d = Committed"
    and "lifecycle_step r cc (completed_attempt (clock e)) (completed_execution (clock e))
      (completed_delivery (clock e)) [] ids s s'"
proof -
  obtain u1 s1 n2 s2 n3 s3 n4 where
    pub: "publish_outputs e r cc arts s = Inr (u1, s1)" and
    att: "update_attempts (attempt_of r) (completed_attempt (clock e)) s1 = Inr (n2, s2)" and
    exe: "update_executions e (execution_of r) (completed_execution (clock e)) s2 = Inr (n3, s3)" and
    del: "update_deliveries (in_context cc) (completed_delivery (clock e)) s3 = Inr (n4, s')" and
    d: "d = Committed"
    using assms(1) by (auto simp: complete_def Let_def bind_tx_Inr ret_Inr attempt_of_def [abs_def]
        execution_of_def [abs_def])
  have "kept (core s) ids s1"
    using assms(2) by (intro keepsD [OF core_outputs _ pub]) (simp add: kept_def)
  then have s1: "core s1 = core s" "ids \<subseteq> del_id ` set (deliveries s1)" by (auto simp: kept_def)
  have s2: "s2 = s1\<lparr>attempts := set_rows (attempt_of r) (completed_attempt (clock e)) (attempts s1)\<rparr>"
    using att by (simp add: update_attempts_inactive completed_attempt_def active_def split: if_splits)
  note s3 = update_executions_Inr(2,3) [OF exe]
  have s': "s' = s3\<lparr>deliveries := set_rows (in_context cc) (completed_delivery (clock e)) (deliveries s3)\<rparr>"
    using del by (simp add: update_deliveries_eq split: if_splits)
  show "d = Committed" by (rule d)
  show "lifecycle_step r cc (completed_attempt (clock e)) (completed_execution (clock e))
      (completed_delivery (clock e)) [] ids s s'"
    using s1 s3(1) unfolding lifecycle_step_def s' s3(2) s2 by (auto simp: core_def)
qed

lemma schedule_retry_Inr:
  assumes "schedule_retry e cc t s = Inr (d, s')"
  shows "d = RetryScheduled"
    and "\<exists>i. (list_ex (same_attempt_key (retry_attempt cc t i)) (attempts s) \<or>
        i \<notin> att_id ` set (attempts s)) \<and> s' = s\<lparr>drawn := Suc (drawn s),
      attempts := attempts s @ (if list_ex (same_attempt_key (retry_attempt cc t i)) (attempts s)
        then [] else [retry_attempt cc t i]),
      deliveries := set_rows (in_context cc) (ready_delivery t) (deliveries s)\<rparr>"
proof -
  show "d = RetryScheduled"
    using assms by (auto simp: schedule_retry_def bind_tx_Inr ret_Inr)
  obtain i s1 b s2 n where i: "fresh_uuid e s = Inr (i, s1)"
    and ins: "insert_attempt_or_nothing (retry_attempt cc t i) s1 = Inr (b, s2)"
    and del: "update_deliveries (in_context cc) (ready_delivery t) s2 = Inr (n, s')"
    using assms by (auto simp: schedule_retry_def bind_tx_Inr ret_Inr)
  have "s' = s2\<lparr>deliveries := set_rows (in_context cc) (ready_delivery t) (deliveries s2)\<rparr>"
    using del by (simp add: update_deliveries_eq split: if_splits)
  moreover have "s1 = s\<lparr>drawn := Suc (drawn s)\<rparr>" using i by (simp add: fresh_uuid_Inr)
  moreover have "s2 = s1\<lparr>attempts := attempts s1 @
      (if list_ex (same_attempt_key (retry_attempt cc t i)) (attempts s1)
        then [] else [retry_attempt cc t i])\<rparr>"
    using ins by (auto simp: insert_attempt_or_nothing_def split: if_splits)
  moreover have "list_ex (same_attempt_key (retry_attempt cc t i)) (attempts s1) \<or>
      i \<notin> att_id ` set (attempts s1)"
    using ins by (auto simp: insert_attempt_or_nothing_def attempt_taken_def list_ex_iff retry_attempt_def
        split: if_splits)
  ultimately have "(list_ex (same_attempt_key (retry_attempt cc t i)) (attempts s) \<or>
        i \<notin> att_id ` set (attempts s)) \<and> s' = s\<lparr>drawn := Suc (drawn s),
      attempts := attempts s @ (if list_ex (same_attempt_key (retry_attempt cc t i)) (attempts s)
        then [] else [retry_attempt cc t i]),
      deliveries := set_rows (in_context cc) (ready_delivery t) (deliveries s)\<rparr>" by simp
  then show "\<exists>i. (list_ex (same_attempt_key (retry_attempt cc t i)) (attempts s) \<or>
        i \<notin> att_id ` set (attempts s)) \<and> s' = s\<lparr>drawn := Suc (drawn s),
      attempts := attempts s @ (if list_ex (same_attempt_key (retry_attempt cc t i)) (attempts s)
        then [] else [retry_attempt cc t i]),
      deliveries := set_rows (in_context cc) (ready_delivery t) (deliveries s)\<rparr>" by blast
qed

lemma dead_letter_Inr:
  assumes "dead_letter e r cc s = Inr (d, s')"
  shows "d = DeadLettered" and "attempts s' = attempts s" and "submissions s' = submissions s"
    and "execution_inputs s' = execution_inputs s"
    and "executions s' = set_rows (\<lambda>x. exe_id x = exe_id (cc_execution cc))
      (failed_execution (clock e) (reported_failure r)) (executions s)"
    and "deliveries s' = set_rows (in_context cc) (dead_delivery (clock e)) (deliveries s)"
proof -
  obtain n1 s1 n2 where
    exe: "update_executions e (\<lambda>x. exe_id x = exe_id (cc_execution cc))
      (failed_execution (clock e) (reported_failure r)) s = Inr (n1, s1)"
    and del: "update_deliveries (in_context cc) (dead_delivery (clock e)) s1 = Inr (n2, s')"
    and d: "d = DeadLettered"
    using assms by (auto simp: dead_letter_def bind_tx_Inr ret_Inr)
  note s1 = update_executions_Inr(2,3) [OF exe]
  have s': "s' = s1\<lparr>deliveries := set_rows (in_context cc) (dead_delivery (clock e)) (deliveries s1)\<rparr>"
    using del by (simp add: update_deliveries_eq split: if_splits)
  show "d = DeadLettered" by (rule d)
  show "attempts s' = attempts s" and "submissions s' = submissions s"
    and "execution_inputs s' = execution_inputs s"
    and "deliveries s' = set_rows (in_context cc) (dead_delivery (clock e)) (deliveries s)"
    unfolding s' s1(2) by simp_all
  show "executions s' = set_rows (\<lambda>x. exe_id x = exe_id (cc_execution cc))
      (failed_execution (clock e) (reported_failure r)) (executions s)"
    unfolding s' by (simp add: s1(1))
qed

lemma failOrRetry_Inr:
  assumes "failOrRetry e r cc s = Inr (d, s')" and "ids \<subseteq> del_id ` set (deliveries s)"
    and x: "exe_id (cc_execution cc) = sr_execution r"
  obtains (retry) delay i where "retryable r" and "retry_delay (cc_attempt cc) = Some delay"
      and "d = RetryScheduled"
      and "list_ex (same_attempt_key (retry_attempt cc (clock e + delay) i))
          (set_rows (attempt_of r) (failed_attempt (clock e) r) (attempts s)) \<or>
        i \<notin> att_id ` set (attempts s)"
      and "lifecycle_step r cc (failed_attempt (clock e) r) (\<lambda>x. x)
        (ready_delivery (clock e + delay))
        (if list_ex (same_attempt_key (retry_attempt cc (clock e + delay) i))
              (set_rows (attempt_of r) (failed_attempt (clock e) r) (attempts s))
         then [] else [retry_attempt cc (clock e + delay) i]) ids s s'"
  | (dead) "\<not> (retryable r \<and> retry_delay (cc_attempt cc) \<noteq> None)" and "d = DeadLettered"
      and "lifecycle_step r cc (failed_attempt (clock e) r)
        (failed_execution (clock e) (reported_failure r)) (dead_delivery (clock e)) [] ids s s'"
proof -
  let ?fa = "failed_attempt (clock e) r"
  obtain n s1 where att: "update_attempts (attempt_of r) ?fa s = Inr (n, s1)"
    and rest: "(case (if retryable r then retry_delay (cc_attempt cc) else None) of
       Some delay \<Rightarrow> schedule_retry e cc (clock e + delay) | None \<Rightarrow> dead_letter e r cc) s1
       = Inr (d, s')"
    using assms(1) by (auto simp: failOrRetry_def bind_tx_Inr attempt_of_def [abs_def])
  have s1: "s1 = s\<lparr>attempts := set_rows (attempt_of r) ?fa (attempts s)\<rparr>"
    using att by (simp add: update_attempts_inactive failed_attempt_def active_def split: if_splits)
  show thesis
  proof (cases "if retryable r then retry_delay (cc_attempt cc) else None")
    case None
    with rest have dl: "dead_letter e r cc s1 = Inr (d, s')" by simp
    note dead_letter_Inr [OF dl]
    with s1 assms(2) have "lifecycle_step r cc ?fa (failed_execution (clock e) (reported_failure r))
        (dead_delivery (clock e)) [] ids s s'"
      by (auto simp: lifecycle_step_def execution_of_def [abs_def] x)
    moreover have "\<not> (retryable r \<and> retry_delay (cc_attempt cc) \<noteq> None)"
      using None by (auto split: if_splits)
    ultimately show thesis using dead_letter_Inr(1) [OF dl] by (intro dead)
  next
    case (Some delay)
    then have re: "retryable r" "retry_delay (cc_attempt cc) = Some delay" by (auto split: if_splits)
    from Some rest have sr: "schedule_retry e cc (clock e + delay) s1 = Inr (d, s')" by simp
    from schedule_retry_Inr(2) [OF sr] obtain i where
      i: "list_ex (same_attempt_key (retry_attempt cc (clock e + delay) i)) (attempts s1) \<or>
        i \<notin> att_id ` set (attempts s1)" and s': "s' = s1\<lparr>drawn := Suc (drawn s1),
      attempts := attempts s1 @ (if list_ex (same_attempt_key (retry_attempt cc (clock e + delay) i))
        (attempts s1) then [] else [retry_attempt cc (clock e + delay) i]),
      deliveries := set_rows (in_context cc) (ready_delivery (clock e + delay)) (deliveries s1)\<rparr>"
      by blast
    have "att_id ` set (attempts s1) = att_id ` set (attempts s)"
      by (simp add: s1 failed_attempt_def set_set_rows image_Un) (force simp: image_iff)
    with i have fresh: "list_ex (same_attempt_key (retry_attempt cc (clock e + delay) i))
        (set_rows (attempt_of r) ?fa (attempts s)) \<or> i \<notin> att_id ` set (attempts s)"
      by (simp add: s1)
    show thesis
      using re schedule_retry_Inr(1) [OF sr] fresh
    proof (rule retry)
      show "lifecycle_step r cc ?fa (\<lambda>x. x) (ready_delivery (clock e + delay))
        (if list_ex (same_attempt_key (retry_attempt cc (clock e + delay) i))
              (set_rows (attempt_of r) ?fa (attempts s))
         then [] else [retry_attempt cc (clock e + delay) i]) ids s s'"
        using assms(2) by (auto simp: lifecycle_step_def s' s1 set_rows_id)
    qed
  qed
qed

text \<open>A commit that returns is a duplicate, or it was authorized and went through its phases.\<close>

lemma commit_body_Inr:
  assumes "commit_body e allow r digest w = (Inr (d, ps), w')"
  obtains (duplicate) b where "d = CommitDuplicate" and "ps = []" and "w' = w"
      and "find_submission (sr_attempt r) (w_db w) = Some b" and "sub_digest b = digest"
      and "sub_committed b \<noteq> None"
  | (committed) cc s1 acc w2 s3 where "authorized e allow r digest cc (w_db w)"
      and "record_submission e r digest (cc_recorded cc) (w_db w) = Inr ((), s1)"
      and "publish_results e r cc (w\<lparr>w_db := s1\<rparr>) = (Inr acc, w2)"
      and "finish_commit e r digest cc (sa_ids acc) (w_db w2) = Inr (d, s3)"
      and "w' = w2\<lparr>w_db := s3\<rparr>" and "ps = sa_promotions acc"
proof -
  obtain c s where ctx: "load_context e allow r digest (w_db w) = Inr (c, s)"
    and rest: "(case c of
       None \<Rightarrow> ret_io (CommitDuplicate, [])
     | Some cc \<Rightarrow>
         bind_io (in_db (record_submission e r digest (cc_recorded cc))) (\<lambda>_.
         bind_io (publish_results e r cc) (\<lambda>acc.
         bind_io (in_db (finish_commit e r digest cc (sa_ids acc))) (\<lambda>d.
         ret_io (d, sa_promotions acc))))) (w\<lparr>w_db := s\<rparr>) = (Inr (d, ps), w')"
    using assms unfolding commit_body_def by (auto simp: bind_io_Inr in_db_Inr)
  show thesis
  proof (cases c)
    case None
    with ctx load_context_None [of e allow r digest "w_db w" s] have "s = w_db w"
      and "\<exists>b. find_submission (sr_attempt r) (w_db w) = Some b \<and> sub_digest b = digest \<and>
        sub_committed b \<noteq> None" by auto
    with None rest show thesis by (auto simp: ret_io_Inr intro: duplicate)
  next
    case (Some cc)
    with ctx load_context_Some [of e allow r digest "w_db w" cc s] have s: "s = w_db w"
      and auth: "authorized e allow r digest cc (w_db w)" by auto
    from rest Some s obtain s1 acc w2 s3 where
      "record_submission e r digest (cc_recorded cc) (w_db w) = Inr ((), s1)"
      "publish_results e r cc (w\<lparr>w_db := s1\<rparr>) = (Inr acc, w2)"
      "finish_commit e r digest cc (sa_ids acc) (w_db w2) = Inr (d, s3)"
      "w' = w2\<lparr>w_db := s3\<rparr>" "ps = sa_promotions acc"
      by (auto simp: bind_io_Inr in_db_Inr ret_io_Inr)
    with auth show thesis by (rule committed)
  qed
qed

lemma lifecycle_step_core:
  "core u = core s \<Longrightarrow> lifecycle_step r cc fa fx fd new ids u t = lifecycle_step r cc fa fx fd new ids s t"
  by (auto simp: lifecycle_step_def core_def)

lemma submission_row_uncommitted [simp]:
  "uncommitted (sr_attempt r) digest (submission_row e r digest i)"
  by (simp add: uncommitted_def submission_row_def)

lemma record_submission_Inr:
  assumes "record_submission e r digest recorded s = Inr (u, s')"
  shows "\<exists>n new. s' = s\<lparr>drawn := n, submissions := submissions s @ new\<rparr> \<and>
    (if recorded then new = []
     else (\<exists>b. new = [b] \<and> uncommitted (sr_attempt r) digest b) \<and>
       find_submission (sr_attempt r) s = None)"
proof (cases recorded)
  case True
  with assms have "s' = s\<lparr>drawn := drawn s, submissions := submissions s @ []\<rparr>"
    by (simp add: record_submission_def ret_Inr)
  then have "\<exists>n new. s' = s\<lparr>drawn := n, submissions := submissions s @ new\<rparr> \<and> new = []" by blast
  with True show ?thesis by simp
next
  case False
  let ?b = "submission_row e r digest (new_uuid e (drawn s))"
  have "s' = s\<lparr>drawn := Suc (drawn s), submissions := submissions s @ [?b]\<rparr>"
    and "find_submission (sr_attempt r) s = None"
    using assms False
    by (auto simp: record_submission_def bind_tx_Inr fresh_uuid_Inr insert_submission_def
        find_submission_def find_None_iff list_ex_iff submission_row_def split: if_splits)
  moreover have "uncommitted (sr_attempt r) digest ?b" by simp
  ultimately have "\<exists>n new. s' = s\<lparr>drawn := n, submissions := submissions s @ new\<rparr> \<and>
    (\<exists>b. new = [b] \<and> uncommitted (sr_attempt r) digest b) \<and>
    find_submission (sr_attempt r) s = None" by blast
  with False show ?thesis by simp
qed

lemma input_deliveries_mem: "d \<in> set (input_deliveries x s) \<Longrightarrow> d \<in> set (deliveries s)"
  by (auto simp: input_deliveries_def List.map_filter_def dest: find_Some_mem split: if_splits)

text \<open>The three ways a commit can end, with what each does to an attempt, an execution and a
  delivery, and the attempt a retry adds to \<open>atts\<close>.\<close>

definition commit_outcome ::
  "env \<Rightarrow> submitted_result \<Rightarrow> commit_context \<Rightarrow> attempt list \<Rightarrow> commit_disposition \<Rightarrow>
   (attempt \<Rightarrow> attempt) \<Rightarrow> (execution \<Rightarrow> execution) \<Rightarrow> (delivery \<Rightarrow> delivery) \<Rightarrow> attempt list \<Rightarrow> bool" where
  "commit_outcome e r cc atts d fa fx fd new \<longleftrightarrow>
     sr_status r = RsCompleted \<and> d = Committed \<and> fa = completed_attempt (clock e) \<and>
        fx = completed_execution (clock e) \<and> fd = completed_delivery (clock e) \<and> new = []
      \<or> sr_status r \<noteq> RsCompleted \<and> retryable r \<and> d = RetryScheduled \<and>
        fa = failed_attempt (clock e) r \<and> fx = (\<lambda>x. x) \<and>
        (\<exists>delay i. retry_delay (cc_attempt cc) = Some delay \<and>
          fd = ready_delivery (clock e + delay) \<and>
          new = (if list_ex (same_attempt_key (retry_attempt cc (clock e + delay) i))
                     (set_rows (attempt_of r) fa atts)
                 then [] else [retry_attempt cc (clock e + delay) i]) \<and>
          (new = [] \<or> i \<notin> att_id ` set atts))
      \<or> sr_status r \<noteq> RsCompleted \<and> \<not> (retryable r \<and> retry_delay (cc_attempt cc) \<noteq> None) \<and>
        d = DeadLettered \<and> fa = failed_attempt (clock e) r \<and>
        fx = failed_execution (clock e) (reported_failure r) \<and> fd = dead_delivery (clock e) \<and> new = []"

lemma finish_commit_Inr:
  assumes fin: "finish_commit e r digest cc arts s = Inr (d, s')"
    and ids: "ids \<subseteq> del_id ` set (deliveries s)" and x: "exe_id (cc_execution cc) = sr_execution r"
  obtains fa fx fd new t where "lifecycle_step r cc fa fx fd new ids s t"
    and "s' = t\<lparr>submissions := set_rows (uncommitted (sr_attempt r) digest)
           (\<lambda>b. b\<lparr>sub_committed := Some (clock e)\<rparr>) (submissions t)\<rparr>"
    and "commit_outcome e r cc (attempts s) d fa fx fd new"
proof -
  obtain u1 s1 s2 where use: "writeResourceUsage e (reg_id (cc_region cc)) r s = Inr (u1, s1)"
    and step: "(if sr_status r = RsCompleted then complete e r cc arts else failOrRetry e r cc) s1
      = Inr (d, s2)"
    and s': "s' = s2\<lparr>submissions := set_rows (uncommitted (sr_attempt r) digest)
           (\<lambda>b. b\<lparr>sub_committed := Some (clock e)\<rparr>) (submissions s2)\<rparr>"
    using fin by (auto simp: finish_commit_def mark_committed_def bind_tx_Inr ret_Inr modify_Inr)
  have "kept (core s) ids s1" using ids by (intro keepsD [OF core_usage _ use]) (simp add: kept_def)
  then have c: "core s1 = core s" and ids1: "ids \<subseteq> del_id ` set (deliveries s1)"
    by (auto simp: kept_def)
  from c have att: "attempts s1 = attempts s" by (simp add: core_def)
  show thesis
  proof (cases "sr_status r = RsCompleted")
    case True
    with step have "complete e r cc arts s1 = Inr (d, s2)" by simp
    from complete_Inr [OF this ids1] True s' show thesis
      by (intro that [where t = s2]) (auto simp: lifecycle_step_core [OF c] commit_outcome_def)
  next
    case False
    with step have "failOrRetry e r cc s1 = Inr (d, s2)" by simp
    then show thesis using ids1 x
    proof (cases rule: failOrRetry_Inr)
      case (retry delay i)
      with False s' att show thesis
        by (intro that [where t = s2]) (auto simp: lifecycle_step_core [OF c] commit_outcome_def)
    next
      case dead
      with False s' show thesis
        by (intro that [where t = s2]) (auto simp: lifecycle_step_core [OF c] commit_outcome_def)
    qed
  qed
qed

lemma publish_results_kept:
  assumes "publish_results e r cc (w\<lparr>w_db := s\<rparr>) = (v, w')" and "ids \<subseteq> del_id ` set (deliveries s)"
  shows "core (w_db w') = core s" and "ids \<subseteq> del_id ` set (deliveries (w_db w'))"
proof -
  have "holds_io (\<lambda>w. kept (core s) ids (w_db w)) (publish_results e r cc)"
    by (rule holds_publish_results) (rule core_intros)+
  from holds_ioD [OF this _ assms(1)] have "kept (core s) ids (w_db w')"
    using assms(2) by (simp add: kept_def)
  then show "core (w_db w') = core s" and "ids \<subseteq> del_id ` set (deliveries (w_db w'))"
    by (auto simp: kept_def)
qed

lemma promote_committed_db:
  "\<exists>x. w_db (promote_committed e p w) = (w_db w)\<lparr>stagings := x\<rparr>"
proof -
  have same: "\<exists>x. w_db w = (w_db w)\<lparr>stagings := x\<rparr>"
    by (rule exI [of _ "stagings (w_db w)"]) simp
  have "holds_io (\<lambda>v. \<exists>x. w_db v = (w_db w)\<lparr>stagings := x\<rparr>)
      (bind_io (in_blobs (promote e (prm_ref p) (prm_digest p) (prm_size p)))
        (\<lambda>_. in_db (markStagingPromoted (prm_row p) (prm_artifact p) (clock e))))"
  proof (intro holds_io_bind)
    show "holds_io (\<lambda>v. \<exists>x. w_db v = (w_db w)\<lparr>stagings := x\<rparr>)
        (in_blobs (promote e (prm_ref p) (prm_digest p) (prm_size p)))"
      by (rule holds_io_in_blobs) simp
    have "keeps (\<lambda>s. \<exists>x. s = (w_db w)\<lparr>stagings := x\<rparr>)
        (markStagingPromoted (prm_row p) (prm_artifact p) (clock e))"
      by (rule keepsI) (auto simp: markStagingPromoted_def update_stagings_def split: sum.splits)
    then show "holds_io (\<lambda>v. \<exists>x. w_db v = (w_db w)\<lparr>stagings := x\<rparr>)
        (in_db (markStagingPromoted (prm_row p) (prm_artifact p) (clock e)))"
      by (rule holds_io_in_db)
  qed
  with same show ?thesis by (auto simp: promote_committed_def holds_io_def)
qed

lemma fold_promote_db: "\<exists>x. w_db (fold (promote_committed e) ps w) = (w_db w)\<lparr>stagings := x\<rparr>"
proof (induction ps arbitrary: w)
  case Nil
  show ?case by (rule exI [of _ "stagings (w_db w)"]) simp
next
  case (Cons p ps)
  obtain x y where "w_db (promote_committed e p w) = (w_db w)\<lparr>stagings := x\<rparr>"
    and "w_db (fold (promote_committed e) ps (promote_committed e p w))
      = (w_db (promote_committed e p w))\<lparr>stagings := y\<rparr>"
    using promote_committed_db Cons.IH by blast
  then show ?case by auto
qed

lemma commit_Inr:
  assumes "commit e allow r digest w = (Inr d, w')"
  obtains ps w1 x where "commit_body e allow r digest w = (Inr (d, ps), w1)"
    and "w' = fold (promote_committed e) ps w1" and "w_db w' = (w_db w1)\<lparr>stagings := x\<rparr>"
proof -
  obtain ps w1 where "commit_body e allow r digest w = (Inr (d, ps), w1)"
    and "w' = fold (promote_committed e) ps w1"
    using assms by (auto simp: commit_def transaction_io_def split: prod.splits sum.splits)
  moreover obtain x where "w_db (fold (promote_committed e) ps w1) = (w_db w1)\<lparr>stagings := x\<rparr>"
    using fold_promote_db by blast
  ultimately show thesis by (intro that [of ps w1 x]) simp_all
qed

text \<open>The lifecycle tables after a commit that was not a duplicate.\<close>

lemma commit_lifecycle:
  assumes "commit e allow r digest w = (Inr d, w')" and "d \<noteq> CommitDuplicate"
  obtains cc new0 fa fx fd new where "authorized e allow r digest cc (w_db w)"
    and "attempts (w_db w') = set_rows (attempt_of r) fa (attempts (w_db w)) @ new"
    and "executions (w_db w') = set_rows (execution_of r) fx (executions (w_db w))"
    and "execution_inputs (w_db w') = execution_inputs (w_db w)"
    and "\<exists>ds. del_id ` set (cc_deliveries cc) \<subseteq> del_id ` set ds \<and>
      deliveries (w_db w') = set_rows (in_context cc) fd ds"
    and "submissions (w_db w') = set_rows (uncommitted (sr_attempt r) digest)
      (\<lambda>b. b\<lparr>sub_committed := Some (clock e)\<rparr>) (submissions (w_db w) @ new0)"
    and "(if cc_recorded cc then new0 = []
      else (\<exists>b. new0 = [b] \<and> uncommitted (sr_attempt r) digest b) \<and>
        find_submission (sr_attempt r) (w_db w) = None)"
    and "commit_outcome e r cc (attempts (w_db w)) d fa fx fd new"
proof -
  obtain ps w1 x where body: "commit_body e allow r digest w = (Inr (d, ps), w1)"
    and w': "w_db w' = (w_db w1)\<lparr>stagings := x\<rparr>"
    using assms(1) by (rule commit_Inr)
  from body show thesis
  proof (cases rule: commit_body_Inr)
    case (duplicate b)
    with assms(2) show thesis by simp
  next
    case (committed cc s1 acc w2 s3)
    let ?ids = "del_id ` set (cc_deliveries cc)"
    obtain n new0 where s1: "s1 = (w_db w)\<lparr>drawn := n, submissions := submissions (w_db w) @ new0\<rparr>"
      and new0: "if cc_recorded cc then new0 = []
        else (\<exists>b. new0 = [b] \<and> uncommitted (sr_attempt r) digest b) \<and>
          find_submission (sr_attempt r) (w_db w) = None"
      using record_submission_Inr [OF committed(2)] by blast
    have "cc_deliveries cc = input_deliveries (sr_execution r) (w_db w)"
      and xid: "exe_id (cc_execution cc) = sr_execution r"
      using committed(1) by (auto simp: authorized_def dest: find_Some_mem)
    then have "?ids \<subseteq> del_id ` set (deliveries s1)" by (auto simp: s1 dest: input_deliveries_mem)
    note kept = publish_results_kept [OF committed(3) this]
    from committed(4) kept(2) xid obtain fa fx fd new t where
      step: "lifecycle_step r cc fa fx fd new ?ids (w_db w2) t" and
      s3: "s3 = t\<lparr>submissions := set_rows (uncommitted (sr_attempt r) digest)
           (\<lambda>b. b\<lparr>sub_committed := Some (clock e)\<rparr>) (submissions t)\<rparr>" and
      kind: "commit_outcome e r cc (attempts (w_db w2)) d fa fx fd new"
      by (rule finish_commit_Inr)
    have att: "attempts (w_db w2) = attempts (w_db w)"
      using kept(1) by (simp add: core_def s1)
    from step have "lifecycle_step r cc fa fx fd new ?ids s1 t"
      by (simp add: lifecycle_step_core [OF kept(1)])
    with committed(1,5) w' s3 new0 kind [unfolded att] show thesis
      by (intro that [of cc fa new fx fd new0]) (auto simp: lifecycle_step_def s1)
  qed
qed

subsection \<open>Replays, errors and row constraints\<close>

lemma find_append_None: "List.find q xs = None \<Longrightarrow> List.find q (xs @ ys) = List.find q ys"
  by (induction xs) (auto split: if_splits)

lemma find_set_rows_append:
  assumes "List.find q xs = Some x" and "\<And>y. q (f y) = q y"
  shows "List.find q (set_rows p f xs @ ys) = Some (if p x then f x else x)"
  using assms(1)
proof (induction xs)
  case (Cons z zs)
  then show ?case by (auto simp: assms(2) split: if_splits)
qed simp

lemma load_context_found:
  assumes "load_context e allow r digest s = Inr (c, s')"
  shows "\<exists>a. List.find (\<lambda>a. att_id a = sr_attempt r \<and> att_execution a = sr_execution r) (attempts s) = Some a"
    and "\<exists>x. List.find (\<lambda>x. exe_id x = sr_execution r) (executions s) = Some x"
  using assms by (auto simp: load_context_def Let_def tx_Inr)

lemma load_context_recorded:
  assumes "List.find (\<lambda>a. att_id a = sr_attempt r \<and> att_execution a = sr_execution r) (attempts s) = Some a"
    and "List.find (\<lambda>x. exe_id x = sr_execution r) (executions s) = Some x"
    and "find_submission (sr_attempt r) s = Some b" and "sub_committed b \<noteq> None"
  shows "load_context e allow r digest s =
    (if sub_digest b = digest then Inr (None, s)
     else Inl (ExecutionCommitError ''duplicate_conflicting_result'' 409))"
  using assms by (auto simp: load_context_def Let_def bind_tx_def get_def or_throw_def guard_def ret_def throw_def)

lemma commit_recorded:
  assumes "List.find (\<lambda>a. att_id a = sr_attempt r \<and> att_execution a = sr_execution r) (attempts (w_db w)) = Some a"
    and "List.find (\<lambda>x. exe_id x = sr_execution r) (executions (w_db w)) = Some x"
    and "find_submission (sr_attempt r) (w_db w) = Some b" and "sub_committed b \<noteq> None"
    and "distinct (map sub_attempt (submissions (w_db w)))"
  shows "commit e allow r digest w =
    (if sub_digest b = digest then (Inr CommitDuplicate, w)
     else (Inl (ExecutionCommitError ''duplicate_conflicting_result'' 409), w))"
proof -
  have "filter (\<lambda>c. \<not> uncommitted (sr_attempt r) digest c) (submissions (w_db w)) = submissions (w_db w)"
  proof (rule filter_True, rule ballI)
    fix c assume "c \<in> set (submissions (w_db w))"
    moreover have "b \<in> set (submissions (w_db w))" "sub_attempt b = sr_attempt r"
      using find_Some_mem assms(3) unfolding find_submission_def by fastforce+
    ultimately have "c = b" if "sub_attempt c = sr_attempt r"
      using assms(5) that by (metis distinct_map inj_onD)
    then show "\<not> uncommitted (sr_attempt r) digest c"
      using assms(4) by (auto simp: uncommitted_def)
  qed
  then show ?thesis
    using load_context_recorded [OF assms(1-4)]
    by (simp add: commit_def transaction_io_def commit_body_def bind_io_def in_db_def ret_io_def
        rejects_def discard_submission_def)
qed

lemma commit_submission:
  assumes "commit e allow r digest w = (Inr d, w')" and "d \<noteq> CommitDuplicate"
    and "distinct (map sub_attempt (submissions (w_db w)))"
  obtains a x b where
    "List.find (\<lambda>a. att_id a = sr_attempt r \<and> att_execution a = sr_execution r) (attempts (w_db w')) = Some a"
    and "List.find (\<lambda>x. exe_id x = sr_execution r) (executions (w_db w')) = Some x"
    and "find_submission (sr_attempt r) (w_db w') = Some b" and "sub_digest b = digest"
    and "sub_committed b = Some (clock e)" and "distinct (map sub_attempt (submissions (w_db w')))"
    and "\<And>b0. find_submission (sr_attempt r) (w_db w) = Some b0 \<Longrightarrow> sub_result b = sub_result b0"
proof -
  let ?f = "\<lambda>b. b\<lparr>sub_committed := Some (clock e)\<rparr>"
  let ?p = "uncommitted (sr_attempt r) digest"
  obtain cc new0 fa fx fd new where auth: "authorized e allow r digest cc (w_db w)"
    and att: "attempts (w_db w') = set_rows (attempt_of r) fa (attempts (w_db w)) @ new"
    and exe: "executions (w_db w') = set_rows (execution_of r) fx (executions (w_db w))"
    and sub: "submissions (w_db w') = set_rows ?p ?f (submissions (w_db w) @ new0)"
    and new0: "if cc_recorded cc then new0 = []
      else (\<exists>b. new0 = [b] \<and> ?p b) \<and> find_submission (sr_attempt r) (w_db w) = None"
    and out: "commit_outcome e r cc (attempts (w_db w)) d fa fx fd new"
    using assms(1,2) by (rule commit_lifecycle)
  have fa: "att_id (fa y) = att_id y" "att_execution (fa y) = att_execution y" for y
    using out by (auto simp: commit_outcome_def completed_attempt_def failed_attempt_def)
  have fx: "exe_id (fx y) = exe_id y" for y
    using out by (auto simp: commit_outcome_def completed_execution_def failed_execution_def)
  obtain a where a: "List.find (\<lambda>a. att_id a = sr_attempt r \<and> att_execution a = sr_execution r)
      (attempts (w_db w')) = Some a"
    using auth find_set_rows_append [of "\<lambda>a. att_id a = sr_attempt r \<and> att_execution a = sr_execution r"
        "attempts (w_db w)" "cc_attempt cc" fa "attempt_of r" new]
    unfolding att by (simp add: fa authorized_def)
  obtain x where x: "List.find (\<lambda>x. exe_id x = sr_execution r) (executions (w_db w')) = Some x"
    using auth find_set_rows_append [of "\<lambda>x. exe_id x = sr_execution r"
        "executions (w_db w)" "cc_execution cc" fx "execution_of r" "[]"]
    unfolding exe by (simp add: fx authorized_def)
  have keys: "map sub_attempt (submissions (w_db w')) = map sub_attempt (submissions (w_db w) @ new0)"
    unfolding sub by (rule map_set_rows) simp
  have find: "List.find (\<lambda>b. sub_attempt b = sr_attempt r) (submissions (w_db w) @ new0)
      = Some b \<Longrightarrow> ?p b \<Longrightarrow> find_submission (sr_attempt r) (w_db w') = Some (?f b)" for b
    using find_set_rows_append [of "\<lambda>b. sub_attempt b = sr_attempt r" "submissions (w_db w) @ new0" b ?f ?p "[]"]
    by (simp add: find_submission_def sub)
  obtain b where b: "List.find (\<lambda>b. sub_attempt b = sr_attempt r) (submissions (w_db w) @ new0) = Some b"
    and p: "?p b" and dis: "distinct (map sub_attempt (submissions (w_db w) @ new0))"
    and old: "\<And>b0. find_submission (sr_attempt r) (w_db w) = Some b0 \<Longrightarrow> b = b0"
  proof (cases "find_submission (sr_attempt r) (w_db w)")
    case None
    with auth new0 obtain b where "new0 = [b]" and "?p b" by (auto simp: authorized_def)
    with None assms(3) show thesis
    proof (intro that [of b])
      show "b = b0" if "find_submission (sr_attempt r) (w_db w) = Some b0" for b0
        using None that by simp
    qed (auto simp: find_submission_def uncommitted_def find_append_None find_None_iff)
  next
    case (Some b)
    with auth new0 have "new0 = []" and "?p b"
      by (auto simp: authorized_def uncommitted_def find_submission_def dest: find_Some_mem)
    with Some assms(3) show thesis by (intro that [of b]) (simp_all add: find_submission_def)
  qed
  have "distinct (map sub_attempt (submissions (w_db w')))" using dis by (simp add: keys)
  with a x show thesis
    using p old by (intro that [of a x "?f b"]) (auto simp: find [OF b p] uncommitted_def)
qed

lemma holds_io_in_db_blobs: "holds_io (\<lambda>w. w_blobs w = b) (in_db m)"
  by (rule holds_ioI) (auto simp: in_db_def split: sum.splits)

lemma commit_body_blobs: "holds_io (\<lambda>w. w_blobs w = b) (commit_body e allow r digest)"
proof -
  let ?P = "\<lambda>w. w_blobs w = b"
  have val: "holds_io ?P (validateStagedArtifact h m i)" for h m i
    by (rule holds_ioI) (simp add: validate_db)
  have staged: "holds_io ?P (validateStaged e r st ports dir)" for st ports dir
    unfolding validateStaged_def Let_def
    by (intro holds_io_bind holds_io_simple holds_io_if holds_io_catch val)
  have one: "holds_io ?P (commit_staged e r ports dir k st acc)" for ports dir k st acc
    unfolding commit_staged_def
    by (intro holds_io_bind holds_io_simple holds_io_if staged)
      (auto intro!: holds_io_bind holds_io_in_db_blobs)
  have two: "holds_io ?P (publish_action e r c ports p acc)" for c ports p acc
    unfolding publish_action_def Let_def
    by (intro holds_io_bind holds_io_simple staged)
      (auto intro!: holds_io_bind holds_io_option holds_io_in_db_blobs)
  have "holds_io ?P (publish_results e r cc)" for cc
    unfolding publish_results_def commit_artifacts_def publishExternalActions_def
    by (intro holds_io_bind holds_io_simple holds_io_fold holds_io_option holds_io_if one two)
  then show ?thesis
    unfolding commit_body_def
    by (intro holds_io_bind holds_io_in_db_blobs holds_io_option holds_io_simple)
qed

lemma commit_Inl:
  assumes "commit e allow r digest w = (Inl err, w')"
  shows "w_blobs w' = w_blobs w \<and>
    w_db w' = (if rejects err then discard_submission r digest (w_db w) else w_db w)"
proof -
  obtain v where "commit_body e allow r digest w = (Inl err, v)"
    and "w' = (if rejects err then v\<lparr>w_db := discard_submission r digest (w_db w)\<rparr> else v\<lparr>w_db := w_db w\<rparr>)"
    using assms by (auto simp: commit_def transaction_io_def split: prod.splits sum.splits)
  moreover have "w_blobs v = w_blobs w"
    using holds_ioD [OF commit_body_blobs refl calculation(1)] .
  ultimately show ?thesis by auto
qed

lemma checks_promoted: "keeps db_checks (markStagingPromoted row art t)"
  unfolding markStagingPromoted_def by (rule checks_update_stagings)

lemma checks_promotions: "db_checks (w_db w) \<Longrightarrow> db_checks (w_db (fold (promote_committed e) ps w))"
proof (induction ps arbitrary: w)
  case (Cons p ps)
  have "holds_io (\<lambda>w. db_checks (w_db w))
      (bind_io (in_blobs (promote e (prm_ref p) (prm_digest p) (prm_size p)))
        (\<lambda>_. in_db (markStagingPromoted (prm_row p) (prm_artifact p) (clock e))))"
    by (intro holds_io_bind holds_io_in_blobs holds_io_in_db checks_promoted) simp
  with Cons.prems have "db_checks (w_db (promote_committed e p w))"
    by (simp add: promote_committed_def holds_io_def)
  with Cons.IH show ?case by simp
qed simp

lemma commit_keeps_checks:
  assumes "commit e allow r digest w = (v, w')" and "db_checks (w_db w)"
  shows "db_checks (w_db w')"
proof -
  let ?P = "\<lambda>w. db_checks (w_db w)"
  have load: "keeps db_checks (load_context e allow r digest)"
    by (rule keepsI, rename_tac s c t, case_tac c) (auto dest: load_context_None(1) load_context_Some(1))
  have rec: "keeps db_checks (record_submission e r digest b)" for b
    unfolding record_submission_def
    by (intro keeps_if keeps_bind keeps_ret checks_commit_intros)
  have pub: "holds_io ?P (publish_results e r cc)" for cc
    by (rule holds_publish_results) (rule checks_publishArtifact checks_proposed)+
  have body: "holds_io ?P (commit_body e allow r digest)"
    unfolding commit_body_def
    by (intro holds_io_bind holds_io_in_db holds_io_option holds_io_simple load rec pub checks_finish_commit)
  show ?thesis
  proof (cases v)
    case (Inl err)
    have "db_checks (discard_submission r digest (w_db w))"
      using assms(2) by (simp add: discard_submission_def db_checks_def)
    with Inl assms commit_Inl [of e allow r digest w err w'] show ?thesis by auto
  next
    case (Inr d)
    with assms(1) obtain ps w1 where "commit_body e allow r digest w = (Inr (d, ps), w1)"
      and "w' = fold (promote_committed e) ps w1" by (auto elim: commit_Inr)
    with holds_ioD [OF body assms(2)] show ?thesis by (auto intro: checks_promotions)
  qed
qed

lemma authorized_rows:
  assumes "authorized e allow r digest cc s"
  shows "cc_attempt cc \<in> set (attempts s)" and "att_id (cc_attempt cc) = sr_attempt r"
    and "att_execution (cc_attempt cc) = sr_execution r"
    and "exe_id (cc_execution cc) = sr_execution r"
    and "cc_deliveries cc = input_deliveries (sr_execution r) s"
  using assms by (auto simp: authorized_def dest: find_Some_mem)

text \<open>Every input delivery of an execution is still there, and its row satisfies \<open>P\<close>.\<close>

definition inputs_are :: "string \<Rightarrow> db \<Rightarrow> db \<Rightarrow> (delivery \<Rightarrow> bool) \<Rightarrow> bool" where
  "inputs_are x s s' P \<longleftrightarrow> list_all (\<lambda>i.
     list_ex (\<lambda>d. del_id d = del_id i) (deliveries s') \<and>
     list_all (\<lambda>d. del_id d \<noteq> del_id i \<or> P d) (deliveries s')) (input_deliveries x s)"

lemma inputs_areI:
  assumes "\<exists>ds. del_id ` set (cc_deliveries cc) \<subseteq> del_id ` set ds \<and>
      deliveries s' = set_rows (in_context cc) fd ds"
    and "cc_deliveries cc = input_deliveries x s" and "\<And>d. del_id (fd d) = del_id d" and "\<And>d. P (fd d)"
  shows "inputs_are x s s' P"
proof -
  from assms(1) obtain ds where sub: "del_id ` set (cc_deliveries cc) \<subseteq> del_id ` set ds"
    and ds: "deliveries s' = set_rows (in_context cc) fd ds" by blast
  have "list_ex (\<lambda>d. del_id d = del_id i) (deliveries s')"
    and "list_all (\<lambda>d. del_id d \<noteq> del_id i \<or> P d) (deliveries s')" if i: "i \<in> set (input_deliveries x s)" for i
  proof -
    from i sub assms(2) obtain d where "d \<in> set ds" "del_id d = del_id i" by (metis image_eqI image_iff subsetD)
    then show "list_ex (\<lambda>d. del_id d = del_id i) (deliveries s')"
      by (cases "in_context cc d") (auto simp: ds list_ex_iff set_set_rows assms(3) intro: rev_bexI)
    show "list_all (\<lambda>d. del_id d \<noteq> del_id i \<or> P d) (deliveries s')"
      using i assms(2-4) by (auto simp: ds list_all_iff in_context_def set_set_rows)
  qed
  then show ?thesis by (simp add: inputs_are_def list_all_iff)
qed

lemma cancelled_Inr:
  assumes "sr_status r = RsCancelled" and "db_checks (w_db w)"
    and "commit e allow r digest w = (Inr d, w')"
  shows "d = CommitDuplicate"
proof (rule ccontr)
  assume nd: "d \<noteq> CommitDuplicate"
  from assms(3) nd obtain cc new0 fa fx fd new where auth: "authorized e allow r digest cc (w_db w)"
    and att: "attempts (w_db w') = set_rows (attempt_of r) fa (attempts (w_db w)) @ new"
    and out: "commit_outcome e r cc (attempts (w_db w)) d fa fx fd new"
    by (rule commit_lifecycle)
  have fa: "fa = failed_attempt (clock e) r"
    using out assms(1) by (auto simp: commit_outcome_def)
  have "fa (cc_attempt cc) \<in> set (attempts (w_db w'))"
    using authorized_rows [OF auth] by (auto simp: att set_set_rows attempt_of_def)
  moreover have "db_checks (w_db w')" by (rule commit_keeps_checks [OF assms(3,2)])
  ultimately show False
    using assms(1) by (auto simp: db_checks_def list_all_iff fa attempt_ok_def failed_attempt_def)
qed

subsection \<open>A sample commit\<close>

text \<open>An attempt that holds its lease, with one uploaded artifact for its output port.\<close>

definition commit_env :: env where
  "commit_env = art_env\<lparr>num_text := (\<lambda>q. decimal_text (nat \<lfloor>q\<rfloor>))\<rparr>"

definition sample_attempt :: "nat \<Rightarrow> attempt" where
  "sample_attempt n =
     \<lparr>att_id = ''a1'', att_execution = ''x1'', att_number = n, att_status = ALeased,
      att_owner = Some ''w1'', att_token = Some ''t'', att_expires = Some 60000,
      att_started = Some 0, att_completed_at = None, att_failure = None\<rparr>"

definition sample_execution :: execution where
  "sample_execution =
     \<lparr>exe_id = ''x1'', exe_delivery = ''d1'', exe_region = ''r'', exe_component = ''ci'',
      exe_rev = ''v'', exe_epoch = 0, exe_digest = ''h'', exe_status = ERunning,
      exe_completed_at = None, exe_failed_at = None, exe_failure = None\<rparr>"

definition sample_upload :: upload where
  "sample_upload =
     \<lparr>up_id = ''u1'', up_ref = ''s1'', up_execution = ''x1'', up_attempt = ''a1'', up_epoch = 0,
      up_port = ''out'', up_schema = ''c1'', up_media = ''application/json'',
      up_digest = sample_digest ''hi'', up_size = 2, up_metadata = JObj [], up_expires = 60000,
      up_uploaded = Some 0, up_staging = Some ''g1''\<rparr>"

definition commit_store :: "nat \<Rightarrow> db" where
  "commit_store n = lease_store\<lparr>
     port_definitions := [\<lparr>port_def = ''d'', port_name = ''out'', port_direction = POutput,
       port_schema = ''c1'', port_required = True\<rparr>],
     deliveries := [(sample_delivery ''d1'' ''in'')\<lparr>del_status := DLeased, del_owner := Some ''w1'',
       del_token := Some ''t'', del_expires := Some 60000\<rparr>],
     executions := [sample_execution], attempts := [sample_attempt n],
     execution_inputs := [\<lparr>inp_execution = ''x1'', inp_port = ''in'', inp_delivery = ''d1'',
       inp_payload = JNull\<rparr>],
     stagings := [sample_staging ''g1''], artifact_schemas := [sample_schema],
     uploads := [sample_upload]\<rparr>"

definition commit_world :: "nat \<Rightarrow> world" where
  "commit_world n = sample_world\<lparr>w_db := commit_store n\<rparr>"

definition sample_source :: json where
  "sample_source = JObj [(''kind'', JStr ''execution''), (''executionId'', JStr ''x1''),
     (''attemptId'', JStr ''a1'')]"

definition sample_staged_ref :: staged_ref where
  "sample_staged_ref =
     \<lparr>st_staging_ref = None, st_staging_id = Some ''s1'', st_port = ''out'',
      st_digest = sample_digest ''hi'', st_size = Finite 2,
      st_media = ''Application/JSON; charset=utf-8'', st_schema = ''c1'', st_schema_digest = ''d1'',
      st_provenance = sample_source\<rparr>"

definition sample_result :: "result_status \<Rightarrow> json option \<Rightarrow> submitted_result" where
  "sample_result st failure =
     \<lparr>sr_execution = ''x1'', sr_attempt = ''a1'', sr_token = ''t'', sr_lifecycle_epoch = Some 0,
      sr_fencing_epoch = None, sr_status = st,
      sr_artifacts = (if st = RsCompleted then [sample_staged_ref] else []), sr_state = None,
      sr_events = [], sr_actions = [],
      sr_usage = Some [(''cpuMilliseconds'', Finite 5), (''wallMilliseconds'', Finite 9),
        (''inputBytes'', Finite 0), (''outputBytes'', Finite 2), (''externalCalls'', Finite 0)],
      sr_failure = failure\<rparr>"

definition retryable_failure :: json where
  "retryable_failure = JObj [(''code'', JStr ''busy''), (''retryable'', JBool True)]"

lemma sample_commit:
  "fst (commit commit_env False (sample_result RsCompleted None) ''dg'' (commit_world 1)) = Inr Committed"
  by code_simp

lemma sample_retry:
  "fst (commit commit_env False (sample_result RsFailed (Some retryable_failure)) ''dg'' (commit_world 1))
     = Inr RetryScheduled"
  by code_simp

lemma sample_dead:
  "fst (commit commit_env False (sample_result RsFailed (Some retryable_failure)) ''dg'' (commit_world 4))
     = Inr DeadLettered"
  by code_simp

lemma sample_cancelled:
  "fst (commit commit_env False (sample_result RsCancelled None) ''dg'' (commit_world 1))
     = Inl (DbViolation ''execution_attempts_check'')"
  by code_simp
lemma fst_cases: "fst p = x \<Longrightarrow> \<exists>y. p = (x, y)"
  by (cases p) simp

lemma sample_submissions: "submissions (w_db (commit_world n)) = []"
  by (simp add: commit_world_def commit_store_def lease_store_def empty_db_def)

lemma sample_attempts: "attempts (w_db (commit_world n)) = [sample_attempt n]"
  by (simp add: commit_world_def commit_store_def)

lemma sample_checks: "db_checks (w_db (commit_world 1))"
  by code_simp

subsection \<open>Properties\<close>

text \<open>C4. No result is recorded without authority. When \<open>commit\<close> succeeds and is not the replay of a
  result already committed, the store held the attempt under the result's own lease token, still
  leased or running and not past its expiry (only the recovery of a recorded result may use an
  expired lease), for a running execution in a running region whose lifecycle epochs both equal the
  epoch the worker was given, with at least one input delivery and every one of them leased under
  the same token.\<close>

theorem commit_fenced:
  assumes "commit e allow r digest w = (Inr d, w')" and "d \<noteq> CommitDuplicate"
  shows "\<exists>a x g. a \<in> set (attempts (w_db w)) \<and> x \<in> set (executions (w_db w)) \<and>
    g \<in> set (regions (w_db w)) \<and>
    att_id a = sr_attempt r \<and> att_execution a = sr_execution r \<and> active (att_status a) \<and>
    att_token a = Some (sr_token r) \<and>
    (allow \<or> (\<exists>t. att_expires a = Some t \<and> clock e < t)) \<and>
    exe_id x = sr_execution r \<and> exe_status x = ERunning \<and>
    reg_id g = exe_region x \<and> reg_status g = RRunning \<and> reg_epoch g = exe_epoch x \<and>
    sr_lifecycle_epoch r = Some (exe_epoch x) \<and>
    input_deliveries (sr_execution r) (w_db w) \<noteq> [] \<and>
    (\<forall>i\<in>set (input_deliveries (sr_execution r) (w_db w)).
       del_status i = DLeased \<and> del_token i = Some (sr_token r))"
proof -
  from assms obtain cc where "authorized e allow r digest cc (w_db w)" by (rule commit_lifecycle)
  then show ?thesis
    by (intro exI [of _ "cc_attempt cc"] exI [of _ "cc_execution cc"] exI [of _ "cc_region cc"])
      (auto simp: authorized_def dest: find_Some_mem)
qed

lemma commit_fenced_witness:
  "\<exists>w'. commit commit_env False (sample_result RsCompleted None) ''dg'' (commit_world 1)
      = (Inr Committed, w') \<and>
    (\<exists>t. \<exists>a\<in>set (attempts (w_db (commit_world 1))). att_id a = ''a1'' \<and> att_token a = Some ''t'' \<and>
      att_expires a = Some t \<and> clock commit_env < t)"
proof -
  obtain w' where run: "commit commit_env False (sample_result RsCompleted None) ''dg'' (commit_world 1)
      = (Inr Committed, w')" using fst_cases [OF sample_commit] by blast
  from commit_fenced [OF run] show ?thesis
    by (intro exI [of _ w'] conjI run) (auto simp: sample_result_def)
qed

text \<open>C5. A result takes effect at most once. After a commit that was not itself a replay, every later
  commit for the same execution and attempt, whatever it carries and whatever the time, changes
  nothing at all: the same result digest is answered as a duplicate and any other digest as the
  conflict \<open>duplicate_conflicting_result\<close>. (That attempts have at most one submission is the unique
  constraint of the table.)\<close>

theorem commit_at_most_once:
  assumes "commit e allow r digest w = (Inr d, w')" and "d \<noteq> CommitDuplicate"
    and "distinct (map sub_attempt (submissions (w_db w)))"
    and "sr_execution q = sr_execution r" and "sr_attempt q = sr_attempt r"
  shows "commit e' allow' q digest' w' =
    (if digest' = digest then (Inr CommitDuplicate, w')
     else (Inl (ExecutionCommitError ''duplicate_conflicting_result'' 409), w'))"
proof -
  from assms(1-3) obtain a x b where
    "List.find (\<lambda>a. att_id a = sr_attempt r \<and> att_execution a = sr_execution r) (attempts (w_db w')) = Some a"
    "List.find (\<lambda>x. exe_id x = sr_execution r) (executions (w_db w')) = Some x"
    "find_submission (sr_attempt r) (w_db w') = Some b" "sub_digest b = digest"
    "sub_committed b = Some (clock e)" "distinct (map sub_attempt (submissions (w_db w')))"
    by (rule commit_submission)
  then show ?thesis
    using commit_recorded [of q w' a x b e' allow' digest'] by (auto simp: assms(4,5))
qed

lemma commit_at_most_once_witness:
  "\<exists>w'. commit commit_env False (sample_result RsCompleted None) ''dg'' (commit_world 1)
      = (Inr Committed, w') \<and>
    commit art_env True (sample_result RsFailed None) ''other'' w'
      = (Inl (ExecutionCommitError ''duplicate_conflicting_result'' 409), w')"
proof -
  obtain w' where run: "commit commit_env False (sample_result RsCompleted None) ''dg'' (commit_world 1)
      = (Inr Committed, w')" using fst_cases [OF sample_commit] by blast
  from commit_at_most_once [OF run, where q = "sample_result RsFailed None"] show ?thesis
    by (intro exI [of _ w'] conjI run) (simp add: sample_submissions sample_result_def)
qed

text \<open>C9. A failed commit leaves no trace but one. When \<open>commit\<close> reports an error the blob store is
  untouched and the database is the one it started from, except that a rejection of the result
  itself (a commit error below status 500) removes the uncommitted submission of that attempt and
  digest.\<close>

theorem commit_failure_rolls_back:
  assumes "commit e allow r digest w = (Inl err, w')"
  shows "w_blobs w' = w_blobs w \<and>
    w_db w' = (if rejects err then discard_submission r digest (w_db w) else w_db w)"
  using assms by (rule commit_Inl)

lemma commit_failure_rolls_back_witness:
  "\<exists>w'. commit commit_env False (sample_result RsCancelled None) ''dg'' (commit_world 1)
      = (Inl (DbViolation ''execution_attempts_check''), w') \<and>
    w_db w' = w_db (commit_world 1)"
proof -
  obtain w' where run: "commit commit_env False (sample_result RsCancelled None) ''dg'' (commit_world 1)
      = (Inl (DbViolation ''execution_attempts_check''), w')"
    using fst_cases [OF sample_cancelled] by blast
  from commit_failure_rolls_back [OF run] show ?thesis
    by (intro exI [of _ w'] conjI run) (simp add: rejects_def)
qed

text \<open>C6. A completed commit closes everything it was responsible for: only a result with status completed
  ends this way, the attempt and the execution become completed (their leases and failures
  cleared) and no other attempt or execution is touched or added, and every input delivery of the
  execution is still there, completed at the commit's time and free of its lease.\<close>

theorem commit_completes:
  assumes "commit e allow r digest w = (Inr Committed, w')"
  shows "sr_status r = RsCompleted \<and>
    attempts (w_db w') = set_rows (attempt_of r) (completed_attempt (clock e)) (attempts (w_db w)) \<and>
    executions (w_db w') = set_rows (execution_of r) (completed_execution (clock e)) (executions (w_db w)) \<and>
    inputs_are (sr_execution r) (w_db w) (w_db w') (\<lambda>d. del_status d = DCompleted \<and>
      del_completed_at d = Some (clock e) \<and> del_owner d = None \<and> del_token d = None)"
proof -
  from assms obtain cc new0 fa fx fd new where auth: "authorized e allow r digest cc (w_db w)"
    and tables: "attempts (w_db w') = set_rows (attempt_of r) fa (attempts (w_db w)) @ new"
      "executions (w_db w') = set_rows (execution_of r) fx (executions (w_db w))"
    and del: "\<exists>ds. del_id ` set (cc_deliveries cc) \<subseteq> del_id ` set ds \<and>
      deliveries (w_db w') = set_rows (in_context cc) fd ds"
    and out: "commit_outcome e r cc (attempts (w_db w)) Committed fa fx fd new"
    by (rule commit_lifecycle) simp
  then show ?thesis
    using inputs_areI [OF del authorized_rows(5) [OF auth]]
    by (simp add: commit_outcome_def completed_delivery_def)
qed

lemma commit_completes_witness:
  "\<exists>w'. commit commit_env False (sample_result RsCompleted None) ''dg'' (commit_world 1)
      = (Inr Committed, w') \<and>
    attempts (w_db w') = [completed_attempt (clock commit_env) (sample_attempt 1)]"
proof -
  obtain w' where run: "commit commit_env False (sample_result RsCompleted None) ''dg'' (commit_world 1)
      = (Inr Committed, w')" using fst_cases [OF sample_commit] by blast
  from commit_completes [OF run] show ?thesis
    by (intro exI [of _ w'] conjI run)
      (simp add: commit_world_def commit_store_def sample_attempt_def attempt_of_def sample_result_def)
qed

text \<open>C7. A retry follows the backoff table. When a commit schedules a retry the failure was marked
  retryable and the failed attempt has number 1, 2 or 3; the attempt becomes failed, exactly one
  pending attempt is added, numbered one higher and due 1, 5 or 30 seconds after the commit, the
  execution stays as it was, and every input delivery is ready again at that time, free of its
  lease. The attempt being committed is the execution's latest.\<close>

theorem commit_retry_policy:
  assumes "commit e allow r digest w = (Inr RetryScheduled, w')"
    and "\<And>b. b \<in> set (attempts (w_db w)) \<Longrightarrow> att_execution b = sr_execution r \<Longrightarrow>
      (\<exists>a\<in>set (attempts (w_db w)). att_id a = sr_attempt r \<and> att_execution a = sr_execution r \<and>
        att_number b \<le> att_number a)"
    and "distinct (map att_id (attempts (w_db w)))"
  shows "retryable r \<and> executions (w_db w') = executions (w_db w) \<and>
    (\<exists>a n. a \<in> set (attempts (w_db w)) \<and> att_id a = sr_attempt r \<and>
       att_number a \<in> {1, 2, 3} \<and>
       n \<in> set (attempts (w_db w')) \<and> att_execution n = sr_execution r \<and>
       att_number n = Suc (att_number a) \<and> att_status n = APending \<and> att_owner n = None \<and>
       att_started n = Some (clock e + [1000, 5000, 30000] ! (att_number a - 1)) \<and>
       attempts (w_db w') =
         set_rows (attempt_of r) (failed_attempt (clock e) r) (attempts (w_db w)) @ [n] \<and>
       inputs_are (sr_execution r) (w_db w) (w_db w') (\<lambda>d. del_status d = DReady \<and>
         del_available d = clock e + [1000, 5000, 30000] ! (att_number a - 1) \<and>
         del_owner d = None \<and> del_token d = None))"
proof -
  from assms(1) obtain cc new0 fa fx fd new where auth: "authorized e allow r digest cc (w_db w)"
    and att: "attempts (w_db w') = set_rows (attempt_of r) fa (attempts (w_db w)) @ new"
    and exe: "executions (w_db w') = set_rows (execution_of r) fx (executions (w_db w))"
    and del: "\<exists>ds. del_id ` set (cc_deliveries cc) \<subseteq> del_id ` set ds \<and>
      deliveries (w_db w') = set_rows (in_context cc) fd ds"
    and out: "commit_outcome e r cc (attempts (w_db w)) RetryScheduled fa fx fd new"
    by (rule commit_lifecycle) simp
  note rows = authorized_rows [OF auth]
  let ?a = "cc_attempt cc"
  from out obtain delay i where o: "retryable r" "fa = failed_attempt (clock e) r" "fx = (\<lambda>x. x)"
    and delay: "retry_delay ?a = Some delay" and fd: "fd = ready_delivery (clock e + delay)"
    and new: "new = (if list_ex (same_attempt_key (retry_attempt cc (clock e + delay) i))
                     (set_rows (attempt_of r) fa (attempts (w_db w)))
                 then [] else [retry_attempt cc (clock e + delay) i])"
    by (auto simp: commit_outcome_def)
  have num: "att_number ?a \<in> {1, 2, 3}" and d: "delay = [1000, 5000, 30000] ! (att_number ?a - 1)"
    using delay by (auto simp: retry_delay_def RETRY_BACKOFF_MS_def split: if_splits)
  have "att_number b \<noteq> Suc (att_number ?a)"
    if "b \<in> set (set_rows (attempt_of r) fa (attempts (w_db w)))" "att_execution b = sr_execution r" for b
  proof -
    from that obtain c where "c \<in> set (attempts (w_db w))" "att_execution c = sr_execution r"
      "att_number c = att_number b"
      by (auto simp: o(2) set_set_rows failed_attempt_def)
    with assms(2) obtain a where "a \<in> set (attempts (w_db w))" "att_id a = sr_attempt r"
      "att_number b \<le> att_number a" by metis
    moreover from this rows(1,2) assms(3) have "a = ?a" by (metis distinct_map inj_onD)
    ultimately show ?thesis by simp
  qed
  then have new: "new = [retry_attempt cc (clock e + delay) i]"
    unfolding new by (simp add: list_ex_iff same_attempt_key_def retry_attempt_def rows(4)) metis
  have "inputs_are (sr_execution r) (w_db w) (w_db w') (\<lambda>d. del_status d = DReady \<and>
         del_available d = clock e + delay \<and> del_owner d = None \<and> del_token d = None)"
    using inputs_areI [OF del rows(5)] by (simp add: fd ready_delivery_def)
  with o rows num att exe show ?thesis
    by (intro conjI, simp, simp add: set_rows_id)
      (rule exI [of _ ?a], rule exI [of _ "retry_attempt cc (clock e + delay) i"],
        simp add: d new retry_attempt_def)
qed

lemma commit_retry_policy_witness:
  "\<exists>w'. commit commit_env False (sample_result RsFailed (Some retryable_failure)) ''dg''
      (commit_world 1) = (Inr RetryScheduled, w') \<and>
    (\<exists>n\<in>set (attempts (w_db w')). att_number n = 2 \<and> att_status n = APending \<and>
      att_started n = Some (clock commit_env + 1000))"
proof -
  let ?r = "sample_result RsFailed (Some retryable_failure)"
  obtain w' where run: "commit commit_env False ?r ''dg'' (commit_world 1) = (Inr RetryScheduled, w')"
    using fst_cases [OF sample_retry] by blast
  have latest: "\<exists>a\<in>set (attempts (w_db (commit_world 1))). att_id a = sr_attempt ?r \<and>
      att_execution a = sr_execution ?r \<and> att_number b \<le> att_number a"
    if "b \<in> set (attempts (w_db (commit_world 1)))" for b
    using that by (simp add: sample_attempts sample_attempt_def sample_result_def)
  have dis: "distinct (map att_id (attempts (w_db (commit_world 1))))"
    by (simp add: sample_attempts)
  from commit_retry_policy [OF run latest dis] obtain a n where
    "a \<in> set (attempts (w_db (commit_world 1)))" and n: "n \<in> set (attempts (w_db w'))"
    "att_number n = Suc (att_number a)" "att_status n = APending"
    "att_started n = Some (clock commit_env + [1000, 5000, 30000] ! (att_number a - 1))" by blast
  then have "att_number a = 1" by (simp add: sample_attempts sample_attempt_def)
  with n show ?thesis by (intro exI [of _ w'] conjI run bexI [of _ n]) simp_all
qed

text \<open>C8. A failure that cannot be retried is final: the commit dead-letters only when the failure is not
  marked retryable or the attempt's number is outside the backoff table; the attempt and the
  execution become failed with the reported failure, and every input delivery is dead-lettered and
  free of its lease.\<close>

theorem commit_dead_letters:
  assumes "commit e allow r digest w = (Inr DeadLettered, w')"
  shows "(\<exists>a\<in>set (attempts (w_db w)). att_id a = sr_attempt r \<and> att_execution a = sr_execution r \<and>
      (\<not> retryable r \<or> att_number a = 0 \<or> 3 < att_number a)) \<and>
    attempts (w_db w') = set_rows (attempt_of r) (failed_attempt (clock e) r) (attempts (w_db w)) \<and>
    executions (w_db w') =
      set_rows (execution_of r) (failed_execution (clock e) (reported_failure r)) (executions (w_db w)) \<and>
    inputs_are (sr_execution r) (w_db w) (w_db w') (\<lambda>d. del_status d = DDeadLettered \<and>
      del_dead_at d = Some (clock e) \<and> del_owner d = None \<and> del_token d = None)"
proof -
  from assms obtain cc new0 fa fx fd new where auth: "authorized e allow r digest cc (w_db w)"
    and tables: "attempts (w_db w') = set_rows (attempt_of r) fa (attempts (w_db w)) @ new"
      "executions (w_db w') = set_rows (execution_of r) fx (executions (w_db w))"
    and del: "\<exists>ds. del_id ` set (cc_deliveries cc) \<subseteq> del_id ` set ds \<and>
      deliveries (w_db w') = set_rows (in_context cc) fd ds"
    and out: "commit_outcome e r cc (attempts (w_db w)) DeadLettered fa fx fd new"
    by (rule commit_lifecycle) simp
  from out have o: "\<not> (retryable r \<and> retry_delay (cc_attempt cc) \<noteq> None)"
    "fa = failed_attempt (clock e) r" "fx = failed_execution (clock e) (reported_failure r)"
    "fd = dead_delivery (clock e)" "new = []" by (simp_all add: commit_outcome_def)
  note rows = authorized_rows [OF auth]
  from o(1) have "\<not> retryable r \<or> att_number (cc_attempt cc) = 0 \<or> 3 < att_number (cc_attempt cc)"
    by (auto simp: retry_delay_def RETRY_BACKOFF_MS_def split: if_splits)
  with rows have "\<exists>a\<in>set (attempts (w_db w)). att_id a = sr_attempt r \<and>
      att_execution a = sr_execution r \<and> (\<not> retryable r \<or> att_number a = 0 \<or> 3 < att_number a)"
    by blast
  moreover have "inputs_are (sr_execution r) (w_db w) (w_db w') (\<lambda>d. del_status d = DDeadLettered \<and>
      del_dead_at d = Some (clock e) \<and> del_owner d = None \<and> del_token d = None)"
    using inputs_areI [OF del rows(5)] by (simp add: o dead_delivery_def)
  ultimately show ?thesis by (simp add: tables o)
qed

lemma commit_dead_letters_witness:
  "\<exists>w'. commit commit_env False (sample_result RsFailed (Some retryable_failure)) ''dg''
      (commit_world 4) = (Inr DeadLettered, w') \<and>
    executions (w_db w') = [failed_execution (clock commit_env) retryable_failure sample_execution]"
proof -
  let ?r = "sample_result RsFailed (Some retryable_failure)"
  obtain w' where run: "commit commit_env False ?r ''dg'' (commit_world 4) = (Inr DeadLettered, w')"
    using fst_cases [OF sample_dead] by blast
  from commit_dead_letters [OF run] show ?thesis
    by (intro exI [of _ w'] conjI run)
      (simp add: commit_world_def commit_store_def sample_execution_def execution_of_def
        sample_result_def reported_failure_def retryable_failure_def)
qed

text \<open>C11. A result with status cancelled is never recorded: over a store whose rows satisfy the table
  constraints, committing one reports an error, or is the replay of a result committed before.
  (The code writes a failure on the cancelled attempt, which the constraint on failed attempts
  excludes.)\<close>

theorem cancelled_never_commits:
  assumes "sr_status r = RsCancelled" and "db_checks (w_db w)"
  shows "(\<exists>err. fst (commit e allow r digest w) = Inl err) \<or>
    fst (commit e allow r digest w) = Inr CommitDuplicate"
proof (cases "commit e allow r digest w")
  case (Pair v w')
  with cancelled_Inr [OF assms] show ?thesis by (cases v) auto
qed

lemma cancelled_never_commits_witness:
  "\<exists>err. fst (commit commit_env False (sample_result RsCancelled None) ''dg'' (commit_world 1)) = Inl err"
  using cancelled_never_commits [of "sample_result RsCancelled None" "commit_world 1" commit_env False "''dg''"]
    sample_checks sample_cancelled by (simp add: sample_result_def)



end
