(* ===== verification/Worker.thy ===== *)
theory Worker
  imports Commit
begin

section \<open>The worker protocol\<close>

text \<open>
  \<open>runtime-core/src/worker\<close>: what a worker may ask of the control plane. It claims an attempt,
  keeps its lease alive, asks whether to go on, reserves and uploads staged artifacts and hands in
  its result. Every request carries the identity of the attempt (execution, attempt, lease token,
  fencing epoch); \<open>activeAttempt\<close> is the check of that identity against the store. Epochs have
  a canonical name and a v1 name, of which either may be used. URLs are built by the host from
  the configured base, so \<open>wo_url\<close> is part of the options.
\<close>

subsection \<open>Requests\<close>

record worker_options =
  wo_lease :: int
  wo_url :: "string \<Rightarrow> (string \<times> string) list \<Rightarrow> string"
  wo_hook :: "string \<Rightarrow> string \<Rightarrow> string \<Rightarrow> error option"

record identity_input =
  ii_execution :: string
  ii_attempt :: string
  ii_token :: string
  ii_fencing :: "js_number option"
  ii_lifecycle :: "js_number option"

record attempt_identity =
  ai_execution :: string
  ai_attempt :: string
  ai_token :: string
  ai_epoch :: int

record claim_input =
  cl_worker :: string
  cl_selectors :: "string list option"
  cl_capabilities :: "string list option"

record stage_input = identity_input +
  si_port :: string
  si_media :: string
  si_digest :: string
  si_size :: int
  si_metadata :: json

text \<open>\<open>ri_json\<close> is the request as the JSON value it arrived as, which is what is digested.\<close>

record result_input = identity_input +
  ri_status :: result_status
  ri_artifacts :: "staged_ref list"
  ri_state :: "staged_ref option"
  ri_events :: "proposed_event list"
  ri_actions :: "action_proposal list"
  ri_usage :: "(string \<times> js_number) list option"
  ri_failure :: "json option"
  ri_json :: json

definition invalidRequest :: error where
  "invalidRequest = WorkerProtocolError ''invalid_request'' False 400"

text \<open>\<open>a !== b\<close> on optional epochs that are both given.\<close>

definition conflicting :: "'a option \<Rightarrow> 'a option \<Rightarrow> bool" where
  "conflicting a b \<longleftrightarrow> a \<noteq> None \<and> b \<noteq> None \<and> a \<noteq> b"

definition or_else :: "'a option \<Rightarrow> 'a option \<Rightarrow> 'a option" where
  "or_else a b = (case a of None \<Rightarrow> b | Some x \<Rightarrow> Some x)"

definition normalizeAttemptIdentity ::
  "'a identity_input_scheme \<Rightarrow> error + attempt_identity" where
  "normalizeAttemptIdentity i =
     (if conflicting (ii_fencing i) (ii_lifecycle i) then Inl invalidRequest
      else case or_else (ii_fencing i) (ii_lifecycle i) of
        Some (Finite q) \<Rightarrow>
          if q = of_int \<lfloor>q\<rfloor> \<and> 0 \<le> q
          then Inr \<lparr>ai_execution = ii_execution i, ai_attempt = ii_attempt i,
                    ai_token = ii_token i, ai_epoch = \<lfloor>q\<rfloor>\<rparr>
          else Inl invalidRequest
      | _ \<Rightarrow> Inl invalidRequest)"

text \<open>\<open>[...new Set(xs)]\<close>: the first occurrence of each element.\<close>

fun firsts :: "string list \<Rightarrow> string list" where
  "firsts [] = []"
| "firsts (x # xs) = x # filter (\<lambda>y. y \<noteq> x) (firsts xs)"

definition normalizeSelectors :: "string list option \<Rightarrow> error + string list option" where
  "normalizeSelectors values =
     (case values of
        None \<Rightarrow> Inr None
      | Some vs \<Rightarrow> if list_ex blank vs then Inl invalidRequest else Inr (Some (firsts (map trim vs))))"

definition sameSelectorSet :: "string list \<Rightarrow> string list \<Rightarrow> bool" where
  "sameSelectorSet left right \<longleftrightarrow>
     length left = length right \<and> list_all (\<lambda>x. x \<in> set right) left"

definition normalizeComponentSelectors :: "claim_input \<Rightarrow> error + string list" where
  "normalizeComponentSelectors c =
     (case normalizeSelectors (cl_selectors c) of
        Inl err \<Rightarrow> Inl err
      | Inr canonical \<Rightarrow>
          (case normalizeSelectors (cl_capabilities c) of
             Inl err \<Rightarrow> Inl err
           | Inr legacy \<Rightarrow>
               if canonical \<noteq> None \<and> legacy \<noteq> None \<and> \<not> sameSelectorSet (the canonical) (the legacy)
               then Inl invalidRequest
               else (case or_else canonical legacy of
                  None \<Rightarrow> Inl invalidRequest | Some selectors \<Rightarrow> Inr selectors)))"

text \<open>The canonical reference, already under its v1 name: \<open>toWorkerV1StagedArtifact\<close> undoes the
  renaming of \<open>normalizeStagedArtifact\<close>.\<close>

definition normalizeStagedArtifact :: "staged_ref \<Rightarrow> error + staged_ref" where
  "normalizeStagedArtifact st =
     (if conflicting (st_staging_ref st) (st_staging_id st) then Inl invalidRequest
      else case or_else (st_staging_ref st) (st_staging_id st) of
        None \<Rightarrow> Inl invalidRequest
      | Some ref \<Rightarrow> if ref = [] then Inl invalidRequest else Inr (st\<lparr>st_staging_ref := Some ref\<rparr>))"

definition toWorkerV1StagedArtifact :: "staged_ref \<Rightarrow> staged_ref" where
  "toWorkerV1StagedArtifact st = st\<lparr>st_staging_ref := None, st_staging_id := st_staging_ref st\<rparr>"

subsection \<open>The invocation envelope\<close>

record state_descriptor =
  sd_artifact :: string
  sd_digest :: string
  sd_size :: int
  sd_media :: string
  sd_schema :: string
  sd_schema_digest :: string
  sd_uri :: string
  sd_provenance :: json

record envelope =
  en_execution :: string
  en_attempt :: string
  en_number :: nat
  en_token :: string
  en_expires :: int
  en_epoch :: int
  en_component :: string
  en_definition_id :: string
  en_definition_name :: string
  en_definition_version :: string
  en_configuration :: json
  en_definition :: json
  en_inputs :: "(string \<times> string \<times> json) list"
  en_state :: "state_descriptor option"
  en_handles :: "string list"
  en_heartbeat_url :: string
  en_cancellation_url :: string
  en_result_url :: string
  en_staging_url :: string
  en_capability_url :: string
  en_traceparent :: string
  en_heartbeat_ms :: int
  en_max_bytes :: int

text \<open>The row of the first query: the execution with its component and the component's
  definition. The region is joined but not read.\<close>

definition envelope_row ::
  "string \<Rightarrow> db \<Rightarrow> (execution \<times> component_instance \<times> component_definition) option" where
  "envelope_row executionId s =
     (case List.find (\<lambda>x. exe_id x = executionId) (executions s) of
        None \<Rightarrow> None
      | Some x \<Rightarrow>
          (case (List.find (\<lambda>g. reg_id g = exe_region x) (regions s),
                 List.find (\<lambda>c. ci_id c = exe_component x) (component_instances s)) of
             (Some _, Some c) \<Rightarrow>
               map_option (\<lambda>d. (x, c, d))
                 (List.find (\<lambda>d. cdef_id d = ci_def c) (component_definitions s))
           | _ \<Rightarrow> None))"

definition active_grants :: "string \<Rightarrow> db \<Rightarrow> string list" where
  "active_grants definitionId s =
     sort (map gr_id (filter (\<lambda>g. gr_grantee g = definitionId \<and> gr_status g = GrActive \<and>
       gr_revoked g = None \<and>
       list_ex (\<lambda>k. cap_id k = gr_capability g \<and> cap_retired k = None) (capabilities s))
     (capability_grants s)))"

definition traceparent :: "env \<Rightarrow> leased_attempt \<Rightarrow> string" where
  "traceparent e l =
     ''00-'' @ take 32 (sha256_hex e (le_attempt l)) @ ''-'' @
     take 16 (sha256_hex e (le_execution l)) @ ''-01''"

definition make_envelope ::
  "env \<Rightarrow> worker_options \<Rightarrow> leased_attempt \<Rightarrow> execution \<Rightarrow> component_instance \<Rightarrow>
   component_definition \<Rightarrow> string list \<Rightarrow> envelope" where
  "make_envelope e o' l x c d handles =
     \<lparr>en_execution = le_execution l, en_attempt = le_attempt l, en_number = le_number l,
      en_token = le_token l, en_expires = le_expires l, en_epoch = exe_epoch x,
      en_component = ci_id c, en_definition_id = cdef_id d, en_definition_name = cdef_name d,
      en_definition_version = cdef_version d, en_configuration = ci_configuration c,
      en_definition = cdef_definition d, en_inputs = le_inputs l, en_state = None,
      en_handles = handles,
      en_heartbeat_url = wo_url o' ''/worker/v1/heartbeat'' [],
      en_cancellation_url = wo_url o' ''/worker/v1/cancellation'' [],
      en_result_url = wo_url o' ''/worker/v1/results'' [],
      en_staging_url = wo_url o' ''/worker/v1/artifacts/stage'' [],
      en_capability_url = wo_url o' ''/worker/v1/capabilities/invoke'' [],
      en_traceparent = traceparent e l, en_heartbeat_ms = wo_lease o' div 3,
      en_max_bytes = MAX_JSON_BYTES\<rparr>"

definition buildEnvelope :: "env \<Rightarrow> worker_options \<Rightarrow> leased_attempt \<Rightarrow> (db, envelope) tx" where
  "buildEnvelope e o' l =
     bind_tx (get (envelope_row (le_execution l))) (\<lambda>row.
     bind_tx (or_throw row (NoResultError ''executions'')) (\<lambda>(x, c, d).
     bind_tx (get (active_grants (cdef_id d))) (\<lambda>grants.
     bind_tx (map_tx (\<lambda>g. of_sum (encodeCapabilityGrantHandle g)) grants) (\<lambda>handles.
     ret (make_envelope e o' l x c d handles)))))"

text \<open>The newest state version of a component whose artifact is committed.\<close>

definition readLatestState ::
  "string \<Rightarrow> db \<Rightarrow> (state_version \<times> artifact \<times> artifact_schema) option" where
  "readLatestState componentId s =
     (let rows = concat (map (\<lambda>v.
            if sv_component v = componentId then
              (case (List.find (\<lambda>a. art_id a = sv_artifact v) (artifacts s),
                     List.find (\<lambda>c. sch_id c = sv_schema v) (artifact_schemas s)) of
                 (Some a, Some c) \<Rightarrow> if art_state a = ArtCommitted then [(v, a, c)] else []
               | _ \<Rightarrow> [])
            else []) (state_versions s))
      in case sort_key (\<lambda>(v, a, c). (- int (sv_number v), - sv_created v)) rows of
           [] \<Rightarrow> None | r # _ \<Rightarrow> Some r)"

definition describe_state :: "state_version \<times> artifact \<times> artifact_schema \<Rightarrow> state_descriptor" where
  "describe_state r =
     (case r of (v, a, c) \<Rightarrow>
        \<lparr>sd_artifact = art_id a, sd_digest = art_digest a, sd_size = art_size a,
         sd_media = art_media a, sd_schema = sch_id c, sd_schema_digest = sch_digest c,
         sd_uri = (case art_locator a of None \<Rightarrow> ''inline-json://'' @ art_digest a | Some u \<Rightarrow> u),
         sd_provenance = sv_provenance v\<rparr>)"

definition withState :: "envelope \<Rightarrow> (db, envelope) tx" where
  "withState en =
     bind_tx (get (readLatestState (en_component en))) (\<lambda>found.
     ret (case found of None \<Rightarrow> en | Some r \<Rightarrow> en\<lparr>en_state := Some (describe_state r)\<rparr>))"

definition claim :: "env \<Rightarrow> worker_options \<Rightarrow> claim_input \<Rightarrow> (db, envelope option) io" where
  "claim e o' c = (\<lambda>s.
     case normalizeComponentSelectors c of
       Inl err \<Rightarrow> (Inl err, s)
     | Inr selectors \<Rightarrow>
         bind_io (leaseNextAttempt e \<lparr>lo_worker = cl_worker c,
             lo_duration = Finite (of_int (wo_lease o')), lo_selectors = Some selectors\<rparr>) (\<lambda>l.
         case l of
           None \<Rightarrow> ret_io None
         | Some l \<Rightarrow> transaction (bind_tx (buildEnvelope e o' l) (\<lambda>en.
             bind_tx (withState en) (\<lambda>en'. ret (Some en'))))) s)"

subsection \<open>The attempt a request speaks for\<close>

definition joined_attempt ::
  "attempt_identity \<Rightarrow> db \<Rightarrow> (attempt \<times> execution \<times> region) option" where
  "joined_attempt ai s =
     (case List.find (\<lambda>a. att_id a = ai_attempt ai \<and> att_execution a = ai_execution ai) (attempts s) of
        None \<Rightarrow> None
      | Some a \<Rightarrow>
          (case List.find (\<lambda>x. exe_id x = att_execution a) (executions s) of
             None \<Rightarrow> None
           | Some x \<Rightarrow>
               map_option (\<lambda>g. (a, x, g)) (List.find (\<lambda>g. reg_id g = exe_region x) (regions s))))"

definition lease_past :: "env \<Rightarrow> attempt \<Rightarrow> bool" where
  "lease_past e a \<longleftrightarrow> (case att_expires a of None \<Rightarrow> True | Some t \<Rightarrow> t \<le> clock e)"

definition activeAttempt ::
  "env \<Rightarrow> attempt_identity \<Rightarrow> (db, attempt \<times> execution \<times> region) tx" where
  "activeAttempt e ai =
     bind_tx (get (joined_attempt ai)) (\<lambda>row.
     bind_tx (or_throw row (WorkerProtocolError ''inactive_attempt'' False 409)) (\<lambda>(a, x, g).
     bind_tx (guard (active (att_status a)) (WorkerProtocolError ''inactive_attempt'' False 409)) (\<lambda>_.
     bind_tx (guard (att_token a = Some (ai_token ai))
        (WorkerProtocolError ''stale_lease_token'' False 409)) (\<lambda>_.
     bind_tx (guard (exe_epoch x = ai_epoch ai \<and> reg_epoch g = ai_epoch ai)
        (WorkerProtocolError ''stale_lifecycle_epoch'' False 409)) (\<lambda>_.
     bind_tx (guard (\<not> lease_past e a) (WorkerProtocolError ''lease_expired'' True 409)) (\<lambda>_.
     ret (a, x, g)))))))"

definition assertActive :: "env \<Rightarrow> 'a identity_input_scheme \<Rightarrow> (db, attempt \<times> execution \<times> region) tx" where
  "assertActive e i = bind_tx (of_sum (normalizeAttemptIdentity i)) (activeAttempt e)"

subsection \<open>Heartbeat and cancellation\<close>

record heartbeat_reply =
  hb_expires :: int
  hb_cancel :: bool

definition heartbeat ::
  "env \<Rightarrow> worker_options \<Rightarrow> 'a identity_input_scheme \<Rightarrow> (db, heartbeat_reply) io" where
  "heartbeat e o' i =
     transaction (bind_tx (of_sum (normalizeAttemptIdentity i)) (\<lambda>ai.
     bind_tx (activeAttempt e ai) (\<lambda>(a, x, g).
     let until = clock e + wo_lease o' in
     bind_tx (update_attempts
        (\<lambda>a. att_id a = ai_attempt ai \<and> att_execution a = ai_execution ai \<and>
             att_token a = Some (ai_token ai))
        (\<lambda>a. a\<lparr>att_status := ARunning, att_expires := Some until\<rparr>)) (\<lambda>_.
     ret \<lparr>hb_expires = until, hb_cancel = (reg_status g \<in> {RCancelling, RCancelled})\<rparr>))))"

datatype cancellation_state =
  AttemptTerminal | LeaseNoLongerValid | CancellationRequested | Continue

definition cancellation_of ::
  "env \<Rightarrow> attempt_identity \<Rightarrow> (attempt \<times> execution \<times> region) option \<Rightarrow> cancellation_state" where
  "cancellation_of e ai row =
     (case row of
        None \<Rightarrow> AttemptTerminal
      | Some (a, x, g) \<Rightarrow>
          if \<not> active (att_status a) then AttemptTerminal
          else if att_token a \<noteq> Some (ai_token ai) \<or> lease_past e a \<or> exe_epoch x \<noteq> ai_epoch ai
          then LeaseNoLongerValid
          else if reg_epoch g \<noteq> ai_epoch ai \<or> reg_status g \<in> {RCancelling, RCancelled}
          then CancellationRequested
          else Continue)"

definition cancellation ::
  "env \<Rightarrow> 'a identity_input_scheme \<Rightarrow> (db, cancellation_state) tx" where
  "cancellation e i =
     bind_tx (of_sum (normalizeAttemptIdentity i)) (\<lambda>ai.
     bind_tx (get (joined_attempt ai)) (\<lambda>row. ret (cancellation_of e ai row)))"

subsection \<open>Staging and upload\<close>

record staging_reply =
  sy_ref :: string
  sy_url :: string
  sy_expires :: int

definition output_port :: "string \<Rightarrow> string \<Rightarrow> db \<Rightarrow> port_definition option" where
  "output_port componentId name s =
     List.find (\<lambda>p. port_direction p = POutput \<and> port_name p = name \<and>
       list_ex (\<lambda>c. ci_id c = componentId \<and> ci_def c = port_def p) (component_instances s))
     (port_definitions s)"

definition upload_row ::
  "attempt_identity \<Rightarrow> stage_input \<Rightarrow> port_definition \<Rightarrow> string \<Rightarrow> string \<Rightarrow> int \<Rightarrow> upload" where
  "upload_row ai i p ref uid until =
     \<lparr>up_id = uid, up_ref = ref, up_execution = ai_execution ai, up_attempt = ai_attempt ai,
      up_epoch = ai_epoch ai, up_port = si_port i, up_schema = port_schema p,
      up_media = si_media i, up_digest = si_digest i, up_size = si_size i,
      up_metadata = si_metadata i, up_expires = until, up_uploaded = None, up_staging = None\<rparr>"

definition insert_upload :: "upload \<Rightarrow> (db, unit) tx" where
  "insert_upload u = (\<lambda>s.
     if \<not> (0 \<le> up_epoch u \<and> is_sha256_text (up_digest u) \<and> 0 \<le> up_size u)
     then Inl (DbViolation ''worker_artifact_uploads_check'')
     else if list_ex (\<lambda>v. up_ref v = up_ref u) (uploads s)
     then Inl (DbViolation ''worker_artifact_uploads_staged_ref_key'')
     else Inr ((), s\<lparr>uploads := uploads s @ [u]\<rparr>))"

definition stage_reference ::
  "env \<Rightarrow> worker_options \<Rightarrow> stage_input \<Rightarrow> (db, staging_reply) io" where
  "stage_reference e o' i =
     transaction (bind_tx (of_sum (normalizeAttemptIdentity i)) (\<lambda>ai.
     bind_tx (activeAttempt e ai) (\<lambda>(a, x, g).
     bind_tx (get (output_port (exe_component x) (si_port i))) (\<lambda>found.
     bind_tx (or_throw found
        (WorkerProtocolError ''unauthorized_staging_reference'' False 403)) (\<lambda>p.
     bind_tx (fresh_uuid e) (\<lambda>ref.
     let policy = clock e + wo_lease o';
         until = (case att_expires a of None \<Rightarrow> policy | Some t \<Rightarrow> min t policy) in
     bind_tx (fresh_uuid e) (\<lambda>uid.
     bind_tx (insert_upload (upload_row ai i p ref uid until)) (\<lambda>_.
     ret \<lparr>sy_ref = ref,
          sy_url = wo_url o' (''/worker/v1/artifacts/upload/'' @ ref)
            [(''protocolVersion'', ''1.0''), (''executionId'', ai_execution ai),
             (''attemptId'', ai_attempt ai), (''leaseToken'', ai_token ai),
             (''lifecycleEpoch'', decimal_text (nat (ai_epoch ai)))],
          sy_expires = until\<rparr>))))))))"

definition find_upload :: "string \<Rightarrow> db \<Rightarrow> upload option" where
  "find_upload ref s = List.find (\<lambda>u. up_ref u = ref) (uploads s)"

definition upload_authorized :: "env \<Rightarrow> attempt_identity \<Rightarrow> upload option \<Rightarrow> bool" where
  "upload_authorized e ai found =
     (case found of
        None \<Rightarrow> False
      | Some u \<Rightarrow> up_execution u = ai_execution ai \<and> up_attempt u = ai_attempt ai \<and>
          up_epoch u = ai_epoch ai \<and> clock e < up_expires u)"

definition upload_error :: "error \<Rightarrow> error" where
  "upload_error err =
     (case err of
        BlobStoreError code \<Rightarrow>
          if code \<in> {''digest_mismatch'', ''size_mismatch'', ''invalid_digest'', ''invalid_size''}
          then WorkerProtocolError ''invalid_request'' False 400
          else if code = ''staging_conflict''
          then WorkerProtocolError ''unauthorized_staging_reference'' False 409
          else err
      | _ \<Rightarrow> err)"

definition staging_of_upload ::
  "env \<Rightarrow> attempt_identity \<Rightarrow> string \<Rightarrow> upload \<Rightarrow> staging_receipt \<Rightarrow> string \<Rightarrow> staging" where
  "staging_of_upload e ai ref u rc i =
     \<lparr>stg_id = i, stg_attempt = ai_attempt ai, stg_ref = ref, stg_digest = srec_digest rc,
      stg_size = srec_size rc, stg_schema = up_schema u, stg_media = up_media u,
      stg_locator = srec_locator rc, stg_status = StgStaged, stg_metadata = up_metadata u,
      stg_artifact = None, stg_promoted = None, stg_abandoned = None, stg_created = db_now e\<rparr>"

text \<open>\<open>on conflict (attempt_id, staged_ref) do nothing\<close>; the locator and the key are unique.\<close>

definition insert_staging_or_nothing :: "staging \<Rightarrow> (db, unit) tx" where
  "insert_staging_or_nothing g = (\<lambda>s.
     if \<not> staging_ok g then Inl (DbViolation ''artifact_staging_status_consistency'')
     else if list_ex (\<lambda>h. stg_attempt h = stg_attempt g \<and> stg_ref h = stg_ref g) (stagings s)
     then Inr ((), s)
     else if list_ex (\<lambda>h. stg_locator h = stg_locator g) (stagings s)
     then Inl (DbViolation ''artifact_staging_locator_unique'')
     else if list_ex (\<lambda>h. stg_id h = stg_id g) (stagings s)
     then Inl (DbViolation ''artifact_staging_pkey'')
     else Inr ((), s\<lparr>stagings := stagings s @ [g]\<rparr>))"

definition mark_uploaded :: "env \<Rightarrow> upload \<Rightarrow> string \<Rightarrow> (db, unit) tx" where
  "mark_uploaded e u i = (\<lambda>s.
     if list_ex (\<lambda>v. up_id v \<noteq> up_id u \<and> up_staging v = Some i) (uploads s)
     then Inl (DbViolation ''worker_artifact_uploads_artifact_staging_id_key'')
     else Inr ((), s\<lparr>uploads := set_rows (\<lambda>v. up_id v = up_id u)
       (\<lambda>v. v\<lparr>up_uploaded := Some (clock e), up_staging := Some i\<rparr>) (uploads s)\<rparr>))"

definition record_upload ::
  "env \<Rightarrow> attempt_identity \<Rightarrow> string \<Rightarrow> staging_receipt \<Rightarrow> (db, unit) tx" where
  "record_upload e ai ref rc =
     bind_tx (activeAttempt e ai) (\<lambda>_.
     bind_tx (get (find_upload ref)) (\<lambda>found.
     bind_tx (guard (upload_authorized e ai found)
        (WorkerProtocolError ''unauthorized_staging_reference'' False 403)) (\<lambda>_.
     let u = the found in
     bind_tx (case up_staging u of Some i \<Rightarrow> ret i | None \<Rightarrow> fresh_uuid e) (\<lambda>i.
     bind_tx (insert_staging_or_nothing (staging_of_upload e ai ref u rc i)) (\<lambda>_.
     bind_tx (get (\<lambda>s. List.find (\<lambda>g. stg_attempt g = ai_attempt ai \<and> stg_ref g = ref) (stagings s)))
       (\<lambda>row.
     bind_tx (or_throw row (NoResultError ''artifact_staging'')) (\<lambda>g.
     bind_tx (guard (stg_digest g = srec_digest rc \<and> stg_size g = srec_size rc \<and>
          stg_schema g = up_schema u \<and> stg_media g = up_media u \<and> stg_locator g = srec_locator rc)
        (WorkerProtocolError ''unauthorized_staging_reference'' False 409)) (\<lambda>_.
     mark_uploaded e u (stg_id g)))))))))"
definition upload_bytes ::
  "env \<Rightarrow> string \<Rightarrow> 'a identity_input_scheme \<Rightarrow> string \<Rightarrow> (world, staging_receipt) io" where
  "upload_bytes e ref i bytes =
     bind_io (get_io w_blobs) (\<lambda>blobs.
     bind_io (guard_io (blobs \<noteq> None)
        (WorkerProtocolError ''internal_transient_failure'' True 503)) (\<lambda>_.
     bind_io (in_db (of_sum (normalizeAttemptIdentity i))) (\<lambda>ai.
     bind_io (in_db (activeAttempt e ai)) (\<lambda>_.
     bind_io (get_io (\<lambda>w. find_upload ref (w_db w))) (\<lambda>found.
     bind_io (guard_io (upload_authorized e ai found)
        (WorkerProtocolError ''unauthorized_staging_reference'' False 403)) (\<lambda>_.
     bind_io (catch_io
         (in_blobs (stage e ref bytes
           \<lparr>expected_digest = Some (up_digest (the found)), expected_size = Some (up_size (the found))\<rparr>))
         (\<lambda>err. throw_io (upload_error err))) (\<lambda>rc.
     bind_io (transaction_io (in_db (record_upload e ai ref rc))) (\<lambda>_.
     ret_io rc))))))))"

subsection \<open>Submitting a result\<close>

definition staged_match :: "env \<Rightarrow> staged_ref \<Rightarrow> staging \<times> artifact_schema \<Rightarrow> bool" where
  "staged_match e st j =
     (case j of (g, c) \<Rightarrow>
        stg_status g = StgStaged \<and> stg_digest g = st_digest st \<and>
        size_text_is e (stg_size g) (st_size st) \<and> stg_schema g = st_schema st \<and>
        sch_digest c = st_schema_digest st \<and> stg_media g = st_media st)"

definition staged_of :: "string \<Rightarrow> staged_ref \<Rightarrow> db \<Rightarrow> (staging \<times> artifact_schema) option" where
  "staged_of attemptId st s =
     (case List.find (\<lambda>g. stg_attempt g = attemptId \<and> Some (stg_ref g) = st_staging_ref st) (stagings s) of
        None \<Rightarrow> None
      | Some g \<Rightarrow> map_option (\<lambda>c. (g, c))
          (List.find (\<lambda>c. sch_id c = stg_schema g) (artifact_schemas s)))"

definition validateStagedArtifacts :: "env \<Rightarrow> string \<Rightarrow> staged_ref list \<Rightarrow> (db, unit) tx" where
  "validateStagedArtifacts e attemptId sts =
     for_tx sts (\<lambda>st.
       bind_tx (get (staged_of attemptId st)) (\<lambda>row.
       guard (case row of None \<Rightarrow> False | Some j \<Rightarrow> staged_match e st j)
         (WorkerProtocolError ''unauthorized_staging_reference'' False 403)))"

definition commit_input ::
  "attempt_identity \<Rightarrow> result_input \<Rightarrow> staged_ref list \<Rightarrow> staged_ref option \<Rightarrow> submitted_result" where
  "commit_input ai i sts st =
     \<lparr>sr_execution = ai_execution ai, sr_attempt = ai_attempt ai, sr_token = ai_token ai,
      sr_lifecycle_epoch = Some (ai_epoch ai), sr_fencing_epoch = None, sr_status = ri_status i,
      sr_artifacts = map toWorkerV1StagedArtifact sts,
      sr_state = map_option toWorkerV1StagedArtifact st, sr_events = ri_events i,
      sr_actions = ri_actions i, sr_usage = ri_usage i, sr_failure = ri_failure i\<rparr>"

definition insert_submission_or_nothing :: "submission \<Rightarrow> (db, bool) tx" where
  "insert_submission_or_nothing b = (\<lambda>s.
     if list_ex (\<lambda>x. sub_attempt x = sub_attempt b) (submissions s) then Inr (False, s)
     else Inr (True, s\<lparr>submissions := submissions s @ [b]\<rparr>))"

text \<open>A digest that is on record already: the same one is a duplicate, another one a conflict.\<close>

definition recorded_digest :: "string \<Rightarrow> submission \<Rightarrow> (db, bool) tx" where
  "recorded_digest digest b =
     (if sub_digest b = digest then ret True
      else throw (WorkerProtocolError ''duplicate_conflicting_result'' False 409))"

definition handoff ::
  "env \<Rightarrow> attempt_identity \<Rightarrow> submitted_result \<Rightarrow> string \<Rightarrow> staged_ref list \<Rightarrow> (db, bool) tx" where
  "handoff e ai r digest sts =
     bind_tx (get (find_submission (ai_attempt ai))) (\<lambda>existing.
     case existing of
       Some b \<Rightarrow> recorded_digest digest b
     | None \<Rightarrow>
         bind_tx (fresh_uuid e) (\<lambda>i.
         bind_tx (insert_submission_or_nothing (submission_row e r digest i)) (\<lambda>inserted.
         if \<not> inserted then
           bind_tx (get (find_submission (ai_attempt ai))) (\<lambda>c.
           bind_tx (or_throw c (NoResultError ''worker_result_submissions'')) (recorded_digest digest))
         else
           bind_tx (activeAttempt e ai) (\<lambda>_.
           bind_tx (validateStagedArtifacts e (ai_attempt ai) sts) (\<lambda>_. ret False)))))"

definition commit_error :: "error \<Rightarrow> error" where
  "commit_error err =
     (case err of
        ExecutionCommitError code status \<Rightarrow>
          WorkerProtocolError
            (if code = ''external_action_unauthorized'' then ''capability_denied''
             else if code = ''invalid_staged_artifact'' then ''unauthorized_staging_reference''
             else code) (500 \<le> status) status
      | _ \<Rightarrow> err)"

definition normalized_result ::
  "result_input \<Rightarrow> (world, attempt_identity \<times> staged_ref list \<times> staged_ref option) io" where
  "normalized_result i =
     bind_io (in_db (of_sum (normalizeAttemptIdentity i))) (\<lambda>ai.
     bind_io (in_db (map_tx (\<lambda>st. of_sum (normalizeStagedArtifact st)) (ri_artifacts i))) (\<lambda>sts.
     bind_io (in_db (case ri_state i of
         None \<Rightarrow> ret None
       | Some st \<Rightarrow> bind_tx (of_sum (normalizeStagedArtifact st)) (\<lambda>st'. ret (Some st')))) (\<lambda>st.
     ret_io (ai, sts, st))))"

definition all_staged :: "staged_ref list \<Rightarrow> staged_ref option \<Rightarrow> staged_ref list" where
  "all_staged sts st = sts @ (case st of None \<Rightarrow> [] | Some t \<Rightarrow> [t])"

text \<open>The answer is whether the result was a duplicate.\<close>

definition submitResult :: "env \<Rightarrow> worker_options \<Rightarrow> result_input \<Rightarrow> (world, bool) io" where
  "submitResult e o' i =
     bind_io (normalized_result i) (\<lambda>(ai, sts, st).
     let digest = json_digest e (ri_json i); r = commit_input ai i sts st in
     bind_io (transaction_io (in_db (handoff e ai r digest (all_staged sts st)))) (\<lambda>duplicate.
     bind_io (case wo_hook o' (ai_execution ai) (ai_attempt ai) digest of
         None \<Rightarrow> ret_io () | Some err \<Rightarrow> throw_io err) (\<lambda>_.
     bind_io (catch_io (commitSubmittedResult e False (ai_attempt ai))
         (\<lambda>err. throw_io (commit_error err))) (\<lambda>_.
     ret_io duplicate))))"

definition invokeCapability :: "env \<Rightarrow> 'a identity_input_scheme \<Rightarrow> (db, unit) tx" where
  "invokeCapability e i =
     bind_tx (assertActive e i) (\<lambda>_. throw (WorkerProtocolError ''capability_denied'' False 403))"

subsection \<open>What holding the lease means\<close>

definition lease_current :: "env \<Rightarrow> attempt_identity \<Rightarrow> attempt \<times> execution \<times> region \<Rightarrow> bool" where
  "lease_current e ai row =
     (case row of (a, x, g) \<Rightarrow>
        active (att_status a) \<and> att_token a = Some (ai_token ai) \<and>
        exe_epoch x = ai_epoch ai \<and> reg_epoch g = ai_epoch ai \<and> \<not> lease_past e a)"

lemma activeAttempt_Inr:
  "activeAttempt e ai s = Inr (row, s') \<longleftrightarrow>
     s' = s \<and> joined_attempt ai s = Some row \<and> lease_current e ai row"
  by (auto simp: activeAttempt_def lease_current_def tx_Inr split: prod.splits)

lemma joined_attempt_Some:
  assumes "joined_attempt ai s = Some (a, x, g)"
  shows "a \<in> set (attempts s)" and "att_id a = ai_attempt ai" and "att_execution a = ai_execution ai"
    and "x \<in> set (executions s)" and "exe_id x = ai_execution ai"
    and "g \<in> set (regions s)" and "reg_id g = exe_region x"
  using assms by (auto simp: joined_attempt_def dest!: find_Some_mem split: option.splits)

text \<open>Some row of the store gives the request its authority.\<close>

definition has_lease :: "env \<Rightarrow> attempt_identity \<Rightarrow> db \<Rightarrow> bool" where
  "has_lease e ai s \<longleftrightarrow>
     (case joined_attempt ai s of None \<Rightarrow> False | Some row \<Rightarrow> lease_current e ai row)"

lemma no_lease_fails:
  assumes "\<not> has_lease e ai s"
  obtains err where "activeAttempt e ai s = Inl err"
proof (cases "activeAttempt e ai s")
  case (Inr p)
  with assms show thesis by (cases p) (auto simp: activeAttempt_Inr has_lease_def)
qed

subsection \<open>Without the lease nothing happens\<close>

lemma heartbeat_no_lease:
  assumes "normalizeAttemptIdentity i = Inr ai" and "\<not> has_lease e ai s"
  shows "\<exists>err. heartbeat e o' i s = (Inl err, s)"
proof -
  obtain err where "activeAttempt e ai s = Inl err" by (rule no_lease_fails [OF assms(2)])
  with assms(1) show ?thesis by (simp add: heartbeat_def transaction_def tx_simps)
qed

lemma stage_no_lease:
  assumes "normalizeAttemptIdentity i = Inr ai" and "\<not> has_lease e ai s"
  shows "\<exists>err. stage_reference e o' i s = (Inl err, s)"
proof -
  obtain err where "activeAttempt e ai s = Inl err" by (rule no_lease_fails [OF assms(2)])
  with assms(1) show ?thesis by (simp add: stage_reference_def transaction_def tx_simps)
qed

lemma upload_no_lease:
  assumes "normalizeAttemptIdentity i = Inr ai" and "\<not> has_lease e ai (w_db w)"
  shows "\<exists>err. upload_bytes e ref i bytes w = (Inl err, w)"
proof -
  obtain err where "activeAttempt e ai (w_db w) = Inl err" by (rule no_lease_fails [OF assms(2)])
  with assms(1) show ?thesis
    by (auto simp: upload_bytes_def bind_io_def get_io_def guard_io_def in_db_def tx_simps)
qed

lemma handoff_no_lease:
  assumes "\<not> has_lease e ai s" and "find_submission (ai_attempt ai) s = None"
    and "sr_attempt r = ai_attempt ai"
  shows "\<exists>err. handoff e ai r digest sts s = Inl err"
proof -
  have "joined_attempt ai (s\<lparr>drawn := n, submissions := xs\<rparr>) = joined_attempt ai s" for n xs
    by (simp add: joined_attempt_def split: option.split)
  with assms(1) have "\<not> has_lease e ai (s\<lparr>drawn := n, submissions := xs\<rparr>)" for n xs
    by (simp add: has_lease_def)
  then have "\<exists>err. activeAttempt e ai (s\<lparr>drawn := n, submissions := xs\<rparr>) = Inl err" for n xs
    using no_lease_fails by metis
  then obtain err where err: "activeAttempt e ai (s\<lparr>drawn := Suc (drawn s), submissions :=
      submissions s @ [submission_row e r digest (new_uuid e (drawn s))]\<rparr>) = Inl err" by blast
  have "\<not> list_ex (\<lambda>x. sub_attempt x = sr_attempt r) (submissions s)"
    using assms(2,3) by (auto simp: find_submission_def find_None_iff list_ex_iff)
  then have "insert_submission_or_nothing (submission_row e r digest (new_uuid e (drawn s)))
      (s\<lparr>drawn := Suc (drawn s)\<rparr>) = Inr (True, s\<lparr>drawn := Suc (drawn s), submissions :=
      submissions s @ [submission_row e r digest (new_uuid e (drawn s))]\<rparr>)"
    by (simp add: insert_submission_or_nothing_def submission_row_def)
  with err assms(2) show ?thesis by (simp add: handoff_def tx_simps fresh_uuid_def)
qed

lemma in_db_same:
  assumes "\<And>x s. m (w_db w) = Inr (x, s) \<Longrightarrow> s = w_db w" and "in_db m w = (r, w')"
  shows "w' = w"
  using assms by (auto simp: in_db_def split: sum.splits)

lemma map_tx_same:
  assumes "\<And>x y s s'. f x s = Inr (y, s') \<Longrightarrow> s' = s" and "map_tx f xs s = Inr (ys, s')"
  shows "s' = s"
  using assms(2)
proof (induction xs arbitrary: ys s)
  case (Cons x xs)
  then obtain y t zs where "f x s = Inr (y, t)" and "map_tx f xs t = Inr (zs, s')"
    by (auto simp: bind_tx_Inr ret_Inr)
  with assms(1) Cons.IH show ?case by metis
qed (simp add: ret_Inr)

lemma holds_io_same:
  "(\<And>x s s'. m s = Inr (x, s') \<Longrightarrow> s' = s) \<Longrightarrow> holds_io (\<lambda>v. v = w) (in_db m)"
  by (rule holds_ioI) (auto simp: in_db_def split: sum.splits)

lemma normalized_result_same: "normalized_result i w = (v, w') \<Longrightarrow> w' = w"
proof -
  assume run: "normalized_result i w = (v, w')"
  have "holds_io (\<lambda>v. v = w) (normalized_result i)"
    unfolding normalized_result_def
    by (intro holds_io_bind holds_io_same holds_io_simple)
      (auto simp: of_sum_Inr tx_Inr split: option.splits dest: map_tx_same [rotated])
  from holds_ioD [OF this refl run] show "w' = w" .
qed

lemma submit_no_lease:
  assumes "normalizeAttemptIdentity i = Inr ai" and "\<not> has_lease e ai (w_db w)"
    and "find_submission (ai_attempt ai) (w_db w) = None"
  shows "\<exists>err. submitResult e o' i w = (Inl err, w)"
proof (cases "normalized_result i w")
  case (Pair v w1)
  then have w1: "w1 = w" by (rule normalized_result_same)
  show ?thesis
  proof (cases v)
    case (Inl err)
    with Pair w1 show ?thesis by (simp add: submitResult_def bind_io_def)
  next
    case (Inr p)
    then obtain bi sts st where v: "v = Inr (bi, sts, st)" by (cases p) auto
    with Pair assms(1) have "bi = ai"
      by (auto simp: normalized_result_def bind_io_Inr in_db_Inr of_sum_Inr ret_io_Inr)
    with v Pair w1 have run: "normalized_result i w = (Inr (ai, sts, st), w)" by simp
    from handoff_no_lease [OF assms(2,3), of "commit_input ai i sts st" "json_digest e (ri_json i)"
        "all_staged sts st"]
    obtain err where "handoff e ai (commit_input ai i sts st) (json_digest e (ri_json i))
        (all_staged sts st) (w_db w) = Inl err"
      by (auto simp: commit_input_def)
    then show ?thesis
      by (simp add: submitResult_def bind_io_def run Let_def transaction_io_def in_db_def)
  qed
qed

subsection \<open>Submitting twice\<close>

lemma commit_recorded_after:
  assumes "commit e allow r digest w = (Inr d, w')"
    and "distinct (map sub_attempt (submissions (w_db w)))"
    and "find_submission (sr_attempt r) (w_db w) = Some b0"
  obtains a x b where
    "List.find (\<lambda>a. att_id a = sr_attempt r \<and> att_execution a = sr_execution r) (attempts (w_db w')) = Some a"
    and "List.find (\<lambda>x. exe_id x = sr_execution r) (executions (w_db w')) = Some x"
    and "find_submission (sr_attempt r) (w_db w') = Some b" and "sub_digest b = digest"
    and "sub_committed b \<noteq> None" and "distinct (map sub_attempt (submissions (w_db w')))"
    and "sub_result b = sub_result b0"
proof (cases "d = CommitDuplicate")
  case False
  from assms(1) False assms(2) show thesis
    by (rule commit_submission) (auto intro: that simp: assms(3))
next
  case True
  obtain ps w1 y where body: "commit_body e allow r digest w = (Inr (d, ps), w1)"
    and w': "w_db w' = (w_db w1)\<lparr>stagings := y\<rparr>"
    using assms(1) by (rule commit_Inr)
  from body show thesis
  proof (cases rule: commit_body_Inr)
    case (duplicate b)
    from body obtain c s where "load_context e allow r digest (w_db w) = Inr (c, s)"
      by (auto simp: commit_body_def bind_io_Inr in_db_Inr)
    note load_context_found [OF this]
    with duplicate assms(2,3) show thesis
      by (auto intro: that [of _ _ b] simp: w' find_submission_def)
  next
    case (committed cc s1 acc w2 s3)
    then have "d \<noteq> CommitDuplicate"
      using finish_commit_Inr [OF committed(4) subset_refl] committed(1)
      by (auto simp: commit_outcome_def dest: authorized_rows(4))
    with True show thesis by simp
  qed
qed

lemma catch_throw_Inr:
  "catch_io m (\<lambda>err. throw_io (f err)) w = (Inr x, w') \<longleftrightarrow> m w = (Inr x, w')"
  by (auto simp: catch_io_def throw_io_def split: prod.splits sum.splits)

lemma hook_Inr:
  "(case h of None \<Rightarrow> ret_io () | Some err \<Rightarrow> throw_io err) w = (Inr u, w') \<longleftrightarrow> h = None \<and> w' = w"
  by (auto simp: ret_io_def throw_io_def split: option.splits)

lemma submitResult_Inr:
  assumes "submitResult e o' i w = (Inr dup, w')"
  obtains ai sts st s1 d where "normalized_result i w = (Inr (ai, sts, st), w)"
    and "handoff e ai (commit_input ai i sts st) (json_digest e (ri_json i)) (all_staged sts st) (w_db w)
      = Inr (dup, s1)"
    and "commitSubmittedResult e False (ai_attempt ai) (w\<lparr>w_db := s1\<rparr>) = (Inr d, w')"
proof (cases "normalized_result i w")
  case (Pair v w1)
  then have w1: "w1 = w" by (rule normalized_result_same)
  with assms Pair obtain ai sts st where v: "v = Inr (ai, sts, st)"
    by (cases v) (auto simp: submitResult_def bind_io_def)
  from assms v w1 Pair obtain s1 d where
    "handoff e ai (commit_input ai i sts st) (json_digest e (ri_json i)) (all_staged sts st) (w_db w)
      = Inr (dup, s1)"
    "commitSubmittedResult e False (ai_attempt ai) (w\<lparr>w_db := s1\<rparr>) = (Inr d, w')"
    by (auto simp: submitResult_def bind_io_Inr Let_def transaction_io_Inr in_db_Inr ret_io_Inr
        catch_throw_Inr hook_Inr)
  with Pair v w1 show thesis by (intro that) simp_all
qed

lemma normalized_result_identity:
  "normalized_result i w = (Inr (ai, sts, st), w') \<Longrightarrow> normalizeAttemptIdentity i = Inr ai"
  by (auto simp: normalized_result_def bind_io_Inr in_db_Inr of_sum_Inr ret_io_Inr)

lemma handoff_False:
  assumes "handoff e ai r digest sts s = Inr (False, s')" and "sr_attempt r = ai_attempt ai"
  shows "has_lease e ai s"
    and "find_submission (ai_attempt ai) s' = Some (submission_row e r digest (new_uuid e (drawn s)))"
    and "s' = s\<lparr>drawn := Suc (drawn s), submissions :=
      submissions s @ [submission_row e r digest (new_uuid e (drawn s))]\<rparr>"
proof -
  have new: "find_submission (ai_attempt ai) s = None"
    using assms(1) by (auto simp: handoff_def tx_Inr recorded_digest_def split: option.splits if_splits)
  show "has_lease e ai s"
    using handoff_no_lease [OF _ new assms(2), of e digest sts] assms(1) by auto
  have same: "for_tx ts (\<lambda>st. bind_tx (get (staged_of a st)) (\<lambda>row. guard (f row st) err)) t = Inr (u, t')
      \<Longrightarrow> t' = t" for ts a f err t u t'
    by (rule for_tx_guard [rotated]) (auto simp: tx_Inr)
  show s': "s' = s\<lparr>drawn := Suc (drawn s), submissions :=
      submissions s @ [submission_row e r digest (new_uuid e (drawn s))]\<rparr>"
    using assms(1) new
    by (auto simp: handoff_def tx_Inr fresh_uuid_Inr insert_submission_or_nothing_def activeAttempt_Inr
        validateStagedArtifacts_def recorded_digest_def dest!: same split: option.splits if_splits)
  show "find_submission (ai_attempt ai) s' = Some (submission_row e r digest (new_uuid e (drawn s)))"
    using new assms(2) by (simp add: s' find_submission_def find_append_None submission_row_def)
qed

lemma normalizeSubmittedResult_ids [simp]:
  "sr_attempt (normalizeSubmittedResult r) = sr_attempt r"
  "sr_execution (normalizeSubmittedResult r) = sr_execution r"
  by (simp_all add: normalizeSubmittedResult_def)

subsection \<open>Heartbeats\<close>

text \<open>The deliveries an attempt holds show its own lease.\<close>

definition in_step :: "attempt \<Rightarrow> db \<Rightarrow> bool" where
  "in_step a s \<longleftrightarrow>
     list_all (\<lambda>d. \<not> sync_delivery s a d \<or> del_owner d = att_owner a \<and> del_expires d = att_expires a)
       (deliveries s)"

lemma filter_key:
  assumes "distinct (map k xs)" and "x \<in> set xs" and "p x"
    and same: "\<And>y. p y \<Longrightarrow> k y = k x"
  shows "filter p xs = [x]"
  using assms(1,2)
proof (induction xs)
  case (Cons y ys)
  show ?case
  proof (cases "y = x")
    case True
    have "\<not> p z" if "z \<in> set ys" for z
      using Cons.prems(1) True that same [of z] by (metis distinct.simps(2) imageI list.simps(9) list.set_map)
    then show ?thesis using True assms(3) by (simp add: filter_empty_conv)
  next
    case False
    with Cons.prems have x: "x \<in> set ys" by simp
    have "\<not> p y" using Cons.prems(1) x same [of y] by (metis distinct.simps(2) imageI list.simps(9) list.set_map)
    with Cons.IH Cons.prems(1) x show ?thesis by simp
  qed
qed simp

lemma sync_in_step:
  assumes "in_step a s" and "active (att_status b)" and "att_token b = att_token a"
    and "att_execution b = att_execution a" and "att_token b \<noteq> None" and "att_expires b \<noteq> None"
  shows "in_step b (sync_attempt_delivery_lease (a, b) s)"
proof (cases "att_expires b \<noteq> att_expires a \<or> att_owner b \<noteq> att_owner a \<or> att_status b \<noteq> att_status a")
  case True
  with assms(2,5,6) show ?thesis
    by (auto simp: in_step_def sync_attempt_delivery_lease_def list_all_iff set_set_rows sync_delivery_def)
next
  case False
  with assms show ?thesis
    by (auto simp: in_step_def sync_attempt_delivery_lease_def list_all_iff sync_delivery_def)
qed

subsection \<open>Uploads\<close>

lemma stage_Inr:
  assumes "stage h ref bytes opts s = Inr (rc, s')"
  shows "\<exists>b. readStaged h ref s' = Inr b \<and> measureObject h b = measureObject h bytes"
    and "rc = stagingReceipt ref (measureObject h bytes)"
    and "expected_digest opts \<in> {None, Some (sha256_hex h bytes)}"
    and "expected_size opts \<in> {None, Some (int (length bytes))}"
proof -
  obtain p where prep: "stage_prepare h ref bytes opts = Inr p"
    and pub: "stage_publish h ref p s = Inr (rc, s')"
    using assms by (auto simp: stage_def split: sum.splits)
  note p = stage_prepare_Inr [OF prep]
  show "\<exists>b. readStaged h ref s' = Inr b \<and> measureObject h b = measureObject h bytes"
    and "rc = stagingReceipt ref (measureObject h bytes)"
    using stage_publish_Inr(2) [OF pub] p by (auto simp: readStaged_Inr)
  show "expected_digest opts \<in> {None, Some (sha256_hex h bytes)}"
    and "expected_size opts \<in> {None, Some (int (length bytes))}"
    using prep by (auto simp: stage_prepare_def Let_def measureObject_def split: if_splits sum.splits option.splits)
qed

lemma upload_bytes_Inr:
  assumes "upload_bytes e ref i bytes w = (Inr rc, w')"
  obtains ai u b b' s where "normalizeAttemptIdentity i = Inr ai" and "has_lease e ai (w_db w)"
    and "find_upload ref (w_db w) = Some u" and "upload_authorized e ai (Some u)"
    and "stage e ref bytes \<lparr>expected_digest = Some (up_digest u), expected_size = Some (up_size u)\<rparr> b
      = Inr (rc, b')"
    and "record_upload e ai ref rc (w_db w) = Inr ((), s)" and "w' = w\<lparr>w_blobs := Some b', w_db := s\<rparr>"
  using assms
  by (auto simp: upload_bytes_def io_Inr in_db_Inr of_sum_Inr activeAttempt_Inr catch_throw_Inr
      in_blobs_Inr transaction_io_Inr upload_authorized_def split: option.splits)
    (rule that, (assumption | simp add: has_lease_def upload_authorized_def)+)

lemma record_upload_Inr:
  assumes "record_upload e ai ref rc s = Inr (v, s')"
  obtains u g where "find_upload ref s = Some u" and "upload_authorized e ai (Some u)"
    and "g \<in> set (stagings s')" and "stg_attempt g = ai_attempt ai" and "stg_ref g = ref"
    and "stg_digest g = srec_digest rc" and "stg_size g = srec_size rc"
    and "stg_schema g = up_schema u" and "stg_media g = up_media u"
proof -
  obtain u g where "find_upload ref s = Some u" "upload_authorized e ai (Some u)"
    "List.find (\<lambda>g. stg_attempt g = ai_attempt ai \<and> stg_ref g = ref) (stagings s') = Some g"
    "stg_digest g = srec_digest rc" "stg_size g = srec_size rc"
    "stg_schema g = up_schema u" "stg_media g = up_media u"
    using assms
    by (auto simp: record_upload_def Let_def tx_Inr activeAttempt_Inr mark_uploaded_def fresh_uuid_Inr
        split: if_splits option.splits) (auto simp: upload_authorized_def split: option.splits)
  then show thesis by (intro that [of u g]) (auto dest: find_Some_mem)
qed

lemma normalized_ids:
  assumes "normalizeAttemptIdentity i = Inr ai"
  shows "ai_attempt ai = ii_attempt i" and "ai_execution ai = ii_execution i" and "ai_token ai = ii_token i"
  using assms by (auto simp: normalizeAttemptIdentity_def split: if_splits option.splits js_number.splits)

subsection \<open>Claims\<close>

lemma map_tx_encode:
  assumes "map_tx (\<lambda>g. of_sum (encodeCapabilityGrantHandle g)) gs s = Inr (hs, s')" and "h \<in> set hs"
  shows "\<exists>g\<in>set gs. decodeCapabilityGrantHandle h = Some g"
  using assms
proof (induction gs arbitrary: hs s)
  case (Cons g gs)
  then obtain h' hs' where "hs = h' # hs'" "encodeCapabilityGrantHandle g = Inr h'"
    "map_tx (\<lambda>g. of_sum (encodeCapabilityGrantHandle g)) gs s = Inr (hs', s')"
    by (auto simp: tx_Inr of_sum_Inr)
  with Cons.IH [of s hs'] Cons.prems(2) show ?case by (auto dest: encode_decode)
qed (simp add: ret_Inr)

lemma claim_Inr:
  assumes "claim e o' c s = (Inr (Some en), s')"
  obtains sel l x ci d hs where
    "leaseNextAttempt e \<lparr>lo_worker = cl_worker c, lo_duration = Finite (of_int (wo_lease o')),
       lo_selectors = Some sel\<rparr> s = (Inr (Some l), s')"
    and "envelope_row (le_execution l) s' = Some (x, ci, d)"
    and "map_tx (\<lambda>g. of_sum (encodeCapabilityGrantHandle g)) (active_grants (cdef_id d) s') s' = Inr (hs, s')"
    and "en = (make_envelope e o' l x ci d hs)\<lparr>en_state := map_option describe_state
      (readLatestState (ci_id ci) s')\<rparr>"
proof -
  obtain sel where sel: "normalizeComponentSelectors c = Inr sel"
    using assms by (auto simp: claim_def split: sum.splits)
  then obtain l t where lease: "leaseNextAttempt e \<lparr>lo_worker = cl_worker c,
      lo_duration = Finite (of_int (wo_lease o')), lo_selectors = Some sel\<rparr> s = (Inr (Some l), t)"
    and rest: "transaction (bind_tx (buildEnvelope e o' l) (\<lambda>en.
             bind_tx (withState en) (\<lambda>en'. ret (Some en')))) t = (Inr (Some en), s')"
    using assms by (auto simp: claim_def bind_io_Inr ret_io_Inr split: option.splits)
  from rest obtain x ci d hs t' where row: "envelope_row (le_execution l) t = Some (x, ci, d)"
    and hs: "map_tx (\<lambda>g. of_sum (encodeCapabilityGrantHandle g)) (active_grants (cdef_id d) t) t = Inr (hs, t')"
    and en: "bind_tx (withState (make_envelope e o' l x ci d hs)) (\<lambda>en'. ret (Some en')) t' = Inr (Some en, s')"
    by (auto simp: transaction_def buildEnvelope_def tx_Inr split: sum.splits)
  have t': "t' = t" using hs by (rule map_tx_same [rotated]) (simp add: of_sum_Inr)
  from en have "s' = t" and "en = (make_envelope e o' l x ci d hs)\<lparr>en_state := map_option describe_state
      (readLatestState (ci_id ci) t)\<rparr>"
    by (auto simp: withState_def tx_Inr t' make_envelope_def split: option.splits)
  with lease row hs t' show thesis by (intro that) simp_all
qed

subsection \<open>The row constraints\<close>

lemma checks_activeAttempt: "keeps db_checks (activeAttempt e ai)"
  by (rule keepsI) (auto simp: activeAttempt_Inr)

lemma checks_transaction:
  "keeps db_checks m \<Longrightarrow> db_checks s \<Longrightarrow> db_checks (snd (transaction m s))"
  by (auto simp: transaction_def split: sum.splits dest: keepsD)

lemma checks_heartbeat: "db_checks s \<Longrightarrow> db_checks (snd (heartbeat e o' i s))"
  unfolding heartbeat_def
  by (intro checks_transaction keeps_bind keeps_of_sum checks_activeAttempt)
    (auto simp: Let_def intro!: keeps_bind checks_update_attempts keeps_ret)

lemma checks_insert_upload: "keeps db_checks (insert_upload u)"
  by (rule keepsI) (auto simp: insert_upload_def db_checks_def split: if_splits)

lemma checks_stage_reference: "db_checks s \<Longrightarrow> db_checks (snd (stage_reference e o' i s))"
  unfolding stage_reference_def
  by (intro checks_transaction keeps_bind keeps_of_sum checks_activeAttempt)
    (auto simp: Let_def intro!: keeps_bind keeps_get keeps_or_throw keeps_ret checks_fresh_uuid checks_insert_upload)

lemma checks_record_upload: "keeps db_checks (record_upload e ai ref rc)"
proof -
  have "keeps db_checks (insert_staging_or_nothing g)" for g
    by (rule keepsI) (auto simp: insert_staging_or_nothing_def db_checks_def split: if_splits)
  moreover have "keeps db_checks (mark_uploaded e u i)" for u i
    by (rule keepsI) (auto simp: mark_uploaded_def db_checks_def split: if_splits)
  ultimately show ?thesis
    unfolding record_upload_def Let_def
    by (intro keeps_bind keeps_get keeps_guard keeps_or_throw keeps_option keeps_ret
        checks_activeAttempt checks_fresh_uuid)
qed

lemma checks_upload_bytes: "db_checks (w_db w) \<Longrightarrow> db_checks (w_db (snd (upload_bytes e ref i bytes w)))"
proof -
  have "holds_io (\<lambda>w. db_checks (w_db w)) (upload_bytes e ref i bytes)"
    unfolding upload_bytes_def
    by (intro holds_io_bind holds_io_simple holds_io_catch holds_io_in_blobs holds_io_in_db
        keeps_of_sum checks_activeAttempt)
      (auto simp: transaction_io_def in_db_def holds_io_def split: sum.splits
        dest: keepsD [OF checks_record_upload])
  then show "db_checks (w_db w) \<Longrightarrow> ?thesis" by (simp add: holds_io_def)
qed

lemma checks_handoff: "keeps db_checks (handoff e ai r digest sts)"
proof -
  have "keeps db_checks (insert_submission_or_nothing b)" for b
    by (rule keepsI) (auto simp: insert_submission_or_nothing_def db_checks_def split: if_splits)
  then show ?thesis
    unfolding handoff_def recorded_digest_def validateStagedArtifacts_def
    by (intro keeps_bind keeps_get keeps_option keeps_if keeps_ret keeps_throw keeps_or_throw keeps_for
        keeps_guard checks_fresh_uuid checks_activeAttempt)
qed

lemma checks_commitSubmitted:
  "db_checks (w_db w) \<Longrightarrow> db_checks (w_db (snd (commitSubmittedResult e allow a w)))"
  by (auto simp: commitSubmittedResult_def split: option.splits
      intro: commit_keeps_checks [OF surjective_pairing])

lemma checks_submitResult: "db_checks (w_db w) \<Longrightarrow> db_checks (w_db (snd (submitResult e o' i w)))"
proof -
  have norm: "holds_io (\<lambda>w. db_checks (w_db w)) (normalized_result i)"
    by (rule holds_ioI) (metis normalized_result_same prod.collapse)
  have hand: "holds_io (\<lambda>w. db_checks (w_db w)) (transaction_io (in_db (handoff e ai r digest sts)))"
    for ai r digest sts
    by (auto simp: transaction_io_def in_db_def holds_io_def split: sum.splits
        dest: keepsD [OF checks_handoff])
  have com: "holds_io (\<lambda>w. db_checks (w_db w)) (commitSubmittedResult e False a)" for a
    by (rule holds_ioI) (rule checks_commitSubmitted)
  have "holds_io (\<lambda>w. db_checks (w_db w)) (submitResult e o' i)"
    unfolding submitResult_def Let_def
    by (intro holds_io_bind norm) (auto intro!: holds_io_bind holds_io_option holds_io_simple hand com)
  then show "db_checks (w_db w) \<Longrightarrow> ?thesis" by (simp add: holds_io_def)
qed

lemma checks_claim: "db_checks s \<Longrightarrow> db_checks (snd (claim e o' c s))"
proof -
  assume checks: "db_checks s"
  have tail: "keeps db_checks (bind_tx (buildEnvelope e o' l) (\<lambda>en. bind_tx (withState en) (\<lambda>en'. ret (Some en'))))"
    for l
    unfolding buildEnvelope_def withState_def
    by (intro keeps_bind keeps_get keeps_or_throw)
      (auto intro!: keeps_bind keeps_get keeps_ret keeps_map keeps_of_sum)
  show ?thesis
  proof (cases "normalizeComponentSelectors c")
    case (Inr sel)
    obtain r t where lease: "leaseNextAttempt e \<lparr>lo_worker = cl_worker c,
        lo_duration = Finite (of_int (wo_lease o')), lo_selectors = Some sel\<rparr> s = (r, t)"
      by (meson surj_pair)
    have "db_checks t" by (rule checks_leaseNextAttempt [OF checks lease])
    with Inr lease checks_transaction [OF tail] show ?thesis
      by (auto simp: claim_def bind_io_def ret_io_def split: sum.splits option.splits)
  qed (simp add: claim_def checks)
qed

subsection \<open>Samples\<close>

definition worker_sample :: worker_options where
  "worker_sample = \<lparr>wo_lease = 60000, wo_url = (\<lambda>path _. path), wo_hook = (\<lambda>_ _ _. None)\<rparr>"

definition sample_identity :: identity_input where
  "sample_identity = \<lparr>ii_execution = ''x1'', ii_attempt = ''a1'', ii_token = ''t'',
     ii_fencing = None, ii_lifecycle = Some (Finite 0)\<rparr>"

definition sample_claim :: claim_input where
  "sample_claim = \<lparr>cl_worker = ''w1'', cl_selectors = Some [''w@1''], cl_capabilities = None\<rparr>"

definition claim_store :: db where
  "claim_store = lease_store\<lparr>capabilities := [\<lparr>cap_id = ''k'', cap_name = ''k'', cap_version = ''1'', cap_digest = ''h'', cap_retired = None\<rparr>],
     capability_grants := [\<lparr>gr_id = ''01890a5d-ac96-774b-bcce-b302099a8057'', gr_capability = ''k'',
       gr_grantee = ''d'', gr_status = GrActive, gr_revoked = None\<rparr>]\<rparr>"

lemma sample_claim_runs:
  "case fst (claim sample_env worker_sample sample_claim claim_store) of
     Inr (Some en) \<Rightarrow> length (en_handles en) = 1 | _ \<Rightarrow> False"
  by code_simp

lemma sample_heartbeat_runs:
  "case fst (heartbeat commit_env worker_sample sample_identity (commit_store 1)) of
     Inr _ \<Rightarrow> True | _ \<Rightarrow> False"
  by code_simp

definition upload_world :: world where
  "upload_world = \<lparr>w_db = (commit_store 1)\<lparr>stagings := [],
      uploads := [sample_upload\<lparr>up_uploaded := None, up_staging := None\<rparr>]\<rparr>,
     w_blobs = Some \<lparr>staging_root = [], committed_root = []\<rparr>, w_caches = w_caches sample_world\<rparr>"

lemma sample_upload_runs:
  "case fst (upload_bytes commit_env ''s1'' sample_identity ''hi'' upload_world) of
     Inr _ \<Rightarrow> True | _ \<Rightarrow> False"
  by code_simp

definition sample_input :: "json \<Rightarrow> result_input" where
  "sample_input body = identity_input.extend sample_identity
     \<lparr>ri_status = RsCompleted, ri_artifacts = [sample_staged_ref], ri_state = None, ri_events = [],
      ri_actions = [], ri_usage = sr_usage (sample_result RsCompleted None), ri_failure = None,
      ri_json = body\<rparr>"

lemma sample_result_runs:
  "fst (submitResult commit_env worker_sample (sample_input (JObj [])) (commit_world 1)) = Inr False"
  by code_simp

subsection \<open>Properties\<close>



text \<open>A result counts once. After a result was accepted, submitting again for the same attempt,
  with whatever content and at whatever time, changes nothing: the same request is answered as a
  duplicate, and any other as the conflict \<open>duplicate_conflicting_result\<close>.\<close>

theorem submit_result_once:
  assumes "submitResult e o' i w = (Inr False, w')"
    and "distinct (map sub_attempt (submissions (w_db w)))"
    and "normalizeAttemptIdentity j = normalizeAttemptIdentity i"
    and "normalized_result j w' = (Inr n, w')" and "wo_hook q = (\<lambda>_ _ _. None)"
  shows "submitResult f q j w' =
    (if json_digest f (ri_json j) = json_digest e (ri_json i) then (Inr True, w')
     else (Inl (WorkerProtocolError ''duplicate_conflicting_result'' False 409), w'))"
proof -
  obtain ai sts st s1 d where norm: "normalized_result i w = (Inr (ai, sts, st), w)"
    and hand: "handoff e ai (commit_input ai i sts st) (json_digest e (ri_json i)) (all_staged sts st)
      (w_db w) = Inr (False, s1)"
    and com: "commitSubmittedResult e False (ai_attempt ai) (w\<lparr>w_db := s1\<rparr>) = (Inr d, w')"
    using assms(1) by (rule submitResult_Inr)
  let ?r = "commit_input ai i sts st" and ?g = "json_digest e (ri_json i)"
  have r: "sr_attempt ?r = ai_attempt ai" by (simp add: commit_input_def)
  note sub = handoff_False [OF hand r]
  let ?b = "submission_row e ?r ?g (new_uuid e (drawn (w_db w)))"
  have new: "find_submission (ai_attempt ai) (w_db w) = None"
    using hand by (auto simp: handoff_def tx_Inr recorded_digest_def split: option.splits if_splits)
  have dis: "distinct (map sub_attempt (submissions s1))"
    using new assms(2) r unfolding sub(3)
    by (auto simp: submission_row_def find_submission_def find_None_iff)
  have run: "commit e False (normalizeSubmittedResult ?r) ?g (w\<lparr>w_db := s1\<rparr>) = (Inr d, w')"
    using com sub(2) by (simp add: commitSubmittedResult_def submission_row_def)
  obtain a x b where
    find: "List.find (\<lambda>a. att_id a = ai_attempt ai \<and> att_execution a = sr_execution ?r) (attempts (w_db w')) = Some a"
      "List.find (\<lambda>x. exe_id x = sr_execution ?r) (executions (w_db w')) = Some x"
    and b: "find_submission (ai_attempt ai) (w_db w') = Some b" "sub_digest b = ?g"
      "sub_committed b \<noteq> None" "distinct (map sub_attempt (submissions (w_db w')))" "sub_result b = ?r"
  proof (rule commit_recorded_after [OF run])
    show "distinct (map sub_attempt (submissions (w_db (w\<lparr>w_db := s1\<rparr>))))" using dis by simp
    show "find_submission (sr_attempt (normalizeSubmittedResult ?r)) (w_db (w\<lparr>w_db := s1\<rparr>)) = Some ?b"
      using sub(2) r by simp
  qed (simp add: that r submission_row_def)
  have again: "commitSubmittedResult f False (ai_attempt ai) w' = (Inr CommitDuplicate, w')"
    using commit_recorded [of "normalizeSubmittedResult ?r" w' a x b f False ?g] find b r
    by (simp add: commitSubmittedResult_def)
  obtain sts' st' where n: "n = (ai, sts', st')"
    using normalized_result_identity [OF norm] assms(3,4) normalized_result_identity [of j w'] 
    by (cases n) (auto dest: normalized_result_identity)
  have hand': "handoff f ai (commit_input ai j sts' st') g refs (w_db w') =
      (if g = ?g then Inr (True, w_db w')
       else Inl (WorkerProtocolError ''duplicate_conflicting_result'' False 409))" for g refs
    using b(1,2) by (auto simp: handoff_def tx_simps recorded_digest_def)
  show ?thesis
    using assms(4,5) again
    by (simp add: submitResult_def bind_io_def n Let_def transaction_io_def in_db_def hand' ret_io_def
        catch_io_def)
qed

lemma submit_result_once_witness:
  "\<exists>w'. submitResult commit_env worker_sample (sample_input (JObj [])) (commit_world 1) = (Inr False, w') \<and>
     submitResult commit_env worker_sample (sample_input (JObj [])) w' = (Inr True, w')"
proof -
  obtain w' where run: "submitResult commit_env worker_sample (sample_input (JObj [])) (commit_world 1)
      = (Inr False, w')" using fst_cases [OF sample_result_runs] by blast
  have norm: "\<exists>n. normalized_result (sample_input (JObj [])) w' = (Inr n, w')"
    by (simp add: normalized_result_def bind_io_def in_db_def tx_simps normalizeAttemptIdentity_def
        normalizeStagedArtifact_def sample_identity_def sample_input_def sample_staged_ref_def
        conflicting_def or_else_def ret_io_def identity_input.defs)
  then obtain n where norm: "normalized_result (sample_input (JObj [])) w' = (Inr n, w')" by blast
  from submit_result_once [OF run _ refl norm, of worker_sample commit_env] run show ?thesis
    by (auto simp: sample_submissions worker_sample_def)
qed

text \<open>A heartbeat extends one lease everywhere. The attempt becomes running with its lease ending
  one lease duration after the clock, which is the time returned, and if the deliveries the attempt
  holds showed its lease before, they show the extended lease afterwards.\<close>

theorem heartbeat_extends:
  assumes "heartbeat e o' i s = (Inr r, s')" and "distinct (map att_id (attempts s))"
    and "\<And>a. a \<in> set (attempts s) \<Longrightarrow> att_id a = ii_attempt i \<Longrightarrow> in_step a s"
  shows "hb_expires r = clock e + wo_lease o' \<and>
    (\<exists>a\<in>set (attempts s'). att_id a = ii_attempt i \<and> att_execution a = ii_execution i \<and>
       att_token a = Some (ii_token i) \<and> att_status a = ARunning \<and>
       att_expires a = Some (clock e + wo_lease o') \<and> in_step a s')"
proof -
  let ?f = "\<lambda>a. a\<lparr>att_status := ARunning, att_expires := Some (clock e + wo_lease o')\<rparr>"
  obtain ai a x g n where ai: "normalizeAttemptIdentity i = Inr ai"
    and j: "joined_attempt ai s = Some (a, x, g)" and c: "lease_current e ai (a, x, g)"
    and upd: "update_attempts (\<lambda>a. att_id a = ai_attempt ai \<and> att_execution a = ai_execution ai \<and>
             att_token a = Some (ai_token ai)) ?f s = Inr (n, s')"
    and r: "hb_expires r = clock e + wo_lease o'"
    using assms(1)
    by (auto simp: heartbeat_def transaction_def tx_Inr of_sum_Inr activeAttempt_Inr Let_def
        split: sum.splits)
  note a = joined_attempt_Some [OF j]
  have ids: "ai_attempt ai = ii_attempt i" "ai_execution ai = ii_execution i" "ai_token ai = ii_token i"
    using ai by (auto simp: normalizeAttemptIdentity_def split: if_splits option.splits js_number.splits)
  have tok: "att_token a = Some (ai_token ai)" using c by (simp add: lease_current_def)
  let ?p = "\<lambda>a. att_id a = ai_attempt ai \<and> att_execution a = ai_execution ai \<and>
      att_token a = Some (ai_token ai)"
  have one: "filter ?p (attempts s) = [a]"
    using a tok by (intro filter_key [OF assms(2)]) simp_all
  have s': "s' = sync_attempt_delivery_lease (a, ?f a) (s\<lparr>attempts := set_rows ?p ?f (attempts s)\<rparr>)"
    using upd unfolding update_attempts_def one
    by (auto simp: update_rows_Inr split: sum.splits)
  have "in_step a (s\<lparr>attempts := set_rows ?p ?f (attempts s)\<rparr>)"
    using assms(3) [OF a(1)] a(2) ids by (simp add: in_step_def sync_delivery_def)
  then have "in_step (?f a) s'"
    unfolding s' by (rule sync_in_step) (use tok in \<open>simp_all add: active_def\<close>)
  moreover have "?f a \<in> set (attempts s')"
    using a tok by (auto simp: s' set_set_rows)
  ultimately show ?thesis using r a tok ids by (intro conjI bexI [of _ "?f a"]) simp_all
qed

lemma heartbeat_extends_witness:
  "\<exists>r s'. heartbeat commit_env worker_sample sample_identity (commit_store 1) = (Inr r, s') \<and>
     (\<exists>a\<in>set (attempts s'). att_id a = ''a1'' \<and> att_status a = ARunning \<and> in_step a s')"
proof -
  obtain r s' where run: "heartbeat commit_env worker_sample sample_identity (commit_store 1) = (Inr r, s')"
    using sample_heartbeat_runs
    by (cases "heartbeat commit_env worker_sample sample_identity (commit_store 1)") (auto split: sum.splits)
  have one: "attempts (commit_store 1) = [sample_attempt 1]" by (simp add: commit_store_def)
  have step: "in_step (sample_attempt 1) (commit_store 1)" by code_simp
  from heartbeat_extends [OF run] one step run show ?thesis by (auto simp: sample_identity_def)
qed

text \<open>An accepted upload is what was authorised. The reference was reserved for this execution and
  attempt and had not expired; the bytes have the digest and the length that were declared; the
  blob store can read an object of that digest and length under the reference; and a staging row of
  the attempt records the reference with that digest and length and with the schema and media type
  of the reservation.\<close>

theorem upload_stages:
  assumes "upload_bytes e ref i bytes w = (Inr rc, w')"
  shows "srec_digest rc = sha256_hex e bytes \<and>
    (\<exists>bs b. w_blobs w' = Some bs \<and> readStaged e ref bs = Inr b \<and>
       sha256_hex e b = sha256_hex e bytes \<and> length b = length bytes) \<and>
    (\<exists>u g. find_upload ref (w_db w) = Some u \<and> up_digest u = sha256_hex e bytes \<and>
       up_size u = int (length bytes) \<and> up_execution u = ii_execution i \<and>
       up_attempt u = ii_attempt i \<and> clock e < up_expires u \<and>
       g \<in> set (stagings (w_db w')) \<and> stg_attempt g = ii_attempt i \<and> stg_ref g = ref \<and>
       stg_digest g = sha256_hex e bytes \<and> stg_size g = int (length bytes) \<and>
       stg_schema g = up_schema u \<and> stg_media g = up_media u)"
proof -
  obtain ai u b b' s where ai: "normalizeAttemptIdentity i = Inr ai"
    and u: "find_upload ref (w_db w) = Some u" "upload_authorized e ai (Some u)"
    and st: "stage e ref bytes \<lparr>expected_digest = Some (up_digest u), expected_size = Some (up_size u)\<rparr> b
      = Inr (rc, b')"
    and rec: "record_upload e ai ref rc (w_db w) = Inr ((), s)"
    and w': "w' = w\<lparr>w_blobs := Some b', w_db := s\<rparr>"
    using assms by (rule upload_bytes_Inr)
  note stage = stage_Inr [OF st]
  from rec obtain v g where "find_upload ref (w_db w) = Some v" and
    g: "g \<in> set (stagings s)" "stg_attempt g = ai_attempt ai" "stg_ref g = ref"
    "stg_digest g = srec_digest rc" "stg_size g = srec_size rc"
    "stg_schema g = up_schema v" "stg_media g = up_media v"
    by (rule record_upload_Inr)
  then have "v = u" using u(1) by simp
  with stage u g w' normalized_ids [OF ai] show ?thesis
    by (auto simp: stagingReceipt_def measureObject_def upload_authorized_def)
qed

lemma upload_stages_witness:
  "\<exists>rc w'. upload_bytes commit_env ''s1'' sample_identity ''hi'' upload_world = (Inr rc, w') \<and>
     srec_digest rc = sha256_hex commit_env ''hi''"
proof -
  obtain rc w' where run: "upload_bytes commit_env ''s1'' sample_identity ''hi'' upload_world = (Inr rc, w')"
    using sample_upload_runs
    by (cases "upload_bytes commit_env ''s1'' sample_identity ''hi'' upload_world") (auto split: sum.splits)
  from upload_stages [OF run] run show ?thesis by blast
qed

text \<open>A claim hands over a lease and only live capabilities. The attempt of the envelope is leased to
  the worker under the token and until the expiry the envelope states, it has at least one input,
  the envelope's epoch is the execution's, and every capability handle in it decodes to a grant
  that is active, not revoked and made to the component's definition.\<close>

theorem claim_envelope:
  assumes "claim e o' c s = (Inr (Some en), s')"
  shows "(\<exists>a\<in>set (attempts s'). att_id a = en_attempt en \<and> att_execution a = en_execution en \<and>
       att_status a = ALeased \<and> att_owner a = Some (cl_worker c) \<and>
       att_token a = Some (en_token en) \<and> att_expires a = Some (en_expires en)) \<and>
    clock e < en_expires en \<and> en_inputs en \<noteq> [] \<and>
    (\<exists>x\<in>set (executions s'). exe_id x = en_execution en \<and> exe_epoch x = en_epoch en \<and>
       exe_component x = en_component en) \<and>
    (\<forall>h\<in>set (en_handles en). \<exists>g\<in>set (capability_grants s').
       decodeCapabilityGrantHandle h = Some (gr_id g) \<and> gr_grantee g = en_definition_id en \<and>
       gr_status g = GrActive \<and> gr_revoked g = None)"
proof -
  obtain sel l x ci d hs where
    lease: "leaseNextAttempt e \<lparr>lo_worker = cl_worker c, lo_duration = Finite (of_int (wo_lease o')),
       lo_selectors = Some sel\<rparr> s = (Inr (Some l), s')"
    and row: "envelope_row (le_execution l) s' = Some (x, ci, d)"
    and hs: "map_tx (\<lambda>g. of_sum (encodeCapabilityGrantHandle g)) (active_grants (cdef_id d) s') s' = Inr (hs, s')"
    and en: "en = (make_envelope e o' l x ci d hs)\<lparr>en_state := map_option describe_state
      (readLatestState (ci_id ci) s')\<rparr>"
    using assms by (rule claim_Inr)
  have x: "x \<in> set (executions s')" "exe_id x = le_execution l" "exe_component x = ci_id ci"
    using row by (auto simp: envelope_row_def dest!: find_Some_mem split: option.splits)
  have "\<exists>g\<in>set (capability_grants s'). decodeCapabilityGrantHandle h = Some (gr_id g) \<and>
      gr_grantee g = cdef_id d \<and> gr_status g = GrActive \<and> gr_revoked g = None" if "h \<in> set hs" for h
    using map_tx_encode [OF hs that] by (auto simp: active_grants_def)
  moreover have "list_ex (\<lambda>a. att_id a = le_attempt l \<and> att_execution a = le_execution l \<and>
        att_status a = ALeased \<and> att_owner a = Some (cl_worker c) \<and>
        att_token a = Some (le_token l) \<and> att_expires a = Some (le_expires l)) (attempts s')"
    and "clock e < le_expires l" and "le_inputs l \<noteq> []"
    using leased_holds [OF lease] by (auto simp: holds_lease_def list_ex_iff)
  ultimately show ?thesis using x
    by (auto simp: en make_envelope_def list_ex_iff)
qed

lemma claim_envelope_witness:
  "\<exists>en s'. claim sample_env worker_sample sample_claim claim_store = (Inr (Some en), s') \<and>
     (\<exists>h\<in>set (en_handles en). \<exists>g\<in>set (capability_grants s').
        decodeCapabilityGrantHandle h = Some (gr_id g))"
proof -
  obtain en s' where run: "claim sample_env worker_sample sample_claim claim_store = (Inr (Some en), s')"
    and one: "length (en_handles en) = 1"
    using sample_claim_runs
    by (cases "claim sample_env worker_sample sample_claim claim_store") (auto split: sum.splits option.splits)
  from one obtain h where "h \<in> set (en_handles en)" by (cases "en_handles en") auto
  with claim_envelope [OF run] run show ?thesis by blast
qed

end
