(* ===== verification/External.thy ===== *)
theory External
  imports Admission
begin

section \<open>Policies and external actions\<close>

text \<open>
  \<open>runtime-core/src/policies\<close> and \<open>runtime-core/src/external-actions/external-action-service.ts\<close>.
  A policy decision records what a registered policy says of a subject and opens an approval when
  it asks for one. An authorized external action is dispatched to a provider outside the system:
  the intent is made durable in one transaction, the provider is called, and its answer is recorded
  in another. The provider is a parameter, a function from requests to what the call returned.
\<close>

subsection \<open>Policy decisions\<close>

datatype policy_outcome = Deny | PolicyApproval | Modify | Allow

record evaluate_input =
  ep_name :: string
  ep_version :: string
  ep_subject_kind :: string
  ep_subject_id :: string
  ep_inputs :: json
  ep_artifact :: "string option"

record policy_result =
  pr_decision :: string
  pr_approval :: "string option"
  pr_outcome :: policy_outcome
  pr_reason :: string
  pr_modifications :: json

definition policySpec :: "json \<Rightarrow> error + json" where
  "policySpec value =
     (if \<not> is_record value then Inl (PlainError ''registered policy must be an object'')
      else case json_field value ''spec'' of
        Some spec \<Rightarrow>
          if is_record spec then Inr spec
          else Inl (PlainError ''registered policy spec must be an object'')
      | None \<Rightarrow> Inl (PlainError ''registered policy spec must be an object''))"

definition policyOutcome :: "json option \<Rightarrow> error + policy_outcome" where
  "policyOutcome value =
     (case value of
        Some (JStr t) \<Rightarrow>
          if t = ''deny'' then Inr Deny
          else if t = ''require_approval'' then Inr PolicyApproval
          else if t = ''modify'' then Inr Modify
          else if t = ''allow'' then Inr Allow
          else Inl (PlainError ''registered policy has an unsupported outcome'')
      | _ \<Rightarrow> Inl (PlainError ''registered policy has an unsupported outcome''))"

definition outcome_text :: "policy_outcome \<Rightarrow> string" where
  "outcome_text p = (case p of Deny \<Rightarrow> ''deny'' | PolicyApproval \<Rightarrow> ''require_approval''
     | Modify \<Rightarrow> ''modify'' | Allow \<Rightarrow> ''allow'')"

definition policy_reason :: "policy \<Rightarrow> json \<Rightarrow> policy_outcome \<Rightarrow> string" where
  "policy_reason p spec oc =
     (case json_field spec ''reason'' of
        Some (JStr t) \<Rightarrow> if blank t then
            ''Policy '' @ pol_name p @ ''@'' @ pol_version p @ '' evaluated to '' @ outcome_text oc @ ''.''
          else t
      | _ \<Rightarrow> ''Policy '' @ pol_name p @ ''@'' @ pol_version p @ '' evaluated to '' @ outcome_text oc @ ''.'')"

definition policy_modifications :: "json \<Rightarrow> policy_outcome \<Rightarrow> json" where
  "policy_modifications spec oc =
     (case json_field spec ''modifications'' of
        Some (JArr xs) \<Rightarrow> if oc = Modify then JArr xs else JArr []
      | _ \<Rightarrow> JArr [])"

definition decision_row ::
  "string \<Rightarrow> evaluate_input \<Rightarrow> policy \<Rightarrow> policy_outcome \<Rightarrow> string \<Rightarrow> json \<Rightarrow> string \<Rightarrow> policy_decision" where
  "decision_row evaluator i p oc reason modifications did =
     \<lparr>pd_id = did, pd_policy = pol_id p, pd_policy_name = pol_name p,
      pd_policy_version = pol_version p, pd_evaluator = evaluator,
      pd_subject_kind = ep_subject_kind i, pd_subject_id = ep_subject_id i,
      pd_input_artifact = ep_artifact i, pd_inputs = ep_inputs i, pd_outcome = outcome_text oc,
      pd_reason = reason, pd_modifications = modifications\<rparr>"

text \<open>The check of the table: only a modifying decision carries modifications.\<close>

definition insert_policy_decision :: "policy_decision \<Rightarrow> (db, unit) tx" where
  "insert_policy_decision d = (\<lambda>s.
     if pd_outcome d = ''modify'' \<or> pd_modifications d = JArr []
     then Inr ((), s\<lparr>policy_decisions := policy_decisions s @ [d]\<rparr>)
     else Inl (DbViolation ''policy_decisions_check''))"

definition requested_approval :: "string \<Rightarrow> string \<Rightarrow> int \<Rightarrow> approval" where
  "requested_approval aid did now =
     \<lparr>apr_id = aid, apr_decision = did, apr_status = AprRequested, apr_requested = now,
      apr_decided_at = None, apr_decided_by = None, apr_reason = None,
      apr_client_request = None, apr_request_digest = None\<rparr>"

definition insert_approval :: "approval \<Rightarrow> (db, unit) tx" where
  "insert_approval a = (\<lambda>s.
     if approval_ok a then Inr ((), s\<lparr>approvals := approvals s @ [a]\<rparr>)
     else Inl (DbViolation ''approvals_check''))"

definition open_approval :: "env \<Rightarrow> policy_outcome \<Rightarrow> string \<Rightarrow> (db, string option) tx" where
  "open_approval e oc did =
     (if oc \<noteq> PolicyApproval then ret None
      else bind_tx (fresh_uuid e) (\<lambda>aid.
        bind_tx (insert_approval (requested_approval aid did (clock e))) (\<lambda>_. ret (Some aid))))"

definition evaluate_body :: "env \<Rightarrow> string \<Rightarrow> evaluate_input \<Rightarrow> (db, policy_result) tx" where
  "evaluate_body e evaluator i =
     bind_tx (get (\<lambda>s. List.find (\<lambda>p. pol_name p = ep_name i \<and> pol_version p = ep_version i \<and>
       pol_retired p = None) (policies s))) (\<lambda>found.
     bind_tx (or_throw found (PlainError ''policy_not_found'')) (\<lambda>p.
     bind_tx (of_sum (policySpec (pol_policy p))) (\<lambda>spec.
     bind_tx (of_sum (policyOutcome (json_field spec ''outcome''))) (\<lambda>oc.
     let reason = policy_reason p spec oc; modifications = policy_modifications spec oc in
     bind_tx (fresh_uuid e) (\<lambda>did.
     bind_tx (insert_policy_decision (decision_row evaluator i p oc reason modifications did)) (\<lambda>_.
     bind_tx (open_approval e oc did) (\<lambda>aid.
     ret \<lparr>pr_decision = did, pr_approval = aid, pr_outcome = oc, pr_reason = reason,
          pr_modifications = modifications\<rparr>)))))))"

definition evaluate :: "env \<Rightarrow> string \<Rightarrow> evaluate_input \<Rightarrow> (db, policy_result) io" where
  "evaluate e evaluator i =
     (if blank (ep_subject_kind i) then throw_io (PlainError ''subjectKind is required'')
      else transaction (evaluate_body e evaluator i))"

subsection \<open>The provider\<close>

record provider_request =
  pq_action :: string
  pq_type :: string
  pq_key :: string
  pq_grant :: string
  pq_artifact :: string

datatype provider_status = PAcknowledged | PFailed | PIndeterminate

text \<open>What a call to the provider comes back with: an answer, the loss of the response
  (\<open>ExternalActionIndeterminateError\<close>), or another exception.\<close>

datatype provider_outcome = Answered provider_status json | ResponseLost json | ProviderThrew error

record action_provider =
  pv_dispatch :: "provider_request \<Rightarrow> provider_outcome"
  pv_reconcile :: "provider_request \<Rightarrow> provider_outcome"

definition providerRequest :: "external_action \<Rightarrow> provider_request" where
  "providerRequest x =
     \<lparr>pq_action = xa_id x, pq_type = xa_type x, pq_key = xa_key x, pq_grant = xa_grant x,
      pq_artifact = xa_request_artifact x\<rparr>"

subsection \<open>Preparing a dispatch\<close>

datatype dispatch_preparation =
    Dispatch provider_request string
  | Deferred admission_outcome
  | Uncertain action_state
  | DispatchCancelled
  | DispatchTerminal

definition uncertain :: "action_state \<Rightarrow> bool" where
  "uncertain st \<longleftrightarrow> st \<in> {XDispatching, XIndeterminate, XAcknowledged}"

definition find_action :: "string \<Rightarrow> db \<Rightarrow> external_action option" where
  "find_action i s = List.find (\<lambda>x. xa_id x = i) (external_actions s)"

definition joined_action :: "string \<Rightarrow> db \<Rightarrow> (external_action \<times> execution \<times> region) option" where
  "joined_action i s =
     (case find_action i s of
        None \<Rightarrow> None
      | Some x \<Rightarrow>
          (case List.find (\<lambda>y. exe_id y = xa_execution x) (executions s) of
             None \<Rightarrow> None
           | Some y \<Rightarrow>
               map_option (\<lambda>g. (x, y, g)) (List.find (\<lambda>g. reg_id g = exe_region y) (regions s))))"

definition network_call :: "external_action \<Rightarrow> execution \<Rightarrow> region \<Rightarrow> reserve_input" where
  "network_call x y g =
     \<lparr>ri_region = reg_id g, ri_type = ''network_calls'', ri_quantity = 1,
      ri_key = ''external-action:'' @ xa_id x @ '':network-calls'',
      ri_subject_kind = ''external_action'', ri_subject_id = xa_id x,
      ri_execution = Some (exe_id y), ri_attempt = Some (xa_attempt x), ri_action = Some (xa_id x)\<rparr>"

definition set_action_status :: "string \<Rightarrow> action_state \<Rightarrow> (db, nat) tx" where
  "set_action_status i st = update_actions (\<lambda>x. xa_id x = i) (\<lambda>x. x\<lparr>xa_status := st\<rparr>)"

definition action_attempt_ok :: "action_attempt \<Rightarrow> bool" where
  "action_attempt_ok t \<longleftrightarrow> 0 < xt_number t \<and>
     (xt_status t \<in> {XtAcknowledged, XtFailed, XtIndeterminate}) = (xt_completed t \<noteq> None)"

definition insert_action_attempt :: "action_attempt \<Rightarrow> (db, unit) tx" where
  "insert_action_attempt t = (\<lambda>s.
     if \<not> action_attempt_ok t then Inl (DbViolation ''external_action_attempts_check'')
     else if list_ex (\<lambda>u. xt_action u = xt_action t \<and> xt_number u = xt_number t) (action_attempts s)
     then Inl (DbViolation ''external_action_attempts_external_action_id_attempt_number_key'')
     else Inr ((), s\<lparr>action_attempts := action_attempts s @ [t]\<rparr>))"

definition attempts_of :: "string \<Rightarrow> db \<Rightarrow> action_attempt list" where
  "attempts_of i s = filter (\<lambda>t. xt_action t = i) (action_attempts s)"

definition last_number :: "string \<Rightarrow> db \<Rightarrow> nat" where
  "last_number i s = fold max (map xt_number (attempts_of i s)) 0"

definition dispatching_attempt :: "env \<Rightarrow> string \<Rightarrow> string \<Rightarrow> nat \<Rightarrow> action_attempt" where
  "dispatching_attempt e i tid n =
     \<lparr>xt_id = tid, xt_action = i, xt_number = n, xt_status = XtDispatching,
      xt_requested = clock e, xt_completed = None, xt_response = None\<rparr>"

definition start_dispatch :: "env \<Rightarrow> external_action \<Rightarrow> (db, dispatch_preparation) tx" where
  "start_dispatch e x =
     bind_tx (get (last_number (xa_id x))) (\<lambda>n.
     bind_tx (fresh_uuid e) (\<lambda>tid.
     bind_tx (insert_action_attempt (dispatching_attempt e (xa_id x) tid (Suc n))) (\<lambda>_.
     bind_tx (set_action_status (xa_id x) XDispatching) (\<lambda>_.
     ret (Dispatch (providerRequest x) tid)))))"

definition prepareDispatch :: "env \<Rightarrow> string \<Rightarrow> (db, dispatch_preparation) tx" where
  "prepareDispatch e i =
     bind_tx (get (joined_action i)) (\<lambda>found.
     bind_tx (or_throw found (ExternalActionError ''external_action_not_found'')) (\<lambda>(x, y, g).
     if uncertain (xa_status x) then ret (Uncertain (xa_status x))
     else if xa_status x \<noteq> XAuthorized then ret DispatchTerminal
     else if reg_status g \<noteq> RRunning \<or> exe_epoch y \<noteq> reg_epoch g then
       bind_tx (set_action_status (xa_id x) XCancelled) (\<lambda>_. ret DispatchCancelled)
     else
       bind_tx (reserveInTransaction e (network_call x y g)) (\<lambda>admission.
       if am_outcome admission \<noteq> Admit then ret (Deferred (am_outcome admission))
       else start_dispatch e x)))"

subsection \<open>Recording the provider's answer\<close>

definition action_status_of :: "provider_status \<Rightarrow> action_state" where
  "action_status_of p = (case p of PAcknowledged \<Rightarrow> XAcknowledged | PFailed \<Rightarrow> XFailed
     | PIndeterminate \<Rightarrow> XIndeterminate)"

definition reconciled_status_of :: "provider_status \<Rightarrow> action_state" where
  "reconciled_status_of p = (if p = PAcknowledged then XReconciled else action_status_of p)"

definition attempt_status_of :: "action_state \<Rightarrow> action_attempt_state" where
  "attempt_status_of st =
     (if st = XFailed then XtFailed else if st = XIndeterminate then XtIndeterminate
      else XtAcknowledged)"

definition update_action_attempts ::
  "(action_attempt \<Rightarrow> bool) \<Rightarrow> (action_attempt \<Rightarrow> action_attempt) \<Rightarrow> (db, unit) tx" where
  "update_action_attempts p f = (\<lambda>s.
     case update_rows ''external_action_attempts_check'' action_attempt_ok p f (action_attempts s) of
       Inl err \<Rightarrow> Inl err | Inr rows \<Rightarrow> Inr ((), s\<lparr>action_attempts := rows\<rparr>))"

definition persist_body :: "env \<Rightarrow> string \<Rightarrow> string \<Rightarrow> action_state \<Rightarrow> json \<Rightarrow> (db, unit) tx" where
  "persist_body e i tid st response =
     bind_tx (get (find_action i)) (\<lambda>x0.
     bind_tx (or_throw x0 (NoResultError ''external_actions'')) (\<lambda>x.
     bind_tx (get (\<lambda>s. List.find (\<lambda>t. xt_id t = tid \<and> xt_action t = i) (action_attempts s))) (\<lambda>t0.
     bind_tx (or_throw t0 (NoResultError ''external_action_attempts'')) (\<lambda>t.
     if xa_status x = XReconciled then ret ()
     else
       bind_tx (guard (uncertain (xa_status x))
          (ExternalActionError ''external_action_state_conflict'')) (\<lambda>_.
       bind_tx (guard (xt_status t \<in> {XtDispatching, XtIndeterminate, XtAcknowledged})
          (ExternalActionError ''external_action_attempt_state_conflict'')) (\<lambda>_.
       bind_tx (update_action_attempts (\<lambda>u. xt_id u = tid)
          (\<lambda>u. u\<lparr>xt_status := attempt_status_of st, xt_completed := Some (clock e),
                 xt_response := Some response\<rparr>)) (\<lambda>_.
       bind_tx (set_action_status i st) (\<lambda>_. ret ()))))))))"

definition persistResult ::
  "env \<Rightarrow> string \<Rightarrow> string \<Rightarrow> action_state \<Rightarrow> json \<Rightarrow> (db, unit) io" where
  "persistResult e i tid st response = transaction (persist_body e i tid st response)"

definition reservation_before :: "reservation \<Rightarrow> int \<times> string" where
  "reservation_before r = (res_reserved_at r, res_id r)"

definition network_request :: "string \<Rightarrow> db \<Rightarrow> string option" where
  "network_request i s =
     (case sort_key reservation_before (filter (\<lambda>r. res_action r = Some i \<and>
         list_ex (\<lambda>b. bud_id b = res_budget r \<and> bud_type b = ''network_calls'') (budgets s))
       (reservations s)) of
        [] \<Rightarrow> None | r # _ \<Rightarrow> Some (res_request r))"

definition reconcileNetworkReservation :: "env \<Rightarrow> string \<Rightarrow> (db, bool) io" where
  "reconcileNetworkReservation e i =
     bind_io (get_io (network_request i)) (\<lambda>found.
     case found of None \<Rightarrow> ret_io False | Some req \<Rightarrow> reconcile e req 1)"

definition record_answer ::
  "env \<Rightarrow> string \<Rightarrow> string \<Rightarrow> provider_status \<Rightarrow> action_state \<Rightarrow> json \<Rightarrow> (db, action_state) io" where
  "record_answer e i tid p st response =
     bind_io (persistResult e i tid st response) (\<lambda>_.
     bind_io (if p = PIndeterminate then ret_io False else reconcileNetworkReservation e i) (\<lambda>_.
     ret_io st))"

definition persistDispatchResult ::
  "env \<Rightarrow> string \<Rightarrow> string \<Rightarrow> provider_status \<Rightarrow> json \<Rightarrow> (db, action_state) io" where
  "persistDispatchResult e i tid p response = record_answer e i tid p (action_status_of p) response"

definition persistReconciliationResult ::
  "env \<Rightarrow> string \<Rightarrow> string \<Rightarrow> provider_status \<Rightarrow> json \<Rightarrow> (db, action_state) io" where
  "persistReconciliationResult e i tid p response =
     record_answer e i tid p (reconciled_status_of p) response"

subsection \<open>Dispatch and reconciliation\<close>

datatype dispatch_result = Dispatched action_state | NotDispatched dispatch_preparation

definition dispatch :: "env \<Rightarrow> action_provider \<Rightarrow> string \<Rightarrow> (db, dispatch_result) io" where
  "dispatch e pv i =
     bind_io (transaction (prepareDispatch e i)) (\<lambda>prepared.
     case prepared of
       Dispatch q tid \<Rightarrow>
         (case pv_dispatch pv q of
            Answered p response \<Rightarrow>
              bind_io (persistDispatchResult e i tid p response) (\<lambda>st. ret_io (Dispatched st))
          | ResponseLost response \<Rightarrow>
              bind_io (persistDispatchResult e i tid PIndeterminate response)
                (\<lambda>st. ret_io (Dispatched st))
          | ProviderThrew err \<Rightarrow> throw_io err)
     | p \<Rightarrow> ret_io (NotDispatched p))"

datatype reconcile_read = ReconcileTerminal action_state | ReconcileWith string provider_request

definition reconcile_read :: "string \<Rightarrow> (db, reconcile_read) tx" where
  "reconcile_read i =
     bind_tx (get (find_action i)) (\<lambda>found.
     bind_tx (or_throw found (ExternalActionError ''external_action_not_found'')) (\<lambda>x.
     if \<not> uncertain (xa_status x) then ret (ReconcileTerminal (xa_status x))
     else
       bind_tx (get (\<lambda>s. sort_key (\<lambda>t. - int (xt_number t)) (attempts_of i s))) (\<lambda>ts.
       case ts of
         [] \<Rightarrow> throw (ExternalActionError ''external_action_attempt_missing'')
       | t # _ \<Rightarrow> ret (ReconcileWith (xt_id t) (providerRequest x)))))"

text \<open>The status of the action in the answer.\<close>

definition reconcile_action :: "env \<Rightarrow> action_provider \<Rightarrow> string \<Rightarrow> (db, action_state) io" where
  "reconcile_action e pv i =
     bind_io (transaction (reconcile_read i)) (\<lambda>current.
     case current of
       ReconcileTerminal st \<Rightarrow> ret_io st
     | ReconcileWith tid q \<Rightarrow>
         (case pv_reconcile pv q of
            Answered p response \<Rightarrow> persistReconciliationResult e i tid p response
          | ResponseLost response \<Rightarrow> throw_io (PlainError ''ExternalActionIndeterminateError'')
          | ProviderThrew err \<Rightarrow> throw_io err))"

record action_report =
  rp_scanned :: nat
  rp_reconciled :: nat
  rp_failed :: nat
  rp_indeterminate :: nat

definition count_status :: "action_state \<Rightarrow> action_report \<Rightarrow> action_report" where
  "count_status st r =
     (if st = XReconciled then r\<lparr>rp_reconciled := Suc (rp_reconciled r)\<rparr>
      else if st = XFailed then r\<lparr>rp_failed := Suc (rp_failed r)\<rparr>
      else if st = XIndeterminate then r\<lparr>rp_indeterminate := Suc (rp_indeterminate r)\<rparr>
      else r)"

definition pending_actions :: "nat \<Rightarrow> db \<Rightarrow> string list" where
  "pending_actions n s =
     take n (map xa_id (sort_key (\<lambda>x. (xa_created x, xa_id x))
       (filter (\<lambda>x. uncertain (xa_status x)) (external_actions s))))"

definition reconcilePending :: "env \<Rightarrow> action_provider \<Rightarrow> int \<Rightarrow> (db, action_report) io" where
  "reconcilePending e pv limit' =
     (if limit' < 1
      then throw_io (PlainError ''external action reconciliation limit must be positive'')
      else bind_io (get_io (pending_actions (nat limit'))) (\<lambda>ids.
        fold_io (\<lambda>i r. bind_io (reconcile_action e pv i) (\<lambda>st.
            ret_io (count_status st (r\<lparr>rp_scanned := Suc (rp_scanned r)\<rparr>)))) ids
          \<lparr>rp_scanned = 0, rp_reconciled = 0, rp_failed = 0, rp_indeterminate = 0\<rparr>))"


subsection \<open>Requests interleaved\<close>

text \<open>
  The database, the actions whose request has gone out to the provider, newest first, and the
  calls whose answer is still to be recorded. Requests on actions, the answers of the provider and
  changes made by the rest of the system may come in any order; what the rest of the system may not
  do is to bring an action that is past its authorization back before it.
\<close>

record action_run =
  rn_db :: db
  rn_sent :: "string list"
  rn_open :: "(string \<times> string) list"

definition spent :: "action_state \<Rightarrow> bool" where
  "spent st \<longleftrightarrow> st \<notin> {XProposed, XPolicyChecked, XAwaitingApproval, XAuthorized}"

definition spent_in :: "string \<Rightarrow> db \<Rightarrow> bool" where
  "spent_in i s \<longleftrightarrow> list_ex (\<lambda>x. xa_id x = i \<and> spent (xa_status x)) (external_actions s)"

definition keeps_spent :: "db \<Rightarrow> db \<Rightarrow> bool" where
  "keeps_spent s s' \<longleftrightarrow>
     (distinct (map xa_id (external_actions s)) \<longrightarrow> distinct (map xa_id (external_actions s'))) \<and>
     (\<forall>i. spent_in i s \<longrightarrow> spent_in i s')"

inductive action_step :: "action_run \<Rightarrow> action_run \<Rightarrow> bool" where
  send: "prepareDispatch e i (rn_db r) = Inr (Dispatch q tid, s) \<Longrightarrow>
    action_step r (r\<lparr>rn_db := s, rn_sent := pq_action q # rn_sent r, rn_open := (i, tid) # rn_open r\<rparr>)"
| refuse: "prepareDispatch e i (rn_db r) = Inr (p, s) \<Longrightarrow> (\<And>q tid. p \<noteq> Dispatch q tid) \<Longrightarrow>
    action_step r (r\<lparr>rn_db := s\<rparr>)"
| answer: "(i, tid) \<in> set (rn_open r) \<Longrightarrow>
    persistDispatchResult e i tid p response (rn_db r) = (v, s) \<Longrightarrow>
    action_step r (r\<lparr>rn_db := s\<rparr>)"
| reconciled: "persistReconciliationResult e i tid p response (rn_db r) = (v, s) \<Longrightarrow>
    action_step r (r\<lparr>rn_db := s\<rparr>)"
| elsewhere: "keeps_spent (rn_db r) s \<Longrightarrow> action_step r (r\<lparr>rn_db := s\<rparr>)"

lemma keeps_spent_refl [simp]: "keeps_spent s s"
  by (simp add: keeps_spent_def)

lemma keeps_spent_trans: "keeps_spent s t \<Longrightarrow> keeps_spent t u \<Longrightarrow> keeps_spent s u"
  by (simp add: keeps_spent_def)

lemma keeps_spent_same: "external_actions s' = external_actions s \<Longrightarrow> keeps_spent s s'"
  by (simp add: keeps_spent_def spent_in_def)

lemma update_actions_Inr:
  "update_actions p f s = Inr (n, s') \<Longrightarrow>
   s' = s\<lparr>external_actions := set_rows p f (external_actions s)\<rparr> \<and>
   (\<forall>x\<in>set (external_actions s). p x \<longrightarrow> action_ok (f x))"
  by (auto simp: update_actions_def update_rows_Inr split: sum.splits)

lemma set_action_status_Inr:
  assumes "set_action_status i st s = Inr (n, s')"
  shows "external_actions s' = set_rows (\<lambda>x. xa_id x = i) (\<lambda>x. x\<lparr>xa_status := st\<rparr>) (external_actions s)"
  using update_actions_Inr [OF assms [unfolded set_action_status_def]] by simp

lemma set_status_spent:
  assumes "external_actions s' = set_rows (\<lambda>x. xa_id x = i) (\<lambda>x. x\<lparr>xa_status := st\<rparr>) (external_actions s)"
    and "spent st"
  shows "keeps_spent s s'"
    and "find_action i s \<noteq> None \<Longrightarrow> spent_in i s'"
proof -
  have keys: "map xa_id (external_actions s') = map xa_id (external_actions s)"
    unfolding assms(1) by (rule map_set_rows) simp
  have after: "spent_in j s' \<longleftrightarrow> (\<exists>x\<in>set (external_actions s). xa_id x = j \<and>
      spent (if xa_id x = i then st else xa_status x))" for j
    unfolding spent_in_def assms(1) set_rows_def list_ex_iff set_map bex_simps(7)
    by (rule bex_cong [OF refl]) simp
  have "spent_in j s'" if "spent_in j s" for j
    using that assms(2) by (auto simp: after) (auto simp: spent_in_def list_ex_iff)
  with keys show "keeps_spent s s'" by (simp add: keeps_spent_def)
  show "spent_in i s'" if "find_action i s \<noteq> None"
    using that assms(2) by (auto simp: after find_action_def find_None_iff)
qed

lemma start_dispatch_Inr:
  assumes "start_dispatch e x s = Inr (p, s')"
  shows "\<exists>tid. p = Dispatch (providerRequest x) tid"
    and "external_actions s' =
      set_rows (\<lambda>y. xa_id y = xa_id x) (\<lambda>y. y\<lparr>xa_status := XDispatching\<rparr>) (external_actions s)"
  using assms
  by (auto simp: start_dispatch_def tx_Inr fresh_uuid_Inr insert_action_attempt_def
      dest!: set_action_status_Inr split: if_splits)

text \<open>What a successful preparation can have done to the actions.\<close>

lemma prepareDispatch_Inr:
  assumes "prepareDispatch e i s = Inr (p, s')"
  obtains (same) "external_actions s' = external_actions s" and "\<And>q tid. p \<noteq> Dispatch q tid"
  | (cancel) x where "find_action i s = Some x" and "p = DispatchCancelled"
      and "external_actions s' =
        set_rows (\<lambda>y. xa_id y = i) (\<lambda>y. y\<lparr>xa_status := XCancelled\<rparr>) (external_actions s)"
  | (send) x tid where "find_action i s = Some x" and "xa_status x = XAuthorized"
      and "p = Dispatch (providerRequest x) tid"
      and "external_actions s' =
        set_rows (\<lambda>y. xa_id y = i) (\<lambda>y. y\<lparr>xa_status := XDispatching\<rparr>) (external_actions s)"
proof -
  obtain x y g where j: "joined_action i s = Some (x, y, g)"
    and rest: "(if uncertain (xa_status x) then ret (Uncertain (xa_status x))
     else if xa_status x \<noteq> XAuthorized then ret DispatchTerminal
     else if reg_status g \<noteq> RRunning \<or> exe_epoch y \<noteq> reg_epoch g then
       bind_tx (set_action_status (xa_id x) XCancelled) (\<lambda>_. ret DispatchCancelled)
     else
       bind_tx (reserveInTransaction e (network_call x y g)) (\<lambda>admission.
       if am_outcome admission \<noteq> Admit then ret (Deferred (am_outcome admission))
       else start_dispatch e x)) s = Inr (p, s')"
    using assms by (auto simp: prepareDispatch_def tx_Inr)
  from j have x: "find_action i s = Some x" and i: "xa_id x = i"
    by (auto simp: joined_action_def find_action_def dest: find_Some_mem split: option.splits)
  consider "uncertain (xa_status x) \<or> xa_status x \<noteq> XAuthorized"
    | "xa_status x = XAuthorized" "\<not> uncertain (xa_status x)" "reg_status g \<noteq> RRunning \<or> exe_epoch y \<noteq> reg_epoch g"
    | "xa_status x = XAuthorized" "\<not> uncertain (xa_status x)" "\<not> (reg_status g \<noteq> RRunning \<or> exe_epoch y \<noteq> reg_epoch g)"
    by blast
  then show thesis
  proof cases
    case 1
    with rest show thesis by (intro same) (auto simp: ret_Inr split: if_splits)
  next
    case 2
    with rest i obtain n where "set_action_status i XCancelled s = Inr (n, s')" "p = DispatchCancelled"
      by (auto simp: bind_tx_Inr ret_Inr)
    with x show thesis by (intro cancel [of x]) (auto dest: set_action_status_Inr)
  next
    case 3
    with rest obtain ad t where res: "reserveInTransaction e (network_call x y g) s = Inr (ad, t)"
      and tail: "(if am_outcome ad \<noteq> Admit then ret (Deferred (am_outcome ad)) else start_dispatch e x) t
        = Inr (p, s')" by (auto simp: bind_tx_Inr)
    have t: "external_actions t = external_actions s" using reserve_frame [OF res] by auto
    show thesis
    proof (cases "am_outcome ad = Admit")
      case True
      with tail have "start_dispatch e x t = Inr (p, s')" by simp
      from start_dispatch_Inr [OF this] x i t 3(1) show thesis by (auto intro: send)
    next
      case False
      with tail t show thesis by (intro same) (auto simp: ret_Inr)
    qed
  qed
qed

lemma persist_keeps_spent:
  assumes "persistResult e i tid st response s = (v, s')" and "spent st"
  shows "keeps_spent s s'"
proof (cases "persist_body e i tid st response s")
  case (Inl err)
  with assms(1) show ?thesis by (auto simp: persistResult_def transaction_def)
next
  case (Inr q)
  then have "persist_body e i tid st response s = Inr ((), s')"
    using assms(1) by (cases q) (auto simp: persistResult_def transaction_def)
  then have "s' = s \<or> (\<exists>t n. external_actions t = external_actions s \<and>
      set_action_status i st t = Inr (n, s'))"
    by (auto simp: persist_body_def tx_Inr update_action_attempts_def update_rows_Inr
        split: if_splits sum.splits)
  then consider "s' = s" | t n where "external_actions t = external_actions s"
      "set_action_status i st t = Inr (n, s')" by blast
  then show ?thesis
  proof cases
    case (2 t n)
    then have "external_actions s' = set_rows (\<lambda>x. xa_id x = i) (\<lambda>x. x\<lparr>xa_status := st\<rparr>) (external_actions s)"
      by (simp add: set_action_status_Inr)
    then show ?thesis using assms(2) by (rule set_status_spent(1))
  qed simp
qed

lemma reconcile_frame:
  "external_actions (snd (Admission.reconcile e req q s)) = external_actions s"
  by (auto simp: reconcile_def transaction_def reconcile_body_def tx_Inr fresh_uuid_Inr
      insert_ledger_or_nothing_def modify_Inr split: sum.splits list.splits if_splits)

lemma record_answer_keeps_spent:
  assumes "record_answer e i tid p st response s = (v, s')" and "spent st"
  shows "keeps_spent s s'"
proof -
  obtain v1 t where persist: "persistResult e i tid st response s = (v1, t)" by (meson surj_pair)
  note t = persist_keeps_spent [OF persist assms(2)]
  have "external_actions s' = external_actions t"
    using assms(1) persist reconcile_frame
    by (auto simp: record_answer_def bind_io_def ret_io_def reconcileNetworkReservation_def get_io_def
        split: sum.splits option.splits prod.splits if_splits) (metis snd_conv)+
  then show ?thesis using t by (metis keeps_spent_same keeps_spent_trans)
qed

definition run_inv :: "action_run \<Rightarrow> bool" where
  "run_inv r \<longleftrightarrow> distinct (map xa_id (external_actions (rn_db r))) \<and> distinct (rn_sent r) \<and>
     list_all (\<lambda>i. spent_in i (rn_db r)) (rn_sent r)"

lemma run_inv_keeps:
  assumes "run_inv r" and "keeps_spent (rn_db r) s"
  shows "run_inv (r\<lparr>rn_db := s\<rparr>)"
  using assms by (auto simp: run_inv_def keeps_spent_def list_all_iff)

lemma unspent_fresh:
  assumes "distinct (map xa_id (external_actions s))" and "find_action i s = Some x"
    and "\<not> spent (xa_status x)"
  shows "\<not> spent_in i s"
proof
  assume "spent_in i s"
  then obtain y where y: "y \<in> set (external_actions s)" "xa_id y = i" "spent (xa_status y)"
    by (auto simp: spent_in_def list_ex_iff)
  have x: "x \<in> set (external_actions s)" "xa_id x = i"
    using find_Some_mem [OF assms(2) [unfolded find_action_def]] by auto
  with y assms(1) have "x = y" by (metis distinct_map inj_onD)
  with y assms(3) show False by simp
qed

lemma action_step_inv: "action_step r r' \<Longrightarrow> run_inv r \<Longrightarrow> run_inv r'"
proof (induction rule: action_step.induct)
  case (send e i r q tid s)
  from send(1) show ?case
  proof (cases rule: prepareDispatch_Inr)
    case (send x tid')
    then have "spent XDispatching" by (simp add: spent_def)
    note sp = set_status_spent [OF send(4) this]
    have q: "pq_action q = i"
      using send(1,3) by (auto simp: find_action_def providerRequest_def dest: find_Some_mem)
    have "\<not> spent_in i (rn_db r)"
      using \<open>run_inv r\<close> send(1,2) by (intro unspent_fresh) (auto simp: run_inv_def spent_def)
    with \<open>run_inv r\<close> have "i \<notin> set (rn_sent r)" by (auto simp: run_inv_def list_all_iff)
    moreover have "run_inv (r\<lparr>rn_db := s\<rparr>)" by (rule run_inv_keeps [OF \<open>run_inv r\<close> sp(1)])
    moreover have "spent_in i s" using sp(2) send(1) by simp
    ultimately show ?thesis by (simp add: run_inv_def q)
  qed auto
next
  case (refuse e i r p s)
  from refuse(1) show ?case
  proof (cases rule: prepareDispatch_Inr)
    case same
    with refuse(3) show ?thesis by (intro run_inv_keeps keeps_spent_same)
  next
    case (cancel x)
    have "spent XCancelled" by (simp add: spent_def)
    from run_inv_keeps [OF refuse(3) set_status_spent(1) [OF cancel(3) this]] show ?thesis .
  next
    case (send x tid)
    with refuse(2) [of "providerRequest x" tid] show ?thesis by simp
  qed
next
  case (answer i tid r e p response v s)
  have "spent (action_status_of p)" by (cases p) (simp_all add: action_status_of_def spent_def)
  with answer show ?case
    by (intro run_inv_keeps record_answer_keeps_spent) (simp_all add: persistDispatchResult_def)
next
  case (reconciled e i tid p response r v s)
  have "spent (reconciled_status_of p)"
    by (cases p) (simp_all add: reconciled_status_of_def action_status_of_def spent_def)
  with reconciled show ?case
    by (intro run_inv_keeps record_answer_keeps_spent) (simp_all add: persistReconciliationResult_def)
next
  case (elsewhere r s)
  then show ?case by (intro run_inv_keeps)
qed

text \<open>C13. However requests on external actions, the answers of the provider and the rest of the system
  interleave, the request of an action goes out to the provider at most once, and every action whose
  request has gone out is past its authorization for ever.\<close>

theorem dispatched_at_most_once:
  assumes "action_step\<^sup>*\<^sup>* r r'" and "rn_sent r = []"
    and "distinct (map xa_id (external_actions (rn_db r)))"
  shows "distinct (rn_sent r') \<and>
    (\<forall>i\<in>set (rn_sent r'). \<exists>x\<in>set (external_actions (rn_db r')). xa_id x = i \<and> spent (xa_status x))"
proof -
  have "run_inv r" using assms(2,3) by (simp add: run_inv_def)
  with assms(1) have "run_inv r'"
    by (induction rule: rtranclp_induct) (auto intro: action_step_inv)
  then show ?thesis by (auto simp: run_inv_def list_all_iff spent_in_def list_ex_iff)
qed


lemma approval_requested_ok: "approval_ok (requested_approval aid did t)"
  by (simp add: approval_ok_def requested_approval_def)

text \<open>An evaluation that succeeds rests on a registered policy of that name and version that is not
  retired, returns the outcome its specification states, and appends one decision with that outcome,
  without modifications unless the outcome is to modify; it opens one approval, linked to the
  decision, exactly when the outcome asks for one.\<close>

theorem policy_decision_recorded:
  assumes "evaluate e evaluator i s = (Inr r, s')"
  shows "\<exists>p spec d as n.
    p \<in> set (policies s) \<and> pol_name p = ep_name i \<and> pol_version p = ep_version i \<and>
    pol_retired p = None \<and> json_field (pol_policy p) ''spec'' = Some spec \<and>
    json_field spec ''outcome'' = Some (JStr (outcome_text (pr_outcome r))) \<and>
    s' = s\<lparr>drawn := n, policy_decisions := policy_decisions s @ [d], approvals := approvals s @ as\<rparr> \<and>
    pd_id d = pr_decision r \<and> pd_policy d = pol_id p \<and> pd_outcome d = outcome_text (pr_outcome r) \<and>
    pd_subject_id d = ep_subject_id i \<and> (pr_outcome r \<noteq> Modify \<longrightarrow> pd_modifications d = JArr []) \<and>
    (if pr_outcome r = PolicyApproval
     then \<exists>a. as = [a] \<and> pr_approval r = Some (apr_id a) \<and> apr_decision a = pr_decision r \<and>
       apr_status a = AprRequested
     else as = [] \<and> pr_approval r = None)"
proof -
  obtain p spec oc where p: "List.find (\<lambda>p. pol_name p = ep_name i \<and> pol_version p = ep_version i \<and>
       pol_retired p = None) (policies s) = Some p"
    and spec: "policySpec (pol_policy p) = Inr spec"
    and oc: "policyOutcome (json_field spec ''outcome'') = Inr oc"
    and rest: "(let reason = policy_reason p spec oc; modifications = policy_modifications spec oc in
     bind_tx (fresh_uuid e) (\<lambda>did.
     bind_tx (insert_policy_decision (decision_row evaluator i p oc reason modifications did)) (\<lambda>_.
     bind_tx (open_approval e oc did) (\<lambda>aid.
     ret \<lparr>pr_decision = did, pr_approval = aid, pr_outcome = oc, pr_reason = reason,
          pr_modifications = modifications\<rparr>)))) s = Inr (r, s')"
    using assms
    by (auto simp: evaluate_def evaluate_body_def transaction_def throw_io_def tx_Inr of_sum_Inr
        split: if_splits sum.splits)
  have field: "json_field (pol_policy p) ''spec'' = Some spec"
    using spec by (auto simp: policySpec_def split: if_splits option.splits)
  have out: "json_field spec ''outcome'' = Some (JStr (outcome_text oc))"
    using oc by (auto simp: policyOutcome_def outcome_text_def split: option.splits json.splits if_splits)
  have none: "oc \<noteq> Modify \<Longrightarrow> policy_modifications spec oc = JArr []"
    by (auto simp: policy_modifications_def split: option.splits json.splits)
  let ?did = "new_uuid e (drawn s)" and ?aid = "new_uuid e (Suc (drawn s))"
  let ?d = "decision_row evaluator i p oc (policy_reason p spec oc) (policy_modifications spec oc) ?did"
  let ?a = "requested_approval ?aid ?did (clock e)"
  have "r = \<lparr>pr_decision = ?did, pr_approval = (if oc = PolicyApproval then Some ?aid else None),
      pr_outcome = oc, pr_reason = policy_reason p spec oc, pr_modifications = policy_modifications spec oc\<rparr> \<and>
    s' = s\<lparr>drawn := (if oc = PolicyApproval then Suc (Suc (drawn s)) else Suc (drawn s)),
      policy_decisions := policy_decisions s @ [?d],
      approvals := approvals s @ (if oc = PolicyApproval then [?a] else [])\<rparr>"
    using rest
    by (cases "oc = PolicyApproval")
      (auto simp: Let_def tx_Inr fresh_uuid_Inr insert_policy_decision_def open_approval_def
        insert_approval_def approval_requested_ok split: if_splits)
  moreover have "p \<in> set (policies s)" "pol_name p = ep_name i" "pol_version p = ep_version i" "pol_retired p = None"
    using find_Some_mem [OF p] by auto
  ultimately show ?thesis
    using field out none
    by (intro exI [of _ p], intro exI [of _ spec], intro exI [of _ ?d],
        intro exI [of _ "if oc = PolicyApproval then [?a] else []"],
        intro exI [of _ "if oc = PolicyApproval then Suc (Suc (drawn s)) else Suc (drawn s)"])
      (simp add: decision_row_def requested_approval_def)
qed

text \<open>Once an external action is reconciled, failed, denied or cancelled, neither a dispatch, nor a
  reconciliation, nor a late answer of the provider changes any action.\<close>

theorem settled_actions_final:
  assumes "find_action i s = Some x" and "xa_status x \<in> {XReconciled, XFailed, XDenied, XCancelled}"
  shows "external_actions (snd (dispatch e pv i s)) = external_actions s \<and>
    external_actions (snd (reconcile_action e pv i s)) = external_actions s \<and>
    external_actions (snd (persistDispatchResult e i tid p response s)) = external_actions s"
proof -
  have st: "\<not> uncertain (xa_status x)" "xa_status x \<noteq> XAuthorized"
    using assms(2) by (auto simp: uncertain_def)
  have "case transaction (prepareDispatch e i) s of (v, t) \<Rightarrow> external_actions t = external_actions s \<and>
      (case v of Inr (Dispatch q tid) \<Rightarrow> False | _ \<Rightarrow> True)"
    using st by (auto simp: transaction_def prepareDispatch_def tx_simps joined_action_def assms(1)
        split: option.splits sum.splits)
  then have "external_actions (snd (dispatch e pv i s)) = external_actions s"
    by (auto simp: dispatch_def bind_io_def ret_io_def split: sum.splits prod.splits dispatch_preparation.splits)
  moreover have "external_actions (snd (reconcile_action e pv i s)) = external_actions s"
    using st by (simp add: reconcile_action_def bind_io_def transaction_def reconcile_read_def tx_simps
        assms(1) ret_io_def)
  moreover have "external_actions (snd (persistResult e i tid st' response s)) = external_actions s" for st'
    using st by (auto simp: persistResult_def transaction_def persist_body_def tx_simps assms(1)
        split: option.splits sum.splits)
  then have "external_actions (snd (record_answer e i tid p st' response s)) = external_actions s" for st'
    using reconcile_frame
    by (auto simp: record_answer_def bind_io_def ret_io_def reconcileNetworkReservation_def get_io_def
        split: sum.splits option.splits prod.splits if_splits) (metis snd_conv)+
  ultimately show ?thesis by (simp add: persistDispatchResult_def)
qed


lemma set_rows_ball:
  assumes "\<And>x. p x \<Longrightarrow> q (f x)" and "\<And>x. \<not> p x \<Longrightarrow> q x"
  shows "\<forall>x\<in>set (set_rows p f rows). q x"
  using assms by (auto simp: set_rows_def)

lemma start_dispatch_attempt:
  assumes "start_dispatch e x t = Inr (Dispatch q tid, s')"
  shows "action_attempts s' =
    action_attempts t @ [dispatching_attempt e (xa_id x) tid (Suc (last_number (xa_id x) t))]"
  using assms
  by (auto simp: start_dispatch_def tx_Inr fresh_uuid_Inr insert_action_attempt_def set_action_status_def
      dest!: update_actions_Inr split: if_splits)


text \<open>The transaction that releases a request to the provider has found the action authorized, its
  region running and its execution in the region's epoch, and leaves the action marked as
  dispatching with one more attempt, numbered after the last, that carries the id returned.\<close>

theorem dispatch_intent_durable:
  assumes "prepareDispatch e i s = Inr (Dispatch q tid, s')"
  shows "(\<exists>x y g. x \<in> set (external_actions s) \<and> xa_id x = i \<and> xa_status x = XAuthorized \<and>
       q = providerRequest x \<and> y \<in> set (executions s) \<and> exe_id y = xa_execution x \<and>
       g \<in> set (regions s) \<and> reg_id g = exe_region y \<and> reg_status g = RRunning \<and>
       exe_epoch y = reg_epoch g) \<and>
    (\<forall>x\<in>set (external_actions s'). xa_id x = i \<longrightarrow> xa_status x = XDispatching) \<and>
    (\<exists>t. action_attempts s' = action_attempts s @ [t] \<and> xt_id t = tid \<and> xt_action t = i \<and>
       xt_number t = Suc (last_number i s) \<and> xt_status t = XtDispatching)"
proof -
  obtain x y g ad t where j: "joined_action i s = Some (x, y, g)"
    and st: "xa_status x = XAuthorized" "reg_status g = RRunning" "exe_epoch y = reg_epoch g"
    and res: "reserveInTransaction e (network_call x y g) s = Inr (ad, t)"
    and start: "start_dispatch e x t = Inr (Dispatch q tid, s')"
    using assms by (auto simp: prepareDispatch_def tx_Inr split: if_splits)
  have x: "x \<in> set (external_actions s)" "xa_id x = i" "y \<in> set (executions s)" "exe_id y = xa_execution x"
    "g \<in> set (regions s)" "reg_id g = exe_region y"
    using j by (auto simp: joined_action_def find_action_def dest!: find_Some_mem split: option.splits)
  have t: "external_actions t = external_actions s" "action_attempts t = action_attempts s"
    using reserve_frame [OF res] by auto
  have last: "last_number i t = last_number i s" by (simp add: last_number_def attempts_of_def t)
  have q: "q = providerRequest x" using start_dispatch_Inr(1) [OF start] by simp
  have after: "external_actions s' = set_rows (\<lambda>y. xa_id y = i) (\<lambda>y. y\<lparr>xa_status := XDispatching\<rparr>) (external_actions s)"
    using start_dispatch_Inr(2) [OF start] by (simp add: x t)
  have all: "\<forall>x\<in>set (external_actions s'). xa_id x = i \<longrightarrow> xa_status x = XDispatching"
    unfolding after by (rule set_rows_ball) simp_all
  have att: "action_attempts s' = action_attempts s @ [dispatching_attempt e i tid (Suc (last_number i s))]"
    using start_dispatch_attempt [OF start] by (simp add: t x last)
  have "\<exists>t. action_attempts s' = action_attempts s @ [t] \<and> xt_id t = tid \<and> xt_action t = i \<and>
       xt_number t = Suc (last_number i s) \<and> xt_status t = XtDispatching"
    unfolding att by (rule exI [of _ "dispatching_attempt e i tid (Suc (last_number i s))"])
      (simp add: dispatching_attempt_def)
  with x st q all show ?thesis by blast
qed

subsection \<open>The row constraints\<close>

lemma checks_evaluate: "db_checks s \<Longrightarrow> db_checks (snd (evaluate e evaluator i s))"
proof -
  have "keeps db_checks (insert_policy_decision d)" for d
    by (rule keepsI) (auto simp: insert_policy_decision_def db_checks_def split: if_splits)
  moreover have "keeps db_checks (insert_approval a)" for a
    by (rule keepsI) (auto simp: insert_approval_def db_checks_def split: if_splits)
  ultimately have "keeps db_checks (evaluate_body e evaluator i)"
    unfolding evaluate_body_def open_approval_def Let_def
    by (intro keeps_bind keeps_get keeps_or_throw keeps_of_sum keeps_if keeps_ret checks_fresh_uuid)
  then show "db_checks s \<Longrightarrow> ?thesis"
    by (auto simp: evaluate_def throw_io_def transaction_def split: sum.splits dest: keepsD)
qed

lemma checks_set_status: "keeps db_checks (set_action_status i st)"
  unfolding set_action_status_def by (rule checks_update_actions)

lemma checks_prepareDispatch: "keeps db_checks (prepareDispatch e i)"
proof -
  have "keeps db_checks (insert_action_attempt t)" for t
    by (rule keepsI) (auto simp: insert_action_attempt_def db_checks_def split: if_splits)
  then have "keeps db_checks (start_dispatch e x)" for x
    unfolding start_dispatch_def
    by (intro keeps_bind keeps_get keeps_ret checks_fresh_uuid checks_set_status)
  then show ?thesis
    unfolding prepareDispatch_def
    by (intro keeps_bind keeps_get keeps_or_throw)
      (auto intro!: keeps_bind keeps_if keeps_ret checks_set_status checks_reserve)
qed

lemma checks_persistResult: "db_checks s \<Longrightarrow> db_checks (snd (persistResult e i tid st response s))"
proof -
  have "keeps db_checks (update_action_attempts p f)" for p f
    by (rule keepsI) (auto simp: update_action_attempts_def db_checks_def split: sum.splits)
  then have "keeps db_checks (persist_body e i tid st response)"
    unfolding persist_body_def
    by (intro keeps_bind keeps_get keeps_or_throw keeps_guard keeps_if keeps_ret checks_set_status)
  then show "db_checks s \<Longrightarrow> ?thesis"
    by (auto simp: persistResult_def transaction_def split: sum.splits dest: keepsD)
qed

lemma checks_reconcile: "db_checks s \<Longrightarrow> db_checks (snd (Admission.reconcile e req q s))"
  by (auto simp: reconcile_def transaction_def reconcile_body_def tx_Inr fresh_uuid_Inr
      insert_ledger_or_nothing_def modify_Inr db_checks_def list_all_iff set_set_rows reservation_ok_def
      split: sum.splits list.splits if_splits)

lemma checks_record_answer: "holds_io db_checks (record_answer e i tid p st response)"
proof -
  have "holds_io db_checks (persistResult e i tid st response)"
    by (rule holds_ioI) (rule checks_persistResult)
  moreover have "holds_io db_checks (reconcile e req q)" for req q
    by (rule holds_ioI) (rule checks_reconcile)
  ultimately show ?thesis
    unfolding record_answer_def reconcileNetworkReservation_def
    by (intro holds_io_bind holds_io_if holds_io_simple holds_io_option)
qed

lemma holds_transaction: "keeps P m \<Longrightarrow> holds_io P (transaction m)"
  by (rule holds_ioI) (auto simp: transaction_def split: sum.splits dest: keepsD)

lemma checks_dispatch: "holds_io db_checks (dispatch e pv i)"
  unfolding dispatch_def persistDispatchResult_def
  by (intro holds_io_bind holds_transaction checks_prepareDispatch)
    (auto intro!: holds_io_bind checks_record_answer split: dispatch_preparation.splits provider_outcome.splits)

lemma checks_reconcilePending: "holds_io db_checks (reconcilePending e pv n)"
proof -
  have "keeps db_checks (reconcile_read i)" for i
    unfolding reconcile_read_def
    by (rule keepsI) (auto simp: tx_Inr split: if_splits list.splits)
  then have "holds_io db_checks (reconcile_action e pv i)" for i
    unfolding reconcile_action_def persistReconciliationResult_def
    by (intro holds_io_bind holds_transaction)
      (auto intro!: checks_record_answer split: reconcile_read.splits provider_outcome.splits)
  then show ?thesis
    unfolding reconcilePending_def
    by (intro holds_io_if holds_io_bind holds_io_fold holds_io_simple)
qed

subsection \<open>Samples\<close>

definition sample_policy :: policy where
  "sample_policy = \<lparr>pol_id = ''p'', pol_name = ''merge'', pol_version = ''1'', pol_digest = ''h'',
     pol_policy = JObj [(''spec'', JObj [(''outcome'', JStr ''require_approval'')])], pol_retired = None\<rparr>"

definition sample_subject :: evaluate_input where
  "sample_subject = \<lparr>ep_name = ''merge'', ep_version = ''1'', ep_subject_kind = ''action'',
     ep_subject_id = ''xa'', ep_inputs = JNull, ep_artifact = None\<rparr>"

definition sample_action :: "action_state \<Rightarrow> external_action" where
  "sample_action st = \<lparr>xa_id = ''xa'', xa_execution = ''x'', xa_attempt = ''a'', xa_proposal = ''pp'',
     xa_grant = ''g'', xa_request_artifact = ''art'', xa_policy_decision = Some ''pd'',
     xa_approval = None, xa_type = ''pr'', xa_risk = ''low'', xa_status = st, xa_key = ''k'',
     xa_created = 0\<rparr>"

definition action_store :: "action_state \<Rightarrow> db" where
  "action_store st = empty_db\<lparr>policies := [sample_policy], regions := [sample_region ''r'' None],
     executions := [\<lparr>exe_id = ''x'', exe_delivery = ''d'', exe_region = ''r'', exe_component = ''c'',
       exe_rev = ''v'', exe_epoch = 0, exe_digest = ''h'', exe_status = ECompleted,
       exe_completed_at = Some 0, exe_failed_at = None, exe_failure = None\<rparr>],
     external_actions := [sample_action st]\<rparr>"

definition sample_provider :: action_provider where
  "sample_provider = \<lparr>pv_dispatch = (\<lambda>_. ResponseLost JNull), pv_reconcile = (\<lambda>_. Answered PAcknowledged JNull)\<rparr>"

lemma sample_policy_runs:
  "case fst (evaluate sample_env ''v'' sample_subject (action_store XProposed)) of
     Inr r \<Rightarrow> pr_approval r \<noteq> None | _ \<Rightarrow> False"
  by code_simp

lemma sample_prepare_runs:
  "case prepareDispatch sample_env ''xa'' (action_store XAuthorized) of
     Inr (Dispatch q tid, s) \<Rightarrow> pq_action q = ''xa'' | _ \<Rightarrow> False"
  by code_simp

definition sample_run :: action_run where
  "sample_run = \<lparr>rn_db = action_store XAuthorized, rn_sent = [], rn_open = []\<rparr>"

theorem dispatched_at_most_once_witness:
  "\<exists>r. action_step\<^sup>*\<^sup>* sample_run r \<and> rn_sent r = [''xa''] \<and> distinct (rn_sent r) \<and>
     (\<forall>i\<in>set (rn_sent r). \<exists>x\<in>set (external_actions (rn_db r)). xa_id x = i \<and> spent (xa_status x))"
proof -
  obtain q tid s where prep: "prepareDispatch sample_env ''xa'' (action_store XAuthorized) = Inr (Dispatch q tid, s)"
    and q: "pq_action q = ''xa''"
    using sample_prepare_runs by (auto split: sum.splits prod.splits dispatch_preparation.splits)
  let ?r = "sample_run\<lparr>rn_db := s, rn_sent := [pq_action q], rn_open := [(''xa'', tid)]\<rparr>"
  have "action_step sample_run ?r"
    using send [of sample_env "''xa''" sample_run q tid s] prep by (simp add: sample_run_def)
  then have run: "action_step\<^sup>*\<^sup>* sample_run ?r" ..
  have "distinct (rn_sent ?r) \<and>
    (\<forall>i\<in>set (rn_sent ?r). \<exists>x\<in>set (external_actions (rn_db ?r)). xa_id x = i \<and> spent (xa_status x))"
    by (rule dispatched_at_most_once [OF run])
      (simp_all add: sample_run_def action_store_def sample_action_def empty_db_def)
  with run q show ?thesis by (intro exI [of _ ?r]) simp
qed

theorem policy_decision_recorded_witness:
  "\<exists>r s'. evaluate sample_env ''v'' sample_subject (action_store XProposed) = (Inr r, s') \<and>
     (\<exists>p\<in>set (policies (action_store XProposed)). pol_name p = ''merge'')"
proof -
  obtain r s' where run: "evaluate sample_env ''v'' sample_subject (action_store XProposed) = (Inr r, s')"
    using sample_policy_runs by (cases "evaluate sample_env ''v'' sample_subject (action_store XProposed)")
      (auto split: sum.splits)
  with policy_decision_recorded [OF run] show ?thesis by (auto simp: sample_subject_def)
qed

theorem settled_actions_final_witness:
  "external_actions (snd (dispatch sample_env sample_provider ''xa'' (action_store XFailed))) =
     [sample_action XFailed]"
  using settled_actions_final [of "''xa''" "action_store XFailed" "sample_action XFailed" sample_env sample_provider]
  by (simp add: find_action_def action_store_def sample_action_def)

theorem dispatch_intent_durable_witness:
  "\<exists>q tid s'. prepareDispatch sample_env ''xa'' (action_store XAuthorized) = Inr (Dispatch q tid, s') \<and>
     (\<forall>x\<in>set (external_actions s'). xa_id x = ''xa'' \<longrightarrow> xa_status x = XDispatching)"
proof -
  obtain q tid s where prep: "prepareDispatch sample_env ''xa'' (action_store XAuthorized) = Inr (Dispatch q tid, s)"
    using sample_prepare_runs by (auto split: sum.splits prod.splits dispatch_preparation.splits)
  from dispatch_intent_durable [OF this] prep show ?thesis by blast
qed

end
