(* ===== verification/Operator.thy ===== *)
theory Operator
  imports Worker External
begin

section \<open>Operator commands\<close>

text \<open>
  \<open>runtime-core/src/operator/operator-command-service.ts\<close>: an operator submits a development
  task, decides an approval, or cancels a run. Every request names a client request id, under which
  a repetition is recognised and answered from the store.
\<close>

subsection \<open>Requests\<close>

record operator_context =
  oc_principal :: string
  oc_roles :: "string list"
  oc_adapter :: "string option"

record task_authority =
  ta_branch :: "bool option"
  ta_draft :: "bool option"
  ta_merge :: "bool option"

record task_request =
  tk_client :: string
  tk_repository :: string
  tk_objective :: string
  tk_criteria :: "string list"
  tk_authority :: "task_authority option"
  tk_metadata :: "json option"

datatype decision = Approve | RejectDecision

record decision_request =
  dr_client :: string
  dr_decision :: "decision option"
  dr_reason :: string

record cancel_request =
  cn_client :: string
  cn_reason :: string

definition requireOperator :: "operator_context \<Rightarrow> error + unit" where
  "requireOperator c =
     (if ''operator'' \<in> set (oc_roles c) \<or> ''admin'' \<in> set (oc_roles c) then Inr ()
      else Inl OperatorAuthorizationError)"

definition operatorSource :: "operator_context \<Rightarrow> json" where
  "operatorSource c =
     (let adapter = (case oc_adapter c of None \<Rightarrow> [] | Some a \<Rightarrow> trim a) in
      JObj [(''kind'', JStr ''operator''),
            (''adapter'', JStr (if adapter = [] then ''operator-api'' else adapter)),
            (''principalId'', JStr (oc_principal c))])"

definition requireClientRequestId :: "string \<Rightarrow> error + unit" where
  "requireClientRequestId v =
     (if blank v then Inl (OperatorValidationError ''client_request_id_required'') else Inr ())"

definition requireReason :: "string \<Rightarrow> error + string" where
  "requireReason v =
     (let reason = trim v in
      if reason = [] then Inl (OperatorValidationError ''reason_required'')
      else if 1000 < length reason then Inl (OperatorValidationError ''reason_too_long'')
      else Inr reason)"

text \<open>\<open>/^[A-Za-z0-9_.-]+\/[A-Za-z0-9_.-]+$/\<close>: two names of these characters around one
  slash.\<close>

definition repository_char :: "char \<Rightarrow> bool" where
  "repository_char c \<longleftrightarrow>
     CHR ''A'' \<le> c \<and> c \<le> CHR ''Z'' \<or> CHR ''a'' \<le> c \<and> c \<le> CHR ''z'' \<or>
     CHR ''0'' \<le> c \<and> c \<le> CHR ''9'' \<or> c \<in> {CHR ''_'', CHR ''.'', CHR ''-''}"

definition repository_text :: "string \<Rightarrow> bool" where
  "repository_text r \<longleftrightarrow>
     (case (takeWhile repository_char r, dropWhile repository_char r) of
        (own, c # name) \<Rightarrow> own \<noteq> [] \<and> c = CHR ''/'' \<and> name \<noteq> [] \<and> list_all repository_char name
      | _ \<Rightarrow> False)"

definition may :: "(task_authority \<Rightarrow> bool option) \<Rightarrow> task_request \<Rightarrow> bool" where
  "may f i \<longleftrightarrow> (case tk_authority i of None \<Rightarrow> False | Some a \<Rightarrow> f a = Some True)"

definition validateDevelopmentTask :: "task_request \<Rightarrow> error + unit" where
  "validateDevelopmentTask i =
     (if blank (tk_client i) then requireClientRequestId (tk_client i)
      else if \<not> repository_text (tk_repository i)
      then Inl (OperatorValidationError ''invalid_repository'')
      else if blank (tk_objective i) then Inl (OperatorValidationError ''objective_required'')
      else if 4000 < length (tk_objective i)
      then Inl (OperatorValidationError ''objective_too_long'')
      else if tk_criteria i = [] \<or> 20 < length (tk_criteria i) \<or>
        list_ex (\<lambda>c. blank c \<or> 500 < length c) (tk_criteria i)
      then Inl (OperatorValidationError ''invalid_acceptance_criteria'')
      else if may ta_merge i then Inl (OperatorValidationError ''merge_authority_not_supported'')
      else Inr ())"

subsection \<open>Development tasks\<close>

definition task_payload :: "task_request \<Rightarrow> json" where
  "task_payload i =
     JObj [(''repository'', JStr (tk_repository i)),
           (''objective'', JStr (trim (tk_objective i))),
           (''acceptanceCriteria'', JArr (map (\<lambda>c. JStr (trim c)) (tk_criteria i))),
           (''authority'', JObj [(''mayCreateBranch'', JBool (may ta_branch i)),
              (''mayOpenDraftPullRequest'', JBool (may ta_draft i)), (''mayMerge'', JBool False)]),
           (''metadata'', case tk_metadata i of None \<Rightarrow> JObj [] | Some m \<Rightarrow> m)]"

definition task_command :: "operator_context \<Rightarrow> task_request \<Rightarrow> submit_input" where
  "task_command c i =
     \<lparr>si_region = ''investigation'', si_type = ''development.task.requested'',
      si_source = Some (operatorSource c), si_payload = Some (task_payload i),
      si_correlation = None,
      si_key = Some (oc_principal c @ '':development-task:'' @ tk_client i), si_expires = None\<rparr>"

record task_receipt =
  tr_command :: string
  tr_region :: string
  tr_region_name :: string
  tr_status :: command_state
  tr_disposition :: disposition
  tr_rejection :: "json option"

definition command_region :: "string \<Rightarrow> db \<Rightarrow> region option" where
  "command_region cid s =
     (case List.find (\<lambda>c. cmd_id c = cid) (commands s) of
        None \<Rightarrow> None
      | Some c \<Rightarrow> List.find (\<lambda>g. reg_id g = cmd_region c) (regions s))"

definition submitDevelopmentTask ::
  "env \<Rightarrow> operator_context \<Rightarrow> task_request \<Rightarrow> (db, task_receipt) io" where
  "submitDevelopmentTask e c i = (\<lambda>s.
     case (requireOperator c, validateDevelopmentTask i) of
       (Inl err, _) \<Rightarrow> (Inl err, s)
     | (_, Inl err) \<Rightarrow> (Inl err, s)
     | _ \<Rightarrow>
         bind_io (submit e (task_command c i)) (\<lambda>r.
         bind_io (get_io (command_region (cr_command r))) (\<lambda>found.
         bind_io (or_throw_io found (NoResultError ''commands'')) (\<lambda>g.
         ret_io \<lparr>tr_command = cr_command r, tr_region = reg_id g, tr_region_name = reg_name g,
                 tr_status = cr_status r, tr_disposition = cr_disposition r,
                 tr_rejection = cr_rejection r\<rparr>))) s)"

subsection \<open>Approvals\<close>

record approval_receipt =
  ar_approval :: string
  ar_decision :: decision
  ar_principal :: string
  ar_reason :: string
  ar_client :: string
  ar_disposition :: disposition

definition approvalReceipt ::
  "string \<Rightarrow> operator_context \<Rightarrow> decision_request \<Rightarrow> decision \<Rightarrow> string \<Rightarrow> disposition \<Rightarrow> approval_receipt" where
  "approvalReceipt aid c i d reason disp =
     \<lparr>ar_approval = aid, ar_decision = d, ar_principal = oc_principal c, ar_reason = reason,
      ar_client = dr_client i, ar_disposition = disp\<rparr>"

definition decision_text :: "decision \<Rightarrow> string" where
  "decision_text d = (case d of Approve \<Rightarrow> ''approve'' | RejectDecision \<Rightarrow> ''reject'')"

definition decision_digest :: "env \<Rightarrow> string \<Rightarrow> decision_request \<Rightarrow> decision \<Rightarrow> string \<Rightarrow> string" where
  "decision_digest e aid i d reason =
     json_digest e (JObj [(''approvalId'', JStr aid), (''clientRequestId'', JStr (dr_client i)),
       (''decision'', JStr (decision_text d)), (''reason'', JStr reason)])"

definition replay_decision ::
  "operator_context \<Rightarrow> decision_request \<Rightarrow> decision \<Rightarrow> string \<Rightarrow> string \<Rightarrow> approval \<Rightarrow>
   (db, approval_receipt) tx" where
  "replay_decision c i d reason digest a =
     (if apr_decided_by a = Some (oc_principal c) \<and> apr_client_request a = Some (dr_client i) \<and>
         apr_request_digest a = Some digest
      then ret (approvalReceipt (apr_id a) c i d
        (case apr_reason a of None \<Rightarrow> reason | Some r \<Rightarrow> r) Replayed)
      else throw (OperatorConflictError ''approval_not_pending''))"

definition decided_approval ::
  "env \<Rightarrow> operator_context \<Rightarrow> decision_request \<Rightarrow> decision \<Rightarrow> string \<Rightarrow> string \<Rightarrow> approval \<Rightarrow> approval" where
  "decided_approval e c i d reason digest a =
     a\<lparr>apr_status := (if d = Approve then AprApproved else AprDenied),
       apr_decided_at := Some (clock e), apr_decided_by := Some (oc_principal c),
       apr_reason := Some reason, apr_client_request := Some (dr_client i),
       apr_request_digest := Some digest\<rparr>"

definition decide_pending ::
  "env \<Rightarrow> operator_context \<Rightarrow> decision_request \<Rightarrow> decision \<Rightarrow> string \<Rightarrow> string \<Rightarrow> string \<Rightarrow>
   (db, approval_receipt) tx" where
  "decide_pending e c i d reason digest aid =
     bind_tx (get (\<lambda>s. filter (\<lambda>x. xa_approval x = Some aid) (external_actions s))) (\<lambda>actions.
     bind_tx (guard (list_all (\<lambda>x. xa_status x = XAwaitingApproval) actions)
        (OperatorConflictError ''approval_context_changed'')) (\<lambda>_.
     bind_tx (update_approvals (\<lambda>a. apr_id a = aid) (decided_approval e c i d reason digest)) (\<lambda>_.
     bind_tx (if actions = [] then ret 0
        else update_actions (\<lambda>x. xa_approval x = Some aid)
          (\<lambda>x. x\<lparr>xa_status := (if d = Approve then XAuthorized else XDenied)\<rparr>)) (\<lambda>_.
     ret (approvalReceipt aid c i d reason Accepted)))))"

definition decide_body ::
  "env \<Rightarrow> operator_context \<Rightarrow> decision_request \<Rightarrow> decision \<Rightarrow> string \<Rightarrow> string \<Rightarrow> (db, approval_receipt) tx" where
  "decide_body e c i d reason aid =
     (let digest = decision_digest e aid i d reason in
      bind_tx (get (\<lambda>s. List.find (\<lambda>a. apr_decided_by a = Some (oc_principal c) \<and>
        apr_client_request a = Some (dr_client i)) (approvals s))) (\<lambda>reused.
      bind_tx (guard (case reused of None \<Rightarrow> True | Some a \<Rightarrow> apr_id a = aid)
        (OperatorConflictError ''approval_idempotency_conflict'')) (\<lambda>_.
      bind_tx (get (\<lambda>s. List.find (\<lambda>a. apr_id a = aid) (approvals s))) (\<lambda>found.
      bind_tx (or_throw found (OperatorNotFoundError ''approval_not_found'')) (\<lambda>a.
      if apr_status a \<noteq> AprRequested then replay_decision c i d reason digest a
      else decide_pending e c i d reason digest aid)))))"

definition decideApproval ::
  "env \<Rightarrow> operator_context \<Rightarrow> string \<Rightarrow> decision_request \<Rightarrow> (db, approval_receipt) io" where
  "decideApproval e c aid i = (\<lambda>s.
     case (requireOperator c, requireClientRequestId (dr_client i), requireReason (dr_reason i)) of
       (Inl err, _, _) \<Rightarrow> (Inl err, s)
     | (_, Inl err, _) \<Rightarrow> (Inl err, s)
     | (_, _, Inl err) \<Rightarrow> (Inl err, s)
     | (_, _, Inr reason) \<Rightarrow>
         (case dr_decision i of
            None \<Rightarrow> (Inl (OperatorValidationError ''invalid_decision''), s)
          | Some d \<Rightarrow> transaction (decide_body e c i d reason aid) s))"


subsection \<open>Cancelling a run\<close>

text \<open>
  A run is a command; what belongs to it are the deliveries of its region that carry its
  correlation id, their executions and the attempts of these.
\<close>

record cancel_receipt =
  ca_run :: string
  ca_command :: "string option"
  ca_client :: string
  ca_disposition :: disposition
  ca_deliveries :: nat
  ca_executions :: nat
  ca_attempts :: nat

definition OPERATOR_CANCELLATION_FAILURE :: json where
  "OPERATOR_CANCELLATION_FAILURE =
     JObj [(''code'', JStr ''operator_cancelled''),
           (''message'', JStr ''Execution was cancelled by an operator.''),
           (''retryable'', JBool False)]"

definition isOperatorCancellation :: "json option \<Rightarrow> bool" where
  "isOperatorCancellation v =
     (case v of None \<Rightarrow> False
      | Some j \<Rightarrow> is_record j \<and> json_field j ''code'' = Some (JStr ''operator_cancelled''))"

definition terminal_delivery :: "delivery_state \<Rightarrow> bool" where
  "terminal_delivery st \<longleftrightarrow> st \<in> {DCompleted, DFailed, DCancelled, DDeadLettered}"

definition terminal_execution :: "execution_state \<Rightarrow> bool" where
  "terminal_execution st \<longleftrightarrow> st \<in> {ECompleted, EFailed}"

definition terminal_attempt :: "attempt_state \<Rightarrow> bool" where
  "terminal_attempt st \<longleftrightarrow> st \<in> {ACompleted, AFailed, ACancelled, AAbandoned}"

definition run_deliveries :: "string \<Rightarrow> string \<Rightarrow> db \<Rightarrow> delivery list" where
  "run_deliveries g cor s =
     filter (\<lambda>d. del_region d = g \<and> del_correlation d = cor) (deliveries s)"

definition run_executions :: "string \<Rightarrow> string \<Rightarrow> db \<Rightarrow> execution list" where
  "run_executions g cor s =
     filter (\<lambda>x. exe_delivery x \<in> set (map del_id (run_deliveries g cor s))) (executions s)"

definition run_attempts :: "string \<Rightarrow> string \<Rightarrow> db \<Rightarrow> attempt list" where
  "run_attempts g cor s =
     filter (\<lambda>a. att_execution a \<in> set (map exe_id (run_executions g cor s))) (attempts s)"

definition cancelled_attempt :: "env \<Rightarrow> attempt \<Rightarrow> attempt" where
  "cancelled_attempt e a =
     a\<lparr>att_status := ACancelled, att_owner := None, att_token := None, att_expires := None,
       att_completed_at := Some (clock e), att_failure := None\<rparr>"

definition cancelled_execution :: "env \<Rightarrow> execution \<Rightarrow> execution" where
  "cancelled_execution e x =
     x\<lparr>exe_status := EFailed, exe_failed_at := Some (clock e), exe_completed_at := None,
       exe_failure := Some OPERATOR_CANCELLATION_FAILURE\<rparr>"

definition cancelled_delivery :: "delivery \<Rightarrow> delivery" where
  "cancelled_delivery d =
     d\<lparr>del_status := DCancelled, del_owner := None, del_token := None, del_expires := None\<rparr>"

definition cancel_digest :: "env \<Rightarrow> string \<Rightarrow> cancel_request \<Rightarrow> string \<Rightarrow> string" where
  "cancel_digest e runId i reason =
     json_digest e (JObj [(''runId'', JStr runId), (''clientRequestId'', JStr (cn_client i)),
       (''reason'', JStr reason)])"

definition cancel_key :: "operator_context \<Rightarrow> cancel_request \<Rightarrow> string" where
  "cancel_key c i = oc_principal c @ '':operator-cancel:'' @ cn_client i"

definition cancel_payload :: "string \<Rightarrow> cancel_request \<Rightarrow> string \<Rightarrow> json" where
  "cancel_payload runId i reason =
     JObj [(''runId'', JStr runId), (''reason'', JStr reason),
           (''clientRequestId'', JStr (cn_client i))]"

definition cancel_command ::
  "env \<Rightarrow> operator_context \<Rightarrow> command \<Rightarrow> cancel_request \<Rightarrow> string \<Rightarrow> string \<Rightarrow> string \<Rightarrow> command" where
  "cancel_command e c run i reason digest cid =
     \<lparr>cmd_id = cid, cmd_region = cmd_region run, cmd_type = ''operator.run.cancel_requested'',
      cmd_payload = cancel_payload (cmd_id run) i reason, cmd_source = operatorSource c,
      cmd_status = CAccepted, cmd_correlation = cmd_correlation run,
      cmd_key = Some (cancel_key c i), cmd_expires = None, cmd_digest = digest,
      cmd_rejection = None, cmd_accepted_at = Some (clock e), cmd_rejected_at = None\<rparr>"

definition cancel_event :: "command \<Rightarrow> string \<Rightarrow> json \<Rightarrow> string \<Rightarrow> new_event" where
  "cancel_event run cor payload cid =
     \<lparr>ne_region = cmd_region run, ne_type = ''operator.run.cancel_requested'',
      ne_payload = payload, ne_stream = ''region:'' @ cmd_region run @ '':commands'',
      ne_correlation = Some cor, ne_source_kind = ''command'', ne_command = Some cid,
      ne_event = None, ne_execution = None, ne_attempt = None, ne_component = None,
      ne_port = None\<rparr>"

definition cancellationReceipt ::
  "string \<Rightarrow> string \<Rightarrow> string \<Rightarrow> cancel_request \<Rightarrow> db \<Rightarrow> cancel_receipt" where
  "cancellationReceipt runId g cor i s =
     \<lparr>ca_run = runId, ca_command = None, ca_client = cn_client i, ca_disposition = Replayed,
      ca_deliveries = length (filter (\<lambda>d. del_status d = DCancelled) (run_deliveries g cor s)),
      ca_executions =
        length (filter (\<lambda>x. isOperatorCancellation (exe_failure x)) (run_executions g cor s)),
      ca_attempts = length (filter (\<lambda>a. att_status a = ACancelled) (run_attempts g cor s))\<rparr>"

text \<open>The three updates, each of the rows that are not terminal yet.\<close>

definition cancel_rows ::
  "env \<Rightarrow> delivery list \<Rightarrow> execution list \<Rightarrow> attempt list \<Rightarrow> (db, nat \<times> nat \<times> nat) tx" where
  "cancel_rows e ds xs as' =
     (let aids = map att_id (filter (\<lambda>a. \<not> terminal_attempt (att_status a)) as');
          xids = map exe_id (filter (\<lambda>x. \<not> terminal_execution (exe_status x)) xs);
          dids = map del_id (filter (\<lambda>d. \<not> terminal_delivery (del_status d)) ds) in
      bind_tx (update_attempts (\<lambda>a. att_id a \<in> set aids) (cancelled_attempt e)) (\<lambda>_.
      bind_tx (update_executions e (\<lambda>x. exe_id x \<in> set xids) (cancelled_execution e)) (\<lambda>_.
      bind_tx (update_deliveries (\<lambda>d. del_id d \<in> set dids) cancelled_delivery) (\<lambda>_.
      ret (length dids, length xids, length aids)))))"

definition cancel_new ::
  "env \<Rightarrow> operator_context \<Rightarrow> command \<Rightarrow> string \<Rightarrow> cancel_request \<Rightarrow> string \<Rightarrow> string \<Rightarrow>
   (db, cancel_receipt) tx" where
  "cancel_new e c run cor i reason digest =
     bind_tx (fresh_uuid e) (\<lambda>cid.
     bind_tx (insert_command False (cancel_command e c run i reason digest cid)) (\<lambda>_.
     bind_tx (insert_event e (cancel_event run cor (cancel_payload (cmd_id run) i reason) cid)) (\<lambda>_.
     bind_tx (get (\<lambda>s. (run_deliveries (cmd_region run) cor s, run_executions (cmd_region run) cor s,
        run_attempts (cmd_region run) cor s))) (\<lambda>(ds, xs, as').
     bind_tx (cancel_rows e ds xs as') (\<lambda>(nd, nx, na).
     ret \<lparr>ca_run = cmd_id run, ca_command = Some cid, ca_client = cn_client i,
          ca_disposition = Accepted, ca_deliveries = nd, ca_executions = nx, ca_attempts = na\<rparr>)))))"

definition cancel_body ::
  "env \<Rightarrow> operator_context \<Rightarrow> string \<Rightarrow> cancel_request \<Rightarrow> string \<Rightarrow> (db, cancel_receipt) tx" where
  "cancel_body e c runId i reason =
     (let digest = cancel_digest e runId i reason in
      bind_tx (get (\<lambda>s. List.find (\<lambda>r. cmd_id r = runId) (commands s))) (\<lambda>found.
      bind_tx (or_throw found (OperatorNotFoundError ''run_not_found'')) (\<lambda>run.
      bind_tx (guard (truthy (cmd_correlation run))
        (OperatorValidationError ''run_missing_correlation_id'')) (\<lambda>_.
      let cor = the (cmd_correlation run) in
      bind_tx (get (find_by_key (cmd_region run) (Some (cancel_key c i)))) (\<lambda>existing.
      case existing of
        Some old \<Rightarrow>
          bind_tx (guard (cmd_digest old = digest)
            (OperatorConflictError ''cancellation_idempotency_conflict'')) (\<lambda>_.
          get (cancellationReceipt runId (cmd_region run) cor i))
      | None \<Rightarrow> cancel_new e c run cor i reason digest)))))"

definition cancelRun ::
  "env \<Rightarrow> operator_context \<Rightarrow> string \<Rightarrow> cancel_request \<Rightarrow> (db, cancel_receipt) io" where
  "cancelRun e c runId i = (\<lambda>s.
     case (requireOperator c, requireClientRequestId (cn_client i), requireReason (cn_reason i)) of
       (Inl err, _, _) \<Rightarrow> (Inl err, s)
     | (_, Inl err, _) \<Rightarrow> (Inl err, s)
     | (_, _, Inl err) \<Rightarrow> (Inl err, s)
     | (_, _, Inr reason) \<Rightarrow> transaction (cancel_body e c runId i reason) s)"


subsection \<open>What a cancellation leaves\<close>

lemma cancelled_inactive: "\<not> active (att_status (cancelled_attempt e a))"
  by (simp add: cancelled_attempt_def active_def)

lemma cancel_rows_Inr:
  assumes "cancel_rows e ds xs ts s = Inr (n, s')"
  shows "attempts s' = set_rows (\<lambda>a. att_id a \<in> set (map att_id (filter (\<lambda>a. \<not> terminal_attempt (att_status a)) ts)))
      (cancelled_attempt e) (attempts s)"
    and "executions s' = set_rows (\<lambda>x. exe_id x \<in> set (map exe_id (filter (\<lambda>x. \<not> terminal_execution (exe_status x)) xs)))
      (cancelled_execution e) (executions s)"
    and "deliveries s' = set_rows (\<lambda>d. del_id d \<in> set (map del_id (filter (\<lambda>d. \<not> terminal_delivery (del_status d)) ds)))
      cancelled_delivery (deliveries s)"
    and "commands s' = commands s" and "external_actions s' = external_actions s"
    and "n = (length (filter (\<lambda>d. \<not> terminal_delivery (del_status d)) ds),
      length (filter (\<lambda>x. \<not> terminal_execution (exe_status x)) xs),
      length (filter (\<lambda>a. \<not> terminal_attempt (att_status a)) ts))"
proof -
  have act: "external_actions (fold (release_terminal_execution_admission e) ons t) = external_actions t" for ons t
    by (rule fold_release_frame)
  show "attempts s' = set_rows (\<lambda>a. att_id a \<in> set (map att_id (filter (\<lambda>a. \<not> terminal_attempt (att_status a)) ts)))
      (cancelled_attempt e) (attempts s)"
    and "executions s' = set_rows (\<lambda>x. exe_id x \<in> set (map exe_id (filter (\<lambda>x. \<not> terminal_execution (exe_status x)) xs)))
      (cancelled_execution e) (executions s)"
    and "deliveries s' = set_rows (\<lambda>d. del_id d \<in> set (map del_id (filter (\<lambda>d. \<not> terminal_delivery (del_status d)) ds)))
      cancelled_delivery (deliveries s)"
    and "commands s' = commands s" and "external_actions s' = external_actions s"
    and "n = (length (filter (\<lambda>d. \<not> terminal_delivery (del_status d)) ds),
      length (filter (\<lambda>x. \<not> terminal_execution (exe_status x)) xs),
      length (filter (\<lambda>a. \<not> terminal_attempt (att_status a)) ts))"
    using assms
    by (auto simp: cancel_rows_def tx_Inr Let_def update_attempts_inactive cancelled_inactive
        update_deliveries_eq act dest!: update_executions_Inr(3) split: if_splits)
qed

lemma set_rows_done:
  assumes "\<And>r. r \<in> set rows \<Longrightarrow> q r \<Longrightarrow> \<not> t r \<Longrightarrow> p r" and "\<And>r. t (f r)" and "\<And>r. q (f r) = q r"
  shows "\<forall>r\<in>set (set_rows p f rows). q r \<longrightarrow> t r"
  using assms by (auto simp: set_rows_def)

lemma ids_set_rows:
  assumes "\<And>r. k (f r) = k r" and "\<And>r. q (f r) = q r"
  shows "set (map k (filter q (set_rows p f rows))) = set (map k (filter q rows))"
  by (induction rows) (simp_all add: assms)

definition run_over :: "string \<Rightarrow> string \<Rightarrow> db \<Rightarrow> bool" where
  "run_over g cor s \<longleftrightarrow>
     list_all (\<lambda>d. terminal_delivery (del_status d)) (run_deliveries g cor s) \<and>
     list_all (\<lambda>x. terminal_execution (exe_status x)) (run_executions g cor s) \<and>
     list_all (\<lambda>a. terminal_attempt (att_status a)) (run_attempts g cor s)"

lemma cancel_rows_over:
  assumes "cancel_rows e (run_deliveries g cor s) (run_executions g cor s) (run_attempts g cor s) s
    = Inr (n, s')"
  shows "run_over g cor s'"
proof -
  note s' = cancel_rows_Inr [OF assms]
  have dids: "set (map del_id (run_deliveries g cor s')) = set (map del_id (run_deliveries g cor s))"
    unfolding run_deliveries_def s'(3) by (rule ids_set_rows) (simp_all add: cancelled_delivery_def)
  have xids: "set (map exe_id (run_executions g cor s')) = set (map exe_id (run_executions g cor s))"
    unfolding run_executions_def dids s'(2) by (rule ids_set_rows) (simp_all add: cancelled_execution_def)
  have "\<forall>d\<in>set (deliveries s'). (del_region d = g \<and> del_correlation d = cor) \<longrightarrow> terminal_delivery (del_status d)"
    unfolding s'(3)
    by (rule set_rows_done) (auto simp: run_deliveries_def cancelled_delivery_def terminal_delivery_def)
  moreover have "\<forall>x\<in>set (executions s'). exe_delivery x \<in> set (map del_id (run_deliveries g cor s)) \<longrightarrow>
      terminal_execution (exe_status x)"
    unfolding s'(2)
    by (rule set_rows_done) (auto simp: run_executions_def cancelled_execution_def terminal_execution_def)
  moreover have "\<forall>a\<in>set (attempts s'). att_execution a \<in> set (map exe_id (run_executions g cor s)) \<longrightarrow>
      terminal_attempt (att_status a)"
    unfolding s'(1)
    by (rule set_rows_done) (auto simp: run_attempts_def cancelled_attempt_def terminal_attempt_def)
  ultimately show ?thesis
    unfolding run_over_def list_all_iff run_attempts_def run_executions_def [of g cor s'] run_deliveries_def [of g cor s']
    using dids xids unfolding run_deliveries_def [of g cor s'] run_executions_def [of g cor s'] by simp
qed

lemma cancel_new_Inr:
  assumes "cancel_new e c run cor i reason digest s = Inr (r, s')"
  obtains t n where "cancel_rows e (run_deliveries (cmd_region run) cor s) (run_executions (cmd_region run) cor s)
      (run_attempts (cmd_region run) cor s) t = Inr (n, s')"
    and "deliveries t = deliveries s" and "executions t = executions s" and "attempts t = attempts s"
    and "external_actions t = external_actions s"
    and "commands t = commands s @ [cancel_command e c run i reason digest (new_uuid e (drawn s))]"
    and "r = \<lparr>ca_run = cmd_id run, ca_command = Some (new_uuid e (drawn s)), ca_client = cn_client i,
          ca_disposition = Accepted, ca_deliveries = fst n, ca_executions = fst (snd n), ca_attempts = snd (snd n)\<rparr>"
  using assms
  by (auto simp: cancel_new_def tx_Inr fresh_uuid_Inr insert_command_def run_deliveries_def
      run_executions_def run_attempts_def elim!: insert_event_Inr split: if_splits)

lemma cancel_body_Inr:
  assumes "cancel_body e c runId i reason s = Inr (r, s')"
  obtains (fresh) run cor where "List.find (\<lambda>r. cmd_id r = runId) (commands s) = Some run"
      and "cmd_correlation run = Some cor" and "cor \<noteq> []"
      and "find_by_key (cmd_region run) (Some (cancel_key c i)) s = None"
      and "cancel_new e c run cor i reason (cancel_digest e runId i reason) s = Inr (r, s')"
  | (replay) run cor old where "List.find (\<lambda>r. cmd_id r = runId) (commands s) = Some run"
      and "cmd_correlation run = Some cor" and "cor \<noteq> []"
      and "find_by_key (cmd_region run) (Some (cancel_key c i)) s = Some old"
      and "cmd_digest old = cancel_digest e runId i reason" and "s' = s"
      and "r = cancellationReceipt runId (cmd_region run) cor i s"
proof -
  obtain run cor where run: "List.find (\<lambda>r. cmd_id r = runId) (commands s) = Some run"
      "cmd_correlation run = Some cor" "cor \<noteq> []"
    using assms by (auto simp: cancel_body_def Let_def tx_Inr truthy_def)
  show thesis
  proof (cases "find_by_key (cmd_region run) (Some (cancel_key c i)) s")
    case None
    with assms run show thesis by (intro fresh) (auto simp: cancel_body_def Let_def tx_Inr)
  next
    case (Some old)
    with assms run show thesis by (intro replay) (auto simp: cancel_body_def Let_def tx_Inr)
  qed
qed

lemma cancelRun_Inr:
  "cancelRun e c runId i s = (Inr r, s') \<longleftrightarrow>
     requireOperator c = Inr () \<and> requireClientRequestId (cn_client i) = Inr () \<and>
     (\<exists>reason. requireReason (cn_reason i) = Inr reason \<and>
        cancel_body e c runId i reason s = Inr (r, s'))"
  by (auto simp: cancelRun_def transaction_cases split: sum.splits)

text \<open>C17. A cancellation that is accepted stops the run for good: every delivery, execution and attempt of
  the run is terminal, no worker holds a lease on one of its executions any more, at whatever time it
  asks, and no external action is touched.\<close>

theorem cancel_stops_run:
  assumes "cancelRun e c runId i s = (Inr r, s')" and "ca_disposition r = Accepted"
  shows "\<exists>run cor. run \<in> set (commands s) \<and> cmd_id run = runId \<and> cmd_correlation run = Some cor \<and>
    (\<forall>d\<in>set (run_deliveries (cmd_region run) cor s'). terminal_delivery (del_status d)) \<and>
    (\<forall>x\<in>set (run_executions (cmd_region run) cor s'). terminal_execution (exe_status x)) \<and>
    (\<forall>a\<in>set (run_attempts (cmd_region run) cor s'). terminal_attempt (att_status a)) \<and>
    (\<forall>x\<in>set (run_executions (cmd_region run) cor s'). \<forall>ai. ai_execution ai = exe_id x \<longrightarrow>
       \<not> has_lease e' ai s') \<and>
    external_actions s' = external_actions s"
proof -
  obtain reason where "cancel_body e c runId i reason s = Inr (r, s')"
    using assms(1) by (auto simp: cancelRun_Inr)
  then show ?thesis
  proof (cases rule: cancel_body_Inr)
    case (fresh run cor)
    from fresh(5) obtain t n where rows: "cancel_rows e (run_deliveries (cmd_region run) cor s)
        (run_executions (cmd_region run) cor s) (run_attempts (cmd_region run) cor s) t = Inr (n, s')"
      and t: "deliveries t = deliveries s" "executions t = executions s" "attempts t = attempts s"
        "external_actions t = external_actions s"
      by (rule cancel_new_Inr) blast
    from t(1,2,3) have runs: "run_deliveries g cor t = run_deliveries g cor s" "run_executions g cor t = run_executions g cor s"
      "run_attempts g cor t = run_attempts g cor s" for g
      by (simp_all add: run_deliveries_def run_executions_def run_attempts_def)
    have over: "run_over (cmd_region run) cor s'"
      using rows unfolding runs [symmetric] by (rule cancel_rows_over)
    have "\<not> has_lease e' ai s'" if "x \<in> set (run_executions (cmd_region run) cor s')" "ai_execution ai = exe_id x" for x ai
    proof
      assume "has_lease e' ai s'"
      then obtain a y g where row: "joined_attempt ai s' = Some (a, y, g)" and "active (att_status a)"
        by (auto simp: has_lease_def lease_current_def split: option.splits prod.splits)
      moreover have "a \<in> set (run_attempts (cmd_region run) cor s')"
        using joined_attempt_Some(1,3) [OF row] that by (auto simp: run_attempts_def)
      ultimately show False
        using over by (auto simp: run_over_def list_all_iff terminal_attempt_def active_def)
    qed
    moreover have "external_actions s' = external_actions s"
      using cancel_rows_Inr(5) [OF rows] t(4) by simp
    ultimately show ?thesis
      using over fresh(1,2) find_Some_mem [OF fresh(1)]
      by (intro exI [of _ run] exI [of _ cor]) (auto simp: run_over_def list_all_iff)
  next
    case (replay run cor old)
    with assms(2) show ?thesis by (simp add: cancellationReceipt_def)
  qed
qed


subsection \<open>Decisions\<close>

lemma decideApproval_Inr:
  "decideApproval e c aid i s = (Inr r, s') \<longleftrightarrow>
     requireOperator c = Inr () \<and> requireClientRequestId (dr_client i) = Inr () \<and>
     (\<exists>reason d. requireReason (dr_reason i) = Inr reason \<and> dr_decision i = Some d \<and>
        decide_body e c i d reason aid s = Inr (r, s'))"
  by (auto simp: decideApproval_def transaction_cases split: sum.splits option.splits)

lemma decideApproval_Inl: "decideApproval e c aid i s = (Inl err, s') \<Longrightarrow> s' = s"
  by (auto simp: decideApproval_def transaction_cases split: sum.splits option.splits)

lemma cancelRun_Inl: "cancelRun e c runId i s = (Inl err, s') \<Longrightarrow> s' = s"
  by (auto simp: cancelRun_def transaction_cases split: sum.splits)

lemma decide_body_Inr:
  assumes "decide_body e c i d reason aid s = Inr (r, s')"
  obtains (replay) a where "List.find (\<lambda>a. apr_id a = aid) (approvals s) = Some a"
      and "apr_status a \<noteq> AprRequested" and "s' = s" and "ar_disposition r = Replayed"
      and "apr_decided_by a = Some (oc_principal c)" and "apr_client_request a = Some (dr_client i)"
      and "apr_request_digest a = Some (decision_digest e aid i d reason)"
  | (decide) a where "List.find (\<lambda>a. apr_id a = aid) (approvals s) = Some a"
      and "apr_status a = AprRequested"
      and "\<forall>x\<in>set (external_actions s). xa_approval x = Some aid \<longrightarrow> xa_status x = XAwaitingApproval"
      and "case List.find (\<lambda>a. apr_decided_by a = Some (oc_principal c) \<and>
        apr_client_request a = Some (dr_client i)) (approvals s) of None \<Rightarrow> True | Some a \<Rightarrow> apr_id a = aid"
      and "s' = s\<lparr>approvals := set_rows (\<lambda>a. apr_id a = aid)
          (decided_approval e c i d reason (decision_digest e aid i d reason)) (approvals s),
        external_actions := set_rows (\<lambda>x. xa_approval x = Some aid)
          (\<lambda>x. x\<lparr>xa_status := (if d = Approve then XAuthorized else XDenied)\<rparr>) (external_actions s)\<rparr>"
      and "r = approvalReceipt aid c i d reason Accepted"
proof -
  obtain a where reused: "case List.find (\<lambda>a. apr_decided_by a = Some (oc_principal c) \<and>
        apr_client_request a = Some (dr_client i)) (approvals s) of None \<Rightarrow> True | Some a \<Rightarrow> apr_id a = aid"
    and a: "List.find (\<lambda>a. apr_id a = aid) (approvals s) = Some a"
    and rest: "(if apr_status a \<noteq> AprRequested then replay_decision c i d reason (decision_digest e aid i d reason) a
      else decide_pending e c i d reason (decision_digest e aid i d reason) aid) s = Inr (r, s')"
    using assms by (auto simp: decide_body_def Let_def tx_Inr)
  show thesis
  proof (cases "apr_status a = AprRequested")
    case False
    with rest have "replay_decision c i d reason (decision_digest e aid i d reason) a s = Inr (r, s')" by simp
    then show thesis
      using a False by (intro replay) (auto simp: replay_decision_def tx_Inr approvalReceipt_def split: if_splits)
  next
    case True
    with rest have run: "decide_pending e c i d reason (decision_digest e aid i d reason) aid s = Inr (r, s')" by simp
    have none: "filter (\<lambda>x. xa_approval x = Some aid) (external_actions s) = [] \<Longrightarrow>
        set_rows (\<lambda>x. xa_approval x = Some aid) f (external_actions s) = external_actions s" for f
      by (rule set_rows_none) (simp add: filter_empty_conv)
    have "\<forall>x\<in>set (external_actions s). xa_approval x = Some aid \<longrightarrow> xa_status x = XAwaitingApproval"
      using run by (auto simp: decide_pending_def tx_Inr list_all_iff)
    moreover have "s' = s\<lparr>approvals := set_rows (\<lambda>a. apr_id a = aid)
          (decided_approval e c i d reason (decision_digest e aid i d reason)) (approvals s),
        external_actions := set_rows (\<lambda>x. xa_approval x = Some aid)
          (\<lambda>x. x\<lparr>xa_status := (if d = Approve then XAuthorized else XDenied)\<rparr>) (external_actions s)\<rparr>"
      using run none
      by (auto simp: decide_pending_def tx_Inr update_approvals_def update_rows_Inr
          dest!: update_actions_Inr split: sum.splits if_splits)
    moreover have "r = approvalReceipt aid c i d reason Accepted"
      using run by (auto simp: decide_pending_def tx_Inr)
    ultimately show thesis using a True reused by (intro decide)
  qed
qed

lemma find_settled:
  assumes "case List.find p rows of None \<Rightarrow> True | Some r \<Rightarrow> q r"
    and "\<And>r. p (f r)" and "\<And>r. q (f r) = q r"
  shows "case List.find p (set_rows q f rows) of None \<Rightarrow> True | Some r \<Rightarrow> q r"
  using assms(1) by (induction rows) (auto simp: assms(2,3))

text \<open>The digests of requests do not depend on the time.\<close>

lemma json_digest_at_time [simp]: "json_digest (at_time e t u) j = json_digest e j"
  by (simp only: json_digest_def canonical_text_def stringify_at_time sha256_at_time)

lemma decision_digest_at_time [simp]: "decision_digest (at_time e t u) aid i d reason = decision_digest e aid i d reason"
  by (simp add: decision_digest_def)

lemma cancel_digest_at_time [simp]: "cancel_digest (at_time e t u) runId i reason = cancel_digest e runId i reason"
  by (simp add: cancel_digest_def)

lemma decide_body_settled:
  assumes "decide_body e c i d reason aid s = Inr (r, s')"
  shows "\<exists>r'. decide_body (at_time e t u) c i d reason aid s' = Inr (r', s') \<and>
    ar_reason r' = ar_reason r \<and> ar_decision r' = ar_decision r"
proof -
  have again: "\<exists>r'. decide_body (at_time e t u) c i d reason aid v = Inr (r', v) \<and>
      ar_reason r' = (case apr_reason a of None \<Rightarrow> reason | Some w \<Rightarrow> w) \<and> ar_decision r' = d"
    if "List.find (\<lambda>a. apr_id a = aid) (approvals v) = Some a" "apr_status a \<noteq> AprRequested"
      "apr_decided_by a = Some (oc_principal c)" "apr_client_request a = Some (dr_client i)"
      "apr_request_digest a = Some (decision_digest e aid i d reason)"
      "case List.find (\<lambda>a. apr_decided_by a = Some (oc_principal c) \<and>
        apr_client_request a = Some (dr_client i)) (approvals v) of None \<Rightarrow> True | Some a \<Rightarrow> apr_id a = aid"
    for a v
    using that by (simp add: decide_body_def Let_def tx_simps replay_decision_def approvalReceipt_def
        split: option.splits)
  from assms show ?thesis
  proof (cases rule: decide_body_Inr)
    case (replay a)
    have "decide_body e c i d reason aid s = Inr (r, s)" using assms replay(3) by simp
    then show ?thesis
      using replay by (auto simp: decide_body_def Let_def tx_simps replay_decision_def approvalReceipt_def
        split: option.splits if_splits)
  next
    case (decide a)
    let ?f = "decided_approval e c i d reason (decision_digest e aid i d reason)"
    have "List.find (\<lambda>a. apr_id a = aid) (approvals s') = Some (?f a)"
      using decide(1) find_Some_mem [OF decide(1)]
      by (simp add: decide(5) find_set_rows decided_approval_def)
    moreover have "case List.find (\<lambda>a. apr_decided_by a = Some (oc_principal c) \<and>
        apr_client_request a = Some (dr_client i)) (approvals s') of None \<Rightarrow> True | Some a \<Rightarrow> apr_id a = aid"
      unfolding decide(5) by simp (rule find_settled [OF decide(4)], simp_all add: decided_approval_def)
    ultimately show ?thesis
      using again [of s' "?f a"] decide(6) by (simp add: decided_approval_def approvalReceipt_def)
  qed
qed

lemma cancel_body_settled:
  assumes "cancel_body e c runId i reason s = Inr (r, s')"
  shows "\<exists>r'. cancel_body (at_time e t u) c runId i reason s' = Inr (r', s') \<and>
    ca_run r' = runId"
proof -
  have again: "\<exists>r'. cancel_body (at_time e t u) c runId i reason v = Inr (r', v) \<and> ca_run r' = runId"
    if "List.find (\<lambda>r. cmd_id r = runId) (commands v) = Some run" "cmd_correlation run = Some cor" "cor \<noteq> []"
      "find_by_key (cmd_region run) (Some (cancel_key c i)) v = Some old"
      "cmd_digest old = cancel_digest e runId i reason" for run cor old v
    using that by (simp add: cancel_body_def Let_def tx_simps truthy_def cancellationReceipt_def)
  from assms show ?thesis
  proof (cases rule: cancel_body_Inr)
    case (fresh run cor)
    let ?new = "cancel_command e c run i reason (cancel_digest e runId i reason) (new_uuid e (drawn s))"
    from fresh(5) obtain t n where rows: "cancel_rows e (run_deliveries (cmd_region run) cor s)
        (run_executions (cmd_region run) cor s) (run_attempts (cmd_region run) cor s) t = Inr (n, s')"
      and "commands t = commands s @ [?new]"
      by (rule cancel_new_Inr) blast
    then have cmds: "commands s' = commands s @ [?new]" using cancel_rows_Inr(4) [OF rows] by simp
    have "List.find (\<lambda>r. cmd_id r = runId) (commands s') = Some run"
      using fresh(1) by (simp add: cmds find_append_fresh)
    moreover have "find_by_key (cmd_region run) (Some (cancel_key c i)) s' = Some ?new"
      using fresh(4) by (simp add: find_by_key_def cmds find_append_fresh cancel_command_def)
    ultimately show ?thesis
      using again fresh(2,3) by (simp add: cancel_command_def)
  next
    case (replay run cor old)
    with again [of s run cor old] show ?thesis by blast
  qed
qed

interpretation decisions: keyed_request
  "\<lambda>t. decideApproval (at_time e t t) c aid i" "\<lambda>_. True"
  "\<lambda>r r'. ar_reason r' = ar_reason r \<and> ar_decision r' = ar_decision r"
proof
  show "decideApproval (at_time e t t) c aid i s = (Inl err, s') \<Longrightarrow> s' = s" for t s err s'
    by (rule decideApproval_Inl)
  show "\<exists>r'. decideApproval (at_time e u u) c aid i s' = (Inr r', s') \<and>
      ar_reason r' = ar_reason r \<and> ar_decision r' = ar_decision r"
    if run: "decideApproval (at_time e t t) c aid i s = (Inr r, s')" for t s r s' u
  proof -
    from run obtain reason d where "requireReason (dr_reason i) = Inr reason" "dr_decision i = Some d"
      and body: "decide_body (at_time e t t) c i d reason aid s = Inr (r, s')"
      by (auto simp: decideApproval_Inr)
    with decide_body_settled [OF body, of u u] run show ?thesis
      by (auto simp: decideApproval_Inr at_time_def)
  qed
qed

interpretation cancels: keyed_request
  "\<lambda>t. cancelRun (at_time e t t) c runId i" "\<lambda>_. True" "\<lambda>r r'. ca_run r' = runId"
proof
  show "cancelRun (at_time e t t) c runId i s = (Inl err, s') \<Longrightarrow> s' = s" for t s err s'
    by (rule cancelRun_Inl)
  show "\<exists>r'. cancelRun (at_time e u u) c runId i s' = (Inr r', s') \<and> ca_run r' = runId"
    if run: "cancelRun (at_time e t t) c runId i s = (Inr r, s')" for t s r s' u
  proof -
    from run obtain reason where "requireReason (cn_reason i) = Inr reason"
      and body: "cancel_body (at_time e t t) c runId i reason s = Inr (r, s')"
      by (auto simp: cancelRun_Inr)
    with cancel_body_settled [OF body, of u u] run show ?thesis
      by (auto simp: cancelRun_Inr at_time_def)
  qed
qed

text \<open>A cancellation or a decision that the operator's client sends again and again, at any times,
  leaves the store as it was or as exactly one of the requests left it.\<close>

theorem operator_requests_once:
  "(resent (\<lambda>t. cancelRun (at_time e t t) c runId i) ts s = s \<or>
    (\<exists>t\<in>set ts. \<exists>r. cancelRun (at_time e t t) c runId i s =
      (Inr r, resent (\<lambda>t. cancelRun (at_time e t t) c runId i) ts s))) \<and>
   (resent (\<lambda>t. decideApproval (at_time e t t) c aid j) ts s = s \<or>
    (\<exists>t\<in>set ts. \<exists>r. decideApproval (at_time e t t) c aid j s =
      (Inr r, resent (\<lambda>t. decideApproval (at_time e t t) c aid j) ts s)))"
  using cancels.once [OF TrueI] decisions.once [OF TrueI] by blast

text \<open>C19. A decision is accepted only on an approval that is requested and whose actions all wait for it.
  It authorizes or denies exactly these actions, and after it no decision of anyone changes the store
  under that approval.\<close>

theorem approval_decided_once:
  assumes "decideApproval e c aid i s = (Inr r, s')" and "ar_disposition r = Accepted"
  shows "(\<exists>a\<in>set (approvals s). apr_id a = aid \<and> apr_status a = AprRequested) \<and>
    (\<forall>x\<in>set (external_actions s). xa_approval x = Some aid \<longrightarrow> xa_status x = XAwaitingApproval) \<and>
    (\<forall>x\<in>set (external_actions s'). xa_approval x = Some aid \<longrightarrow>
       xa_status x = (if ar_decision r = Approve then XAuthorized else XDenied)) \<and>
    (\<forall>x\<in>set (external_actions s). xa_approval x \<noteq> Some aid \<longrightarrow> x \<in> set (external_actions s')) \<and>
    snd (decideApproval e' c' aid j s') = s'"
proof -
  obtain reason d where "decide_body e c i d reason aid s = Inr (r, s')"
    using assms(1) by (auto simp: decideApproval_Inr)
  then show ?thesis
  proof (cases rule: decide_body_Inr)
    case (replay a)
    with assms(2) show ?thesis by simp
  next
    case (decide a)
    let ?f = "decided_approval e c i d reason (decision_digest e aid i d reason)"
    have found: "List.find (\<lambda>a. apr_id a = aid) (approvals s') = Some (?f a)"
      using decide(1) find_Some_mem [OF decide(1)]
      by (simp add: decide(5) find_set_rows decided_approval_def)
    have final: "snd (decideApproval e' c' aid j s') = s'"
    proof (cases "decideApproval e' c' aid j s'")
      case (Pair v t)
      show ?thesis
      proof (cases v)
        case (Inl err)
        with Pair show ?thesis by (auto dest: decideApproval_Inl)
      next
        case (Inr r')
        with Pair obtain reason' d' where "decide_body e' c' j d' reason' aid s' = Inr (r', t)"
          by (auto simp: decideApproval_Inr)
        then have "t = s'"
        proof (cases rule: decide_body_Inr)
          case (decide b)
          with found show ?thesis by (simp add: decided_approval_def split: if_splits)
        qed
        with Pair show ?thesis by simp
      qed
    qed
    have after: "external_actions s' = set_rows (\<lambda>x. xa_approval x = Some aid)
        (\<lambda>x. x\<lparr>xa_status := (if d = Approve then XAuthorized else XDenied)\<rparr>) (external_actions s)"
      by (simp add: decide(5))
    have "\<forall>x\<in>set (external_actions s'). xa_approval x = Some aid \<longrightarrow>
       xa_status x = (if d = Approve then XAuthorized else XDenied)"
      unfolding after by (rule set_rows_ball) simp_all
    moreover have "\<forall>x\<in>set (external_actions s). xa_approval x \<noteq> Some aid \<longrightarrow> x \<in> set (external_actions s')"
      unfolding after set_rows_def by (auto simp: image_iff)
    moreover have "ar_decision r = d" by (simp add: decide(6) approvalReceipt_def)
    ultimately show ?thesis
      using decide(2,3) find_Some_mem [OF decide(1)] final by auto
  qed
qed

text \<open>A decision is one of the steps the rest of the system may take between the dispatches of
  external actions: it never brings an action back before its authorization.\<close>

lemma decideApproval_keeps_spent: "keeps_spent s (snd (decideApproval e c aid i s))"
proof (cases "decideApproval e c aid i s")
  case (Pair v t)
  show ?thesis
  proof (cases v)
    case (Inl err)
    with Pair show ?thesis by (auto dest: decideApproval_Inl)
  next
    case (Inr r)
    with Pair obtain reason d where "decide_body e c i d reason aid s = Inr (r, t)"
      by (auto simp: decideApproval_Inr)
    then have "keeps_spent s t"
    proof (cases rule: decide_body_Inr)
      case (decide a)
      have after: "external_actions t = set_rows (\<lambda>x. xa_approval x = Some aid)
          (\<lambda>x. x\<lparr>xa_status := (if d = Approve then XAuthorized else XDenied)\<rparr>) (external_actions s)"
        by (simp add: decide(5))
      have "map xa_id (external_actions t) = map xa_id (external_actions s)"
        unfolding after by (rule map_set_rows) simp
      moreover have "spent_in j t" if "spent_in j s" for j
      proof -
        from that obtain x where x: "x \<in> set (external_actions s)" "xa_id x = j" "spent (xa_status x)"
          by (auto simp: spent_in_def list_ex_iff)
        with decide(3) have "xa_approval x \<noteq> Some aid" by (auto simp: spent_def)
        with x(1) have "x \<in> set (external_actions t)"
          unfolding after set_rows_def by (auto simp: image_iff)
        with x show ?thesis by (auto simp: spent_in_def list_ex_iff)
      qed
      ultimately show ?thesis by (simp add: keeps_spent_def)
    qed simp
    with Pair show ?thesis by simp
  qed
qed

lemma cancelRun_keeps_spent: "cancelRun e c runId i s = (v, s') \<Longrightarrow> keeps_spent s s'"
proof (cases v)
  case (Inr r)
  assume "cancelRun e c runId i s = (v, s')"
  with Inr obtain reason where "cancel_body e c runId i reason s = Inr (r, s')"
    by (auto simp: cancelRun_Inr)
  then show ?thesis
  proof (cases rule: cancel_body_Inr)
    case (fresh run cor)
    from fresh(5) obtain t n where rows: "cancel_rows e (run_deliveries (cmd_region run) cor s)
        (run_executions (cmd_region run) cor s) (run_attempts (cmd_region run) cor s) t = Inr (n, s')"
      and "external_actions t = external_actions s"
      by (rule cancel_new_Inr) blast
    with cancel_rows_Inr(5) [OF rows] show ?thesis by (intro keeps_spent_same) simp
  qed simp
qed (auto dest: cancelRun_Inl)


subsection \<open>The row constraints\<close>

lemma checks_decideApproval: "db_checks s \<Longrightarrow> db_checks (snd (decideApproval e c aid i s))"
proof -
  have "keeps db_checks (decide_pending e c i d reason digest aid)" for d reason digest
    unfolding decide_pending_def
    by (intro keeps_bind keeps_get keeps_guard keeps_if keeps_ret checks_update_approvals checks_update_actions)
  then have "keeps db_checks (decide_body e c i d reason aid)" for d reason
    unfolding decide_body_def Let_def replay_decision_def
    by (intro keeps_bind keeps_get keeps_guard keeps_if keeps_ret keeps_throw keeps_or_throw)
  then show "db_checks s \<Longrightarrow> ?thesis"
    by (auto simp: decideApproval_def intro: checks_transaction split: sum.splits option.splits)
qed

lemma checks_cancelRun: "db_checks s \<Longrightarrow> db_checks (snd (cancelRun e c runId i s))"
proof -
  have "keeps db_checks (cancel_rows e ds xs ts)" for ds xs ts
    unfolding cancel_rows_def Let_def
    by (intro keeps_bind keeps_ret checks_update_attempts checks_update_executions checks_update_deliveries)
  then have "keeps db_checks (cancel_new e c run cor i reason digest)" for run cor reason digest
    unfolding cancel_new_def
    by (auto intro!: keeps_bind keeps_get keeps_ret checks_fresh_uuid checks_insert_command checks_insert_event)
  then have "keeps db_checks (cancel_body e c runId i reason)" for reason
    unfolding cancel_body_def Let_def
    by (intro keeps_bind keeps_get keeps_guard keeps_or_throw keeps_option)
  then show "db_checks s \<Longrightarrow> ?thesis"
    by (auto simp: cancelRun_def intro: checks_transaction split: sum.splits)
qed

subsection \<open>A cancellation always goes through\<close>

lemma cancelled_rows_ok:
  "attempt_ok a \<Longrightarrow> attempt_ok (cancelled_attempt e a)"
  "execution_ok x \<Longrightarrow> execution_ok (cancelled_execution e x)"
  "delivery_ok d \<Longrightarrow> \<not> terminal_delivery (del_status d) \<Longrightarrow> delivery_ok (cancelled_delivery d)"
  by (auto simp: attempt_ok_def cancelled_attempt_def active_def leased_fields_def no_lease_def
      execution_ok_def cancelled_execution_def delivery_ok_def cancelled_delivery_def terminal_delivery_def)

text \<open>C18. Nothing in the store blocks a cancellation. A valid request with a new key for an existing run is
  accepted whatever the states of the run's rows, and reports the deliveries that were still open.\<close>

theorem cancel_succeeds:
  assumes "requireOperator c = Inr ()" and "\<not> blank (cn_client i)" and "requireReason (cn_reason i) = Inr reason"
    and "List.find (\<lambda>r. cmd_id r = runId) (commands s) = Some run" and "cmd_correlation run = Some cor"
    and "cor \<noteq> []" and "find_by_key (cmd_region run) (Some (cancel_key c i)) s = None"
    and "db_checks s" and "streams_gapless s" and "distinct (map del_id (deliveries s))"
  shows "\<exists>r s'. cancelRun e c runId i s = (Inr r, s') \<and> ca_disposition r = Accepted \<and>
    ca_deliveries r = length (filter (\<lambda>d. \<not> terminal_delivery (del_status d)) (run_deliveries (cmd_region run) cor s))"
proof -
  let ?cmd = "cancel_command e c run i reason (cancel_digest e runId i reason) (new_uuid e (drawn s))"
  let ?s1 = "s\<lparr>drawn := Suc (drawn s), commands := commands s @ [?cmd]\<rparr>"
  have "streams_gapless ?s1" using assms(9) by (simp add: streams_gapless_def next_seq_def)
  moreover have "event_admissible (cancel_event run cor (cancel_payload (cmd_id run) i reason) (new_uuid e (drawn s)))"
    by (simp add: event_admissible_def cancel_event_def)
  ultimately obtain v t where ev: "insert_event e (cancel_event run cor (cancel_payload (cmd_id run) i reason)
      (new_uuid e (drawn s))) ?s1 = Inr (v, t)"
    using insert_event_appends by blast
  then have t: "deliveries t = deliveries s" "executions t = executions s" "attempts t = attempts s"
    by (auto elim!: insert_event_Inr)
  let ?ds = "run_deliveries (cmd_region run) cor s"
  have ok: "\<forall>a\<in>set (attempts s). attempt_ok a" "\<forall>x\<in>set (executions s). execution_ok x"
    "\<forall>d\<in>set (deliveries s). delivery_ok d"
    using assms(8) by (simp_all add: db_checks_def list_all_iff)
  have del: "\<not> terminal_delivery (del_status d)"
    if "d \<in> set (deliveries s)" "del_id d \<in> set (map del_id (filter (\<lambda>d. \<not> terminal_delivery (del_status d)) ?ds))" for d
  proof -
    from that(2) obtain d' where "d' \<in> set (deliveries s)" "del_id d' = del_id d" "\<not> terminal_delivery (del_status d')"
      by (auto simp: run_deliveries_def)
    with that(1) assms(10) show ?thesis by (metis distinct_map inj_onD)
  qed
  have ids: "find_by_key (cmd_region run) (Some (cancel_key c i)) s = None \<Longrightarrow>
      \<not> list_ex (same_command_key ?cmd) (commands s)"
    by (auto simp: find_by_key_def find_None_iff same_command_key_def cancel_command_def list_ex_iff)
  have "\<exists>s' nx na. cancel_rows e ?ds (run_executions (cmd_region run) cor s) (run_attempts (cmd_region run) cor s) t
      = Inr ((length (filter (\<lambda>d. \<not> terminal_delivery (del_status d)) ?ds), nx, na), s')"
    using ok del
    by (simp add: cancel_rows_def Let_def tx_simps update_attempts_inactive cancelled_inactive t
        update_executions_eq update_deliveries_eq cancelled_rows_ok)
  then obtain s' nx na where rows: "cancel_rows e ?ds (run_executions (cmd_region run) cor s)
      (run_attempts (cmd_region run) cor s) t
      = Inr ((length (filter (\<lambda>d. \<not> terminal_delivery (del_status d)) ?ds), nx, na), s')" by blast
  have runs: "run_deliveries g k t = run_deliveries g k s" "run_executions g k t = run_executions g k s"
    "run_attempts g k t = run_attempts g k s" for g k
    using t by (simp_all add: run_deliveries_def run_executions_def run_attempts_def)
  have ins: "insert_command False ?cmd (s\<lparr>drawn := Suc (drawn s)\<rparr>) = Inr (Some ?cmd, ?s1)"
    using ids [OF assms(7)] by (simp add: insert_command_def command_ok_def) (simp add: cancel_command_def)
  have "cancel_new e c run cor i reason (cancel_digest e runId i reason) s = Inr (\<lparr>ca_run = cmd_id run,
      ca_command = Some (new_uuid e (drawn s)), ca_client = cn_client i, ca_disposition = Accepted,
      ca_deliveries = length (filter (\<lambda>d. \<not> terminal_delivery (del_status d)) ?ds),
      ca_executions = nx, ca_attempts = na\<rparr>, s')"
    by (simp add: cancel_new_def tx_simps fresh_uuid_app ins ev runs rows)
  then have "cancel_body e c runId i reason s = Inr (\<lparr>ca_run = cmd_id run,
      ca_command = Some (new_uuid e (drawn s)), ca_client = cn_client i, ca_disposition = Accepted,
      ca_deliveries = length (filter (\<lambda>d. \<not> terminal_delivery (del_status d)) ?ds),
      ca_executions = nx, ca_attempts = na\<rparr>, s')"
    by (simp add: cancel_body_def Let_def tx_simps assms(4-7) truthy_def)
  then show ?thesis
    using assms(1-3) by (simp add: cancelRun_Inr requireClientRequestId_def)
qed

subsection \<open>Samples\<close>

definition sample_operator :: operator_context where
  "sample_operator = \<lparr>oc_principal = ''op'', oc_roles = [''operator''], oc_adapter = None\<rparr>"

definition sample_cancel :: cancel_request where
  "sample_cancel = \<lparr>cn_client = ''q1'', cn_reason = ''wrong task''\<rparr>"

text \<open>A run with one execution, leased to a worker.\<close>

definition run_store :: db where
  "run_store = commit_store 1\<lparr>commands :=
     [\<lparr>cmd_id = ''c'', cmd_region = ''r'', cmd_type = ''go'', cmd_payload = JNull, cmd_source = JNull,
       cmd_status = CAccepted, cmd_correlation = Some ''c'', cmd_key = None, cmd_expires = None,
       cmd_digest = ''h'', cmd_rejection = None, cmd_accepted_at = Some 0, cmd_rejected_at = None\<rparr>]\<rparr>"

definition waiting_store :: db where
  "waiting_store = run_store\<lparr>approvals := [requested_approval ''ap'' ''pd'' 0],
     external_actions := [(sample_action XAwaitingApproval)\<lparr>xa_approval := Some ''ap''\<rparr>]\<rparr>"

definition sample_decision :: decision_request where
  "sample_decision = \<lparr>dr_client = ''q2'', dr_decision = Some Approve, dr_reason = ''fine''\<rparr>"

lemma sample_cancel_runs:
  "case fst (cancelRun sample_env sample_operator ''c'' sample_cancel run_store) of
     Inr r \<Rightarrow> ca_disposition r = Accepted \<and> ca_deliveries r = 1 \<and> ca_attempts r = 1 | _ \<Rightarrow> False"
  by code_simp

lemma sample_decision_runs:
  "case fst (decideApproval sample_env sample_operator ''ap'' sample_decision waiting_store) of
     Inr r \<Rightarrow> ar_disposition r = Accepted | _ \<Rightarrow> False"
  by code_simp

lemma run_store_checks: "db_checks run_store"
  by code_simp

theorem cancel_stops_run_witness:
  "\<exists>r s'. cancelRun sample_env sample_operator ''c'' sample_cancel run_store = (Inr r, s') \<and>
     (\<exists>run cor. run \<in> set (commands run_store) \<and> cmd_correlation run = Some cor \<and>
       (\<forall>a\<in>set (run_attempts (cmd_region run) cor s'). terminal_attempt (att_status a)))"
proof -
  obtain r s' where run: "cancelRun sample_env sample_operator ''c'' sample_cancel run_store = (Inr r, s')"
    and "ca_disposition r = Accepted"
    using sample_cancel_runs
    by (cases "cancelRun sample_env sample_operator ''c'' sample_cancel run_store") (auto split: sum.splits)
  from cancel_stops_run [OF this, of sample_env] run show ?thesis by blast
qed

theorem approval_decided_once_witness:
  "\<exists>r s'. decideApproval sample_env sample_operator ''ap'' sample_decision waiting_store = (Inr r, s') \<and>
     snd (decideApproval sample_env sample_operator ''ap'' (sample_decision\<lparr>dr_client := ''q3''\<rparr>) s') = s'"
proof -
  obtain r s' where run: "decideApproval sample_env sample_operator ''ap'' sample_decision waiting_store = (Inr r, s')"
    and "ar_disposition r = Accepted"
    using sample_decision_runs
    by (cases "decideApproval sample_env sample_operator ''ap'' sample_decision waiting_store")
      (auto split: sum.splits)
  from approval_decided_once [OF this] run show ?thesis by blast
qed

theorem cancel_succeeds_witness:
  "\<exists>r s'. cancelRun sample_env sample_operator ''c'' sample_cancel run_store = (Inr r, s') \<and>
     ca_disposition r = Accepted"
proof -
  have "requireOperator sample_operator = Inr ()" "\<not> blank (cn_client sample_cancel)"
    "requireReason (cn_reason sample_cancel) = Inr ''wrong task''" by code_simp+
  moreover have "streams_gapless run_store"
    by (simp add: streams_gapless_def run_store_def commit_store_def lease_store_def empty_db_def next_seq_def)
  moreover have "distinct (map del_id (deliveries run_store))" by code_simp
  moreover have "List.find (\<lambda>r. cmd_id r = ''c'') (commands run_store) = Some (hd (commands run_store))"
    "cmd_correlation (hd (commands run_store)) = Some ''c''" by (simp_all add: run_store_def)
  moreover have "find_by_key (cmd_region (hd (commands run_store)))
      (Some (cancel_key sample_operator sample_cancel)) run_store = None"
    by (simp add: run_store_def find_by_key_def)
  ultimately show ?thesis
    using cancel_succeeds [of sample_operator sample_cancel "''wrong task''" "''c''" run_store
        "hd (commands run_store)" "''c''" sample_env] run_store_checks by blast
qed

end
