(* ===== verification/Observability.thy ===== *)
theory Observability
  imports Canonical Store Capability
begin

section \<open>Inspection pages and projection checkpoints\<close>

text \<open>
  \<open>runtime-core/src/observability/observability-service.ts\<close>: the paged lists of the inspection
  interface, read in the order of the ids with an opaque cursor, and the rebuild of the projection
  checkpoints, which scans the event log in batches.
\<close>

subsection \<open>Cursors\<close>

definition PROJECTION_NAMES :: "string list" where
  "PROJECTION_NAMES =
     [''region-status'', ''component-status'', ''queue-depth'', ''execution-attempt-status'',
      ''retry-failure-counts'', ''resource-usage'', ''approvals-actions'', ''active-topology'',
      ''artifact-lineage'', ''execution-timeline'']"

definition inspection_document :: "string \<Rightarrow> json" where
  "inspection_document i = JObj [(''v'', JNum 1), (''afterId'', JStr i)]"

definition encodeInspectionCursor :: "env \<Rightarrow> string \<Rightarrow> string" where
  "encodeInspectionCursor e i = base64url (stringify e (inspection_document i))"

definition decodeInspectionCursor :: "env \<Rightarrow> string option \<Rightarrow> error + string option" where
  "decodeInspectionCursor e c =
     (case c of
        None \<Rightarrow> Inr None
      | Some c \<Rightarrow>
          if c = [] then Inr None
          else (case json_parse e (base64url_bytes c) of
             None \<Rightarrow> Inl (PlainError ''invalid_cursor'')
           | Some j \<Rightarrow>
               (case (json_field j ''v'', json_field j ''afterId'') of
                  (Some v, Some (JStr i)) \<Rightarrow>
                    if v = JNum 1 then Inr (Some i) else Inl (PlainError ''invalid_cursor'')
                | _ \<Rightarrow> Inl (PlainError ''invalid_cursor''))))"

text \<open>\<open>Number.isInteger(parsed) && parsed >= 1 && parsed <= max\<close>.\<close>

definition integer_upto :: "int \<Rightarrow> js_number \<Rightarrow> nat option" where
  "integer_upto m x =
     (case x of
        NotFinite \<Rightarrow> None
      | Finite q \<Rightarrow> if of_int \<lfloor>q\<rfloor> = q \<and> 1 \<le> q \<and> q \<le> of_int m then Some (nat \<lfloor>q\<rfloor>) else None)"

definition normalizeLimit :: "js_number option \<Rightarrow> error + nat" where
  "normalizeLimit value =
     (case integer_upto 100 (case value of None \<Rightarrow> Finite 50 | Some x \<Rightarrow> x) of
        None \<Rightarrow> Inl (PlainError ''invalid_limit'') | Some n \<Rightarrow> Inr n)"

subsection \<open>Pages\<close>

record page_options =
  po_cursor :: "string option"
  po_limit :: "js_number option"

text \<open>\<open>where id > afterId\<close>, where an empty id stands for none.\<close>

definition past :: "string option \<Rightarrow> string \<Rightarrow> bool" where
  "past after i \<longleftrightarrow> (case after of None \<Rightarrow> True | Some a \<Rightarrow> a = [] \<or> a < i)"

definition page_rows :: "('r \<Rightarrow> string) \<Rightarrow> nat \<Rightarrow> string option \<Rightarrow> 'r list \<Rightarrow> 'r list" where
  "page_rows key n after rows = take n (filter (\<lambda>r. past after (key r)) (sort_key key rows))"

definition page ::
  "env \<Rightarrow> ('r \<Rightarrow> string) \<Rightarrow> page_options \<Rightarrow> 'r list \<Rightarrow> error + 'r list \<times> string option" where
  "page e key opts rows =
     (case normalizeLimit (po_limit opts) of
        Inl err \<Rightarrow> Inl err
      | Inr n \<Rightarrow>
          (case decodeInspectionCursor e (po_cursor opts) of
             Inl err \<Rightarrow> Inl err
           | Inr after \<Rightarrow>
               let found = page_rows key (Suc n) after rows; items = take n found in
               Inr (items, if n < length found
                 then Some (encodeInspectionCursor e (key (last items))) else None)))"

definition listRegions :: "env \<Rightarrow> page_options \<Rightarrow> db \<Rightarrow> error + region list \<times> string option" where
  "listRegions e opts s = page e reg_id opts (regions s)"

definition listEvents :: "env \<Rightarrow> page_options \<Rightarrow> db \<Rightarrow> error + event list \<times> string option" where
  "listEvents e opts s = page e ev_id opts (events s)"

definition listDeliveries :: "env \<Rightarrow> page_options \<Rightarrow> db \<Rightarrow> error + delivery list \<times> string option" where
  "listDeliveries e opts s = page e del_id opts (deliveries s)"

definition listExecutions :: "env \<Rightarrow> page_options \<Rightarrow> db \<Rightarrow> error + execution list \<times> string option" where
  "listExecutions e opts s = page e exe_id opts (executions s)"

definition listAttempts ::
  "env \<Rightarrow> string option \<Rightarrow> page_options \<Rightarrow> db \<Rightarrow> error + attempt list \<times> string option" where
  "listAttempts e executionId opts s =
     page e att_id opts (filter (\<lambda>a. case executionId of None \<Rightarrow> True
       | Some i \<Rightarrow> i = [] \<or> att_execution a = i) (attempts s))"

definition listArtifacts ::
  "env \<Rightarrow> page_options \<Rightarrow> db \<Rightarrow> error + (artifact \<times> artifact_schema) list \<times> string option" where
  "listArtifacts e opts s =
     page e (\<lambda>(a, c). art_id a) opts
       (concat (map (\<lambda>a. map (Pair a) (filter (\<lambda>c. sch_id c = art_schema a) (artifact_schemas s)))
         (artifacts s)))"

definition listResources :: "env \<Rightarrow> page_options \<Rightarrow> db \<Rightarrow> error + ledger_entry list \<times> string option" where
  "listResources e opts s = page e led_id opts (ledger s)"

text \<open>The left join: a decision without an approval is one row.\<close>

definition listPolicyDecisions ::
  "env \<Rightarrow> page_options \<Rightarrow> db \<Rightarrow> error + (policy_decision \<times> approval option) list \<times> string option" where
  "listPolicyDecisions e opts s =
     page e (\<lambda>(d, a). pd_id d) opts
       (concat (map (\<lambda>d. case filter (\<lambda>a. apr_decision a = pd_id d) (approvals s) of
            [] \<Rightarrow> [(d, None)] | as' \<Rightarrow> map (\<lambda>a. (d, Some a)) as')
         (policy_decisions s)))"

subsection \<open>Rebuilding the checkpoints\<close>

text \<open>The scan of the event log: how many events, the id of the last one, how many batches.\<close>

definition events_after :: "string option \<Rightarrow> event list \<Rightarrow> event list" where
  "events_after after evs =
     filter (\<lambda>v. case after of None \<Rightarrow> True | Some a \<Rightarrow> a < ev_id v) (sort_key ev_id evs)"

lemma events_after_shrinks:
  assumes "v \<in> set (events_after after evs)"
  shows "length (events_after (Some (ev_id v)) evs) < length (events_after after evs)"
proof -
  let ?p = "\<lambda>u. case after of None \<Rightarrow> True | Some a \<Rightarrow> a < ev_id u"
  have v: "v \<in> set (sort_key ev_id evs)" "?p v" using assms by (auto simp: events_after_def)
  have "filter (\<lambda>u. ev_id v < ev_id u) (sort_key ev_id evs) =
      filter (\<lambda>u. ev_id v < ev_id u) (filter ?p (sort_key ev_id evs))"
    using v(2) unfolding filter_filter by (intro filter_cong refl) (auto split: option.splits)
  also have "length \<dots> < length (filter ?p (sort_key ev_id evs))"
    using v by (intro length_filter_less [of v]) auto
  finally show ?thesis by (simp add: events_after_def)
qed

function scan_events :: "nat \<Rightarrow> event list \<Rightarrow> string option \<Rightarrow> nat \<times> string option \<times> nat" where
  "scan_events n evs after =
     (let rows = take n (events_after after evs) in
      if rows = [] then (0, after, 0)
      else if length rows < n then (length rows, Some (ev_id (last rows)), 1)
      else (case scan_events n evs (Some (ev_id (last rows))) of
         (seen, final, batches) \<Rightarrow> (length rows + seen, final, Suc batches)))"
  by auto

termination
proof (relation "measure (\<lambda>(n, evs, after). length (events_after after evs))")
  show "wf (measure (\<lambda>(n, evs, after). length (events_after after evs)))" by simp
  fix n :: nat and evs after rows
  assume rows: "rows = take n (events_after after evs)" and "rows \<noteq> []"
  then have "last rows \<in> set (events_after after evs)"
    by (metis in_set_takeD last_in_set)
  then show "((n, evs, Some (ev_id (last rows))), n, evs, after)
      \<in> measure (\<lambda>(n, evs, after). length (events_after after evs))"
    using events_after_shrinks by simp
qed

declare scan_events.simps [simp del]

definition is_checkpoint :: "checkpoint \<Rightarrow> bool" where
  "is_checkpoint c \<longleftrightarrow> ck_projection c \<in> set PROJECTION_NAMES \<and> ck_stream c = ''global''"

definition insert_checkpoint :: "checkpoint \<Rightarrow> (db, unit) tx" where
  "insert_checkpoint c = (\<lambda>s.
     if ck_sequence c < 0 then Inl (DbViolation ''projection_checkpoints_check'')
     else if list_ex (\<lambda>d. ck_projection d = ck_projection c \<and> ck_stream d = ck_stream c) (checkpoints s)
     then Inl (DbViolation ''projection_checkpoints_projection_name_stream_key_key'')
     else Inr ((), s\<lparr>checkpoints := checkpoints s @ [c]\<rparr>))"

definition write_checkpoints :: "env \<Rightarrow> nat \<Rightarrow> string option \<Rightarrow> (db, unit) tx" where
  "write_checkpoints e seen final =
     bind_tx (modify (\<lambda>s. s\<lparr>checkpoints := filter (\<lambda>c. \<not> is_checkpoint c) (checkpoints s)\<rparr>)) (\<lambda>_.
     for_tx PROJECTION_NAMES (\<lambda>name.
       bind_tx (fresh_uuid e) (\<lambda>cid.
       insert_checkpoint \<lparr>ck_id = cid, ck_projection = name, ck_stream = ''global'',
         ck_last_event = final, ck_sequence = int seen, ck_updated = clock e\<rparr>)))"

record rebuild_report =
  rb_processed :: nat
  rb_through :: "string option"
  rb_checkpointed :: nat
  rb_batches :: nat
  rb_batch_size :: nat

definition rebuildProjections :: "env \<Rightarrow> js_number \<Rightarrow> (db, rebuild_report) io" where
  "rebuildProjections e batchSize =
     (case integer_upto 10000 batchSize of
        None \<Rightarrow> throw_io (PlainError ''invalid_batch_size'')
      | Some n \<Rightarrow>
          bind_io (get_io (\<lambda>s. scan_events n (events s) None)) (\<lambda>(seen, final, batches).
          bind_io (transaction (write_checkpoints e seen final)) (\<lambda>_.
          ret_io \<lparr>rb_processed = seen, rb_through = final,
                  rb_checkpointed = length PROJECTION_NAMES, rb_batches = batches,
                  rb_batch_size = n\<rparr>)))"


subsection \<open>Reading on from the last row\<close>

abbreviation ascending :: "('r \<Rightarrow> string) \<Rightarrow> 'r list \<Rightarrow> bool" where
  "ascending key \<equiv> sorted_wrt (\<lambda>x y. key x < key y)"

lemma ascending_sort_key:
  assumes "distinct (map key rows)"
  shows "ascending key (sort_key key rows)"
proof -
  have "sorted (map key (sort_key key rows))" by simp
  moreover have "distinct (map key (sort_key key rows))"
    using assms by (simp add: distinct_map inj_on_def)
  ultimately have "sorted_wrt (<) (map key (sort_key key rows))"
    by (simp add: strict_sorted_iff)
  then show ?thesis by (simp add: sorted_wrt_map)
qed

lemma ascending_filter: "ascending key xs \<Longrightarrow> ascending key (filter p xs)"
  by (rule sorted_wrt_filter)

lemma filter_past_last:
  assumes "ascending key xs" and "0 < n" and "n \<le> length xs"
  shows "filter (\<lambda>r. key (last (take n xs)) < key r) xs = drop n xs"
proof -
  let ?a = "key (last (take n xs))"
  have split: "ascending key (take n xs @ drop n xs)" using assms(1) by simp
  have ne: "take n xs \<noteq> []" using assms(2,3) by auto
  have "last (take n xs) \<in> set (take n xs)" using ne by simp
  then have above: "?a < key r" if "r \<in> set (drop n xs)" for r
    using split that unfolding sorted_wrt_append by blast
  have below: "\<not> ?a < key r" if "r \<in> set (take n xs)" for r
  proof -
    have eq: "take n xs = butlast (take n xs) @ [last (take n xs)]" using ne by simp
    have "ascending key (butlast (take n xs) @ [last (take n xs)])"
      using split by (simp only: eq [symmetric]) (simp add: sorted_wrt_append)
    moreover have "r \<in> set (butlast (take n xs)) \<or> r = last (take n xs)"
      using that by (subst (asm) eq) auto
    ultimately show ?thesis unfolding sorted_wrt_append by force
  qed
  have "filter (\<lambda>r. ?a < key r) (take n xs @ drop n xs) = drop n xs"
    unfolding filter_append using above below by (simp add: filter_empty_conv filter_id_conv)
  then show ?thesis by simp
qed

lemma filter_past_twice:
  fixes key :: "'r \<Rightarrow> string"
  assumes "xs = filter (\<lambda>r. case after of None \<Rightarrow> True | Some a \<Rightarrow> a < key r) ys" and "x \<in> set xs"
  shows "filter (\<lambda>r. key x < key r) xs = filter (\<lambda>r. key x < key r) ys"
  using assms unfolding assms(1) filter_filter
  by (intro filter_cong refl) (auto split: option.splits dest: less_trans)

lemma past_cases:
  "after \<noteq> Some [] \<Longrightarrow> past after i = (case after of None \<Rightarrow> True | Some a \<Rightarrow> a < i)"
  by (auto simp: past_def split: option.splits)

subsection \<open>Reading all pages\<close>

primrec read_pages ::
  "env \<Rightarrow> ('r \<Rightarrow> string) \<Rightarrow> js_number option \<Rightarrow> 'r list \<Rightarrow> nat \<Rightarrow> string option \<Rightarrow> 'r list option" where
  "read_pages e key size_limit rows 0 c = None"
| "read_pages e key size_limit rows (Suc k) c =
     (case page e key \<lparr>po_cursor = c, po_limit = size_limit\<rparr> rows of
        Inl err \<Rightarrow> None
      | Inr (items, None) \<Rightarrow> Some items
      | Inr (items, Some c') \<Rightarrow> map_option ((@) items) (read_pages e key size_limit rows k (Some c')))"

definition cursors_readable :: "env \<Rightarrow> string set \<Rightarrow> bool" where
  "cursors_readable e ids \<longleftrightarrow>
     (\<forall>i\<in>ids. i \<noteq> [] \<and> json_parse e (stringify e (inspection_document i)) = Some (inspection_document i))"

lemma base64url_nonempty: "bs \<noteq> [] \<Longrightarrow> base64url bs \<noteq> []"
  by (induction bs rule: base64url.induct) (auto simp: Let_def)

lemma decode_inspection_cursor:
  assumes "cursors_readable e ids" and "i \<in> ids"
  shows "decodeInspectionCursor e (Some (encodeInspectionCursor e i)) = Inr (Some i)"
proof -
  have "stringify e (inspection_document i) \<noteq> []" by (simp add: inspection_document_def)
  then have "encodeInspectionCursor e i \<noteq> []"
    by (simp add: encodeInspectionCursor_def base64url_nonempty)
  moreover have "json_parse e (stringify e (inspection_document i)) = Some (inspection_document i)"
    using assms by (simp add: cursors_readable_def)
  ultimately show ?thesis
    by (simp add: decodeInspectionCursor_def encodeInspectionCursor_def base64url_roundtrip
        del: stringify.simps) (simp add: inspection_document_def)
qed

lemma page_from:
  assumes "normalizeLimit size_limit = Inr n" and "decodeInspectionCursor e c = Inr after"
    and "xs = filter (\<lambda>r. past after (key r)) (sort_key key rows)"
  shows "page e key \<lparr>po_cursor = c, po_limit = size_limit\<rparr> rows =
    Inr (take n xs, if n < length xs then Some (encodeInspectionCursor e (key (last (take n xs)))) else None)"
  by (simp add: page_def assms(1,2) page_rows_def Let_def assms(3) [symmetric] min_def)

lemma normalizeLimit_pos: "normalizeLimit size_limit = Inr n \<Longrightarrow> 0 < n"
  by (auto simp: normalizeLimit_def integer_upto_def split: option.splits js_number.splits if_splits)

lemma read_pages_from:
  assumes "normalizeLimit size_limit = Inr n" and "cursors_readable e (key ` set rows)"
    and "distinct (map key rows)"
    and "xs = filter (\<lambda>r. past after (key r)) (sort_key key rows)" and "after \<noteq> Some []"
    and "decodeInspectionCursor e c = Inr after" and "length xs < k"
  shows "read_pages e key size_limit rows k c = Some xs"
  using assms(4-7)
proof (induction k arbitrary: xs after c)
  case (Suc k)
  note n = normalizeLimit_pos [OF assms(1)]
  note here = page_from [OF assms(1) Suc.prems(3,1)]
  show ?case
  proof (cases "n < length xs")
    case False
    then show ?thesis by (simp add: here)
  next
    case True
    let ?x = "last (take n xs)"
    have "take n xs \<noteq> []" using True n by auto
    then have "?x \<in> set (take n xs)" by simp
    then have x: "?x \<in> set xs" by (rule in_set_takeD)
    then have key: "key ?x \<in> key ` set rows" unfolding Suc.prems(1) by auto
    then have ne: "Some (key ?x) \<noteq> Some []" using assms(2) by (auto simp: cursors_readable_def)
    have xs: "xs = filter (\<lambda>r. case after of None \<Rightarrow> True | Some a \<Rightarrow> a < key r) (sort_key key rows)"
      unfolding Suc.prems(1) by (intro filter_cong refl past_cases Suc.prems(2))
    have asc: "ascending key xs"
      unfolding Suc.prems(1) by (intro ascending_filter ascending_sort_key assms(3))
    have rest: "drop n xs = filter (\<lambda>r. past (Some (key ?x)) (key r)) (sort_key key rows)"
    proof -
      have "drop n xs = filter (\<lambda>r. key ?x < key r) xs"
        using filter_past_last [OF asc n] True by simp
      also have "\<dots> = filter (\<lambda>r. key ?x < key r) (sort_key key rows)"
        by (rule filter_past_twice [OF xs x])
      also have "\<dots> = filter (\<lambda>r. past (Some (key ?x)) (key r)) (sort_key key rows)"
        by (intro filter_cong refl) (simp add: past_cases [OF ne])
      finally show ?thesis .
    qed
    have "read_pages e key size_limit rows k (Some (encodeInspectionCursor e (key ?x))) = Some (drop n xs)"
      using Suc.prems(4) True n
      by (intro Suc.IH [OF rest ne decode_inspection_cursor [OF assms(2) key]]) simp
    then show ?thesis using True by (simp add: here)
  qed
qed simp

text \<open>C23. Reading page after page, each with the cursor of the one before, ends within as many pages as there
  are rows and yields every row exactly once, in the order of the ids, for every accepted page size.\<close>

theorem pages_complete:
  assumes "normalizeLimit size_limit = Inr n" and "cursors_readable e (key ` set rows)"
    and "distinct (map key rows)"
  shows "read_pages e key size_limit rows (Suc (length rows)) None = Some (sort_key key rows)"
  by (rule read_pages_from [OF assms, of _ None]) (simp_all add: past_def decodeInspectionCursor_def)

subsection \<open>The scan of the event log\<close>

lemma scan_events_all:
  assumes "distinct (map ev_id evs)" and "0 < n"
  shows "\<exists>b. scan_events n evs after =
    (length (events_after after evs),
     if events_after after evs = [] then after else Some (ev_id (last (events_after after evs))), b)"
  using assms
proof (induction n evs after rule: scan_events.induct)
  case (1 n evs after)
  let ?xs = "events_after after evs" and ?rows = "take n (events_after after evs)"
  have asc: "ascending ev_id ?xs"
    unfolding events_after_def by (intro ascending_filter ascending_sort_key 1(2))
  consider "?rows = []" | "?rows \<noteq> []" "length ?rows < n" | "?rows \<noteq> []" "\<not> length ?rows < n" by blast
  then show ?case
  proof cases
    case 1
    then show ?thesis using \<open>0 < n\<close> by (simp add: scan_events.simps [of n evs after] Let_def)
  next
    case 2
    then have "length ?xs < n" by (simp add: min_def split: if_splits)
    then have "?rows = ?xs" by simp
    with 2 show ?thesis by (simp add: scan_events.simps [of n evs after] Let_def)
  next
    case 3
    then have n: "n \<le> length ?xs" by simp
    let ?x = "last ?rows"
    have x: "?x \<in> set ?xs" using 3(1) by (metis in_set_takeD last_in_set)
    have rest: "events_after (Some (ev_id ?x)) evs = drop n ?xs"
      using filter_past_last [OF asc 1(3) n] filter_past_twice [OF events_after_def x]
      by (simp add: events_after_def)
    from 1(1) [OF refl 3 1(2,3)] obtain b where
      "scan_events n evs (Some (ev_id ?x)) = (length (drop n ?xs),
         if drop n ?xs = [] then Some (ev_id ?x) else Some (ev_id (last (drop n ?xs))), b)"
      unfolding rest by blast
    moreover have "last (drop n ?xs) = last ?xs" if "drop n ?xs \<noteq> []" using that by (simp add: last_drop)
    moreover have "?rows = ?xs" if "drop n ?xs = []" using that by simp
    ultimately show ?thesis using 3 n
      by (auto simp: scan_events.simps [of n evs after] Let_def min_def)
  qed
qed

lemma insert_checkpoint_Inr:
  "insert_checkpoint c s = Inr (u, s') \<Longrightarrow> s' = s\<lparr>checkpoints := checkpoints s @ [c]\<rparr>"
  by (auto simp: insert_checkpoint_def split: if_splits)

lemma write_checkpoints_Inr:
  assumes "write_checkpoints e k final s = Inr (u, s')"
  shows "\<exists>news. checkpoints s' = filter (\<lambda>c. \<not> is_checkpoint c) (checkpoints s) @ news \<and>
    map ck_projection news = PROJECTION_NAMES \<and>
    list_all (\<lambda>c. ck_stream c = ''global'' \<and> ck_last_event c = final \<and> ck_sequence c = int k \<and>
      ck_updated c = clock e) news \<and> events s' = events s"
proof -
  let ?f = "\<lambda>name. bind_tx (fresh_uuid e) (\<lambda>cid.
       insert_checkpoint \<lparr>ck_id = cid, ck_projection = name, ck_stream = ''global'',
         ck_last_event = final, ck_sequence = int k, ck_updated = clock e\<rparr>)"
  have loop: "\<exists>news. checkpoints t' = checkpoints t @ news \<and> map ck_projection news = names \<and>
      list_all (\<lambda>c. ck_stream c = ''global'' \<and> ck_last_event c = final \<and> ck_sequence c = int k \<and>
        ck_updated c = clock e) news \<and> events t' = events t"
    if "for_tx names ?f t = Inr (v, t')" for names v t t'
    using that
  proof (induction names arbitrary: t)
    case Nil
    then show ?case by (simp add: ret_Inr)
  next
    case (Cons name names)
    let ?c = "\<lparr>ck_id = new_uuid e (drawn t), ck_projection = name, ck_stream = ''global'',
         ck_last_event = final, ck_sequence = int k, ck_updated = clock e\<rparr>"
    from Cons.prems obtain t1 where t1: "t1 = t\<lparr>drawn := Suc (drawn t), checkpoints := checkpoints t @ [?c]\<rparr>"
      and rest: "for_tx names ?f t1 = Inr (v, t')"
      by (auto simp: tx_Inr fresh_uuid_Inr dest!: insert_checkpoint_Inr)
    from Cons.IH [OF rest] obtain news where "checkpoints t' = checkpoints t1 @ news"
      "map ck_projection news = names" "list_all (\<lambda>c. ck_stream c = ''global'' \<and> ck_last_event c = final \<and>
        ck_sequence c = int k \<and> ck_updated c = clock e) news" "events t' = events t1" by blast
    then show ?case by (intro exI [of _ "?c # news"]) (simp add: t1)
  qed
  from assms obtain t where "t = s\<lparr>checkpoints := filter (\<lambda>c. \<not> is_checkpoint c) (checkpoints s)\<rparr>"
    and "for_tx PROJECTION_NAMES ?f t = Inr (u, s')"
    by (auto simp: write_checkpoints_def tx_Inr)
  with loop [of PROJECTION_NAMES t u s'] show ?thesis by simp
qed

lemma Max_sorted: "sorted xs \<Longrightarrow> xs \<noteq> [] \<Longrightarrow> Max (set xs) = last (xs :: string list)"
proof (induction xs)
  case (Cons x xs)
  then show ?case by (cases "xs = []") (auto simp: max_def)
qed simp

text \<open>C24. A rebuild of the projections ends, whatever the batch size, with every event of the log counted
  once, the greatest event id as the point it has reached, and one fresh checkpoint per projection
  that records both; other checkpoints and the log stay as they are.\<close>

theorem rebuild_covers_log:
  assumes "rebuildProjections e batch s = (Inr r, s')" and "distinct (map ev_id (events s))"
  shows "rb_processed r = length (events s) \<and>
    rb_through r = (if events s = [] then None else Some (Max (set (map ev_id (events s))))) \<and>
    events s' = events s \<and>
    (\<exists>news. checkpoints s' = filter (\<lambda>c. \<not> is_checkpoint c) (checkpoints s) @ news \<and>
       map ck_projection news = PROJECTION_NAMES \<and>
       list_all (\<lambda>c. ck_last_event c = rb_through r \<and> ck_sequence c = int (length (events s))) news)"
proof -
  obtain n where n: "integer_upto 10000 batch = Some n"
    using assms(1) by (auto simp: rebuildProjections_def throw_io_def split: option.splits)
  then have "0 < n" by (auto simp: integer_upto_def split: js_number.splits if_splits)
  with scan_events_all [OF assms(2)] obtain b where
    scan: "scan_events n (events s) None = (length (events_after None (events s)),
      if events_after None (events s) = [] then None
      else Some (ev_id (last (events_after None (events s)))), b)" by blast
  have all: "events_after None (events s) = sort_key ev_id (events s)" by (simp add: events_after_def)
  have top: "ev_id (last (sort_key ev_id (events s))) = Max (set (map ev_id (events s)))" if "events s \<noteq> []"
  proof -
    have ne: "sort_key ev_id (events s) \<noteq> []" using that by (metis length_0_conv length_sort)
    have "Max (set (map ev_id (sort_key ev_id (events s)))) = last (map ev_id (sort_key ev_id (events s)))"
      using ne by (intro Max_sorted) simp_all
    then show ?thesis using ne by (simp add: last_map)
  qed
  have empty: "sort_key ev_id (events s) = [] \<longleftrightarrow> events s = []" by (metis length_0_conv length_sort)
  from assms(1) n scan obtain u where "write_checkpoints e (rb_processed r) (rb_through r) s = Inr (u, s')"
    and "rb_processed r = length (events s)"
    and "rb_through r = (if events s = [] then None else Some (Max (set (map ev_id (events s)))))"
    by (auto simp: rebuildProjections_def io_Inr transaction_cases all empty top split: if_splits)
  with write_checkpoints_Inr [of e "rb_processed r" "rb_through r" s u s'] show ?thesis
    by (auto simp: list_all_iff)
qed

subsection \<open>Samples\<close>

definition page_env :: env where
  "page_env = sample_env\<lparr>num_text := (\<lambda>q. ''1''),
     json_parse := (\<lambda>t. List.find (\<lambda>d. stringify (sample_env\<lparr>num_text := (\<lambda>q. ''1'')\<rparr>) d = t)
       [inspection_document ''a'', inspection_document ''b'', inspection_document ''c''])\<rparr>"

lemma page_env_reads:
  "list_all (\<lambda>i. i \<noteq> [] \<and> json_parse page_env (stringify page_env (inspection_document i)) =
     Some (inspection_document i)) [''a'', ''b'', ''c'']"
  by code_simp

theorem pages_complete_witness:
  "read_pages page_env (\<lambda>i. i) (Some (Finite 2)) [''b'', ''c'', ''a''] 4 None = Some [''a'', ''b'', ''c'']"
proof -
  have "cursors_readable page_env ((\<lambda>i. i) ` set [''b'', ''c'', ''a''])"
    using page_env_reads by (simp add: cursors_readable_def)
  moreover have "normalizeLimit (Some (Finite 2)) = Inr 2"
    by (simp add: normalizeLimit_def integer_upto_def)
  moreover have "sort_key (\<lambda>i. i) [''b'', ''c'', ''a''] = [''a'', ''b'', ''c'']" by code_simp
  ultimately show ?thesis
    using pages_complete [of "Some (Finite 2)" 2 page_env "\<lambda>i. i" "[''b'', ''c'', ''a'']"]
    by (simp add: eval_nat_numeral)
qed

definition log_store :: db where
  "log_store = empty_db\<lparr>events := [\<lparr>ev_id = ''e2'', ev_region = ''r'', ev_type = ''t'', ev_payload = JNull,
     ev_stream = ''k'', ev_seq = 1, ev_correlation = ''c'', ev_source_kind = ''system'',
     ev_src_command = None, ev_src_event = None, ev_src_execution = None, ev_src_attempt = None,
     ev_src_component = None, ev_src_port = None, ev_created = 0\<rparr>]\<rparr>"

lemma rebuild_runs:
  "case rebuildProjections sample_env (Finite 500) log_store of
     (Inr r, s) \<Rightarrow> rb_batches r = 1 | _ \<Rightarrow> False"
  by code_simp

theorem rebuild_covers_log_witness:
  "\<exists>r s'. rebuildProjections sample_env (Finite 500) log_store = (Inr r, s') \<and> rb_processed r = 1 \<and>
     length (checkpoints s') = 10"
proof -
  obtain r s' where run: "rebuildProjections sample_env (Finite 500) log_store = (Inr r, s')"
    using rebuild_runs by (auto split: prod.splits sum.splits)
  have "distinct (map ev_id (events log_store))" by (simp add: log_store_def)
  from rebuild_covers_log [OF run this] obtain news where "rb_processed r = 1"
    "checkpoints s' = filter (\<lambda>c. \<not> is_checkpoint c) (checkpoints log_store) @ news"
    "map ck_projection news = PROJECTION_NAMES" by (auto simp: log_store_def)
  moreover from this(3) have "length news = length PROJECTION_NAMES" by (metis length_map)
  ultimately show ?thesis using run by (simp add: log_store_def empty_db_def PROJECTION_NAMES_def)
qed

end
