(* ===== verification/Recovery.thy ===== *)
theory Recovery
  imports Operator Observability
begin

section \<open>Startup recovery\<close>

text \<open>
  \<open>runtime-core/src/observability/recovery-service.ts\<close>. When the control plane starts, it commits the
  results that were handed over before it stopped, abandons the attempts whose lease has run out and
  replaces or fails them, exposes orphaned deliveries, settles cancelling regions, reconciles external
  actions and artifacts, records an event and rebuilds the projection checkpoints. Each step commits
  on its own, so a step that throws leaves the work of those before it.
\<close>

subsection \<open>Times as text\<close>

text \<open>\<open>Date.prototype.toISOString\<close>: the proleptic Gregorian date of a number of milliseconds since
  1970, computed on years that begin in March.\<close>

definition padded :: "nat \<Rightarrow> int \<Rightarrow> string" where
  "padded k n = (let t = decimal_text (nat n) in replicate (k - length t) (CHR ''0'') @ t)"

definition year_text :: "int \<Rightarrow> string" where
  "year_text y =
     (if 0 \<le> y \<and> y \<le> 9999 then padded 4 y
      else (if y < 0 then ''-'' else ''+'') @ padded 6 (abs y))"

definition civil_date :: "int \<Rightarrow> int \<times> int \<times> int" where
  "civil_date days =
     (let z = days + 719468; era = z div 146097; doe = z mod 146097;
          yoe = (doe - doe div 1460 + doe div 36524 - doe div 146096) div 365;
          doy = doe - (365 * yoe + yoe div 4 - yoe div 100);
          mp = (5 * doy + 2) div 153;
          month = (if mp < 10 then mp + 3 else mp - 9)
      in (yoe + era * 400 + (if month \<le> 2 then 1 else 0), month, doy - (153 * mp + 2) div 5 + 1))"

definition toISOString :: "int \<Rightarrow> string" where
  "toISOString t =
     (case civil_date (t div 86400000) of (y, m, d) \<Rightarrow>
        let rest = t mod 86400000 in
        year_text y @ ''-'' @ padded 2 m @ ''-'' @ padded 2 d @ ''T'' @
        padded 2 (rest div 3600000) @ '':'' @ padded 2 (rest div 60000 mod 60) @ '':'' @
        padded 2 (rest div 1000 mod 60) @ ''.'' @ padded 3 (rest mod 1000) @ ''Z'')"

lemma toISOString_samples:
  "toISOString 0 = ''1970-01-01T00:00:00.000Z''"
  "toISOString 1709210096789 = ''2024-02-29T12:34:56.789Z''"
  "toISOString (- 1) = ''1969-12-31T23:59:59.999Z''"
  by code_simp+

subsection \<open>Options and the summary\<close>

definition MAX_ATTEMPTS :: nat where
  "MAX_ATTEMPTS = 4"

definition RECOVERY_FAILURE :: json where
  "RECOVERY_FAILURE =
     JObj [(''code'', JStr ''startup_recovery_terminal''),
       (''message'', JStr ''Execution could not be resumed during startup recovery.''),
       (''retryable'', JBool False)]"

definition CANCELLATION_FAILURE :: json where
  "CANCELLATION_FAILURE =
     JObj [(''code'', JStr ''region_cancelled''),
       (''message'', JStr ''Execution was cancelled while the control plane was offline.''),
       (''retryable'', JBool False)]"

record recovery_options =
  ro_now :: "int option"
  ro_projection_batch :: "js_number option"
  ro_artifact_batch :: "js_number option"
  ro_action_batch :: "int option"
  ro_result_batch :: "nat option"
  ro_remove_orphans :: "bool option"
  ro_grace_seconds :: "int option"

record recovery_summary =
  rs_scanned :: nat
  rs_committed :: nat
  rs_rejected :: nat
  rs_abandoned :: nat
  rs_replaced :: nat
  rs_exposed :: nat
  rs_terminal :: nat
  rs_regions :: nat
  rs_cancelled_attempts :: nat
  rs_cancelled_deliveries :: nat

definition empty_summary :: recovery_summary where
  "empty_summary =
     \<lparr>rs_scanned = 0, rs_committed = 0, rs_rejected = 0, rs_abandoned = 0, rs_replaced = 0,
      rs_exposed = 0, rs_terminal = 0, rs_regions = 0, rs_cancelled_attempts = 0,
      rs_cancelled_deliveries = 0\<rparr>"

subsection \<open>Results that were handed over\<close>

definition pending_results :: "nat \<Rightarrow> db \<Rightarrow> string list" where
  "pending_results n s =
     take n (map sub_attempt (sort_key (\<lambda>b. (sub_created b, sub_id b))
       (filter (\<lambda>b. sub_committed b = None) (submissions s))))"

definition recover_result :: "env \<Rightarrow> string \<Rightarrow> recovery_summary \<Rightarrow> (world, recovery_summary) io" where
  "recover_result e aid r0 =
     (let r = r0\<lparr>rs_scanned := Suc (rs_scanned r0)\<rparr> in
      catch_io
        (bind_io (commitSubmittedResult e True aid) (\<lambda>_.
           ret_io (r\<lparr>rs_committed := Suc (rs_committed r)\<rparr>)))
        (\<lambda>err. if rejects err then ret_io (r\<lparr>rs_rejected := Suc (rs_rejected r)\<rparr>)
           else throw_io err))"

definition recover_results :: "env \<Rightarrow> nat \<Rightarrow> recovery_summary \<Rightarrow> (world, recovery_summary) io" where
  "recover_results e n r =
     bind_io (get_io (\<lambda>w. pending_results n (w_db w))) (\<lambda>ids. fold_io (recover_result e) ids r)"

subsection \<open>Expired attempts\<close>

definition expired :: "int \<Rightarrow> attempt \<Rightarrow> bool" where
  "expired now a \<longleftrightarrow> active (att_status a) \<and>
     (case att_expires a of None \<Rightarrow> False | Some t \<Rightarrow> t \<le> now)"

definition expired_attempts :: "int \<Rightarrow> db \<Rightarrow> string list" where
  "expired_attempts now s = sort (map att_id (filter (expired now) (attempts s)))"

definition input_ids :: "string \<Rightarrow> db \<Rightarrow> string list" where
  "input_ids xid s =
     concat (map (\<lambda>i. map del_id (filter (\<lambda>d. del_id d = inp_delivery i) (deliveries s)))
       (filter (\<lambda>i. inp_execution i = xid) (execution_inputs s)))"

definition abandoned_attempt :: "int \<Rightarrow> attempt \<Rightarrow> attempt" where
  "abandoned_attempt now a =
     a\<lparr>att_status := AAbandoned, att_completed_at := Some now, att_failure := None,
       att_owner := None, att_token := None, att_expires := None\<rparr>"

definition replacement_attempt :: "int \<Rightarrow> attempt \<Rightarrow> string \<Rightarrow> attempt" where
  "replacement_attempt now a i =
     \<lparr>att_id = i, att_execution = att_execution a, att_number = Suc (att_number a),
      att_status = APending, att_owner = None, att_token = None, att_expires = None,
      att_started = Some now, att_completed_at = None, att_failure = None\<rparr>"

definition exposed_delivery :: "int \<Rightarrow> delivery \<Rightarrow> delivery" where
  "exposed_delivery now d =
     d\<lparr>del_status := DReady, del_available := now, del_owner := None, del_token := None,
       del_expires := None\<rparr>"

definition undeliverable :: "int \<Rightarrow> delivery \<Rightarrow> delivery" where
  "undeliverable now d =
     d\<lparr>del_status := DDeadLettered, del_owner := None, del_token := None, del_expires := None,
       del_dead_at := Some now\<rparr>"

text \<open>Abandoned, replaced, exposed, terminal.\<close>

type_synonym recovered = "nat \<times> nat \<times> nat \<times> nat"

definition replace_attempt :: "env \<Rightarrow> int \<Rightarrow> attempt \<Rightarrow> string list \<Rightarrow> (db, recovered) tx" where
  "replace_attempt e now a ids =
     bind_tx (fresh_uuid e) (\<lambda>i.
     bind_tx (insert_attempt_or_nothing (replacement_attempt now a i)) (\<lambda>inserted.
     bind_tx (if ids = [] then ret 0
        else update_deliveries (\<lambda>d. del_id d \<in> set ids) (exposed_delivery now)) (\<lambda>_.
     ret (1, if inserted then 1 else 0, length ids, 0))))"

definition give_up :: "env \<Rightarrow> int \<Rightarrow> execution \<Rightarrow> string list \<Rightarrow> (db, recovered) tx" where
  "give_up e now x ids =
     bind_tx (update_executions e (\<lambda>y. exe_id y = exe_id x) (failed_execution now RECOVERY_FAILURE)) (\<lambda>_.
     bind_tx (if ids = [] then ret 0
        else update_deliveries (\<lambda>d. del_id d \<in> set ids) (undeliverable now)) (\<lambda>_.
     ret (1, 0, 0, 1)))"

definition replace_or_give_up ::
  "env \<Rightarrow> int \<Rightarrow> attempt \<Rightarrow> execution \<Rightarrow> region \<Rightarrow> string list \<Rightarrow> (db, recovered) tx" where
  "replace_or_give_up e now a x g ids =
     (if exe_status x = ERunning \<and> reg_status g = RRunning \<and> att_number a < MAX_ATTEMPTS
      then replace_attempt e now a ids
      else if exe_status x = ERunning then give_up e now x ids
      else ret (1, 0, 0, 0))"

definition recover_attempt :: "env \<Rightarrow> int \<Rightarrow> string \<Rightarrow> (db, recovered) tx" where
  "recover_attempt e now aid =
     bind_tx (get (\<lambda>s. List.find (\<lambda>a. att_id a = aid) (attempts s))) (\<lambda>found.
     case found of
       None \<Rightarrow> ret (0, 0, 0, 0)
     | Some a \<Rightarrow>
         if \<not> expired now a then ret (0, 0, 0, 0)
         else
           bind_tx (get (\<lambda>s. List.find (\<lambda>x. exe_id x = att_execution a) (executions s))) (\<lambda>x0.
           bind_tx (or_throw x0 (NoResultError ''executions'')) (\<lambda>x.
           bind_tx (get (\<lambda>s. List.find (\<lambda>g. reg_id g = exe_region x) (regions s))) (\<lambda>g0.
           bind_tx (or_throw g0 (NoResultError ''regions'')) (\<lambda>g.
           bind_tx (get (input_ids (exe_id x))) (\<lambda>ids.
           bind_tx (update_attempts (\<lambda>b. att_id b = att_id a) (abandoned_attempt now)) (\<lambda>_.
           replace_or_give_up e now a x g ids)))))))"

definition add_recovered :: "recovered \<Rightarrow> recovery_summary \<Rightarrow> recovery_summary" where
  "add_recovered c r =
     (case c of (a, p, x, t) \<Rightarrow>
        r\<lparr>rs_abandoned := rs_abandoned r + a, rs_replaced := rs_replaced r + p,
          rs_exposed := rs_exposed r + x, rs_terminal := rs_terminal r + t\<rparr>)"

definition recover_expired :: "env \<Rightarrow> int \<Rightarrow> recovery_summary \<Rightarrow> (db, recovery_summary) io" where
  "recover_expired e now r =
     bind_io (get_io (expired_attempts now)) (\<lambda>ids.
     fold_io (\<lambda>aid r. bind_io (transaction (recover_attempt e now aid)) (\<lambda>c.
       ret_io (add_recovered c r))) ids r)"

subsection \<open>Orphaned deliveries and cancelling regions\<close>

definition orphaned :: "int \<Rightarrow> db \<Rightarrow> delivery \<Rightarrow> bool" where
  "orphaned now s d \<longleftrightarrow> del_status d = DLeased \<and>
     (case del_expires d of None \<Rightarrow> False | Some t \<Rightarrow> t \<le> now) \<and>
     list_ex (\<lambda>g. reg_id g = del_region d \<and> reg_status g = RRunning) (regions s)"

definition expose_orphans :: "int \<Rightarrow> (db, nat) tx" where
  "expose_orphans now = (\<lambda>s. update_deliveries (orphaned now s) (exposed_delivery now) s)"

definition settled_attempt :: "int \<Rightarrow> attempt \<Rightarrow> attempt" where
  "settled_attempt now a =
     a\<lparr>att_status := ACancelled, att_completed_at := Some now, att_failure := None,
       att_owner := None, att_token := None, att_expires := None\<rparr>"

definition settle_rows :: "env \<Rightarrow> int \<Rightarrow> region \<Rightarrow> (db, nat \<times> nat \<times> nat) tx" where
  "settle_rows e now g =
     bind_tx (get (\<lambda>s. map exe_id (filter (\<lambda>x. exe_region x = reg_id g) (executions s)))) (\<lambda>xids.
     bind_tx (update_attempts (\<lambda>a. att_status a \<in> {APending, ALeased, ARunning} \<and>
        att_execution a \<in> set xids) (settled_attempt now)) (\<lambda>na.
     bind_tx (update_executions e (\<lambda>x. exe_region x = reg_id g \<and> exe_status x = ERunning)
        (failed_execution now CANCELLATION_FAILURE)) (\<lambda>_.
     bind_tx (update_deliveries (\<lambda>d. del_region d = reg_id g \<and> del_status d \<in> {DReady, DLeased})
        cancelled_delivery) (\<lambda>nd.
     bind_tx (modify (\<lambda>s. s\<lparr>regions := set_rows (\<lambda>h. reg_id h = reg_id g)
        (\<lambda>h. h\<lparr>reg_status := RCancelled, reg_epoch := reg_epoch g + 1\<rparr>) (regions s)\<rparr>)) (\<lambda>_.
     ret (1, na, nd))))))"

definition settle_region :: "env \<Rightarrow> int \<Rightarrow> string \<Rightarrow> (db, nat \<times> nat \<times> nat) tx" where
  "settle_region e now gid =
     bind_tx (get (\<lambda>s. List.find (\<lambda>g. reg_id g = gid) (regions s))) (\<lambda>found.
     case found of
       None \<Rightarrow> ret (0, 0, 0)
     | Some g \<Rightarrow> if reg_status g \<noteq> RCancelling then ret (0, 0, 0) else settle_rows e now g)"

definition settle_cancelling :: "env \<Rightarrow> int \<Rightarrow> recovery_summary \<Rightarrow> (db, recovery_summary) io" where
  "settle_cancelling e now r =
     bind_io (get_io (\<lambda>s. sort (map reg_id (filter (\<lambda>g. reg_status g = RCancelling) (regions s))))) (\<lambda>ids.
     fold_io (\<lambda>gid r. bind_io (transaction (settle_region e now gid)) (\<lambda>(g, a, d).
       ret_io (r\<lparr>rs_regions := rs_regions r + g,
                 rs_cancelled_attempts := rs_cancelled_attempts r + a,
                 rs_cancelled_deliveries := rs_cancelled_deliveries r + d\<rparr>))) ids r)"

subsection \<open>Artifacts\<close>

definition add_reports ::
  "reconciliation_report \<Rightarrow> reconciliation_report \<Rightarrow> reconciliation_report" where
  "add_reports a b =
     a\<lparr>rep_scanned := rep_scanned a + rep_scanned b,
       rep_promoted := rep_promoted a + rep_promoted b,
       rep_would_promote := rep_would_promote a + rep_would_promote b,
       rep_consistent := rep_consistent a + rep_consistent b,
       rep_abandoned := rep_abandoned a + rep_abandoned b,
       rep_would_abandon := rep_would_abandon a + rep_would_abandon b,
       rep_orphans := rep_orphans a + rep_orphans b,
       rep_removed := rep_removed a + rep_removed b,
       rep_would_remove := rep_would_remove a + rep_would_remove b,
       rep_unresolved := rep_unresolved a @ rep_unresolved b\<rparr>"

text \<open>The loop ends with the cursor or after 100 batches, which the fuel counts.\<close>

primrec artifact_batches ::
  "env \<Rightarrow> reconcile_input \<Rightarrow> nat \<Rightarrow> string option \<Rightarrow> reconciliation_report \<Rightarrow>
   (world, reconciliation_report) io" where
  "artifact_batches e i 0 cursor acc =
     ret_io (if truthy cursor then acc\<lparr>rep_next := cursor\<rparr> else acc)"
| "artifact_batches e i (Suc k) cursor acc =
     bind_io (runBatch e (i\<lparr>ri_cursor := cursor\<rparr>)) (\<lambda>rep.
     let acc' = add_reports acc rep in
     if truthy (rep_next rep) then artifact_batches e i k (rep_next rep) acc' else ret_io acc')"

definition reconcileArtifacts ::
  "env \<Rightarrow> js_number \<Rightarrow> bool \<Rightarrow> int \<Rightarrow> (world, reconciliation_report option) io" where
  "reconcileArtifacts e batch remove grace = (\<lambda>w.
     if w_blobs w = None then (Inr None, w)
     else bind_io (artifact_batches e
         \<lparr>ri_limit = batch, ri_cursor = None, ri_remove_orphans = remove,
          ri_grace_seconds = Some grace, ri_dry_run = False\<rparr> 100 None (empty_report False))
       (\<lambda>rep. ret_io (Some rep)) w)"

subsection \<open>The run\<close>

text \<open>A service of the database alone, run in the world.\<close>

definition with_db :: "(db, 'a) io \<Rightarrow> (world, 'a) io" where
  "with_db m = (\<lambda>w. case m (w_db w) of (v, s) \<Rightarrow> (v, w\<lparr>w_db := s\<rparr>))"

definition report_json :: "reconciliation_report \<Rightarrow> json" where
  "report_json r =
     (let n = (\<lambda>k. JNum (of_nat k)) in
      JObj ([(''dryRun'', JBool (rep_dry_run r)), (''scanned'', n (rep_scanned r)),
        (''promoted'', n (rep_promoted r)), (''wouldPromote'', n (rep_would_promote r)),
        (''alreadyConsistent'', n (rep_consistent r)),
        (''abandonedMetadataRows'', n (rep_abandoned r)),
        (''wouldAbandonMetadataRows'', n (rep_would_abandon r)),
        (''orphanStagedObjects'', n (rep_orphans r)),
        (''removedOrphanObjects'', n (rep_removed r)),
        (''wouldRemoveOrphanObjects'', n (rep_would_remove r)),
        (''unresolved'', JArr (map (\<lambda>(code, i). JObj [(''code'', JStr code), (''id'', JStr i)])
          (rep_unresolved r)))] @
        (case rep_next r of None \<Rightarrow> [] | Some c \<Rightarrow> [(''nextCursor'', JStr c)])))"

definition action_report_json :: "action_report \<Rightarrow> json" where
  "action_report_json r =
     JObj [(''scanned'', JNum (of_nat (rp_scanned r))),
       (''reconciled'', JNum (of_nat (rp_reconciled r))),
       (''failed'', JNum (of_nat (rp_failed r))),
       (''indeterminate'', JNum (of_nat (rp_indeterminate r)))]"

definition recovery_payload ::
  "recovery_summary \<Rightarrow> reconciliation_report option \<Rightarrow> action_report option \<Rightarrow> int \<Rightarrow> json" where
  "recovery_payload r arts acts now =
     (let n = (\<lambda>k. JNum (of_nat k)) in
      JObj [(''submittedResultsScanned'', n (rs_scanned r)),
        (''submittedResultsCommitted'', n (rs_committed r)),
        (''submittedResultsRejected'', n (rs_rejected r)),
        (''expiredAttemptsAbandoned'', n (rs_abandoned r)),
        (''replacementAttemptsCreated'', n (rs_replaced r)),
        (''retryableDeliveriesExposed'', n (rs_exposed r)),
        (''terminalExecutionsFailed'', n (rs_terminal r)),
        (''cancellingRegionsSettled'', n (rs_regions r)),
        (''cancelledAttemptsSettled'', n (rs_cancelled_attempts r)),
        (''cancelledDeliveriesSettled'', n (rs_cancelled_deliveries r)),
        (''artifactReconciliation'', case arts of None \<Rightarrow> JNull | Some a \<Rightarrow> report_json a),
        (''externalActionReconciliation'',
          case acts of None \<Rightarrow> JNull | Some a \<Rightarrow> action_report_json a),
        (''projectorVersion'', JStr ''task10.v2''),
        (''projectionsExpected'', n (length PROJECTION_NAMES)),
        (''completedAt'', JStr (toISOString now))])"

text \<open>The event is inserted outside a transaction, so its sequence number stays allocated when the
  insert fails.\<close>

definition recovery_event :: "env \<Rightarrow> json \<Rightarrow> (world, string option) io" where
  "recovery_event e payload =
     bind_io (get_io (\<lambda>w. sort (map reg_id (filter (\<lambda>g. reg_parent g = None) (regions (w_db w)))))) (\<lambda>roots.
     case roots of
       [] \<Rightarrow> ret_io None
     | g # _ \<Rightarrow>
         bind_io (in_db (fresh_uuid e)) (\<lambda>vid.
         bind_io (in_db (allocateSequence ''runtime:recovery'')) (\<lambda>sqn.
         let i = \<lparr>ne_region = g, ne_type = ''runtime.recovery.completed'', ne_payload = payload,
                  ne_stream = ''runtime:recovery'', ne_correlation = None,
                  ne_source_kind = ''system'', ne_command = None, ne_event = None,
                  ne_execution = None, ne_attempt = None, ne_component = None, ne_port = None\<rparr> in
         bind_io (in_db (append_event (event_row e i vid sqn))) (\<lambda>_. ret_io (Some vid)))))"

record recovery_result =
  rr_summary :: recovery_summary
  rr_projections :: nat
  rr_artifacts :: "reconciliation_report option"
  rr_actions :: "action_report option"
  rr_event :: "string option"

definition or_default :: "'a option \<Rightarrow> 'a \<Rightarrow> 'a" where
  "or_default x d = (case x of None \<Rightarrow> d | Some y \<Rightarrow> y)"

definition recover_stores :: "env \<Rightarrow> int \<Rightarrow> recovery_summary \<Rightarrow> (db, recovery_summary) io" where
  "recover_stores e now r0 =
     bind_io (recover_expired e now r0) (\<lambda>r1.
     bind_io (transaction (expose_orphans now)) (\<lambda>n.
     settle_cancelling e now (r1\<lparr>rs_exposed := rs_exposed r1 + n\<rparr>)))"

definition reconcile_actions ::
  "env \<Rightarrow> action_provider option \<Rightarrow> int \<Rightarrow> (db, action_report option) io" where
  "reconcile_actions e provider n =
     (case provider of
        None \<Rightarrow> ret_io None
      | Some pv \<Rightarrow> bind_io (reconcilePending e pv n) (\<lambda>rep. ret_io (Some rep)))"

definition run ::
  "env \<Rightarrow> action_provider option \<Rightarrow> recovery_options \<Rightarrow> (world, recovery_result) io" where
  "run e provider opts =
     (let now = or_default (ro_now opts) (clock e) in
      bind_io (recover_results e (or_default (ro_result_batch opts) 100) empty_summary) (\<lambda>r0.
      bind_io (with_db (recover_stores e now r0)) (\<lambda>r.
      bind_io (with_db (reconcile_actions e provider (or_default (ro_action_batch opts) 100))) (\<lambda>acts.
      bind_io (reconcileArtifacts e (or_default (ro_artifact_batch opts) (Finite 500))
        (or_default (ro_remove_orphans opts) False) (or_default (ro_grace_seconds opts) 3600)) (\<lambda>arts.
      bind_io (recovery_event e (recovery_payload r arts acts now)) (\<lambda>ev.
      bind_io (with_db (rebuildProjections e (or_default (ro_projection_batch opts) (Finite 500)))) (\<lambda>rb.
      ret_io \<lparr>rr_summary = r, rr_projections = rb_checkpointed rb, rr_artifacts = arts,
              rr_actions = acts, rr_event = ev\<rparr>)))))))"

subsection \<open>What recovering an attempt does\<close>

lemma abandoned_inactive: "\<not> active (att_status (abandoned_attempt now a))"
  by (simp add: abandoned_attempt_def active_def)

lemma insert_attempt_or_nothing_Inr:
  "insert_attempt_or_nothing a s = Inr (i, s') \<longleftrightarrow> attempt_ok a \<and>
     i = (\<not> list_ex (same_attempt_key a) (attempts s)) \<and>
     (i \<longrightarrow> att_id a \<notin> att_id ` set (attempts s)) \<and> s' = (if i then s\<lparr>attempts := attempts s @ [a]\<rparr> else s)"
  by (auto simp: insert_attempt_or_nothing_def attempt_taken_def list_ex_iff)

text \<open>The attempt and the execution tables after one step.\<close>

definition closes :: "attempt \<Rightarrow> db \<Rightarrow> bool" where
  "closes a s \<longleftrightarrow>
     (\<exists>b\<in>set (attempts s). att_execution b = att_execution a \<and> att_number b = Suc (att_number a)) \<or>
     (\<exists>x\<in>set (executions s). exe_id x = att_execution a \<and> exe_status x \<noteq> ERunning)"

text \<open>How an abandoned attempt is followed up: with a new attempt (or one that is there already), by
  failing the execution, or not at all when the execution is over.\<close>

definition follow_up :: "int \<Rightarrow> attempt \<Rightarrow> db \<Rightarrow> attempt list \<Rightarrow> (execution \<Rightarrow> bool) \<Rightarrow> bool" where
  "follow_up now a s new p \<longleftrightarrow>
     p = (\<lambda>_. False) \<and> att_number a < MAX_ATTEMPTS \<and>
       (\<exists>i. new = [replacement_attempt now a i] \<and> i \<notin> att_id ` set (attempts s))
   \<or> p = (\<lambda>_. False) \<and> new = [] \<and>
       (\<exists>b\<in>set (attempts s). att_execution b = att_execution a \<and> att_number b = Suc (att_number a))
   \<or> p = (\<lambda>x. exe_id x = att_execution a) \<and> new = []
   \<or> p = (\<lambda>_. False) \<and> new = [] \<and>
       (\<exists>x\<in>set (executions s). exe_id x = att_execution a \<and> exe_status x \<noteq> ERunning)"

lemma recover_attempt_Inr:
  assumes "recover_attempt e now aid s = Inr (c, s')"
  obtains (none) "s' = s" and "\<And>a. List.find (\<lambda>a. att_id a = aid) (attempts s) = Some a \<Longrightarrow> \<not> expired now a"
  | (abandon) a p new where "List.find (\<lambda>a. att_id a = aid) (attempts s) = Some a" and "expired now a"
      and "attempts s' = set_rows (\<lambda>b. att_id b = aid) (abandoned_attempt now) (attempts s) @ new"
      and "follow_up now a s new p"
      and "executions s' = set_rows p (failed_execution now RECOVERY_FAILURE) (executions s)"
      and "submissions s' = submissions s" and "closes a s'"
proof (cases "List.find (\<lambda>a. att_id a = aid) (attempts s)")
  case None
  with assms show thesis by (intro none) (auto simp: recover_attempt_def tx_Inr)
next
  case (Some a)
  show thesis
  proof (cases "expired now a")
    case False
    with assms Some show thesis by (intro none) (auto simp: recover_attempt_def tx_Inr)
  next
    case True
    have aid: "att_id a = aid" using find_Some_mem [OF Some] by simp
    let ?s1 = "s\<lparr>attempts := set_rows (\<lambda>b. att_id b = aid) (abandoned_attempt now) (attempts s)\<rparr>"
    from assms Some True obtain x g ids where
      x: "List.find (\<lambda>x. exe_id x = att_execution a) (executions s) = Some x"
      and rest: "replace_or_give_up e now a x g ids ?s1 = Inr (c, s')"
      by (auto simp: recover_attempt_def tx_Inr aid update_attempts_inactive abandoned_inactive split: if_splits)
    have mem: "x \<in> set (executions s)" "exe_id x = att_execution a" using find_Some_mem [OF x] by auto
    consider (replace) "att_number a < MAX_ATTEMPTS" "replace_attempt e now a ids ?s1 = Inr (c, s')"
      | (fail) "exe_status x = ERunning" "give_up e now x ids ?s1 = Inr (c, s')"
      | (leave) "exe_status x \<noteq> ERunning" "s' = ?s1"
      using rest by (auto simp: replace_or_give_up_def ret_Inr split: if_splits)
    then show thesis
    proof cases
      case replace
      let ?new = "replacement_attempt now a (new_uuid e (drawn s))"
      from replace(2) obtain i s2 where ins: "insert_attempt_or_nothing ?new (?s1\<lparr>drawn := Suc (drawn s)\<rparr>) = Inr (i, s2)"
        and s': "attempts s' = attempts s2" "executions s' = executions s2" "submissions s' = submissions s2"
          "drawn s' = drawn s2"
        by (auto simp: replace_attempt_def tx_Inr fresh_uuid_Inr update_deliveries_eq split: if_splits)
      then have att: "attempts s' = attempts ?s1 @ (if i then [?new] else [])"
        and i: "i = (\<not> list_ex (same_attempt_key ?new) (attempts ?s1))"
        by (auto simp: insert_attempt_or_nothing_Inr)
      have "closes a s'"
        unfolding closes_def att using i
        by (auto simp: list_ex_iff same_attempt_key_def replacement_attempt_def)
      moreover have "executions s' = set_rows (\<lambda>_. False) (failed_execution now RECOVERY_FAILURE) (executions s)"
        using s' ins by (auto simp: insert_attempt_or_nothing_Inr set_rows_def)
      moreover have "follow_up now a s (if i then [?new] else []) (\<lambda>_. False)"
      proof (cases i)
        case yes: True
        then have "att_id ?new \<notin> att_id ` set (attempts ?s1)"
          using ins by (simp add: insert_attempt_or_nothing_Inr)
        moreover have "map att_id (attempts ?s1) = map att_id (attempts s)"
          by (simp, rule map_set_rows) (simp add: abandoned_attempt_def)
        then have "att_id ` set (attempts ?s1) = att_id ` set (attempts s)" by (metis list.set_map)
        ultimately have "att_id ?new \<notin> att_id ` set (attempts s)" by simp
        with yes replace(1) show ?thesis
          by (auto simp: follow_up_def replacement_attempt_def)
      next
        case no: False
        with i obtain b where "b \<in> set (attempts ?s1)" "same_attempt_key ?new b"
          by (auto simp: list_ex_iff)
        then have "\<exists>b\<in>set (attempts s). att_execution b = att_execution a \<and> att_number b = Suc (att_number a)"
          by (auto simp: set_set_rows same_attempt_key_def replacement_attempt_def abandoned_attempt_def)
        with no show ?thesis by (simp add: follow_up_def)
      qed
      ultimately show thesis
        using Some True att s' ins
        by (intro abandon [of a "if i then [?new] else []" "\<lambda>_. False"])
          (auto simp: insert_attempt_or_nothing_Inr)
    next
      case fail
      from fail(2) obtain n s2 where upd: "update_executions e (\<lambda>y. exe_id y = exe_id x)
          (failed_execution now RECOVERY_FAILURE) ?s1 = Inr (n, s2)"
        and s': "attempts s' = attempts s2" "executions s' = executions s2" "submissions s' = submissions s2"
          "drawn s' = drawn s2"
        by (auto simp: give_up_def tx_Inr update_deliveries_eq split: if_splits)
      have exe: "executions s' = set_rows (\<lambda>y. exe_id y = exe_id x) (failed_execution now RECOVERY_FAILURE) (executions s)"
        using update_executions_Inr(2) [OF upd] s' by simp
      have "failed_execution now RECOVERY_FAILURE x \<in> set (executions s')"
        using mem(1) by (auto simp: exe set_rows_def)
      then have "closes a s'"
        unfolding closes_def using mem(2) by (auto simp: failed_execution_def intro!: bexI [of _ "failed_execution now RECOVERY_FAILURE x"])
      then show thesis
        using Some True s' update_executions_Inr(3) [OF upd] exe mem(2)
        by (intro abandon [of a "[]" "\<lambda>y. exe_id y = exe_id x"]) (auto simp: follow_up_def)
    next
      case leave
      then have "closes a s'" using mem by (auto simp: closes_def)
      then show thesis using Some True leave
        using mem by (intro abandon [of a "[]" "\<lambda>_. False"]) (auto simp: set_rows_def follow_up_def)
    qed
  qed
qed

subsection \<open>Every expired attempt\<close>

definition attempt_keys :: "db \<Rightarrow> bool" where
  "attempt_keys s \<longleftrightarrow> distinct (map att_id (attempts s))"

text \<open>What a store looks like after the attempts with these ids have been visited.\<close>

definition visited :: "int \<Rightarrow> string set \<Rightarrow> db \<Rightarrow> db \<Rightarrow> bool" where
  "visited now ids s s' \<longleftrightarrow>
     (\<forall>a\<in>set (attempts s'). expired now a \<longrightarrow> a \<in> set (attempts s) \<and> att_id a \<notin> ids) \<and>
     (\<forall>a\<in>set (attempts s). \<not> (expired now a \<and> att_id a \<in> ids) \<longrightarrow> a \<in> set (attempts s')) \<and>
     (\<forall>a\<in>set (attempts s). expired now a \<longrightarrow> att_id a \<in> ids \<longrightarrow>
        abandoned_attempt now a \<in> set (attempts s') \<and> closes a s') \<and>
     (\<forall>a. closes a s \<longrightarrow> closes a s') \<and> submissions s' = submissions s"

lemma visited_back:
  "visited now ids s s' \<Longrightarrow> a \<in> set (attempts s') \<Longrightarrow> expired now a \<Longrightarrow>
     a \<in> set (attempts s) \<and> att_id a \<notin> ids"
  unfolding visited_def by blast

lemma visited_keep:
  "visited now ids s s' \<Longrightarrow> a \<in> set (attempts s) \<Longrightarrow> \<not> (expired now a \<and> att_id a \<in> ids) \<Longrightarrow>
     a \<in> set (attempts s')"
  unfolding visited_def by blast

lemma visited_done:
  "visited now ids s s' \<Longrightarrow> a \<in> set (attempts s) \<Longrightarrow> expired now a \<Longrightarrow> att_id a \<in> ids \<Longrightarrow>
     abandoned_attempt now a \<in> set (attempts s') \<and> closes a s'"
  unfolding visited_def by blast

lemma visited_closes: "visited now ids s s' \<Longrightarrow> closes a s \<Longrightarrow> closes a s'"
  unfolding visited_def by blast

lemma visited_submissions: "visited now ids s s' \<Longrightarrow> submissions s' = submissions s"
  unfolding visited_def by blast

lemma closes_mono:
  assumes "closes a s" and "attempts s' = set_rows q (abandoned_attempt now) (attempts s) @ new"
    and "executions s' = set_rows p (failed_execution now RECOVERY_FAILURE) (executions s)"
  shows "closes a s'"
  using assms(1) unfolding closes_def
proof (elim disjE bexE conjE)
  fix b
  assume "b \<in> set (attempts s)" "att_execution b = att_execution a" "att_number b = Suc (att_number a)"
  then show "(\<exists>b\<in>set (attempts s'). att_execution b = att_execution a \<and> att_number b = Suc (att_number a)) \<or>
     (\<exists>x\<in>set (executions s'). exe_id x = att_execution a \<and> exe_status x \<noteq> ERunning)"
    by (intro disjI1 bexI [of _ "if q b then abandoned_attempt now b else b"])
      (auto simp: assms(2) set_rows_def abandoned_attempt_def)
next
  fix x
  assume "x \<in> set (executions s)" "exe_id x = att_execution a" "exe_status x \<noteq> ERunning"
  then show "(\<exists>b\<in>set (attempts s'). att_execution b = att_execution a \<and> att_number b = Suc (att_number a)) \<or>
     (\<exists>x\<in>set (executions s'). exe_id x = att_execution a \<and> exe_status x \<noteq> ERunning)"
    by (intro disjI2 bexI [of _ "if p x then failed_execution now RECOVERY_FAILURE x else x"])
      (auto simp: assms(3) set_rows_def failed_execution_def)
qed

lemma not_expired:
  "\<not> expired now (abandoned_attempt now a)" "\<not> expired now (replacement_attempt now a i)"
  by (simp_all add: expired_def abandoned_attempt_def replacement_attempt_def active_def)

lemma recover_attempt_visits:
  assumes "recover_attempt e now aid s = Inr (c, s')" and "attempt_keys s"
  shows "attempt_keys s' \<and> visited now {aid} s s'"
  using assms(1)
proof (cases rule: recover_attempt_Inr)
  case none
  have "\<not> expired now a" if a: "a \<in> set (attempts s)" "att_id a = aid" for a
  proof -
    have "List.find (\<lambda>a. att_id a = aid) (attempts s) = Some a"
      using find_unique_key [of att_id "attempts s" a] assms(2) a by (simp add: attempt_keys_def)
    then show ?thesis by (rule none(2))
  qed
  with none(1) assms(2) show ?thesis by (auto simp: visited_def)
next
  case (abandon a p new)
  have a: "a \<in> set (attempts s)" "att_id a = aid" using find_Some_mem [OF abandon(1)] by auto
  have one: "b = a" if "b \<in> set (attempts s)" "att_id b = aid" for b
    using assms(2) that a by (metis distinct_map inj_onD attempt_keys_def)
  have ids: "map att_id (attempts s') = map att_id (attempts s) @ map att_id new"
    unfolding abandon(3) map_append by (subst map_set_rows) (simp_all add: abandoned_attempt_def)
  have new_ids: "set (map att_id new) \<inter> att_id ` set (attempts s) = {}" "distinct (map att_id new)"
    using abandon(4) by (auto simp: follow_up_def replacement_attempt_def)
  with assms(2) have "attempt_keys s'"
    by (auto simp: attempt_keys_def ids)
  moreover have "visited now {aid} s s'"
  proof -
    have new: "\<not> expired now b" if "b \<in> set new" for b
      using abandon(4) that by (auto simp: follow_up_def not_expired)
    have rows: "set (attempts s') = abandoned_attempt now ` {b \<in> set (attempts s). att_id b = aid} \<union>
        {b \<in> set (attempts s). att_id b \<noteq> aid} \<union> set new"
      unfolding abandon(3) by (auto simp: set_rows_def)
    have closes: "closes b s'" if "closes b s" for b
      by (rule closes_mono [OF that abandon(3,5)])
    show ?thesis
      unfolding visited_def
    proof (intro conjI ballI allI impI)
      fix b
      assume "b \<in> set (attempts s')" "expired now b"
      with new show "b \<in> set (attempts s)" "att_id b \<notin> {aid}" by (auto simp: rows not_expired)
    next
      fix b
      assume "b \<in> set (attempts s)" "\<not> (expired now b \<and> att_id b \<in> {aid})"
      with one abandon(2) have "att_id b \<noteq> aid" by blast
      then show "b \<in> set (attempts s')" using \<open>b \<in> set (attempts s)\<close> by (simp add: rows)
    next
      fix b
      assume "b \<in> set (attempts s)" "att_id b \<in> {aid}"
      with one have "b = a" by simp
      with a abandon(7) show "abandoned_attempt now b \<in> set (attempts s')" "closes b s'"
        by (simp_all add: rows)
    qed (use closes abandon(6) in simp_all)
  qed
  ultimately show ?thesis ..
qed

lemma visited_trans:
  assumes st: "visited now ids s t" and tu: "visited now js t u"
  shows "visited now (ids \<union> js) s u"
  unfolding visited_def
proof (intro conjI ballI allI impI)
  fix a
  assume "a \<in> set (attempts u)" "expired now a"
  with visited_back [OF tu this] visited_back [OF st, of a]
  show "a \<in> set (attempts s)" "att_id a \<notin> ids \<union> js" by simp_all
next
  fix a
  assume "a \<in> set (attempts s)" "\<not> (expired now a \<and> att_id a \<in> ids \<union> js)"
  with visited_keep [OF tu visited_keep [OF st, of a]] show "a \<in> set (attempts u)" by blast
next
  fix a
  assume a: "a \<in> set (attempts s)" "expired now a" "att_id a \<in> ids \<union> js"
  have "abandoned_attempt now a \<in> set (attempts u) \<and> closes a u"
  proof (cases "att_id a \<in> ids")
    case True
    with visited_done [OF st a(1,2)] have "abandoned_attempt now a \<in> set (attempts t)" "closes a t" by blast+
    with visited_keep [OF tu] not_expired(1) visited_closes [OF tu] show ?thesis by blast
  next
    case False
    with visited_keep [OF st a(1)] have "a \<in> set (attempts t)" by blast
    with visited_done [OF tu _ a(2)] a(3) False show ?thesis by blast
  qed
  then show "abandoned_attempt now a \<in> set (attempts u)" "closes a u" by simp_all
next
  show "closes a s \<Longrightarrow> closes a u" for a by (intro visited_closes [OF tu] visited_closes [OF st])
  show "submissions u = submissions s" using visited_submissions [OF st] visited_submissions [OF tu] by simp
qed

lemma recover_loop:
  assumes "fold_io (\<lambda>aid r. bind_io (transaction (recover_attempt e now aid)) (\<lambda>c.
      ret_io (add_recovered c r))) ids r s = (Inr r', s')" and "attempt_keys s"
  shows "attempt_keys s' \<and> visited now (set ids) s s'"
  using assms
proof (induction ids arbitrary: r s)
  case Nil
  then show ?case by (auto simp: ret_io_Inr visited_def)
next
  case (Cons aid ids)
  from Cons.prems(1) obtain c t where step: "recover_attempt e now aid s = Inr (c, t)"
    and rest: "fold_io (\<lambda>aid r. bind_io (transaction (recover_attempt e now aid)) (\<lambda>c.
      ret_io (add_recovered c r))) ids (add_recovered c r) t = (Inr r', s')"
    by (auto simp: io_Inr transaction_cases)
  note one = recover_attempt_visits [OF step Cons.prems(2)]
  with Cons.IH [OF rest] have "attempt_keys s'" "visited now (set ids) t s'" by auto
  with one visited_trans [of now "{aid}" s t "set ids" s'] show ?case by simp
qed

text \<open>C20. A recovery pass over expired leases that returns leaves no attempt with an expired lease: each of
  them is abandoned (its lease cleared), and its execution either has the next attempt or is no longer
  running; every other attempt is still there, unchanged.\<close>

theorem expired_recovered:
  assumes "recover_expired e now r s = (Inr r', s')" and "attempt_keys s"
  shows "(\<forall>a\<in>set (attempts s'). \<not> expired now a) \<and>
    (\<forall>a\<in>set (attempts s). \<not> expired now a \<longrightarrow> a \<in> set (attempts s')) \<and>
    (\<forall>a\<in>set (attempts s). expired now a \<longrightarrow> abandoned_attempt now a \<in> set (attempts s') \<and>
       ((\<exists>b\<in>set (attempts s'). att_execution b = att_execution a \<and> att_number b = Suc (att_number a)) \<or>
        (\<exists>x\<in>set (executions s'). exe_id x = att_execution a \<and> exe_status x \<noteq> ERunning)))"
proof -
  have "fold_io (\<lambda>aid r. bind_io (transaction (recover_attempt e now aid)) (\<lambda>c.
      ret_io (add_recovered c r))) (expired_attempts now s) r s = (Inr r', s')"
    using assms(1) by (simp add: recover_expired_def bind_io_def get_io_def)
  from recover_loop [OF this assms(2)] have v: "visited now (set (expired_attempts now s)) s s'" by simp
  have "att_id a \<in> set (expired_attempts now s)" if "a \<in> set (attempts s)" "expired now a" for a
    using that by (auto simp: expired_attempts_def)
  then have all: "att_id a \<in> set (expired_attempts now s)" if "a \<in> set (attempts s)" "expired now a" for a
    using that by blast
  have "\<not> expired now a" if "a \<in> set (attempts s')" for a
    using visited_back [OF v that] all by blast
  moreover have "a \<in> set (attempts s')" if "a \<in> set (attempts s)" "\<not> expired now a" for a
    using visited_keep [OF v that(1)] that(2) by blast
  moreover have "abandoned_attempt now a \<in> set (attempts s') \<and> closes a s'"
    if "a \<in> set (attempts s)" "expired now a" for a
    by (rule visited_done [OF v that all [OF that]])
  ultimately show ?thesis unfolding closes_def by blast
qed

lemma load_context_inactive:
  assumes "sr_attempt r = att_id a" "sr_execution r = att_execution a"
    and "List.find (\<lambda>y. att_id y = att_id a \<and> att_execution y = att_execution a) (attempts s) = Some y"
    and "\<not> active (att_status y)"
    and "find_submission (att_id a) s = Some b" "sub_committed b = None"
  shows "load_context e allow r (sub_digest b) s = Inl (ExecutionCommitError ''inactive_attempt'' 409)"
  using assms by (auto simp: load_context_def Let_def tx_simps split: option.split)

text \<open>C22. The pass over expired leases does not look at the results that workers have handed over: when
  such a result still waits (because it lay beyond the batch of results that recovery commits first),
  committing it afterwards is refused as inactive, whatever the lease policy, and the result
  is deleted.\<close>

theorem recovery_loses_result:
  assumes "recover_expired e now r s = (Inr r', s')" and "attempt_keys s"
    and "a \<in> set (attempts s)" and "expired now a"
    and "find_submission (att_id a) s = Some b" and "sub_committed b = None"
    and "sr_attempt (sub_result b) = att_id a" and "sr_execution (sub_result b) = att_execution a"
    and "w_db w = s'"
  shows "\<exists>w'. commitSubmittedResult e' allow (att_id a) w =
      (Inl (ExecutionCommitError ''inactive_attempt'' 409), w') \<and>
    (\<forall>c\<in>set (submissions (w_db w')). \<not> uncommitted (att_id a) (sub_digest b) c)"
proof -
  have loop: "fold_io (\<lambda>aid r. bind_io (transaction (recover_attempt e now aid)) (\<lambda>c.
      ret_io (add_recovered c r))) (expired_attempts now s) r s = (Inr r', s')"
    using assms(1) by (simp add: recover_expired_def bind_io_def get_io_def)
  have vis: "attempt_keys s'" "visited now (set (expired_attempts now s)) s s'"
    using recover_loop [OF loop assms(2)] by blast+
  let ?b = "abandoned_attempt now a"
  have "att_id a \<in> set (expired_attempts now s)" using assms(3,4) by (auto simp: expired_attempts_def)
  with visited_done [OF vis(2) assms(3,4)] have b: "?b \<in> set (attempts s')" by blast
  have sub: "submissions s' = submissions s" by (rule visited_submissions [OF vis(2)])
  let ?r = "normalizeSubmittedResult (sub_result b)"
  have ids: "sr_attempt ?r = att_id a" "sr_execution ?r = att_execution a"
    using assms(7,8) by (simp_all add: normalizeSubmittedResult_ids)
  have row: "List.find (\<lambda>y. att_id y = att_id a \<and> att_execution y = att_execution a) (attempts s') = Some ?b"
  proof -
    have "List.find (\<lambda>y. att_id y = att_id ?b \<and> att_execution y = att_execution ?b) (attempts s') \<noteq> None"
      using b by (auto simp: find_None_iff)
    then obtain y where y: "List.find (\<lambda>y. att_id y = att_id ?b \<and> att_execution y = att_execution ?b) (attempts s') = Some y"
      by blast
    then have "y \<in> set (attempts s')" "att_id y = att_id ?b" by (auto dest: find_Some_mem)
    then have "y = ?b" using vis(1) b by (metis distinct_map inj_onD attempt_keys_def)
    with y show ?thesis by (simp add: abandoned_attempt_def)
  qed
  have found: "find_submission (att_id a) s' = Some b" using assms(5) by (simp add: find_submission_def sub)
  have "load_context e' allow ?r (sub_digest b) s' = Inl (ExecutionCommitError ''inactive_attempt'' 409)"
    by (rule load_context_inactive [OF ids row abandoned_inactive found assms(6)])
  then have "commit e' allow ?r (sub_digest b) w = (Inl (ExecutionCommitError ''inactive_attempt'' 409),
      w\<lparr>w_db := discard_submission ?r (sub_digest b) (w_db w)\<rparr>)"
    by (simp add: commit_def transaction_io_def commit_body_def bind_io_def in_db_def assms(9) rejects_def)
  then show ?thesis
    using found by (simp add: commitSubmittedResult_def assms(9) discard_submission_def assms(7)
        normalizeSubmittedResult_ids)
qed


subsection \<open>Concrete recoveries\<close>

lemma sample_ids: "attempt_keys (commit_store n)"
  by (simp add: attempt_keys_def commit_store_def)

definition pending_store :: "submitted_result \<Rightarrow> db" where
  "pending_store r = (commit_store 1)\<lparr>submissions := [\<lparr>sub_id = ''b1'', sub_execution = ''x1'',
     sub_attempt = ''a1'', sub_digest = ''dg'', sub_result = r, sub_committed = None, sub_created = 5\<rparr>]\<rparr>"

definition pending_world :: "submitted_result \<Rightarrow> world" where
  "pending_world r = sample_world\<lparr>w_db := pending_store r\<rparr>"

lemma sample_recovers: "\<exists>r' s'. recover_expired commit_env 70000 empty_summary (commit_store 1) = (Inr r', s')"
proof -
  have "case fst (recover_expired commit_env 70000 empty_summary (commit_store 1)) of Inl _ \<Rightarrow> False | Inr _ \<Rightarrow> True"
    by code_simp
  then show ?thesis
    by (cases "recover_expired commit_env 70000 empty_summary (commit_store 1)") (auto split: sum.splits)
qed

lemma sample_recovers_pending:
  "\<exists>r' s'. recover_expired commit_env 70000 empty_summary (pending_store (sample_result RsCompleted None)) =
     (Inr r', s')"
proof -
  have "case fst (recover_expired commit_env 70000 empty_summary (pending_store (sample_result RsCompleted None)))
      of Inl _ \<Rightarrow> False | Inr _ \<Rightarrow> True"
    by code_simp
  then show ?thesis
    by (cases "recover_expired commit_env 70000 empty_summary (pending_store (sample_result RsCompleted None))")
      (auto split: sum.splits)
qed

lemma sample_blocked:
  "fst (commitSubmittedResult commit_env True ''a1'' (pending_world (sample_result RsCancelled None)))
     = Inl (DbViolation ''execution_attempts_check'')"
  by code_simp

lemma expired_recovered_witness:
  "\<exists>r' s'. recover_expired commit_env 70000 empty_summary (commit_store 1) = (Inr r', s') \<and>
     (\<forall>a\<in>set (attempts s'). \<not> expired 70000 a) \<and>
     abandoned_attempt 70000 (sample_attempt 1) \<in> set (attempts s')"
proof -
  obtain r' s' where run: "recover_expired commit_env 70000 empty_summary (commit_store 1) = (Inr r', s')"
    using sample_recovers by blast
  from expired_recovered [OF run sample_ids] show ?thesis
    by (intro exI [of _ r'] exI [of _ s'] conjI run)
      (auto simp: commit_store_def sample_attempt_def expired_def active_def)
qed

lemma recovery_loses_result_witness:
  "\<exists>r' s' w'. recover_expired commit_env 70000 empty_summary
       (pending_store (sample_result RsCompleted None)) = (Inr r', s') \<and>
     commitSubmittedResult commit_env True ''a1'' (sample_world\<lparr>w_db := s'\<rparr>) =
       (Inl (ExecutionCommitError ''inactive_attempt'' 409), w')"
proof -
  let ?s = "pending_store (sample_result RsCompleted None)"
  obtain r' s' where run: "recover_expired commit_env 70000 empty_summary ?s = (Inr r', s')"
    using sample_recovers_pending by blast
  have ids: "attempt_keys ?s" using sample_ids [of 1] by (simp add: attempt_keys_def pending_store_def)
  let ?b = "hd (submissions ?s)"
  have "sample_attempt 1 \<in> set (attempts ?s)" "expired 70000 (sample_attempt 1)"
    "find_submission (att_id (sample_attempt 1)) ?s = Some ?b" "sub_committed ?b = None"
    "sr_attempt (sub_result ?b) = att_id (sample_attempt 1)"
    "sr_execution (sub_result ?b) = att_execution (sample_attempt 1)"
    by (simp_all add: pending_store_def commit_store_def sample_attempt_def expired_def active_def
        find_submission_def sample_result_def)
  from recovery_loses_result [OF run ids this, of "sample_world\<lparr>w_db := s'\<rparr>" commit_env True] run
  show ?thesis by (auto simp: sample_attempt_def)
qed


end
