(* ===== verification/Lifecycle.thy ===== *)
theory Lifecycle
  imports Recovery
begin

section \<open>The lifecycle of an execution\<close>

text \<open>
  What the services promise together about an execution: a specification as a small state machine,
  the view of an execution in the store, and what a transaction has to do to the tables of executions
  and attempts so that every execution takes steps of the specification. \<open>Runtime\<close> proves it of the
  services.
\<close>

subsection \<open>The specification\<close>

text \<open>An execution is its status and the statuses of its attempts in the order of their numbers.\<close>

type_synonym life = "execution_state \<times> attempt_state list"

definition open_attempt :: "attempt_state \<Rightarrow> bool" where
  "open_attempt st \<longleftrightarrow> st = APending \<or> active st"

text \<open>How the last attempt closes together with its execution.\<close>

definition closes_as :: "attempt_state \<Rightarrow> execution_state \<Rightarrow> attempt_state \<Rightarrow> bool" where
  "closes_as st x fin \<longleftrightarrow>
     active st \<and> x = ECompleted \<and> fin = ACompleted
   \<or> active st \<and> x = EFailed \<and> (fin = AFailed \<or> fin = AAbandoned)
   \<or> open_attempt st \<and> x = EFailed \<and> fin = ACancelled"

inductive life_step :: "life option \<Rightarrow> life option \<Rightarrow> bool" where
  start: "life_step None (Some (ERunning, [ALeased]))"
| lease: "life_step (Some (ERunning, sts @ [APending])) (Some (ERunning, sts @ [ALeased]))"
| renew: "active st \<Longrightarrow> life_step (Some (ERunning, sts @ [st])) (Some (ERunning, sts @ [ARunning]))"
| retry: "active st \<Longrightarrow> fin = AFailed \<or> fin = AAbandoned \<Longrightarrow> length sts < 3 \<Longrightarrow>
     life_step (Some (ERunning, sts @ [st])) (Some (ERunning, sts @ [fin, APending]))"
| close: "closes_as st x fin \<Longrightarrow>
     life_step (Some (ERunning, sts @ [st])) (Some (x, sts @ [fin]))"

inductive_simps life_step_absent: "life_step None l"
inductive_cases life_stepE: "life_step (Some (x, sts)) l"

text \<open>The shape of an execution at any time: between one and four attempts, of which all but the
  last have failed or were abandoned, while the last one tells the status.\<close>

fun life_ok :: "life option \<Rightarrow> bool" where
  "life_ok None = True"
| "life_ok (Some (x, sts)) =
     (sts \<noteq> [] \<and> length sts \<le> 4 \<and> list_all (\<lambda>st. st = AFailed \<or> st = AAbandoned) (butlast sts) \<and>
      (case x of
         ERunning \<Rightarrow> open_attempt (last sts)
       | ECompleted \<Rightarrow> last sts = ACompleted
       | EFailed \<Rightarrow> last sts \<in> {AFailed, AAbandoned, ACancelled}
       | _ \<Rightarrow> False))"

lemma open_attempt_simps [simp]:
  "open_attempt APending" "open_attempt ALeased" "open_attempt ARunning"
  "\<not> open_attempt ACompleted" "\<not> open_attempt AFailed" "\<not> open_attempt ACancelled"
  "\<not> open_attempt AAbandoned"
  by (simp_all add: open_attempt_def active_def)

lemma active_open: "active st \<Longrightarrow> open_attempt st"
  by (simp add: open_attempt_def)

lemma open_not_terminal: "open_attempt st \<longleftrightarrow> \<not> terminal_attempt st"
  by (cases st) (simp_all add: terminal_attempt_def)

lemma life_step_ok: "life_step l l' \<Longrightarrow> life_ok l \<Longrightarrow> life_ok l'"
  by (induction rule: life_step.induct) (auto simp: closes_as_def butlast_append active_open)

text \<open>An execution that is over takes no further step.\<close>

lemma life_step_over: "life_step (Some (x, sts)) l \<Longrightarrow> x = ERunning"
  by (erule life_stepE) simp_all

lemma life_over_final: "life_step\<^sup>*\<^sup>* (Some (x, sts)) l \<Longrightarrow> x \<noteq> ERunning \<Longrightarrow> l = Some (x, sts)"
  by (induction rule: rtranclp_induct) (auto dest: life_step_over)

lemma life_steps_ok: "life_step\<^sup>*\<^sup>* l l' \<Longrightarrow> life_ok l \<Longrightarrow> life_ok l'"
  by (induction rule: rtranclp_induct) (auto intro: life_step_ok)

text \<open>A started execution stays there, with at least the attempts it has.\<close>

lemma life_steps_grow:
  assumes "life_step\<^sup>*\<^sup>* (Some (x, sts)) l"
  obtains y rs where "l = Some (y, rs)" and "length sts \<le> length rs"
proof -
  have "\<exists>y rs. l = Some (y, rs) \<and> length sts \<le> length rs"
    using assms
  proof (induction rule: rtranclp_induct)
    case (step l m)
    then obtain y rs where "l = Some (y, rs)" "length sts \<le> length rs" by blast
    with step.hyps(2) show ?case by (auto elim!: life_stepE)
  qed simp
  then show thesis using that by blast
qed

subsection \<open>Simulation\<close>

text \<open>A concrete relation whose steps keep an invariant and show as runs of an abstract one.\<close>

locale simulation =
  fixes cstep :: "'c \<Rightarrow> 'c \<Rightarrow> bool"
    and astep :: "'a \<Rightarrow> 'a \<Rightarrow> bool"
    and inv :: "'c \<Rightarrow> bool"
    and view :: "'c \<Rightarrow> 'a"
  assumes step_inv: "inv c \<Longrightarrow> cstep c d \<Longrightarrow> inv d"
    and step_view: "inv c \<Longrightarrow> cstep c d \<Longrightarrow> astep\<^sup>*\<^sup>* (view c) (view d)"
begin

lemma run_inv: "cstep\<^sup>*\<^sup>* c d \<Longrightarrow> inv c \<Longrightarrow> inv d"
  by (induction rule: rtranclp_induct) (auto intro: step_inv)

lemma run_view: "cstep\<^sup>*\<^sup>* c d \<Longrightarrow> inv c \<Longrightarrow> astep\<^sup>*\<^sup>* (view c) (view d)"
  by (induction rule: rtranclp_induct) (auto intro: step_view run_inv rtranclp_trans)

text \<open>What holds of every abstract state reachable from the view holds of the view at any later time.\<close>

lemma run_safe:
  assumes "cstep\<^sup>*\<^sup>* c d" and "inv c" and "\<And>a. astep\<^sup>*\<^sup>* (view c) a \<Longrightarrow> P a"
  shows "P (view d)"
  using assms run_view by blast

end

subsection \<open>The view of an execution in the store\<close>

definition attempts_of_execution :: "string \<Rightarrow> db \<Rightarrow> attempt list" where
  "attempts_of_execution x s = filter (\<lambda>a. att_execution a = x) (attempts s)"

definition exec_life :: "string \<Rightarrow> db \<Rightarrow> life option" where
  "exec_life x s =
     map_option (\<lambda>r. (exe_status r, map att_status (attempts_of_execution x s)))
       (List.find (\<lambda>r. exe_id r = x) (executions s))"

text \<open>The keys of the two tables: identifiers are unique, an attempt belongs to an execution, and the
  attempts of an execution are numbered from one in the order of the table.\<close>

definition well_keyed :: "db \<Rightarrow> bool" where
  "well_keyed s \<longleftrightarrow>
     distinct (map att_id (attempts s)) \<and> distinct (map exe_id (executions s)) \<and>
     att_execution ` set (attempts s) \<subseteq> exe_id ` set (executions s) \<and>
     (\<forall>x. map att_number (attempts_of_execution x s) =
        [1..<Suc (length (attempts_of_execution x s))])"

definition life_inv :: "db \<Rightarrow> bool" where
  "life_inv s \<longleftrightarrow> db_checks s \<and> well_keyed s \<and> (\<forall>x. life_ok (exec_life x s))"

lemma same_tables:
  assumes "attempts t = attempts s" and "executions t = executions s"
  shows "well_keyed t = well_keyed s" and "exec_life x t = exec_life x s"
  using assms by (simp_all add: well_keyed_def exec_life_def attempts_of_execution_def)

text \<open>Reading a row through its key.\<close>

lemma attempt_unique:
  "well_keyed s \<Longrightarrow> a \<in> set (attempts s) \<Longrightarrow> b \<in> set (attempts s) \<Longrightarrow> att_id a = att_id b \<Longrightarrow> a = b"
  unfolding well_keyed_def by (blast intro: distinct_keys_unique)

lemma execution_unique:
  "well_keyed s \<Longrightarrow> x \<in> set (executions s) \<Longrightarrow> y \<in> set (executions s) \<Longrightarrow> exe_id x = exe_id y \<Longrightarrow> x = y"
  unfolding well_keyed_def by (blast intro: distinct_keys_unique)

lemma exec_life_row:
  assumes "well_keyed s" and "r \<in> set (executions s)"
  shows "exec_life (exe_id r) s =
    Some (exe_status r, map att_status (attempts_of_execution (exe_id r) s))"
proof -
  have "List.find (\<lambda>y. exe_id y = exe_id r) (executions s) = Some r"
    using find_unique_key [of exe_id "executions s" r] assms by (simp add: well_keyed_def)
  then show ?thesis by (simp add: exec_life_def)
qed

lemma exec_life_absent:
  "x \<notin> exe_id ` set (executions s) \<Longrightarrow> exec_life x s = None"
  by (auto simp: exec_life_def find_None_iff)


subsection \<open>Changes of the two tables\<close>

text \<open>The open attempt of an execution is its last one.\<close>

lemma open_is_last:
  assumes "life_ok (Some (x, map att_status rows))" and "a \<in> set rows" and "open_attempt (att_status a)"
  obtains pre where "rows = pre @ [a]" and "x = ERunning" and "\<forall>b\<in>set pre. \<not> open_attempt (att_status b)"
    and "length pre < 4"
proof -
  have ne: "rows \<noteq> []" using assms(2) by auto
  have closed: "\<forall>b\<in>set (butlast rows). \<not> open_attempt (att_status b)"
    using assms(1) by (auto simp: list_all_iff map_butlast [symmetric])
  have rows: "rows = butlast rows @ [last rows]" using ne by simp
  have "a \<in> insert (last rows) (set (butlast rows))" using assms(2) by (subst (asm) rows) simp
  with closed assms(3) have a: "a = last rows" by blast
  moreover have "x = ERunning"
    using assms(1,3) ne by (cases x) (auto simp: a last_map)
  moreover have "length rows \<le> 4" using assms(1) by simp
  then have "length (butlast rows) < 4" using ne by (cases rows) simp_all
  ultimately show thesis using that [of "butlast rows"] closed rows by simp
qed

lemma running_has_open:
  assumes "life_ok (Some (ERunning, map att_status rows))"
  obtains pre a where "rows = pre @ [a]" and "open_attempt (att_status a)"
    and "\<forall>b\<in>set pre. \<not> open_attempt (att_status b)" and "length pre < 4"
proof -
  have ne: "rows \<noteq> []" using assms by auto
  then have "open_attempt (att_status (last rows))" "last rows \<in> set rows"
    using assms by (simp_all add: last_map)
  with open_is_last [OF assms this(2,1)] show thesis using that by blast
qed

lemma over_has_none:
  assumes "life_ok (Some (x, map att_status rows))" and "x \<noteq> ERunning" and "a \<in> set rows"
  shows "\<not> open_attempt (att_status a)"
  using open_is_last [OF assms(1,3)] assms(2) by blast

lemma set_rows_last:
  "p a \<Longrightarrow> \<forall>b\<in>set pre. \<not> p b \<Longrightarrow> set_rows p f (pre @ [a]) = pre @ [f a]"
  by (simp add: set_rows_def map_idI)

lemma set_rows_append: "set_rows p f (xs @ ys) = set_rows p f xs @ set_rows p f ys"
  by (simp add: set_rows_def)

text \<open>Updates that keep the keys of an attempt.\<close>

definition keeps_keys :: "(attempt \<Rightarrow> attempt) \<Rightarrow> bool" where
  "keeps_keys f \<longleftrightarrow>
     (\<forall>a. att_id (f a) = att_id a \<and> att_execution (f a) = att_execution a \<and> att_number (f a) = att_number a)"

lemma filter_set_rows:
  "(\<And>a. c (f a) = c a) \<Longrightarrow> filter c (set_rows p f rows) = set_rows p f (filter c rows)"
  by (induction rows) (simp_all add: set_rows_def)

lemma attempts_of_set_rows:
  assumes "attempts s' = set_rows p f (attempts s) @ new" and "keeps_keys f"
  shows "attempts_of_execution x s' =
    set_rows p f (attempts_of_execution x s) @ filter (\<lambda>a. att_execution a = x) new"
  using assms by (simp add: attempts_of_execution_def filter_set_rows keeps_keys_def)

text \<open>An attempt that may be added, after rows have been rewritten.\<close>

definition next_attempt :: "db \<Rightarrow> attempt \<Rightarrow> bool" where
  "next_attempt s a \<longleftrightarrow>
     att_id a \<notin> att_id ` set (attempts s) \<and> att_execution a \<in> exe_id ` set (executions s) \<and>
     att_number a = Suc (length (attempts_of_execution (att_execution a) s))"

lemma well_keyed_step:
  assumes wk: "well_keyed s"
    and att: "attempts s' = set_rows p f (attempts s) @ new" and f: "keeps_keys f"
    and exe: "executions s' = set_rows q g (executions s)" and g: "\<And>r. exe_id (g r) = exe_id r"
    and new: "new = [] \<or> (\<exists>a. new = [a] \<and> next_attempt s a)"
  shows "well_keyed s'"
proof -
  have ids: "map att_id (attempts s') = map att_id (attempts s) @ map att_id new"
    unfolding att map_append by (subst map_set_rows) (use f in \<open>simp_all add: keeps_keys_def\<close>)
  have xs: "map att_execution (attempts s') = map att_execution (attempts s) @ map att_execution new"
    unfolding att map_append by (subst map_set_rows) (use f in \<open>simp_all add: keeps_keys_def\<close>)
  have exes: "map exe_id (executions s') = map exe_id (executions s)"
    unfolding exe by (rule map_set_rows) (simp add: g)
  have "set (map att_id new) \<inter> set (map att_id (attempts s)) = {}" "distinct (map att_id new)"
    using new unfolding next_attempt_def by (auto simp del: set_map simp: set_map [symmetric])
  then have "distinct (map att_id (attempts s'))"
    using wk unfolding ids distinct_append by (auto simp: well_keyed_def)
  moreover have "distinct (map exe_id (executions s'))" using wk by (simp add: exes well_keyed_def)
  moreover have "set (map att_execution (attempts s')) \<subseteq> set (map exe_id (executions s'))"
    unfolding xs exes using wk new by (auto simp: well_keyed_def next_attempt_def)
  moreover have "map att_number (attempts_of_execution x s') =
      [1..<Suc (length (attempts_of_execution x s'))]" for x
  proof -
    have "map att_number (set_rows p f (attempts_of_execution x s)) =
        map att_number (attempts_of_execution x s)"
      by (rule map_set_rows) (use f in \<open>simp add: keeps_keys_def\<close>)
    also have "\<dots> = [1..<Suc (length (attempts_of_execution x s))]"
      using wk unfolding well_keyed_def by blast
    finally have old: "map att_number (set_rows p f (attempts_of_execution x s)) =
        [1..<Suc (length (attempts_of_execution x s))]" .
    show ?thesis
    proof (cases "\<exists>a. new = [a] \<and> att_execution a = x")
      case True
      then obtain a where "new = [a]" "att_execution a = x" by blast
      with new have a: "filter (\<lambda>a. att_execution a = x) new = [a]"
        "att_number a = Suc (length (attempts_of_execution x s))" by (auto simp: next_attempt_def)
      show ?thesis unfolding attempts_of_set_rows [OF att f] a(1) map_append old by (simp add: a(2))
    next
      case False
      with new have "filter (\<lambda>a. att_execution a = x) new = []" by auto
      then show ?thesis unfolding attempts_of_set_rows [OF att f] map_append old by simp
    qed
  qed
  ultimately show ?thesis by (simp add: well_keyed_def)
qed

text \<open>The view after such a step: of an execution whose rows it does not select, and of one whose open
  attempt it does.\<close>

lemma find_set_rows_id:
  assumes "\<And>r. exe_id (g r) = exe_id r"
  shows "List.find (\<lambda>r. exe_id r = x) (set_rows q g rows) =
    map_option (\<lambda>r. if q r then g r else r) (List.find (\<lambda>r. exe_id r = x) rows)"
  by (induction rows) (simp_all add: set_rows_def assms)

lemma exec_life_step:
  assumes att: "attempts s' = set_rows p f (attempts s) @ new" and f: "keeps_keys f"
    and exe: "executions s' = set_rows q g (executions s)" and g: "\<And>r. exe_id (g r) = exe_id r"
  shows "exec_life x s' =
    map_option (\<lambda>r. (exe_status (if q r then g r else r),
        map att_status (set_rows p f (attempts_of_execution x s) @ filter (\<lambda>a. att_execution a = x) new)))
      (List.find (\<lambda>r. exe_id r = x) (executions s))"
  unfolding exec_life_def exe find_set_rows_id [of g, OF g] attempts_of_set_rows [OF att f]
  by (simp add: option.map_comp o_def)

lemma exec_life_untouched:
  assumes att: "attempts s' = set_rows p f (attempts s) @ new" and f: "keeps_keys f"
    and exe: "executions s' = set_rows q g (executions s)" and g: "\<And>r. exe_id (g r) = exe_id r"
    and "\<forall>a\<in>set (attempts_of_execution x s). \<not> p a" and "\<forall>a\<in>set new. att_execution a \<noteq> x"
    and "\<forall>r\<in>set (executions s). exe_id r = x \<longrightarrow> \<not> q r"
  shows "exec_life x s' = exec_life x s"
proof -
  have new: "filter (\<lambda>a. att_execution a = x) new = []" using assms(6) by (simp add: filter_empty_conv)
  have rows: "set_rows p f (attempts_of_execution x s) = attempts_of_execution x s"
    by (rule set_rows_none) (use assms(5) in blast)
  show ?thesis
    unfolding exec_life_step [OF att f exe g] rows new
    using assms(7)
    by (cases "List.find (\<lambda>r. exe_id r = x) (executions s)")
      (auto simp: exec_life_def dest!: find_Some_mem)
qed

subsection \<open>Advancing the executions\<close>

text \<open>What every transaction must do: keep the keys, and show as a run of each execution.\<close>

definition advances :: "db \<Rightarrow> db \<Rightarrow> bool" where
  "advances s s' \<longleftrightarrow> well_keyed s' \<and> (\<forall>x. life_step\<^sup>*\<^sup>* (exec_life x s) (exec_life x s'))"

lemma advances_same:
  "attempts t = attempts s \<Longrightarrow> executions t = executions s \<Longrightarrow> well_keyed s \<Longrightarrow> advances s t"
  unfolding advances_def by (simp add: same_tables [of t s])

lemma life_inv_advances: "life_inv s \<Longrightarrow> advances s s' \<Longrightarrow> db_checks s' \<Longrightarrow> life_inv s'"
  unfolding life_inv_def advances_def by (blast intro: life_steps_ok)

lemma life_invD:
  assumes "life_inv s"
  shows "well_keyed s" and "db_checks s" and "life_ok (exec_life x s)"
  using assms by (simp_all add: life_inv_def)

lemma row_life_ok:
  "life_inv s \<Longrightarrow> r \<in> set (executions s) \<Longrightarrow>
     life_ok (Some (exe_status r, map att_status (attempts_of_execution (exe_id r) s)))"
  using life_invD(3) [of s "exe_id r"] exec_life_row [OF life_invD(1)] by simp

lemma last_number:
  assumes "well_keyed s" and "attempts_of_execution x s = pre @ [a]"
  shows "att_number a = Suc (length pre)" and "att_execution a = x" and "a \<in> set (attempts s)"
proof -
  have "map att_number (attempts_of_execution x s) = [1..<Suc (length (attempts_of_execution x s))]"
    using assms(1) unfolding well_keyed_def by blast
  then have "map att_number pre @ [att_number a] = [1..<Suc (length pre)] @ [Suc (length pre)]"
    unfolding assms(2) by simp
  then show "att_number a = Suc (length pre)" by simp
  have "a \<in> set (attempts_of_execution x s)" by (simp add: assms(2))
  then show "att_execution a = x" "a \<in> set (attempts s)" by (auto simp: attempts_of_execution_def)
qed

lemma attempt_numbers_le:
  assumes "well_keyed s" and "a \<in> set (attempts s)"
  shows "att_number a \<le> length (attempts_of_execution (att_execution a) s)"
proof -
  have "att_number a \<in> set (map att_number (attempts_of_execution (att_execution a) s))"
    using assms(2) by (simp add: attempts_of_execution_def)
  also have "map att_number (attempts_of_execution (att_execution a) s) =
      [1..<Suc (length (attempts_of_execution (att_execution a) s))]"
    using assms(1) unfolding well_keyed_def by blast
  finally show ?thesis by auto
qed

text \<open>The open attempt of an execution, found through its own row.\<close>

lemma open_attempt_row:
  assumes inv: "life_inv s" and a: "a \<in> set (attempts s)" "open_attempt (att_status a)"
  obtains r pre where "r \<in> set (executions s)" and "exe_id r = att_execution a" and "exe_status r = ERunning"
    and "attempts_of_execution (att_execution a) s = pre @ [a]" and "length pre < 4"
proof -
  obtain r where r: "r \<in> set (executions s)" "exe_id r = att_execution a"
    using life_invD(1) [OF inv] a(1) by (auto simp: well_keyed_def)
  have "a \<in> set (attempts_of_execution (att_execution a) s)" using a(1) by (simp add: attempts_of_execution_def)
  from open_is_last [OF row_life_ok [OF inv r(1), unfolded r(2)] this a(2)] r that show thesis by metis
qed

text \<open>A transaction that touches one execution, through its open attempt.\<close>

lemma advance_one:
  assumes inv: "life_inv s" and a: "a \<in> set (attempts s)" "open_attempt (att_status a)"
    and att: "attempts s' = set_rows p f (attempts s) @ new" and f: "keeps_keys f"
    and p: "\<And>b. b \<in> set (attempts s) \<Longrightarrow> p b \<longleftrightarrow> b = a"
    and exe: "executions s' = set_rows q g (executions s)" and g: "\<And>r. exe_id (g r) = exe_id r"
    and q: "\<And>r. r \<in> set (executions s) \<Longrightarrow> q r \<Longrightarrow> exe_id r = att_execution a"
    and new: "new = [] \<or> (\<exists>n. new = [n] \<and> next_attempt s n \<and> att_execution n = att_execution a)"
    and step: "\<And>r pre. r \<in> set (executions s) \<Longrightarrow> exe_id r = att_execution a \<Longrightarrow>
      exe_status r = ERunning \<Longrightarrow> att_number a = Suc (length pre) \<Longrightarrow> length pre < 4 \<Longrightarrow>
      attempts_of_execution (att_execution a) s = pre @ [a] \<Longrightarrow>
      life_step\<^sup>*\<^sup>* (Some (ERunning, map att_status pre @ [att_status a]))
        (Some (exe_status (if q r then g r else r), map att_status pre @ att_status (f a) # map att_status new))"
  shows "advances s s'"
  unfolding advances_def
proof (intro conjI allI)
  note wk = life_invD(1) [OF inv]
  show "well_keyed s'" by (rule well_keyed_step [OF wk att f exe g]) (use new in blast)
  fix x
  show "life_step\<^sup>*\<^sup>* (exec_life x s) (exec_life x s')"
  proof (cases "x = att_execution a")
    case False
    have "exec_life x s' = exec_life x s"
      by (rule exec_life_untouched [OF att f exe g])
        (use False p q new in \<open>auto simp: attempts_of_execution_def\<close>)
    then show ?thesis by simp
  next
    case x: True
    obtain r pre where r: "r \<in> set (executions s)" "exe_id r = att_execution a" "exe_status r = ERunning"
      and rows: "attempts_of_execution (att_execution a) s = pre @ [a]" and len: "length pre < 4"
      using open_attempt_row [OF inv a] by blast
    have find: "List.find (\<lambda>y. exe_id y = x) (executions s) = Some r"
      using find_unique_key [of exe_id "executions s" r] wk r(1,2) x by (simp add: well_keyed_def)
    have "\<forall>b\<in>set pre. \<not> p b"
    proof
      fix b assume b: "b \<in> set pre"
      have "b \<in> set (attempts_of_execution (att_execution a) s)" using rows b by simp
      then have "b \<in> set (attempts s)" by (simp add: attempts_of_execution_def)
      moreover have "distinct (map att_id (pre @ [a]))"
        using wk rows by (metis attempts_of_execution_def distinct_map_filter well_keyed_def)
      then have "b \<noteq> a" using b by auto
      ultimately show "\<not> p b" using p by blast
    qed
    moreover have "p a" using p a(1) by blast
    ultimately have "set_rows p f (attempts_of_execution x s) = pre @ [f a]"
      unfolding x rows by (intro set_rows_last)
    moreover have "filter (\<lambda>b. att_execution b = x) new = new" using new x by auto
    ultimately have "exec_life x s' = Some (exe_status (if q r then g r else r),
        map att_status pre @ att_status (f a) # map att_status new)"
      by (simp add: exec_life_step [OF att f exe g] find)
    moreover have "exec_life x s = Some (ERunning, map att_status pre @ [att_status a])"
      using exec_life_row [OF wk r(1)] r rows x by simp
    ultimately show ?thesis
      using step [OF r last_number(1) [OF wk rows] len rows] by simp
  qed
qed

text \<open>A transaction that cancels every open attempt of the executions it selects.\<close>

lemma advance_many:
  assumes inv: "life_inv s"
    and att: "attempts s' = set_rows p f (attempts s)" and f: "keeps_keys f"
    and canc: "\<And>a. att_status (f a) = ACancelled"
    and exe: "executions s' = set_rows q g (executions s)" and g: "\<And>r. exe_id (g r) = exe_id r"
    and fail: "\<And>r. exe_status (g r) = EFailed"
    and p: "\<And>r a. r \<in> set (executions s) \<Longrightarrow> a \<in> set (attempts s) \<Longrightarrow> att_execution a = exe_id r \<Longrightarrow>
      p a \<longleftrightarrow> c r \<and> open_attempt (att_status a)"
    and q: "\<And>r. r \<in> set (executions s) \<Longrightarrow> q r \<longleftrightarrow> c r \<and> exe_status r = ERunning"
  shows "advances s s'"
  unfolding advances_def
proof (intro conjI allI)
  note wk = life_invD(1) [OF inv]
  have att': "attempts s' = set_rows p f (attempts s) @ []" using att by simp
  show "well_keyed s'" by (rule well_keyed_step [OF wk att' f exe g]) simp
  fix x
  show "life_step\<^sup>*\<^sup>* (exec_life x s) (exec_life x s')"
  proof (cases "List.find (\<lambda>r. exe_id r = x) (executions s)")
    case None
    then have "exec_life x s' = exec_life x s"
      unfolding exec_life_step [OF att' f exe g] by (simp add: exec_life_def)
    then show ?thesis by simp
  next
    case (Some r)
    then have r: "r \<in> set (executions s)" "exe_id r = x" by (auto dest: find_Some_mem)
    have rows: "a \<in> set (attempts s) \<and> att_execution a = exe_id r"
      if "a \<in> set (attempts_of_execution x s)" for a
      using that by (auto simp: attempts_of_execution_def r(2))
    note ok = row_life_ok [OF inv r(1), unfolded r(2)]
    show ?thesis
    proof (cases "c r \<and> exe_status r = ERunning")
      case True
      then obtain pre a where a: "attempts_of_execution x s = pre @ [a]" "open_attempt (att_status a)"
        and pre: "\<forall>b\<in>set pre. \<not> open_attempt (att_status b)"
        using running_has_open ok by metis
      have "p a" and "\<forall>b\<in>set pre. \<not> p b"
        using p [OF r(1)] rows True a pre by auto
      then have "set_rows p f (attempts_of_execution x s) = pre @ [f a]"
        unfolding a(1) by (intro set_rows_last)
      moreover have "q r" using q [OF r(1)] True by simp
      ultimately have "exec_life x s' = Some (EFailed, map att_status pre @ [ACancelled])"
        by (simp add: exec_life_step [OF att' f exe g] Some fail canc)
      moreover have "exec_life x s = Some (ERunning, map att_status pre @ [att_status a])"
        using exec_life_row [OF wk r(1)] r a True by simp
      moreover have "closes_as (att_status a) EFailed ACancelled" using a(2) by (simp add: closes_as_def)
      ultimately show ?thesis by (auto intro: life_step.close)
    next
      case False
      have "\<forall>a\<in>set (attempts_of_execution x s). \<not> p a"
        using False p [OF r(1)] rows over_has_none [OF ok] by blast
      moreover have "\<forall>y\<in>set (executions s). exe_id y = x \<longrightarrow> \<not> q y"
        using execution_unique [OF wk] r q False by blast
      ultimately have "exec_life x s' = exec_life x s"
        by (intro exec_life_untouched [OF att' f exe g]) simp_all
      then show ?thesis by simp
    qed
  qed
qed

text \<open>A transaction that starts an execution with its first attempt.\<close>

lemma advance_start:
  assumes inv: "life_inv s"
    and att: "attempts s' = attempts s @ [a]" and exe: "executions s' = executions s @ [r]"
    and r: "exe_id r \<notin> exe_id ` set (executions s)" "exe_status r = ERunning"
    and a: "att_execution a = exe_id r" "att_number a = 1" "att_status a = ALeased"
      "att_id a \<notin> att_id ` set (attempts s)"
  shows "advances s s'"
  unfolding advances_def
proof (intro conjI allI)
  note wk = life_invD(1) [OF inv]
  have none: "attempts_of_execution (exe_id r) s = []"
    using wk r(1) unfolding attempts_of_execution_def filter_empty_conv well_keyed_def
    by (metis image_eqI subsetD)
  have rows: "attempts_of_execution x s' =
      (if x = exe_id r then [a] else attempts_of_execution x s)" for x
    using none by (auto simp: attempts_of_execution_def att a(1))
  show "well_keyed s'"
    unfolding well_keyed_def
  proof (intro conjI allI)
    show "distinct (map att_id (attempts s'))" "distinct (map exe_id (executions s'))"
      using wk r(1) a(4) by (simp_all add: att exe well_keyed_def)
    show "att_execution ` set (attempts s') \<subseteq> exe_id ` set (executions s')"
      using wk a(1) by (auto simp: att exe well_keyed_def)
    show "map att_number (attempts_of_execution x s') =
        [1..<Suc (length (attempts_of_execution x s'))]" for x
    proof (cases "x = exe_id r")
      case False
      then have "attempts_of_execution x s' = attempts_of_execution x s" by (simp add: rows)
      with wk show ?thesis unfolding well_keyed_def by metis
    qed (simp add: rows a(2))
  qed
  fix x
  show "life_step\<^sup>*\<^sup>* (exec_life x s) (exec_life x s')"
  proof (cases "x = exe_id r")
    case True
    have "List.find (\<lambda>y. exe_id y = x) (executions s) = None"
      using r(1) True unfolding find_None_iff by (metis image_eqI)
    then have "exec_life x s' = Some (ERunning, [ALeased])" "exec_life x s = None"
      using r(2) a(3) True by (simp_all add: exec_life_def exe rows find_append_None)
    then show ?thesis by (auto intro: life_step.start)
  next
    case False
    then have "exec_life x s' = exec_life x s"
      by (cases "List.find (\<lambda>y. exe_id y = x) (executions s)")
        (simp_all add: exec_life_def exe rows find_append_fresh)
    then show ?thesis by simp
  qed
qed

end
