(* ===== verification/Runtime.thy ===== *)
theory Runtime
  imports Lifecycle
begin

section \<open>The runtime as a whole\<close>

text \<open>
  Every transaction of every service shows as steps of the lifecycle of each execution: the poll of the
  scheduler, heartbeats, commits, cancellations and recoveries, and the services that leave executions
  alone. A run is any sequence of such transactions, in any order and interleaving.
\<close>

subsection \<open>Commits\<close>

lemma next_attempt_rows:
  assumes "well_keyed s" and "attempts_of_execution (att_execution a) s = pre @ [a]"
    and "att_id n \<notin> att_id ` set (attempts s)" and "att_execution n = att_execution a"
    and "att_number n = Suc (att_number a)"
  shows "next_attempt s n"
proof -
  have "a \<in> set (attempts s)" by (rule last_number(3) [OF assms(1,2)])
  then have "att_execution a \<in> exe_id ` set (executions s)"
    using assms(1) by (auto simp: well_keyed_def)
  with assms last_number(1) [OF assms(1,2)] show ?thesis by (simp add: next_attempt_def)
qed

lemma no_later_attempt:
  assumes "well_keyed s" and "attempts_of_execution (att_execution a) s = pre @ [a]"
    and "b \<in> set (attempts s)" and "att_execution b = att_execution a"
  shows "att_number b \<noteq> Suc (att_number a)"
  using attempt_numbers_le [OF assms(1,3)] last_number(1) [OF assms(1,2)] assms(2,4) by simp

lemma keeps_keys_intros:
  "keeps_keys (completed_attempt now)" "keeps_keys (failed_attempt now r)"
  "keeps_keys (abandoned_attempt now)" "keeps_keys (cancelled_attempt e)"
  "keeps_keys (settled_attempt now)" "keeps_keys (lease_fields w tok until now)"
  by (simp_all add: keeps_keys_def completed_attempt_def failed_attempt_def abandoned_attempt_def
      cancelled_attempt_def settled_attempt_def lease_fields_def)

lemma retry_delay_bound: "retry_delay a = Some d \<Longrightarrow> att_number a \<le> 3"
  by (auto simp: retry_delay_def RETRY_BACKOFF_MS_def split: if_splits)

lemma commit_outcome_cases:
  assumes "commit_outcome e r cc atts d fa fx fd new"
  obtains (completed) "fa = completed_attempt (clock e)" "fx = completed_execution (clock e)" "new = []"
  | (retried) t i where "fa = failed_attempt (clock e) r" "sr_status r = RsFailed" "fx = (\<lambda>x. x)"
      "att_number (cc_attempt cc) \<le> 3"
      "new = (if list_ex (same_attempt_key (retry_attempt cc t i)) (set_rows (attempt_of r) fa atts)
         then [] else [retry_attempt cc t i])" "new = [] \<or> i \<notin> att_id ` set atts"
  | (dead) "fa = failed_attempt (clock e) r" "fx = failed_execution (clock e) (reported_failure r)" "new = []"
proof -
  note assms [unfolded commit_outcome_def]
  then consider (1) "fa = completed_attempt (clock e)" "fx = completed_execution (clock e)" "new = []"
    | (2) "sr_status r \<noteq> RsCompleted \<and> retryable r \<and> d = RetryScheduled \<and>
        fa = failed_attempt (clock e) r \<and> fx = (\<lambda>x. x) \<and>
        (\<exists>delay i. retry_delay (cc_attempt cc) = Some delay \<and>
          fd = ready_delivery (clock e + delay) \<and>
          new = (if list_ex (same_attempt_key (retry_attempt cc (clock e + delay) i))
                     (set_rows (attempt_of r) fa atts)
                 then [] else [retry_attempt cc (clock e + delay) i]) \<and>
          (new = [] \<or> i \<notin> att_id ` set atts))"
    | (3) "fa = failed_attempt (clock e) r" "fx = failed_execution (clock e) (reported_failure r)" "new = []"
    by blast
  then show thesis
  proof cases
    case 2
    then obtain delay i where "retryable r" "retry_delay (cc_attempt cc) = Some delay"
      "fa = failed_attempt (clock e) r" "fx = (\<lambda>x. x)" "new = [] \<or> i \<notin> att_id ` set atts"
      "new = (if list_ex (same_attempt_key (retry_attempt cc (clock e + delay) i))
         (set_rows (attempt_of r) fa atts) then [] else [retry_attempt cc (clock e + delay) i])" by blast
    then show thesis
      by (intro retried [of "clock e + delay" i]) (simp_all only: retryable_def retry_delay_bound)
  qed (rule completed dead, assumption+)+
qed

lemma commit_advances:
  assumes inv: "life_inv (w_db w)" and run: "commit e allow r digest w = (Inr d, w')"
    and nd: "d \<noteq> CommitDuplicate"
  shows "advances (w_db w) (w_db w')"
proof -
  obtain cc new0 fa fx fd new where auth: "authorized e allow r digest cc (w_db w)"
    and att: "attempts (w_db w') = set_rows (attempt_of r) fa (attempts (w_db w)) @ new"
    and exe: "executions (w_db w') = set_rows (execution_of r) fx (executions (w_db w))"
    and out: "commit_outcome e r cc (attempts (w_db w)) d fa fx fd new"
    using commit_lifecycle [OF run nd] by metis
  let ?s = "w_db w" and ?a = "cc_attempt cc"
  note rows = authorized_rows [OF auth] and wk = life_invD(1) [OF inv]
  have act: "active (att_status ?a)" using auth by (simp add: authorized_def)
  have op: "open_attempt (att_status ?a)" by (rule active_open [OF act])
  obtain x pre where x: "x \<in> set (executions ?s)" "exe_id x = att_execution ?a"
    and pre: "attempts_of_execution (att_execution ?a) ?s = pre @ [?a]"
    using open_attempt_row [OF inv rows(1) op] by metis
  have p: "attempt_of r b \<longleftrightarrow> b = ?a" if "b \<in> set (attempts ?s)" for b
    using attempt_unique [OF wk that rows(1)] rows(2) by (auto simp: attempt_of_def)
  have q: "exe_id y = att_execution ?a" if "execution_of r y" for y
    using that rows(3) by (simp add: execution_of_def)
  have q': "execution_of r y" if "exe_id y = att_execution ?a" for y
    using that rows(3) by (simp add: execution_of_def)
  from out show ?thesis
  proof (cases rule: commit_outcome_cases)
    case completed
    show ?thesis
      by (rule advance_one [OF inv rows(1) op att _ p exe])
        (use completed act q q' in \<open>auto simp: keeps_keys_intros completed_execution_def completed_attempt_def
          closes_as_def intro!: life_step.close r_into_rtranclp\<close>)
  next
    case dead
    show ?thesis
      by (rule advance_one [OF inv rows(1) op att _ p exe])
        (use dead act op q q' in \<open>auto simp: keeps_keys_intros failed_execution_def failed_attempt_def
          closes_as_def intro!: life_step.close r_into_rtranclp\<close>)
  next
    case (retried t i)
    let ?n = "retry_attempt cc t i"
    have n: "att_execution ?n = att_execution ?a" "att_number ?n = Suc (att_number ?a)" "att_id ?n = i"
      "att_status ?n = APending"
      using rows(3,4) by (simp_all add: retry_attempt_def)
    have "\<not> same_attempt_key ?n b" if "b \<in> set (set_rows (attempt_of r) fa (attempts ?s))" for b
    proof -
      obtain b0 where "b0 \<in> set (attempts ?s)" "att_execution b = att_execution b0" "att_number b = att_number b0"
        using \<open>b \<in> _\<close> retried(1) keeps_keys_intros(2) [of "clock e" r]
        by (auto simp: set_set_rows keeps_keys_def)
      with no_later_attempt [OF wk pre, of b0] n show ?thesis by (auto simp: same_attempt_key_def)
    qed
    then have new: "new = [?n]" using retried(5) by (auto simp: list_ex_iff)
    with retried(6) n have "next_attempt ?s ?n" by (intro next_attempt_rows [OF wk pre]) simp_all
    with new n have new': "new = [] \<or> (\<exists>n. new = [n] \<and> next_attempt ?s n \<and> att_execution n = att_execution ?a)"
      by blast
    show ?thesis
    proof (rule advance_one [OF inv rows(1) op att _ p exe])
      fix y :: execution and pre :: "attempt list"
      assume y: "exe_status y = ERunning" "att_number ?a = Suc (length pre)"
      have "life_step (Some (ERunning, map att_status pre @ [att_status ?a]))
          (Some (ERunning, map att_status pre @ [AFailed, APending]))"
        by (rule life_step.retry) (use act y(2) retried(4) in simp_all)
      then show "life_step\<^sup>*\<^sup>* (Some (ERunning, map att_status pre @ [att_status ?a]))
          (Some (exe_status (if execution_of r y then fx y else y),
             map att_status pre @ att_status (fa ?a) # map att_status new))"
        using y(1) retried(1,2,3) n(4) by (simp add: new failed_attempt_def r_into_rtranclp)
    qed (use retried(1,3) q new' in \<open>simp_all add: keeps_keys_intros\<close>)
  qed
qed

lemma life_commit:
  assumes inv: "life_inv (w_db w)"
  shows "advances (w_db w) (w_db (snd (commit e allow r digest w)))"
proof -
  obtain v w' where run: "commit e allow r digest w = (v, w')" by fastforce
  note wk = life_invD(1) [OF inv]
  show ?thesis
  proof (cases v)
    case (Inl err)
    with commit_Inl [of e allow r digest w err w'] run show ?thesis
      by (intro advances_same [OF _ _ wk]) (simp_all add: discard_submission_def)
  next
    case (Inr d)
    show ?thesis
    proof (cases "d = CommitDuplicate")
      case False
      with commit_advances [OF inv] run Inr show ?thesis by simp
    next
      case True
      from run Inr obtain ps w1 x where body: "commit_body e allow r digest w = (Inr (d, ps), w1)"
        and w': "w_db w' = (w_db w1)\<lparr>stagings := x\<rparr>" by (auto elim: commit_Inr)
      from body show ?thesis
      proof (cases rule: commit_body_Inr)
        case (duplicate b)
        with w' run show ?thesis by (intro advances_same [OF _ _ wk]) simp_all
      next
        case (committed cc s1 acc w2 s3)
        have "cc_deliveries cc = input_deliveries (sr_execution r) (w_db w)"
          and xid: "exe_id (cc_execution cc) = sr_execution r"
          using authorized_rows [OF committed(1)] by simp_all
        from committed(4) have "d \<noteq> CommitDuplicate"
          by (rule finish_commit_Inr [where ids = "{}", OF _ _ xid]) (auto simp: commit_outcome_def)
        with True show ?thesis by simp
      qed
    qed
  qed
qed

subsection \<open>Polls\<close>

lemma lease_attempt_rows:
  assumes "lease_attempt e w now until xid t = Inr (Some a, u)"
  obtains (due) a0 tok where "a0 \<in> set (attempts t)" and "att_execution a0 = xid" and "att_status a0 = APending"
      and "attempts u = set_rows (\<lambda>b. att_id b = att_id a0) (lease_fields w tok until now) (attempts t)"
      and "executions u = executions t"
  | (first) "\<forall>a0\<in>set (attempts t). att_execution a0 \<noteq> xid" and "attempts u = attempts t @ [a]"
      and "executions u = executions t" and "att_id a \<notin> att_id ` set (attempts t)" and "att_number a = 1"
      and "att_status a = ALeased" and "att_execution a = xid"
proof (cases "due_attempts now xid t")
  case Nil
  with assms show thesis
    by (intro first) (auto simp: lease_attempt_def bind_tx_app get_app fresh_uuid_app fresh_token_app Let_def
        ret_app insert_attempt_def list_ex_iff attempt_taken_def image_iff split: if_splits)
next
  case (Cons a0 rest)
  then have "a0 \<in> set (due_attempts now xid t)" by simp
  then have a0: "a0 \<in> set (attempts t)" "att_execution a0 = xid" "att_status a0 = APending"
    by (auto simp: due_attempts_def)
  let ?f = "lease_fields w (new_token e (drawn t)) until now"
  let ?t = "t\<lparr>drawn := Suc (drawn t)\<rparr>"
  from assms Cons obtain n where upd: "update_attempts (\<lambda>b. att_id b = att_id a0) ?f ?t = Inr (n, u)"
    by (auto simp: lease_attempt_def bind_tx_app get_app fresh_token_app ret_app split: sum.splits prod.splits)
  have "executions u = executions ?t"
    using upd by (auto simp: update_attempts_def split: sum.splits)
  with a0 update_attempts_Inr(2) [OF upd] show thesis by (intro due) simp_all
qed

lemma has_attempt:
  assumes "life_inv s" and "x \<in> set (executions s)"
  shows "exe_id x \<in> att_execution ` set (attempts s)"
proof -
  have "attempts_of_execution (exe_id x) s \<noteq> []" using row_life_ok [OF assms] by auto
  then obtain a where "a \<in> set (attempts s)" "exe_id x = att_execution a"
    unfolding attempts_of_execution_def filter_empty_conv by metis
  then show ?thesis by blast
qed

lemma tryCandidate_advances:
  assumes inv: "life_inv s" and run: "tryCandidate e w now until c s = Inr (r, s')"
  shows "advances s s' \<and> (r = None \<longrightarrow> attempts s' = attempts s \<and> executions s' = executions s)"
  using run
proof (cases rule: tryCandidate_Inr)
  case locked
  then show ?thesis by (simp add: advances_same [OF _ _ life_invD(1) [OF inv]])
next
  case deferred
  have "attempts s' = attempts s" "executions s' = executions s"
    using defer_group_Inr(2,3) [OF deferred] by (simp_all add: postponed_def)
  then show ?thesis by (simp add: advances_same [OF _ _ life_invD(1) [OF inv]])
next
  case (selected rgn ci tr fan inputs)
  note wk = life_invD(1) [OF inv]
  have owned: "att_execution b \<in> exe_id ` set (executions s)" if "b \<in> set (attempts s)" for b
    using wk that by (auto simp: well_keyed_def)
  from selected(7) show ?thesis
  proof (cases rule: lease_selected_Inr)
    case (deferred x t)
    have "executions t = executions s"
      using deferred(3,4) owned by (auto simp: with_execution_def)
    then have "attempts s' = attempts s" "executions s' = executions s"
      using defer_group_Inr(2,3) [OF deferred(1)] deferred(2) by (simp_all add: postponed_def)
    then show ?thesis by (simp add: advances_same [OF _ _ wk])
  next
    case (leased x t u a)
    have s': "attempts s' = attempts u" "executions s' = executions u"
      using leased(11) by (auto simp: update_deliveries_eq split: if_splits)
    from leased(10) have "advances s s'"
    proof (cases rule: lease_attempt_rows)
      case (due a0 tok)
      have a0: "a0 \<in> set (attempts s)" using due(1) leased(6) by simp
      have "executions t = executions s"
        using leased(13) owned [OF a0] due(2) by (auto simp: with_execution_def)
      then have exe: "executions s' = set_rows (\<lambda>_. False) (\<lambda>r. r) (executions s)"
        using s' due(5) by (simp add: set_rows_def)
      have att: "attempts s' = set_rows (\<lambda>b. att_id b = att_id a0) (lease_fields w tok until now) (attempts s) @ []"
        using s' due(4) leased(6) by simp
      have p: "att_id b = att_id a0 \<longleftrightarrow> b = a0" if "b \<in> set (attempts s)" for b
        using attempt_unique [OF wk that a0] by auto
      show ?thesis
        by (rule advance_one [OF inv a0 _ att _ p exe])
          (use due(3) in \<open>auto simp: keeps_keys_intros lease_fields_def intro!: life_step.lease\<close>)
    next
      case first
      have "exe_id x \<notin> att_execution ` set (attempts s)" using first(1) leased(6) by auto
      moreover have "exe_id x \<in> att_execution ` set (attempts s)" if "x \<in> set (executions s)"
        by (rule has_attempt [OF inv that])
      ultimately have "executions t = executions s @ [x]" "exe_id x \<notin> exe_id ` set (executions s)"
        using leased(1,13) by (auto simp: with_execution_def)
      with first leased(2,6) s' show ?thesis
        by (intro advance_start [OF inv, of s' a x]) simp_all
    qed
    with leased(12) show ?thesis by simp
  qed
qed

lemma life_inv_tables:
  "life_inv s \<Longrightarrow> attempts t = attempts s \<Longrightarrow> executions t = executions s \<Longrightarrow> db_checks t \<Longrightarrow> life_inv t"
  by (simp add: life_inv_def same_tables [of t s])

lemma advances_tables:
  "attempts t = attempts s \<Longrightarrow> executions t = executions s \<Longrightarrow> advances t u = advances s u"
  by (simp add: advances_def same_tables [of t s])

lemma try_candidates_advances:
  "life_inv s \<Longrightarrow> try_candidates e w now until cs s = Inr (r, s') \<Longrightarrow> advances s s'"
proof (induction cs arbitrary: s)
  case Nil
  then show ?case by (simp add: ret_Inr advances_same life_invD(1))
next
  case (Cons c cs)
  from Cons.prems(2) obtain q t where q: "tryCandidate e w now until c s = Inr (q, t)"
    and rest: "(case q of Some l \<Rightarrow> ret (Some l) | None \<Rightarrow> try_candidates e w now until cs) t = Inr (r, s')"
    by (auto simp: bind_tx_Inr)
  note one = tryCandidate_advances [OF Cons.prems(1) q]
  show ?case
  proof (cases q)
    case None
    with one have same: "attempts t = attempts s" "executions t = executions s" by simp_all
    have "db_checks t"
      using q life_invD(2) [OF Cons.prems(1)] by (blast intro: keepsD [OF checks_tryCandidate])
    with Cons.prems(1) same have "life_inv t" by (blast intro: life_inv_tables)
    from Cons.IH [OF this] rest None have "advances t s'" by simp
    then show ?thesis by (simp add: advances_tables [OF same])
  next
    case (Some l)
    with one rest show ?thesis by (simp add: ret_Inr)
  qed
qed

lemma life_poll:
  assumes inv: "life_inv s"
  shows "advances s (snd (leaseNextAttempt e opts s))"
proof -
  note same = advances_same [OF refl refl life_invD(1) [OF inv]]
  show ?thesis
    using same try_candidates_advances [OF inv]
    by (auto simp: leaseNextAttempt_def transaction_def bind_tx_app get_app split: sum.splits)
qed

subsection \<open>Heartbeats\<close>

lemma life_heartbeat:
  assumes inv: "life_inv s"
  shows "advances s (snd (heartbeat e o' i s))"
proof (cases "heartbeat e o' i s")
  case (Pair v s')
  show ?thesis
  proof (cases v)
    case (Inl err)
    with Pair have "s' = s" by (auto simp: heartbeat_def transaction_cases)
    then show ?thesis by (simp add: Pair advances_same life_invD(1) [OF inv])
  next
    case (Inr h)
    let ?f = "\<lambda>a. a\<lparr>att_status := ARunning, att_expires := Some (clock e + wo_lease o')\<rparr>"
    from Pair Inr obtain ai a x g n where row: "joined_attempt ai s = Some (a, x, g)"
      and cur: "lease_current e ai (a, x, g)"
      and upd: "update_attempts (\<lambda>a. att_id a = ai_attempt ai \<and> att_execution a = ai_execution ai \<and>
          att_token a = Some (ai_token ai)) ?f s = Inr (n, s')"
      by (auto simp: heartbeat_def transaction_cases tx_Inr activeAttempt_Inr Let_def of_sum_def split: sum.splits)
    note a = joined_attempt_Some(1-3) [OF row]
    have act: "active (att_status a)" and tok: "att_token a = Some (ai_token ai)"
      using cur by (auto simp: lease_current_def)
    have exe: "executions s' = set_rows (\<lambda>_. False) (\<lambda>r. r) (executions s)"
      using upd by (auto simp: update_attempts_def set_rows_def split: sum.splits)
    have att: "attempts s' = set_rows (\<lambda>a. att_id a = ai_attempt ai \<and> att_execution a = ai_execution ai \<and>
          att_token a = Some (ai_token ai)) ?f (attempts s) @ []"
      using update_attempts_Inr(2) [OF upd] by simp
    have p: "(att_id b = ai_attempt ai \<and> att_execution b = ai_execution ai \<and> att_token b = Some (ai_token ai))
        \<longleftrightarrow> b = a" if "b \<in> set (attempts s)" for b
      using attempt_unique [OF life_invD(1) [OF inv] that a(1)] a tok by auto
    have "advances s s'"
      by (rule advance_one [OF inv a(1) active_open [OF act] att _ p exe])
        (use act in \<open>auto simp: keeps_keys_def intro!: life_step.renew\<close>)
    then show ?thesis by (simp add: Pair)
  qed
qed

subsection \<open>Cancellations\<close>

lemma life_cancel:
  assumes inv: "life_inv s"
  shows "advances s (snd (cancelRun e c runId i s))"
proof (cases "cancelRun e c runId i s")
  case (Pair v s')
  note wk = life_invD(1) [OF inv]
  have "advances s s'"
  proof (cases v)
    case (Inl err)
    with Pair have "s' = s" by (auto dest: cancelRun_Inl)
    then show ?thesis by (simp add: advances_same wk)
  next
    case (Inr r)
    with Pair obtain reason where "cancel_body e c runId i reason s = Inr (r, s')"
      by (auto simp: cancelRun_Inr)
    then show ?thesis
    proof (cases rule: cancel_body_Inr)
      case (fresh run cor)
      let ?xs = "run_executions (cmd_region run) cor s" and ?as = "run_attempts (cmd_region run) cor s"
      from fresh(5) obtain t n where rows: "cancel_rows e (run_deliveries (cmd_region run) cor s) ?xs ?as t = Inr (n, s')"
        and t: "executions t = executions s" "attempts t = attempts s"
        by (rule cancel_new_Inr) blast
      note s' = cancel_rows_Inr(1,2) [OF rows, unfolded t]
      have xs: "exe_id y \<in> exe_id ` set ?xs \<longleftrightarrow> y \<in> set ?xs" if "y \<in> set (executions s)" for y
        using execution_unique [OF wk that] by (auto simp: run_executions_def image_iff)
      show ?thesis
      proof (rule advance_many [OF inv s'(1) _ _ s'(2), where c = "\<lambda>x. x \<in> set ?xs"])
        fix y a
        assume y: "y \<in> set (executions s)" and a: "a \<in> set (attempts s)" "att_execution a = exe_id y"
        have "att_id a \<in> set (map att_id (filter (\<lambda>a. \<not> terminal_attempt (att_status a)) ?as)) \<longleftrightarrow>
            a \<in> set ?as \<and> \<not> terminal_attempt (att_status a)"
          using attempt_unique [OF wk a(1)] by (auto simp: run_attempts_def image_iff)
        also have "a \<in> set ?as \<longleftrightarrow> y \<in> set ?xs" using a xs [OF y] by (simp add: run_attempts_def)
        finally show "att_id a \<in> set (map att_id (filter (\<lambda>a. \<not> terminal_attempt (att_status a)) ?as)) \<longleftrightarrow>
            y \<in> set ?xs \<and> open_attempt (att_status a)" by (simp add: open_not_terminal)
      next
        fix y
        assume y: "y \<in> set (executions s)"
        have "exe_id y \<in> set (map exe_id (filter (\<lambda>x. \<not> terminal_execution (exe_status x)) ?xs)) \<longleftrightarrow>
            y \<in> set ?xs \<and> \<not> terminal_execution (exe_status y)"
          using execution_unique [OF wk y] by (auto simp: run_executions_def image_iff)
        moreover have "exe_status y \<notin> {EPending, ECancelled}" using row_life_ok [OF inv y] by auto
        then have "\<not> terminal_execution (exe_status y) \<longleftrightarrow> exe_status y = ERunning"
          by (cases "exe_status y") (auto simp: terminal_execution_def)
        ultimately show "exe_id y \<in> set (map exe_id (filter (\<lambda>x. \<not> terminal_execution (exe_status x)) ?xs)) \<longleftrightarrow>
            y \<in> set ?xs \<and> exe_status y = ERunning" by simp
      qed (simp_all add: keeps_keys_intros cancelled_attempt_def cancelled_execution_def)
    next
      case replay
      then show ?thesis by (simp add: advances_same wk)
    qed
  qed
  then show ?thesis by (simp add: Pair)
qed

lemma life_settle:
  assumes inv: "life_inv s"
  shows "advances s (snd (transaction (settle_region e now gid) s))"
proof (cases "settle_region e now gid s")
  case (Inl err)
  then show ?thesis by (simp add: transaction_def advances_same life_invD(1) [OF inv])
next
  case (Inr r)
  obtain c s' where r: "r = (c, s')" by (cases r)
  from Inr r consider "s' = s" | g where "settle_rows e now g s = Inr (c, s')"
    by (auto simp: settle_region_def tx_Inr split: option.splits if_splits)
  then have "advances s s'"
  proof cases
    case 1
    then show ?thesis by (simp add: advances_same life_invD(1) [OF inv])
  next
    case (2 g)
    let ?xids = "map exe_id (filter (\<lambda>x. exe_region x = reg_id g) (executions s))"
    let ?p = "\<lambda>a. att_status a \<in> {APending, ALeased, ARunning} \<and> att_execution a \<in> set ?xids"
    from 2 obtain n1 s1 n2 s2 n3 s3 where
      att: "update_attempts ?p (settled_attempt now) s = Inr (n1, s1)" and
      exe: "update_executions e (\<lambda>x. exe_region x = reg_id g \<and> exe_status x = ERunning)
        (failed_execution now CANCELLATION_FAILURE) s1 = Inr (n2, s2)" and
      del: "update_deliveries (\<lambda>d. del_region d = reg_id g \<and> del_status d \<in> {DReady, DLeased})
        cancelled_delivery s2 = Inr (n3, s3)" and
      s': "attempts s' = attempts s3" "executions s' = executions s3"
      by (auto simp: settle_rows_def tx_Inr modify_Inr)
    have s3: "attempts s3 = attempts s2" "executions s3 = executions s2"
      using del by (auto simp: update_deliveries_eq split: if_splits)
    have s1: "executions s1 = executions s" using att by (auto simp: update_attempts_def split: sum.splits)
    have s2: "attempts s2 = attempts s1" using update_executions_Inr(3) [OF exe] by simp
    have a: "attempts s' = set_rows ?p (settled_attempt now) (attempts s)"
      using update_attempts_Inr(2) [OF att] by (simp add: s' s3 s2)
    have x: "executions s' = set_rows (\<lambda>x. exe_region x = reg_id g \<and> exe_status x = ERunning)
        (failed_execution now CANCELLATION_FAILURE) (executions s)"
      using update_executions_Inr(2) [OF exe] by (simp add: s' s3 s1)
    show ?thesis
    proof (rule advance_many [OF inv a _ _ x, where c = "\<lambda>x. exe_region x = reg_id g"])
      fix y b
      assume y: "y \<in> set (executions s)" "b \<in> set (attempts s)" "att_execution b = exe_id y"
      have "exe_id y \<in> set ?xids \<longleftrightarrow> exe_region y = reg_id g"
        using execution_unique [OF life_invD(1) [OF inv] y(1)] y(1) by (auto simp: image_iff)
      then show "?p b \<longleftrightarrow> exe_region y = reg_id g \<and> open_attempt (att_status b)"
        using y(3) by (auto simp: open_attempt_def active_def)
    qed (simp_all add: keeps_keys_intros settled_attempt_def failed_execution_def)
  qed
  then show ?thesis by (simp add: transaction_def Inr r)
qed

subsection \<open>Recovery\<close>

lemma life_recover:
  assumes inv: "life_inv s"
  shows "advances s (snd (transaction (recover_attempt e now aid) s))"
proof (cases "recover_attempt e now aid s")
  case (Inl err)
  then show ?thesis by (simp add: transaction_def advances_same life_invD(1) [OF inv])
next
  case (Inr r)
  obtain c s' where r: "r = (c, s')" by (cases r)
  note wk = life_invD(1) [OF inv]
  from Inr r have "recover_attempt e now aid s = Inr (c, s')" by simp
  then have "advances s s'"
  proof (cases rule: recover_attempt_Inr)
    case none
    then show ?thesis by (simp add: advances_same wk)
  next
    case (abandon a p new)
    have a: "a \<in> set (attempts s)" "att_id a = aid" using find_Some_mem [OF abandon(1)] by auto
    have act: "active (att_status a)" using abandon(2) by (simp add: expired_def)
    have uniq: "att_id b = aid \<longleftrightarrow> b = a" if "b \<in> set (attempts s)" for b
      using attempt_unique [OF wk that a(1)] a(2) by auto
    obtain x pre where x: "x \<in> set (executions s)" "exe_id x = att_execution a" "exe_status x = ERunning"
      and pre: "attempts_of_execution (att_execution a) s = pre @ [a]"
      using open_attempt_row [OF inv a(1) active_open [OF act]] by metis
    have later: "\<not> (\<exists>b\<in>set (attempts s). att_execution b = att_execution a \<and> att_number b = Suc (att_number a))"
      using no_later_attempt [OF wk pre] by blast
    have over: "\<not> (\<exists>x\<in>set (executions s). exe_id x = att_execution a \<and> exe_status x \<noteq> ERunning)"
      using execution_unique [OF wk x(1)] x by metis
    from abandon(4) later over consider
      (replace) i where "p = (\<lambda>_. False)" "att_number a < MAX_ATTEMPTS" "new = [replacement_attempt now a i]"
        "i \<notin> att_id ` set (attempts s)"
      | (fail) "p = (\<lambda>x. exe_id x = att_execution a)" "new = []"
      unfolding follow_up_def by blast
    then show ?thesis
    proof cases
      case fail
      show ?thesis
        by (rule advance_one [OF inv a(1) active_open [OF act] abandon(3) _ uniq abandon(5)])
          (use fail act in \<open>auto simp: keeps_keys_intros failed_execution_def abandoned_attempt_def
            closes_as_def intro!: life_step.close r_into_rtranclp\<close>)
    next
      case (replace i)
      have "next_attempt s (replacement_attempt now a i)"
        using replace(4) by (intro next_attempt_rows [OF wk pre]) (simp_all add: replacement_attempt_def)
      then have new: "new = [] \<or> (\<exists>n. new = [n] \<and> next_attempt s n \<and> att_execution n = att_execution a)"
        using replace(3) by (simp add: replacement_attempt_def)
      show ?thesis
      proof (rule advance_one [OF inv a(1) active_open [OF act] abandon(3) _ uniq abandon(5)])
        fix y :: execution and pre :: "attempt list"
        assume y: "exe_status y = ERunning" "att_number a = Suc (length pre)"
        have "life_step (Some (ERunning, map att_status pre @ [att_status a]))
            (Some (ERunning, map att_status pre @ [AAbandoned, APending]))"
          by (rule life_step.retry) (use act y(2) replace(2) in \<open>simp_all add: MAX_ATTEMPTS_def\<close>)
        then show "life_step\<^sup>*\<^sup>* (Some (ERunning, map att_status pre @ [att_status a]))
            (Some (exe_status (if p y then failed_execution now RECOVERY_FAILURE y else y),
               map att_status pre @ att_status (abandoned_attempt now a) # map att_status new))"
          using y(1) replace(1,3)
          by (simp add: abandoned_attempt_def replacement_attempt_def r_into_rtranclp)
      qed (use replace(1) new in \<open>simp_all add: keeps_keys_intros failed_execution_def\<close>)
    qed
  qed
  then show ?thesis by (simp add: transaction_def Inr r)
qed

subsection \<open>Services that leave executions alone\<close>

definition quiet :: "attempt list \<Rightarrow> execution list \<Rightarrow> db \<Rightarrow> bool" where
  "quiet as xs s \<longleftrightarrow> attempts s = as \<and> executions s = xs"

named_theorems quiet_intros \<open>operations that leave attempts and executions alone\<close>

lemma life_quiet:
  assumes "life_inv s" and "holds_io (quiet (attempts s) (executions s)) m"
  shows "advances s (snd (m s))"
proof -
  have "quiet (attempts s) (executions s) (snd (m s))"
    using assms(2) by (simp add: holds_io_def quiet_def)
  then show ?thesis by (intro advances_same life_invD(1) [OF assms(1)]) (simp_all add: quiet_def)
qed

lemma quiet_fresh [quiet_intros]: "keeps (quiet a x) (fresh_uuid e)"
  by (rule keepsI) (auto simp: fresh_uuid_def quiet_def)

lemma quiet_stagings [quiet_intros]: "keeps (quiet a x) (update_stagings p f)"
  by (rule keepsI) (auto simp: update_stagings_def quiet_def split: sum.splits)

lemma quiet_approvals [quiet_intros]: "keeps (quiet a x) (update_approvals p f)"
  by (rule keepsI) (auto simp: update_approvals_def quiet_def split: sum.splits)

lemma quiet_actions [quiet_intros]: "keeps (quiet a x) (update_actions p f)"
  by (rule keepsI) (auto simp: update_actions_def quiet_def split: sum.splits)

lemma quiet_deliveries [quiet_intros]: "keeps (quiet a x) (update_deliveries p f)"
  by (rule keepsI) (auto simp: update_deliveries_def quiet_def split: sum.splits)

lemma quiet_insert_delivery [quiet_intros]: "keeps (quiet a x) (insert_delivery d)"
  by (rule keepsI) (auto simp: insert_delivery_def quiet_def Let_def split: if_splits option.splits)

lemma quiet_insert_event [quiet_intros]: "keeps (quiet a x) (insert_event e i)"
  unfolding insert_event_def
  by (intro keeps_bind keeps_guard quiet_fresh keeps_ret)
    (auto intro!: keepsI simp: allocateSequence_def append_event_def quiet_def
      split: option.splits if_splits)

lemma quiet_insert_command [quiet_intros]: "keeps (quiet a x) (insert_command b c)"
  by (rule keepsI) (auto simp: insert_command_def quiet_def split: if_splits)

lemma quiet_replay [quiet_intros]: "keeps (quiet a x) (replay c dg)"
  by (rule keepsI) (auto simp: replay_Inr)

lemma quiet_reserve [quiet_intros]: "keeps (quiet a x) (reserveInTransaction e i)"
  by (rule keepsI) (auto dest!: reserve_frame simp: quiet_def)

lemma quiet_active [quiet_intros]: "keeps (quiet a x) (activeAttempt e ai)"
  by (rule keepsI) (auto simp: activeAttempt_Inr)

lemma quiet_submit: "holds_io (quiet a x) (submit e i)"
proof -
  have "keeps (quiet a x) (routeCommand e c v)" for c v
    unfolding routeCommand_def by (intro keeps_map keeps_bind keeps_get keeps_or_throw quiet_intros)
  then have "keeps (quiet a x) (publish_command e i revision rejected c)" for revision rejected c
    unfolding publish_command_def by (intro keeps_bind keeps_if keeps_ret keeps_or_throw quiet_intros)
  then have "keeps (quiet a x) (submit_body e i t)" for t
    unfolding submit_body_def Let_def
    by (intro keeps_bind keeps_get keeps_or_throw keeps_option quiet_intros)
  then show ?thesis
    by (auto simp: submit_def holds_io_def transaction_def split: sum.splits dest: keepsD)
qed

lemma quiet_stage: "holds_io (quiet a x) (stage_reference e o' i)"
proof -
  have "keeps (quiet a x) (insert_upload u)" for u
    by (rule keepsI) (auto simp: insert_upload_def quiet_def split: if_splits)
  then show ?thesis
    unfolding stage_reference_def
    by (intro holds_transaction keeps_bind keeps_of_sum quiet_active)
      (auto simp: Let_def intro!: keeps_bind keeps_get keeps_or_throw keeps_ret quiet_intros)
qed

lemma quiet_record_upload: "keeps (quiet a x) (record_upload e ai ref rc)"
proof -
  have "keeps (quiet a x) (insert_staging_or_nothing g)" for g
    by (rule keepsI) (auto simp: insert_staging_or_nothing_def quiet_def split: if_splits)
  moreover have "keeps (quiet a x) (mark_uploaded e u i)" for u i
    by (rule keepsI) (auto simp: mark_uploaded_def quiet_def split: if_splits)
  ultimately show ?thesis
    unfolding record_upload_def Let_def
    by (intro keeps_bind keeps_get keeps_guard keeps_or_throw keeps_option keeps_ret quiet_intros)
qed

lemma quiet_handoff: "keeps (quiet a x) (handoff e ai r digest sts)"
proof -
  have "keeps (quiet a x) (insert_submission_or_nothing b)" for b
    by (rule keepsI) (auto simp: insert_submission_or_nothing_def quiet_def split: if_splits)
  then show ?thesis
    unfolding handoff_def recorded_digest_def validateStagedArtifacts_def
    by (intro keeps_bind keeps_get keeps_option keeps_if keeps_ret keeps_throw keeps_or_throw keeps_for
        keeps_guard quiet_intros)
qed

lemma quiet_evaluate: "holds_io (quiet a x) (evaluate e evaluator i)"
proof -
  have "keeps (quiet a x) (insert_policy_decision d)" for d
    by (rule keepsI) (auto simp: insert_policy_decision_def quiet_def split: if_splits)
  moreover have "keeps (quiet a x) (insert_approval p)" for p
    by (rule keepsI) (auto simp: insert_approval_def quiet_def split: if_splits)
  ultimately have "keeps (quiet a x) (evaluate_body e evaluator i)"
    unfolding evaluate_body_def open_approval_def Let_def
    by (intro keeps_bind keeps_get keeps_or_throw keeps_of_sum keeps_if keeps_ret quiet_intros)
  then show ?thesis
    by (auto simp: evaluate_def holds_io_def throw_io_def transaction_def split: sum.splits dest: keepsD)
qed

lemma quiet_dispatch: "keeps (quiet a x) (prepareDispatch e i)"
proof -
  have "keeps (quiet a x) (insert_action_attempt t)" for t
    by (rule keepsI) (auto simp: insert_action_attempt_def quiet_def split: if_splits)
  then have "keeps (quiet a x) (start_dispatch e y)" for y
    unfolding start_dispatch_def set_action_status_def
    by (intro keeps_bind keeps_get keeps_ret quiet_intros)
  then show ?thesis
    unfolding prepareDispatch_def set_action_status_def
    by (intro keeps_bind keeps_get keeps_or_throw)
      (auto intro!: keeps_bind keeps_if keeps_ret quiet_intros)
qed

lemma quiet_answer: "holds_io (quiet a x) (record_answer e i tid p st response)"
proof -
  have "keeps (quiet a x) (update_action_attempts q f)" for q f
    by (rule keepsI) (auto simp: update_action_attempts_def quiet_def split: sum.splits)
  then have "keeps (quiet a x) (persist_body e i tid st response)"
    unfolding persist_body_def set_action_status_def
    by (intro keeps_bind keeps_get keeps_or_throw keeps_guard keeps_if keeps_ret quiet_intros)
  then have "holds_io (quiet a x) (persistResult e i tid st response)"
    unfolding persistResult_def by (rule holds_transaction)
  moreover have "holds_io (quiet a x) (reconcile e req q)" for req q
    by (rule holds_ioI) (auto simp: reconcile_def transaction_def reconcile_body_def tx_Inr fresh_uuid_Inr
        insert_ledger_or_nothing_def modify_Inr quiet_def split: sum.splits list.splits if_splits)
  ultimately show ?thesis
    unfolding record_answer_def reconcileNetworkReservation_def
    by (intro holds_io_bind holds_io_if holds_io_simple holds_io_option)
qed

lemma quiet_decide: "holds_io (quiet a x) (decideApproval e c aid i)"
proof -
  have "keeps (quiet a x) (decide_pending e c i d reason digest aid)" for d reason digest
    unfolding decide_pending_def
    by (intro keeps_bind keeps_get keeps_guard keeps_if keeps_ret quiet_intros)
  then have "keeps (quiet a x) (decide_body e c i d reason aid)" for d reason
    unfolding decide_body_def Let_def replay_decision_def
    by (intro keeps_bind keeps_get keeps_guard keeps_if keeps_ret keeps_throw keeps_or_throw)
  then show ?thesis
    by (auto simp: decideApproval_def holds_io_def transaction_def split: sum.splits option.splits dest: keepsD)
qed

lemma quiet_expose: "keeps (quiet a x) (expose_orphans now)"
  by (rule keepsI) (auto simp: expose_orphans_def dest: keepsD [OF quiet_deliveries])

subsection \<open>The row constraints of the recovery transactions\<close>

lemma checks_expose: "keeps db_checks (expose_orphans now)"
  by (rule keepsI) (auto simp: expose_orphans_def dest: keepsD [OF checks_update_deliveries])

lemma checks_recover: "keeps db_checks (recover_attempt e now aid)"
proof -
  have "keeps db_checks (replace_attempt e now a ids)" for a ids
    unfolding replace_attempt_def by (intro keeps_bind keeps_if keeps_ret checks_intros)
  moreover have "keeps db_checks (give_up e now x ids)" for x ids
    unfolding give_up_def by (intro keeps_bind keeps_if keeps_ret checks_intros)
  ultimately have "keeps db_checks (replace_or_give_up e now a x g ids)" for a x g ids
    unfolding replace_or_give_up_def by (intro keeps_if keeps_ret)
  then show ?thesis
    unfolding recover_attempt_def
    by (intro keeps_bind keeps_get keeps_option keeps_if keeps_ret keeps_or_throw checks_intros)
qed

lemma checks_settle: "keeps db_checks (settle_region e now gid)"
proof -
  have "keeps db_checks (modify (\<lambda>s. s\<lparr>regions := f s\<rparr>))" for f
    by (rule keeps_modify) (simp add: db_checks_def)
  then have "keeps db_checks (settle_rows e now g)" for g
    unfolding settle_rows_def by (intro keeps_bind keeps_get keeps_ret checks_intros)
  then show ?thesis
    unfolding settle_region_def by (intro keeps_bind keeps_get keeps_option keeps_if keeps_ret)
qed

subsection \<open>The runtime\<close>

text \<open>One transaction of one service, with any input and at any time: every step may have its own
  environment, so neither the clock nor the identifiers that are drawn are fixed.\<close>

inductive runtime_step :: "world \<Rightarrow> world \<Rightarrow> bool" where
  submits: "runtime_step w (snd (with_db (submit e i) w))"
| polls: "runtime_step w (snd (with_db (leaseNextAttempt e opts) w))"
| beats: "runtime_step w (snd (with_db (heartbeat e o' (i :: identity_input)) w))"
| stages: "runtime_step w (snd (with_db (stage_reference e o' si) w))"
| records_upload: "runtime_step w (snd (with_db (transaction (record_upload e ai ref rc)) w))"
| hands_over: "runtime_step w (snd (with_db (transaction (handoff e ai r digest sts)) w))"
| commits: "runtime_step w (snd (commit e allow r digest w))"
| evaluates: "runtime_step w (snd (with_db (evaluate e evaluator ei) w))"
| dispatches: "runtime_step w (snd (with_db (transaction (prepareDispatch e xid)) w))"
| answers: "runtime_step w (snd (with_db (record_answer e xid tid p st response) w))"
| decides: "runtime_step w (snd (with_db (decideApproval e c aid di) w))"
| cancels: "runtime_step w (snd (with_db (cancelRun e c runId ci) w))"
| recovers: "runtime_step w (snd (with_db (transaction (recover_attempt e now aid)) w))"
| exposes: "runtime_step w (snd (with_db (transaction (expose_orphans now)) w))"
| settles: "runtime_step w (snd (with_db (transaction (settle_region e now gid)) w))"

lemma with_db_db: "w_db (snd (with_db m w)) = snd (m (w_db w))"
  by (simp add: with_db_def split: prod.split)

lemma runtime_advances:
  assumes "runtime_step w w'" and inv: "life_inv (w_db w)"
  shows "advances (w_db w) (w_db w')"
  using assms(1)
proof cases
  case submits
  then show ?thesis using life_quiet [OF inv quiet_submit] by (simp add: with_db_db)
next
  case polls
  then show ?thesis using life_poll [OF inv] by (simp add: with_db_db)
next
  case beats
  then show ?thesis using life_heartbeat [OF inv] by (simp add: with_db_db)
next
  case stages
  then show ?thesis using life_quiet [OF inv quiet_stage] by (simp add: with_db_db)
next
  case records_upload
  then show ?thesis
    using life_quiet [OF inv holds_transaction [OF quiet_record_upload]] by (simp add: with_db_db)
next
  case hands_over
  then show ?thesis
    using life_quiet [OF inv holds_transaction [OF quiet_handoff]] by (simp add: with_db_db)
next
  case commits
  then show ?thesis using life_commit [OF inv] by simp
next
  case evaluates
  then show ?thesis using life_quiet [OF inv quiet_evaluate] by (simp add: with_db_db)
next
  case dispatches
  then show ?thesis
    using life_quiet [OF inv holds_transaction [OF quiet_dispatch]] by (simp add: with_db_db)
next
  case answers
  then show ?thesis using life_quiet [OF inv quiet_answer] by (simp add: with_db_db)
next
  case decides
  then show ?thesis using life_quiet [OF inv quiet_decide] by (simp add: with_db_db)
next
  case cancels
  then show ?thesis using life_cancel [OF inv] by (simp add: with_db_db)
next
  case recovers
  then show ?thesis using life_recover [OF inv] by (simp add: with_db_db)
next
  case exposes
  then show ?thesis
    using life_quiet [OF inv holds_transaction [OF quiet_expose]] by (simp add: with_db_db)
next
  case settles
  then show ?thesis using life_settle [OF inv] by (simp add: with_db_db)
qed

lemma checks_in_transaction: "keeps db_checks m \<Longrightarrow> db_checks s \<Longrightarrow> db_checks (snd (transaction m s))"
  using holds_transaction by (auto simp: holds_io_def)

lemma runtime_checks:
  assumes "runtime_step w w'" and inv: "db_checks (w_db w)"
  shows "db_checks (w_db w')"
  using assms(1)
proof cases
  case (submits e i)
  have "db_checks (snd (submit e i (w_db w)))"
    using inv by (auto simp: submit_def transaction_def split: sum.splits dest: keepsD [OF checks_submit_body])
  with submits show ?thesis by (simp add: with_db_db)
next
  case (polls e opts)
  with checks_leaseNextAttempt [OF inv, of e opts] show ?thesis
    by (cases "leaseNextAttempt e opts (w_db w)") (simp add: with_db_db)
next
  case beats
  with inv show ?thesis by (simp add: with_db_db checks_heartbeat)
next
  case stages
  with inv show ?thesis by (simp add: with_db_db checks_stage_reference)
next
  case records_upload
  with inv show ?thesis by (simp add: with_db_db checks_in_transaction checks_record_upload)
next
  case hands_over
  with inv show ?thesis by (simp add: with_db_db checks_in_transaction checks_handoff)
next
  case (commits e allow r digest)
  with commit_keeps_checks [OF surjective_pairing inv] show ?thesis by simp
next
  case evaluates
  with inv show ?thesis by (simp add: with_db_db checks_evaluate)
next
  case dispatches
  with inv show ?thesis by (simp add: with_db_db checks_in_transaction checks_prepareDispatch)
next
  case answers
  with inv checks_record_answer show ?thesis by (auto simp: with_db_db holds_io_def)
next
  case decides
  with inv show ?thesis by (simp add: with_db_db checks_decideApproval)
next
  case cancels
  with inv show ?thesis by (simp add: with_db_db checks_cancelRun)
next
  case recovers
  with inv show ?thesis by (simp add: with_db_db checks_in_transaction checks_recover)
next
  case exposes
  with inv show ?thesis by (simp add: with_db_db checks_in_transaction checks_expose)
next
  case settles
  with inv show ?thesis by (simp add: with_db_db checks_in_transaction checks_settle)
qed

lemma runtime_inv: "runtime_step w w' \<Longrightarrow> life_inv (w_db w) \<Longrightarrow> life_inv (w_db w')"
  by (blast intro: life_inv_advances runtime_advances runtime_checks life_invD(2))

interpretation executions: simulation runtime_step life_step "\<lambda>w. life_inv (w_db w)" "\<lambda>w. exec_life x (w_db w)"
  for x
proof
  show "runtime_step w w' \<Longrightarrow> life_inv (w_db w')" if "life_inv (w_db w)" for w w'
    using that by (rule runtime_inv [rotated])
  show "life_step\<^sup>*\<^sup>* (exec_life x (w_db w)) (exec_life x (w_db w'))"
    if "life_inv (w_db w)" "runtime_step w w'" for w w'
    using runtime_advances [OF that(2,1)] by (simp add: advances_def)
qed

subsection \<open>Properties\<close>

text \<open>C1. Whatever the services do, in any order and interleaving and with any inputs, each execution only
  takes steps of its lifecycle: it starts leased, is leased again only while its next attempt is
  pending, is retried only when an active attempt failed or was abandoned and fewer than four
  were made, and closes together with its last attempt.\<close>

theorem runtime_refines_lifecycle:
  assumes "runtime_step\<^sup>*\<^sup>* w w'" and "life_inv (w_db w)"
  shows "life_step\<^sup>*\<^sup>* (exec_life x (w_db w)) (exec_life x (w_db w'))"
  using assms by (rule executions.run_view)

text \<open>C2. In every state that the services can reach from a store without executions, an execution has
  between one and four attempts, numbered from one; all but the last have failed or were abandoned,
  the execution is running exactly as long as the last one is open, so that never two of its attempts
  can be leased, and it is completed exactly when the last one is.\<close>

theorem reachable_executions_sound:
  assumes "runtime_step\<^sup>*\<^sup>* w w'" and "db_checks (w_db w)"
    and "attempts (w_db w) = []" and "executions (w_db w) = []"
    and "r \<in> set (executions (w_db w'))"
    and "as = filter (\<lambda>a. att_execution a = exe_id r) (attempts (w_db w'))"
  shows "as \<noteq> [] \<and> length as \<le> 4 \<and> map att_number as = [1..<Suc (length as)] \<and>
    (\<forall>a\<in>set (butlast as). att_status a = AFailed \<or> att_status a = AAbandoned) \<and>
    (exe_status r = ERunning \<longleftrightarrow> att_status (last as) \<in> {APending, ALeased, ARunning}) \<and>
    (exe_status r = ECompleted \<longleftrightarrow> att_status (last as) = ACompleted)"
proof -
  have "life_inv (w_db w)"
    using assms(2-4) by (simp add: life_inv_def well_keyed_def exec_life_def attempts_of_execution_def)
  with executions.run_inv [OF assms(1)] have inv: "life_inv (w_db w')" by blast
  have as': "attempts_of_execution (exe_id r) (w_db w') = as" by (simp add: attempts_of_execution_def assms(6))
  have ok: "life_ok (Some (exe_status r, map att_status as))"
    using row_life_ok [OF inv assms(5)] by (simp add: as')
  then have ne: "as \<noteq> []" "length as \<le> 4" by auto
  have "map att_number as = [1..<Suc (length as)]"
    using life_invD(1) [OF inv] unfolding well_keyed_def as' [symmetric] by blast
  moreover have "\<forall>a\<in>set (butlast as). att_status a = AFailed \<or> att_status a = AAbandoned"
    using ok by (auto simp: list_all_iff map_butlast [symmetric])
  moreover have "(exe_status r = ERunning \<longleftrightarrow> att_status (last as) \<in> {APending, ALeased, ARunning}) \<and>
      (exe_status r = ECompleted \<longleftrightarrow> att_status (last as) = ACompleted)"
    using ok ne by (cases "exe_status r") (auto simp: last_map open_attempt_def active_def)
  ultimately show ?thesis using ne by blast
qed

text \<open>C3. An execution ends once: after it has completed or failed, no service changes its status, adds an
  attempt or changes the status of one, whatever late results, heartbeats, cancellations or
  recoveries still come in.\<close>

theorem execution_ends_once:
  assumes "runtime_step\<^sup>*\<^sup>* w w'" and "life_inv (w_db w)"
    and "exec_life x (w_db w) = Some (st, sts)" and "st \<noteq> ERunning"
  shows "exec_life x (w_db w') = Some (st, sts)"
  using executions.run_view [OF assms(1,2), of x] assms(3,4) life_over_final by metis

subsection \<open>A sample run\<close>

lemma sample_life: "life_inv (w_db (commit_world 1))"
proof -
  have rows: "attempts (w_db (commit_world 1)) = [sample_attempt 1]"
    "executions (w_db (commit_world 1)) = [sample_execution]"
    by (simp_all add: commit_world_def commit_store_def)
  show ?thesis
    using sample_checks
    by (simp del: One_nat_def add: life_inv_def well_keyed_def exec_life_def attempts_of_execution_def rows)
      (simp add: sample_attempt_def sample_execution_def)
qed

definition sample_committed :: world where
  "sample_committed = snd (commit commit_env False (sample_result RsCompleted None) ''dg'' (commit_world 1))"

lemma sample_step: "runtime_step (commit_world 1) sample_committed"
  unfolding sample_committed_def by (rule runtime_step.commits)

lemma sample_views:
  "exec_life ''x1'' (w_db (commit_world 1)) = Some (ERunning, [ALeased])"
  "exec_life ''x1'' (w_db sample_committed) = Some (ECompleted, [ACompleted])"
  by code_simp+

lemma runtime_refines_lifecycle_witness:
  "life_step\<^sup>*\<^sup>* (Some (ERunning, [ALeased])) (Some (ECompleted, [ACompleted]))"
  using runtime_refines_lifecycle [OF r_into_rtranclp [where r = runtime_step, OF sample_step] sample_life, of "''x1''"]
  by (simp only: sample_views)

lemma execution_ends_once_witness:
  "exec_life ''x1'' (w_db (snd (with_db (transaction (recover_attempt commit_env 70000 ''a1'')) sample_committed)))
     = Some (ECompleted, [ACompleted])"
  by (rule execution_ends_once
      [OF r_into_rtranclp [where r = runtime_step, OF runtime_step.recovers]
        runtime_inv [OF sample_step sample_life] sample_views(2)]) simp

definition poll_world :: world where
  "poll_world = sample_world\<lparr>w_db := lease_store\<rparr>"

lemma sample_polled:
  "map (\<lambda>r. (exe_id r, exe_status r)) (executions (snd (leaseNextAttempt sample_env sample_options lease_store)))
     = [(''u'', ERunning)]"
  by code_simp

lemma reachable_executions_sound_witness:
  "\<exists>r\<in>set (executions (snd (leaseNextAttempt sample_env sample_options lease_store))).
     exe_status r = ERunning \<and>
     att_status (last (filter (\<lambda>a. att_execution a = exe_id r)
       (attempts (snd (leaseNextAttempt sample_env sample_options lease_store))))) \<in> {APending, ALeased, ARunning}"
proof -
  let ?s = "snd (leaseNextAttempt sample_env sample_options lease_store)"
  have db: "w_db poll_world = lease_store" by (simp add: poll_world_def)
  have "runtime_step\<^sup>*\<^sup>* poll_world (snd (with_db (leaseNextAttempt sample_env sample_options) poll_world))"
    by (rule r_into_rtranclp) (rule runtime_step.polls)
  moreover have "db_checks (w_db poll_world)" "attempts (w_db poll_world) = []" "executions (w_db poll_world) = []"
    unfolding db by code_simp+
  moreover obtain r where r: "r \<in> set (executions ?s)" "exe_status r = ERunning"
    using sample_polled by (cases "executions ?s") auto
  moreover have "r \<in> set (executions (w_db (snd (with_db (leaseNextAttempt sample_env sample_options) poll_world))))"
    using r(1) by (simp add: with_db_db db)
  ultimately show ?thesis
    using reachable_executions_sound [OF _ _ _ _ _ refl] by (simp add: with_db_db db) blast
qed

end
