(* ===== verification/Declarations.thy ===== *)
theory Declarations
  imports Canonical Store "HOL-Library.AList"
begin

section \<open>Declarations and their registration\<close>

text \<open>
  \<open>runtime-core/src/declarations/validation.ts\<close>, \<open>runtime-core/src/registration/registration-service.ts\<close>
  and the creating half of \<open>db/src/repositories/definition-repository.ts\<close>. A declaration is a JSON
  document. Validation may change it (it fills in the dialect of a schema and sorts the targets of an
  ingress rule), and the digest is taken of what validation leaves. A registration looks a name and
  version up and, when there is none, inserts a row in a transaction of its own; another one
  can come between the two.
\<close>

subsection \<open>Checks in sequence\<close>

definition require :: "bool \<Rightarrow> string \<Rightarrow> error + unit" where
  "require b code = (if b then Inr () else Inl (DomainError code))"

definition and_then :: "error + 'a \<Rightarrow> ('a \<Rightarrow> error + 'b) \<Rightarrow> error + 'b" where
  "and_then v f = (case v of Inl err \<Rightarrow> Inl err | Inr x \<Rightarrow> f x)"

lemma require_Inr [simp]: "require b code = Inr u \<longleftrightarrow> b"
  by (simp add: require_def)

lemma and_then_Inr [simp]: "and_then v f = Inr y \<longleftrightarrow> (\<exists>x. v = Inr x \<and> f x = Inr y)"
  by (cases v) (simp_all add: and_then_def)

lemma and_then_Inl [simp]: "and_then (Inl err) f = Inl err"
  by (simp add: and_then_def)

subsection \<open>Fields\<close>

definition is_object :: "json option \<Rightarrow> bool" where
  "is_object v = (case v of Some (JObj _) \<Rightarrow> True | _ \<Rightarrow> False)"

definition array_items :: "json option \<Rightarrow> json list option" where
  "array_items v = (case v of Some (JArr xs) \<Rightarrow> Some xs | _ \<Rightarrow> None)"

text \<open>\<open>doc.a?.b\<close>\<close>

definition subfield :: "json \<Rightarrow> string \<Rightarrow> string \<Rightarrow> json option" where
  "subfield doc a b = (case json_field doc a of None \<Rightarrow> None | Some x \<Rightarrow> json_field x b)"

definition put_field :: "string \<Rightarrow> json \<Rightarrow> json \<Rightarrow> json" where
  "put_field k v doc = (case doc of JObj kvs \<Rightarrow> JObj (AList.update k v kvs) | _ \<Rightarrow> doc)"

definition text_of :: "json option \<Rightarrow> string" where
  "text_of v = (case v of Some (JStr s) \<Rightarrow> s | _ \<Rightarrow> [])"

definition nonEmptyString :: "json option \<Rightarrow> bool" where
  "nonEmptyString v = (case v of Some (JStr s) \<Rightarrow> \<not> blank s | _ \<Rightarrow> False)"

text \<open>\<open>Object.entries\<close>: array indices first.\<close>

definition entries :: "(string \<times> 'a) list \<Rightarrow> (string \<times> 'a) list" where
  "entries kvs =
     sort_key (\<lambda>kv. decimal_value (fst kv)) (filter (\<lambda>kv. is_index (fst kv)) kvs)
       @ filter (\<lambda>kv. \<not> is_index (fst kv)) kvs"

lemma set_entries [simp]: "set (entries kvs) = set kvs"
  by (auto simp: entries_def)

subsection \<open>References and envelopes\<close>

text \<open>\<open>/^[^@]+@[^@]+$/\<close> and \<open>/^[^.]+\.[^.]+$/\<close>: one separator, with text on both sides.\<close>

definition parted :: "char \<Rightarrow> string \<Rightarrow> bool" where
  "parted c s \<longleftrightarrow> length (filter (\<lambda>x. x = c) s) = 1 \<and> hd s \<noteq> c \<and> last s \<noteq> c"

definition requireReference :: "json option \<Rightarrow> error + unit" where
  "requireReference v = require (nonEmptyString v \<and> parted (CHR ''@'') (text_of v)) ''invalid_declaration''"

definition requireEndpoint :: "json option \<Rightarrow> error + unit" where
  "requireEndpoint v = require (nonEmptyString v \<and> parted (CHR ''.'') (text_of v)) ''invalid_declaration''"

definition apiVersion :: string where
  "apiVersion = ''factory-floor.dev/v1alpha1''"

definition legacyApiVersion :: string where
  "legacyApiVersion = ''factoryfloor.dev/v1alpha1''"

definition requireEnvelope :: "json \<Rightarrow> string \<Rightarrow> error + unit" where
  "requireEnvelope doc kind =
     and_then (require (is_object (Some doc)) ''invalid_declaration'') (\<lambda>_.
     and_then (require (json_field doc ''apiVersion'' = Some (JStr apiVersion) \<or>
        json_field doc ''apiVersion'' = Some (JStr legacyApiVersion))
        ''unsupported_declaration_version'') (\<lambda>_.
     and_then (require (json_field doc ''kind'' = Some (JStr kind)) ''invalid_declaration'') (\<lambda>_.
     require (nonEmptyString (subfield doc ''metadata'' ''name'') \<and>
        nonEmptyString (subfield doc ''metadata'' ''version'')) ''invalid_declaration'')))"

subsection \<open>Artifact schemas and component definitions\<close>

definition DRAFT :: string where
  "DRAFT = ''https://json-schema.org/draft/2020-12/schema''"

definition with_dialect :: "json \<Rightarrow> json" where
  "with_dialect schema =
     (if json_field schema ''$schema'' \<in> {None, Some JNull}
      then put_field ''$schema'' (JStr DRAFT) schema else schema)"

definition validateArtifactSchemaDeclaration :: "env \<Rightarrow> json \<Rightarrow> error + json" where
  "validateArtifactSchemaDeclaration e doc =
     and_then (requireEnvelope doc ''ArtifactSchema'') (\<lambda>_.
     and_then (require (is_object (subfield doc ''spec'' ''schema'')) ''invalid_declaration'') (\<lambda>_.
     let spec = the (json_field doc ''spec''); schema = with_dialect (the (json_field spec ''schema'')) in
     and_then (require (json_field schema ''$schema'' = Some (JStr DRAFT)) ''invalid_declaration'') (\<lambda>_.
     and_then (require (schema_compiles e schema) ''invalid_declaration'') (\<lambda>_.
     Inr (put_field ''spec'' (put_field ''schema'' schema spec) doc)))))"

definition port_declared :: "json \<Rightarrow> bool" where
  "port_declared p \<longleftrightarrow>
     nonEmptyString (json_field p ''name'') \<and>
     json_field p ''direction'' \<in> {Some (JStr ''input''), Some (JStr ''output''), Some (JStr ''state'')} \<and>
     json_field p ''required'' \<in> {Some (JBool True), Some (JBool False)}"

text \<open>\<open>port.schema ?? port.schemaRef\<close>\<close>

definition port_reference :: "json \<Rightarrow> json option" where
  "port_reference p =
     (if json_field p ''schema'' \<in> {None, Some JNull} then json_field p ''schemaRef''
      else json_field p ''schema'')"

definition natural_key :: "json option \<Rightarrow> bool" where
  "natural_key r = (case r of None \<Rightarrow> False
     | Some x \<Rightarrow> nonEmptyString (json_field x ''name'') \<and> nonEmptyString (json_field x ''version''))"

definition port_key :: "json \<Rightarrow> string" where
  "port_key p = text_of (json_field p ''name'') @ '':'' @ text_of (json_field p ''direction'')"

primrec check_ports :: "json list \<Rightarrow> string list \<Rightarrow> error + unit" where
  "check_ports [] seen = Inr ()"
| "check_ports (p # ps) seen =
     and_then (require (port_declared p) ''invalid_declaration'') (\<lambda>_.
     and_then (require (natural_key (port_reference p)) ''invalid_declaration'') (\<lambda>_.
     and_then (require (port_key p \<notin> set seen) ''duplicate_port_identity'') (\<lambda>_.
     check_ports ps (port_key p # seen))))"

definition declared_ports :: "json \<Rightarrow> json list" where
  "declared_ports doc = (case array_items (subfield doc ''spec'' ''ports'') of None \<Rightarrow> [] | Some ps \<Rightarrow> ps)"

definition validateComponentDefinitionDeclaration :: "json \<Rightarrow> error + unit" where
  "validateComponentDefinitionDeclaration doc =
     and_then (requireEnvelope doc ''ComponentDefinition'') (\<lambda>_.
     and_then (require (array_items (subfield doc ''spec'' ''ports'') \<noteq> None) ''invalid_declaration'') (\<lambda>_.
     check_ports (declared_ports doc) []))"

subsection \<open>Topologies\<close>

primrec check_instances :: "json list \<Rightarrow> string list \<Rightarrow> error + string list" where
  "check_instances [] names = Inr names"
| "check_instances (i # is) names =
     and_then (require (nonEmptyString (json_field i ''name'')) ''invalid_declaration'') (\<lambda>_.
     and_then (requireReference (json_field i ''component'')) (\<lambda>_.
     and_then (require (text_of (json_field i ''name'') \<notin> set names) ''duplicate_component_instance'') (\<lambda>_.
     and_then (require (json_field i ''configuration'' = None \<or> is_object (json_field i ''configuration''))
        ''invalid_declaration'') (\<lambda>_.
     check_instances is (text_of (json_field i ''name'') # names)))))"

definition target_key :: "json \<Rightarrow> string" where
  "target_key t = text_of (json_field t ''component'') @ ''.'' @ text_of (json_field t ''port'')"

primrec check_targets :: "string list \<Rightarrow> json list \<Rightarrow> string list \<Rightarrow> error + unit" where
  "check_targets names [] seen = Inr ()"
| "check_targets names (t # ts) seen =
     and_then (require (nonEmptyString (json_field t ''component'') \<and> nonEmptyString (json_field t ''port''))
        ''invalid_declaration'') (\<lambda>_.
     and_then (require (text_of (json_field t ''component'') \<in> set names) ''invalid_declaration'') (\<lambda>_.
     and_then (require (target_key t \<notin> set seen) ''duplicate_ingress_target'') (\<lambda>_.
     check_targets names ts (target_key t # seen))))"

definition target_cmp :: "env \<Rightarrow> json \<Rightarrow> json \<Rightarrow> int" where
  "target_cmp e a b =
     (let c = locale_compare e (text_of (json_field a ''component'')) (text_of (json_field b ''component''))
      in if c \<noteq> 0 then c
         else locale_compare e (text_of (json_field a ''port'')) (text_of (json_field b ''port'')))"

definition rule_targets :: "json \<Rightarrow> json list" where
  "rule_targets rule = (case array_items (json_field rule ''targets'') of None \<Rightarrow> [] | Some ts \<Rightarrow> ts)"

definition sorted_rule :: "env \<Rightarrow> json \<Rightarrow> json" where
  "sorted_rule e rule = put_field ''targets'' (JArr (sort_cmp (target_cmp e) (rule_targets rule))) rule"

primrec check_rules :: "string list \<Rightarrow> (string \<times> json) list \<Rightarrow> error + unit" where
  "check_rules names [] = Inr ()"
| "check_rules names (kr # krs) =
     and_then (require (\<not> blank (fst kr)) ''invalid_declaration'') (\<lambda>_.
     and_then (require (array_items (json_field (snd kr) ''targets'') \<noteq> None) ''invalid_declaration'') (\<lambda>_.
     and_then (check_targets names (rule_targets (snd kr)) []) (\<lambda>_.
     check_rules names krs)))"

definition check_ingress :: "env \<Rightarrow> string list \<Rightarrow> json \<Rightarrow> error + json" where
  "check_ingress e names topology =
     (case subfield topology ''ingress'' ''commands'' of
        None \<Rightarrow> Inr topology
      | Some (JObj kvs) \<Rightarrow>
          and_then (check_rules names (entries kvs)) (\<lambda>_.
          Inr (put_field ''ingress'' (put_field ''commands''
            (JObj (map (map_prod id (sorted_rule e)) kvs)) (the (json_field topology ''ingress''))) topology))
      | Some _ \<Rightarrow> Inl (DomainError ''invalid_declaration''))"

primrec check_connections :: "json list \<Rightarrow> error + unit" where
  "check_connections [] = Inr ()"
| "check_connections (c # cs) =
     and_then (requireEndpoint (json_field c ''from'')) (\<lambda>_.
     and_then (requireEndpoint (json_field c ''to'')) (\<lambda>_. check_connections cs))"

definition topology_items :: "json \<Rightarrow> string \<Rightarrow> json list" where
  "topology_items topology k =
     (case array_items (json_field topology k) of None \<Rightarrow> [] | Some xs \<Rightarrow> xs)"

definition validateStaticTopology :: "env \<Rightarrow> json \<Rightarrow> error + json" where
  "validateStaticTopology e topology =
     and_then (require (is_object (Some topology)) ''invalid_declaration'') (\<lambda>_.
     and_then (require (array_items (json_field topology ''instances'') \<noteq> None \<and>
        array_items (json_field topology ''connections'') \<noteq> None) ''invalid_declaration'') (\<lambda>_.
     and_then (check_instances (topology_items topology ''instances'') []) (\<lambda>names.
     and_then (check_ingress e names topology) (\<lambda>topology'.
     and_then (check_connections (topology_items topology ''connections'')) (\<lambda>_.
     Inr topology')))))"

definition validateSimpleDeclaration :: "env \<Rightarrow> json \<Rightarrow> string \<Rightarrow> error + json" where
  "validateSimpleDeclaration e doc kind =
     and_then (requireEnvelope doc kind) (\<lambda>_.
     and_then (require (is_object (json_field doc ''spec'')) ''invalid_declaration'') (\<lambda>_.
     let spec = the (json_field doc ''spec'') in
     case json_field spec ''initialTopology'' of
       None \<Rightarrow> Inr doc
     | Some topology \<Rightarrow>
         if kind \<noteq> ''Template'' then Inr doc
         else and_then (validateStaticTopology e topology) (\<lambda>topology'.
           Inr (put_field ''spec'' (put_field ''initialTopology'' topology' spec) doc))))"

subsection \<open>Systems\<close>

primrec check_regions :: "json list \<Rightarrow> string list \<Rightarrow> error + unit" where
  "check_regions [] ids = Inr ()"
| "check_regions (r # rs) ids =
     and_then (require (nonEmptyString (json_field r ''id'')) ''invalid_declaration'') (\<lambda>_.
     and_then (requireReference (json_field r ''template'')) (\<lambda>_.
     and_then (require (text_of (json_field r ''id'') \<notin> set ids) ''duplicate_region_identity'') (\<lambda>_.
     check_regions rs (text_of (json_field r ''id'') # ids))))"

definition validateSystemDeclaration :: "json \<Rightarrow> error + unit" where
  "validateSystemDeclaration doc =
     and_then (requireEnvelope doc ''System'') (\<lambda>_.
     and_then (require (is_object (json_field doc ''spec'')) ''invalid_declaration'') (\<lambda>_.
     let spec = the (json_field doc ''spec'') in
     and_then (require (nonEmptyString (subfield spec ''rootRegion'' ''id'')) ''invalid_declaration'') (\<lambda>_.
     and_then (require (topology_items spec ''regions'' \<noteq> []) ''invalid_declaration'') (\<lambda>_.
     and_then (check_regions (topology_items spec ''regions'') []) (\<lambda>_.
     case json_field spec ''connections'' of
       None \<Rightarrow> Inr ()
     | Some (JArr cs) \<Rightarrow> check_connections cs
     | Some _ \<Rightarrow> Inl (DomainError ''invalid_declaration''))))))"

subsection \<open>Definitions in the store\<close>

text \<open>The four definition tables have the same keys: name and version, and name and content.\<close>

definition insert_named ::
  "string \<Rightarrow> ('r \<Rightarrow> string) \<Rightarrow> ('r \<Rightarrow> string \<times> string) \<Rightarrow> ('r \<Rightarrow> string) \<Rightarrow> 'r \<Rightarrow> 'r list \<Rightarrow>
   error + 'r list" where
  "insert_named table ident key digest r rows =
     (if list_ex (\<lambda>x. ident x = ident r) rows then Inl (DbViolation (table @ ''_pkey''))
      else if list_ex (\<lambda>x. key x = key r) rows then Inl (DbViolation (table @ ''_name_version_key''))
      else if list_ex (\<lambda>x. fst (key x) = fst (key r) \<and> digest x = digest r) rows
      then Inl (DbViolation (table @ ''_name_content_digest_key''))
      else Inr (rows @ [r]))"

definition isUniqueViolation :: "error \<Rightarrow> bool" where
  "isUniqueViolation err =
     (case err of
        DbViolation n \<Rightarrow> drop (length n - 4) n = ''_key'' \<or> drop (length n - 5) n = ''_pkey''
      | _ \<Rightarrow> False)"

definition schema_key :: "artifact_schema \<Rightarrow> string \<times> string" where
  "schema_key r = (sch_name r, sch_version r)"

definition component_key :: "component_definition \<Rightarrow> string \<times> string" where
  "component_key r = (cdef_name r, cdef_version r)"

definition template_key :: "template \<Rightarrow> string \<times> string" where
  "template_key r = (tpl_name r, tpl_version r)"

definition policy_key :: "policy \<Rightarrow> string \<times> string" where
  "policy_key r = (pol_name r, pol_version r)"

definition findArtifactSchema :: "string \<times> string \<Rightarrow> db \<Rightarrow> artifact_schema option" where
  "findArtifactSchema k s = List.find (\<lambda>r. schema_key r = k) (artifact_schemas s)"

definition findComponentDefinition :: "string \<times> string \<Rightarrow> db \<Rightarrow> component_definition option" where
  "findComponentDefinition k s = List.find (\<lambda>r. component_key r = k) (component_definitions s)"

definition findTemplate :: "string \<times> string \<Rightarrow> db \<Rightarrow> template option" where
  "findTemplate k s = List.find (\<lambda>r. template_key r = k) (templates s)"

definition findPolicy :: "string \<times> string \<Rightarrow> db \<Rightarrow> policy option" where
  "findPolicy k s = List.find (\<lambda>r. policy_key r = k) (policies s)"

text \<open>What is registered: name and version, digest, and the content.\<close>

record registration_input =
  rg_key :: "string \<times> string"
  rg_content_digest :: string
  rg_content :: json

definition createArtifactSchema :: "env \<Rightarrow> registration_input \<Rightarrow> (db, artifact_schema) tx" where
  "createArtifactSchema e i =
     bind_tx (fresh_uuid e) (\<lambda>u s.
     let r = \<lparr>sch_id = u, sch_name = fst (rg_key i), sch_version = snd (rg_key i),
              sch_digest = rg_content_digest i, sch_schema = rg_content i, sch_retired = None\<rparr>
     in case insert_named ''artifact_schemas'' sch_id schema_key sch_digest r (artifact_schemas s) of
          Inl err \<Rightarrow> Inl err | Inr rows \<Rightarrow> Inr (r, s\<lparr>artifact_schemas := rows\<rparr>))"

definition insert_port :: "env \<Rightarrow> port_definition \<Rightarrow> (db, unit) tx" where
  "insert_port e p =
     bind_tx (fresh_uuid e) (\<lambda>_ s.
     if \<not> list_ex (\<lambda>sch. sch_id sch = port_schema p) (artifact_schemas s)
     then Inl (DbViolation ''port_definitions_schema_id_fkey'')
     else if list_ex (\<lambda>q. port_def q = port_def p \<and> port_name q = port_name p \<and>
          port_direction q = port_direction p) (port_definitions s)
     then Inl (DbViolation ''port_definitions_component_definition_id_name_direction_key'')
     else Inr ((), s\<lparr>port_definitions := port_definitions s @ [p]\<rparr>))"

text \<open>The ports come with the definition; their owner is the new row.\<close>

definition createComponentDefinition ::
  "env \<Rightarrow> registration_input \<times> port_definition list \<Rightarrow> (db, component_definition) tx" where
  "createComponentDefinition e ip =
     (case ip of (i, ports) \<Rightarrow>
     bind_tx (fresh_uuid e) (\<lambda>u.
     let r = \<lparr>cdef_id = u, cdef_name = fst (rg_key i), cdef_version = snd (rg_key i),
              cdef_digest = rg_content_digest i, cdef_definition = rg_content i, cdef_retired = None\<rparr> in
     bind_tx (\<lambda>s. case insert_named ''component_definitions'' cdef_id component_key cdef_digest r
          (component_definitions s) of
        Inl err \<Rightarrow> Inl err | Inr rows \<Rightarrow> Inr ((), s\<lparr>component_definitions := rows\<rparr>)) (\<lambda>_.
     bind_tx (for_tx ports (\<lambda>p. insert_port e (p\<lparr>port_def := u\<rparr>))) (\<lambda>_. ret r))))"

definition createTemplate :: "env \<Rightarrow> registration_input \<Rightarrow> (db, template) tx" where
  "createTemplate e i =
     bind_tx (fresh_uuid e) (\<lambda>u s.
     let r = \<lparr>tpl_id = u, tpl_name = fst (rg_key i), tpl_version = snd (rg_key i),
              tpl_digest = rg_content_digest i, tpl_template = rg_content i, tpl_retired = None\<rparr>
     in case insert_named ''templates'' tpl_id template_key tpl_digest r (templates s) of
          Inl err \<Rightarrow> Inl err | Inr rows \<Rightarrow> Inr (r, s\<lparr>templates := rows\<rparr>))"

definition createPolicy :: "env \<Rightarrow> registration_input \<Rightarrow> (db, policy) tx" where
  "createPolicy e i =
     bind_tx (fresh_uuid e) (\<lambda>u s.
     let r = \<lparr>pol_id = u, pol_name = fst (rg_key i), pol_version = snd (rg_key i),
              pol_digest = rg_content_digest i, pol_policy = rg_content i, pol_retired = None\<rparr>
     in case insert_named ''policies'' pol_id policy_key pol_digest r (policies s) of
          Inl err \<Rightarrow> Inl err | Inr rows \<Rightarrow> Inr (r, s\<lparr>policies := rows\<rparr>))"

subsection \<open>Registration\<close>

record 'r registration =
  rg_entity :: 'r
  rg_created :: bool
  rg_digest :: string

definition registered :: "('r \<Rightarrow> string) \<Rightarrow> string \<Rightarrow> 'r \<Rightarrow> error + 'r registration" where
  "registered digest_of digest r =
     (if digest_of r = digest then Inr \<lparr>rg_entity = r, rg_created = False, rg_digest = digest\<rparr>
      else Inl (DomainError ''registration_conflict''))"

text \<open>The second half of \<open>idempotent\<close>, which may run in another state than the first.\<close>

definition create_or_reread ::
  "(db \<Rightarrow> 'r option) \<Rightarrow> (db, 'r) tx \<Rightarrow> ('r \<Rightarrow> string) \<Rightarrow> string \<Rightarrow> (db, 'r registration) io" where
  "create_or_reread look create digest_of digest = (\<lambda>s.
     case create s of
       Inr (r, s') \<Rightarrow> (Inr \<lparr>rg_entity = r, rg_created = True, rg_digest = digest\<rparr>, s')
     | Inl err \<Rightarrow>
         if \<not> isUniqueViolation err then (Inl err, s)
         else case look s of
           None \<Rightarrow> (Inl (DomainError ''registration_conflict''), s)
         | Some r \<Rightarrow> (registered digest_of digest r, s))"

definition idempotent ::
  "(db \<Rightarrow> 'r option) \<Rightarrow> (db, 'r) tx \<Rightarrow> ('r \<Rightarrow> string) \<Rightarrow> string \<Rightarrow> (db, 'r registration) io" where
  "idempotent look create digest_of digest = (\<lambda>s.
     case look s of
       Some r \<Rightarrow> (registered digest_of digest r, s)
     | None \<Rightarrow> create_or_reread look create digest_of digest s)"

definition declared_key :: "json \<Rightarrow> string \<times> string" where
  "declared_key doc =
     (text_of (subfield doc ''metadata'' ''name''), text_of (subfield doc ''metadata'' ''version''))"

definition input_of :: "env \<Rightarrow> json \<Rightarrow> json \<Rightarrow> registration_input" where
  "input_of e doc content =
     \<lparr>rg_key = declared_key doc, rg_content_digest = json_digest e doc, rg_content = content\<rparr>"

definition registerArtifactSchema :: "env \<Rightarrow> json \<Rightarrow> (db, artifact_schema registration) io" where
  "registerArtifactSchema e doc =
     (case validateArtifactSchemaDeclaration e doc of
        Inl err \<Rightarrow> throw_io err
      | Inr d \<Rightarrow>
          let i = input_of e d (the (subfield d ''spec'' ''schema'')) in
          idempotent (findArtifactSchema (rg_key i)) (createArtifactSchema e i) sch_digest
            (rg_content_digest i))"

definition port_direction_of :: "json \<Rightarrow> port_direction" where
  "port_direction_of p =
     (if json_field p ''direction'' = Some (JStr ''input'') then PInput
      else if json_field p ''direction'' = Some (JStr ''output'') then POutput else PState)"

definition resolve_port :: "json \<Rightarrow> db \<Rightarrow> error + port_definition" where
  "resolve_port p s =
     (let r = the (port_reference p);
          k = (text_of (json_field r ''name''), text_of (json_field r ''version'')) in
      case findArtifactSchema k s of
        None \<Rightarrow> Inl (DomainError ''referenced_schema_not_found'')
      | Some sch \<Rightarrow>
          Inr \<lparr>port_def = [], port_name = text_of (json_field p ''name''),
               port_direction = port_direction_of p, port_schema = sch_id sch,
               port_required = (json_field p ''required'' = Some (JBool True))\<rparr>)"

primrec resolve_ports :: "json list \<Rightarrow> db \<Rightarrow> error + port_definition list" where
  "resolve_ports [] s = Inr []"
| "resolve_ports (p # ps) s =
     and_then (resolve_port p s) (\<lambda>q. and_then (resolve_ports ps s) (\<lambda>qs. Inr (q # qs)))"

definition registerComponentDefinition :: "env \<Rightarrow> json \<Rightarrow> (db, component_definition registration) io" where
  "registerComponentDefinition e doc =
     (case validateComponentDefinitionDeclaration doc of
        Inl err \<Rightarrow> throw_io err
      | Inr _ \<Rightarrow> (\<lambda>s.
          case resolve_ports (declared_ports doc) s of
            Inl err \<Rightarrow> (Inl err, s)
          | Inr ports \<Rightarrow>
              let i = input_of e doc doc in
              idempotent (findComponentDefinition (rg_key i)) (createComponentDefinition e (i, ports))
                cdef_digest (rg_content_digest i) s))"

definition registerTemplate :: "env \<Rightarrow> json \<Rightarrow> (db, template registration) io" where
  "registerTemplate e doc =
     (case validateSimpleDeclaration e doc ''Template'' of
        Inl err \<Rightarrow> throw_io err
      | Inr d \<Rightarrow>
          let i = input_of e d d in
          idempotent (findTemplate (rg_key i)) (createTemplate e i) tpl_digest (rg_content_digest i))"

definition registerPolicy :: "env \<Rightarrow> json \<Rightarrow> (db, policy registration) io" where
  "registerPolicy e doc =
     (case validateSimpleDeclaration e doc ''Policy'' of
        Inl err \<Rightarrow> throw_io err
      | Inr d \<Rightarrow>
          let i = input_of e d d in
          idempotent (findPolicy (rg_key i)) (createPolicy e i) pol_digest (rg_content_digest i))"

subsection \<open>One table of definitions\<close>

text \<open>What a table promises to registrations that race: a create adds its row at the end or does
  nothing, and it succeeds only while the key is free.\<close>

locale registry =
  fixes rows :: "db \<Rightarrow> 'r list"
    and key :: "'r \<Rightarrow> string \<times> string"
    and digest_of :: "'r \<Rightarrow> string"
    and look :: "string \<times> string \<Rightarrow> db \<Rightarrow> 'r option"
    and create :: "env \<Rightarrow> 'i \<Rightarrow> (db, 'r) tx"
    and input_key :: "'i \<Rightarrow> string \<times> string"
    and input_digest :: "'i \<Rightarrow> string"
  assumes look_rows: "look k s = List.find (\<lambda>r. key r = k) (rows s)"
    and created: "create e i s = Inr (r, s') \<Longrightarrow>
      rows s' = rows s @ [r] \<and> key r = input_key i \<and> digest_of r = input_digest i \<and>
      look (input_key i) s = None"
    and taken: "look (input_key i) s \<noteq> None \<Longrightarrow> \<exists>err. create e i s = Inl err \<and> isUniqueViolation err"
begin

lemma look_later:
  assumes "look k s = Some r" and "rows s' = rows s @ new"
  shows "look k s' = Some r"
  using assms by (simp add: look_rows find_append_fresh)

lemma recorded:
  assumes "create_or_reread (look (input_key i)) (create e i) digest_of (input_digest i) s = (Inr g, s')"
  shows "look (input_key i) s' = Some (rg_entity g)" and "digest_of (rg_entity g) = input_digest i"
    and "rg_digest g = input_digest i"
proof -
  have "look (input_key i) s' = Some (rg_entity g) \<and> digest_of (rg_entity g) = input_digest i \<and>
      rg_digest g = input_digest i"
  proof (cases "create e i s")
    case (Inl err)
    with assms show ?thesis
      by (auto simp: create_or_reread_def registered_def split: if_splits option.splits)
  next
    case (Inr p)
    then obtain r t where p: "create e i s = Inr (r, t)" by (cases p) auto
    from created [OF this] have "rows t = rows s @ [r]" "key r = input_key i" "digest_of r = input_digest i"
      "List.find (\<lambda>r. key r = input_key i) (rows s) = None" by (simp_all add: look_rows)
    then have "look (input_key i) t = Some r" by (simp add: look_rows find_append_fresh)
    with assms p \<open>digest_of r = _\<close> show ?thesis by (auto simp: create_or_reread_def)
  qed
  then show "look (input_key i) s' = Some (rg_entity g)" "digest_of (rg_entity g) = input_digest i"
    "rg_digest g = input_digest i" by simp_all
qed

lemma again:
  assumes "look (input_key i) s = Some r"
  shows "create_or_reread (look (input_key i)) (create e i) digest_of (input_digest i) s =
      (registered digest_of (input_digest i) r, s)"
    and "idempotent (look (input_key i)) (create e i) digest_of (input_digest i) s =
      (registered digest_of (input_digest i) r, s)"
proof -
  obtain err where "create e i s = Inl err" "isUniqueViolation err" using taken assms by blast
  with assms show "create_or_reread (look (input_key i)) (create e i) digest_of (input_digest i) s =
      (registered digest_of (input_digest i) r, s)"
    by (simp add: create_or_reread_def)
  show "idempotent (look (input_key i)) (create e i) digest_of (input_digest i) s =
      (registered digest_of (input_digest i) r, s)"
    using assms by (simp add: idempotent_def)
qed

lemma grows:
  "\<exists>new. rows (snd (create_or_reread (look k) (create e i) digest_of d s)) = rows s @ new"
  using created [of e i s]
  by (auto simp: create_or_reread_def split: sum.splits prod.splits option.splits)

lemma idempotent_recorded:
  assumes "idempotent (look (input_key i)) (create e i) digest_of (input_digest i) s = (Inr g, s')"
  shows "look (input_key i) s' = Some (rg_entity g) \<and> digest_of (rg_entity g) = input_digest i \<and>
    rg_digest g = input_digest i"
proof (cases "look (input_key i) s")
  case None
  with assms have "create_or_reread (look (input_key i)) (create e i) digest_of (input_digest i) s = (Inr g, s')"
    by (simp add: idempotent_def)
  from recorded [OF this] show ?thesis by simp
next
  case (Some r)
  with assms show ?thesis by (auto simp: idempotent_def registered_def split: if_splits)
qed

end

lemma insert_named_Inr:
  "insert_named table ident key digest r rows = Inr rows' \<longleftrightarrow>
     rows' = rows @ [r] \<and> \<not> list_ex (\<lambda>x. ident x = ident r) rows \<and>
     \<not> list_ex (\<lambda>x. key x = key r) rows \<and>
     \<not> list_ex (\<lambda>x. fst (key x) = fst (key r) \<and> digest x = digest r) rows"
  by (auto simp: insert_named_def)

lemma insert_named_taken:
  assumes "List.find (\<lambda>x. key x = key r) rows \<noteq> None"
  shows "insert_named table ident key digest r rows = Inl (DbViolation
    (if list_ex (\<lambda>x. ident x = ident r) rows then table @ ''_pkey'' else table @ ''_name_version_key''))"
  using assms by (auto simp: insert_named_def list_ex_iff find_None_iff)

lemma not_list_ex_find: "\<not> list_ex P xs \<longleftrightarrow> List.find P xs = None"
  by (auto simp: list_ex_iff find_None_iff)

interpretation schemas: registry artifact_schemas schema_key sch_digest findArtifactSchema
  createArtifactSchema rg_key rg_content_digest
proof
  show "findArtifactSchema k s = List.find (\<lambda>r. schema_key r = k) (artifact_schemas s)" for k s
    by (simp add: findArtifactSchema_def)
  show "artifact_schemas s' = artifact_schemas s @ [r] \<and> schema_key r = rg_key i \<and>
      sch_digest r = rg_content_digest i \<and> findArtifactSchema (rg_key i) s = None"
    if "createArtifactSchema e i s = Inr (r, s')" for e i s r s'
    using that by (auto simp: createArtifactSchema_def tx_simps Let_def insert_named_Inr
        findArtifactSchema_def schema_key_def not_list_ex_find split: sum.splits)
  show "\<exists>err. createArtifactSchema e i s = Inl err \<and> isUniqueViolation err"
    if "findArtifactSchema (rg_key i) s \<noteq> None" for e i s
    using that
    by (auto simp: createArtifactSchema_def tx_simps Let_def findArtifactSchema_def insert_named_taken isUniqueViolation_def
        schema_key_def)
qed

interpretation templates: registry templates template_key tpl_digest findTemplate
  createTemplate rg_key rg_content_digest
proof
  show "findTemplate k s = List.find (\<lambda>r. template_key r = k) (templates s)" for k s
    by (simp add: findTemplate_def)
  show "templates s' = templates s @ [r] \<and> template_key r = rg_key i \<and>
      tpl_digest r = rg_content_digest i \<and> findTemplate (rg_key i) s = None"
    if "createTemplate e i s = Inr (r, s')" for e i s r s'
    using that by (auto simp: createTemplate_def tx_simps Let_def insert_named_Inr
        findTemplate_def template_key_def not_list_ex_find split: sum.splits)
  show "\<exists>err. createTemplate e i s = Inl err \<and> isUniqueViolation err"
    if "findTemplate (rg_key i) s \<noteq> None" for e i s
    using that
    by (auto simp: createTemplate_def tx_simps Let_def findTemplate_def insert_named_taken isUniqueViolation_def template_key_def)
qed

interpretation policies: registry policies policy_key pol_digest findPolicy
  createPolicy rg_key rg_content_digest
proof
  show "findPolicy k s = List.find (\<lambda>r. policy_key r = k) (policies s)" for k s
    by (simp add: findPolicy_def)
  show "policies s' = policies s @ [r] \<and> policy_key r = rg_key i \<and>
      pol_digest r = rg_content_digest i \<and> findPolicy (rg_key i) s = None"
    if "createPolicy e i s = Inr (r, s')" for e i s r s'
    using that by (auto simp: createPolicy_def tx_simps Let_def insert_named_Inr
        findPolicy_def policy_key_def not_list_ex_find split: sum.splits)
  show "\<exists>err. createPolicy e i s = Inl err \<and> isUniqueViolation err"
    if "findPolicy (rg_key i) s \<noteq> None" for e i s
    using that
    by (auto simp: createPolicy_def tx_simps Let_def findPolicy_def insert_named_taken isUniqueViolation_def policy_key_def)
qed

lemma insert_ports_frame:
  assumes "for_tx ports (\<lambda>p. insert_port e (f p)) s = Inr (u, s')"
  shows "component_definitions s' = component_definitions s" "artifact_schemas s' = artifact_schemas s"
    "templates s' = templates s" "policies s' = policies s"
  using assms
  by (induction ports arbitrary: s)
    (auto simp: ret_Inr bind_tx_Inr insert_port_def tx_simps split: if_splits)

lemma createComponentDefinition_Inr:
  assumes "createComponentDefinition e (i, ports) s = Inr (r, s')"
  shows "component_definitions s' = component_definitions s @ [r]" "component_key r = rg_key i"
    "cdef_digest r = rg_content_digest i" "findComponentDefinition (rg_key i) s = None"
    "artifact_schemas s' = artifact_schemas s" "templates s' = templates s" "policies s' = policies s"
  using assms
  by (auto simp: createComponentDefinition_def bind_tx_Inr tx_simps fresh_uuid_Inr Let_def insert_named_Inr ret_Inr
      findComponentDefinition_def component_key_def not_list_ex_find insert_ports_frame split: sum.splits)

interpretation components: registry component_definitions component_key cdef_digest findComponentDefinition
  createComponentDefinition "\<lambda>ip. rg_key (fst ip)" "\<lambda>ip. rg_content_digest (fst ip)"
proof
  show "findComponentDefinition k s = List.find (\<lambda>r. component_key r = k) (component_definitions s)" for k s
    by (simp add: findComponentDefinition_def)
  show "component_definitions s' = component_definitions s @ [r] \<and> component_key r = rg_key (fst ip) \<and>
      cdef_digest r = rg_content_digest (fst ip) \<and> findComponentDefinition (rg_key (fst ip)) s = None"
    if "createComponentDefinition e ip s = Inr (r, s')" for e ip s r s'
    using createComponentDefinition_Inr [of e "fst ip" "snd ip" s r s'] that by simp
  show "\<exists>err. createComponentDefinition e ip s = Inl err \<and> isUniqueViolation err"
    if "findComponentDefinition (rg_key (fst ip)) s \<noteq> None" for e ip s
    using that
    by (cases ip) (auto simp: createComponentDefinition_def tx_simps Let_def findComponentDefinition_def
        insert_named_taken isUniqueViolation_def component_key_def)
qed

subsection \<open>What a valid topology is\<close>

definition topology_names :: "json \<Rightarrow> string list" where
  "topology_names topology = map (\<lambda>i. text_of (json_field i ''name'')) (topology_items topology ''instances'')"

definition reference_ok :: "char \<Rightarrow> json option \<Rightarrow> bool" where
  "reference_ok c v \<longleftrightarrow> nonEmptyString v \<and> parted c (text_of v)"

definition instance_ok :: "json \<Rightarrow> bool" where
  "instance_ok i \<longleftrightarrow> nonEmptyString (json_field i ''name'') \<and> reference_ok (CHR ''@'') (json_field i ''component'') \<and>
     (json_field i ''configuration'' = None \<or> is_object (json_field i ''configuration''))"

definition target_ok :: "string list \<Rightarrow> json \<Rightarrow> bool" where
  "target_ok names t \<longleftrightarrow> nonEmptyString (json_field t ''component'') \<and> nonEmptyString (json_field t ''port'') \<and>
     text_of (json_field t ''component'') \<in> set names"

definition rule_ok :: "string list \<Rightarrow> string \<times> json \<Rightarrow> bool" where
  "rule_ok names kr \<longleftrightarrow> \<not> blank (fst kr) \<and> array_items (json_field (snd kr) ''targets'') \<noteq> None \<and>
     list_all (target_ok names) (rule_targets (snd kr)) \<and> distinct (map target_key (rule_targets (snd kr)))"

definition ingress_ok :: "string list \<Rightarrow> json option \<Rightarrow> bool" where
  "ingress_ok names rules =
     (case rules of None \<Rightarrow> True | Some (JObj kvs) \<Rightarrow> list_all (rule_ok names) kvs | Some _ \<Rightarrow> False)"

definition connection_ok :: "json \<Rightarrow> bool" where
  "connection_ok c \<longleftrightarrow>
     reference_ok (CHR ''.'') (json_field c ''from'') \<and> reference_ok (CHR ''.'') (json_field c ''to'')"

definition topology_ok :: "json \<Rightarrow> bool" where
  "topology_ok topology \<longleftrightarrow>
     is_object (Some topology) \<and>
     array_items (json_field topology ''instances'') \<noteq> None \<and>
     array_items (json_field topology ''connections'') \<noteq> None \<and>
     list_all instance_ok (topology_items topology ''instances'') \<and>
     distinct (topology_names topology) \<and>
     ingress_ok (topology_names topology) (subfield topology ''ingress'' ''commands'') \<and>
     list_all connection_ok (topology_items topology ''connections'')"

definition with_rules :: "(string \<times> json) list \<Rightarrow> json \<Rightarrow> json" where
  "with_rules kvs topology =
     put_field ''ingress'' (put_field ''commands'' (JObj kvs) (the (json_field topology ''ingress''))) topology"

definition sorted_topology :: "env \<Rightarrow> json \<Rightarrow> json" where
  "sorted_topology e topology =
     (case subfield topology ''ingress'' ''commands'' of
        Some (JObj kvs) \<Rightarrow> with_rules (map (map_prod id (sorted_rule e)) kvs) topology
      | _ \<Rightarrow> topology)"

lemma unit_Inr: "(\<exists>u. v = Inr u \<and> P) \<longleftrightarrow> v = Inr () \<and> P" by auto

lemma check_instances_Inr:
  "check_instances is seen = Inr names \<longleftrightarrow>
     names = rev (map (\<lambda>i. text_of (json_field i ''name'')) is) @ seen \<and> list_all instance_ok is \<and>
     distinct (map (\<lambda>i. text_of (json_field i ''name'')) is) \<and>
     set (map (\<lambda>i. text_of (json_field i ''name'')) is) \<inter> set seen = {}"
  by (induction "is" arbitrary: seen)
    (auto simp: instance_ok_def requireReference_def reference_ok_def)

lemma check_targets_Inr:
  "check_targets names ts seen = Inr () \<longleftrightarrow>
     list_all (target_ok names) ts \<and> distinct (map target_key ts) \<and> target_key ` set ts \<inter> set seen = {}"
  by (induction ts arbitrary: seen) (auto simp: target_ok_def)

lemma check_rules_Inr: "check_rules names krs = Inr () \<longleftrightarrow> list_all (rule_ok names) krs"
  by (induction krs) (auto simp: check_targets_Inr rule_ok_def unit_Inr)

lemma check_connections_Inr: "check_connections cs = Inr () \<longleftrightarrow> list_all connection_ok cs"
  by (induction cs) (auto simp: connection_ok_def requireEndpoint_def reference_ok_def)

lemma rules_ok_cong:
  assumes "set names = set names'"
  shows "rule_ok names = rule_ok names'"
proof -
  have "target_ok names = target_ok names'" using assms by (auto simp: target_ok_def fun_eq_iff)
  then show ?thesis by (intro ext) (simp add: rule_ok_def)
qed

lemma list_all_entries: "list_all P (entries kvs) = list_all P kvs"
  by (simp add: list_all_iff)

lemma check_ingress_Inr:
  assumes "set names = set (topology_names topology)"
  shows "check_ingress e names topology = Inr topology' \<longleftrightarrow>
    ingress_ok (topology_names topology) (subfield topology ''ingress'' ''commands'') \<and>
    topology' = sorted_topology e topology"
  using rules_ok_cong [OF assms]
  by (auto simp: check_ingress_def ingress_ok_def sorted_topology_def check_rules_Inr with_rules_def
      list_all_entries unit_Inr split: option.splits json.splits)

lemma validateStaticTopology_Inr:
  "validateStaticTopology e topology = Inr topology' \<longleftrightarrow>
     topology_ok topology \<and> topology' = sorted_topology e topology"
proof -
  have names: "set (rev (topology_names topology) @ []) = set (topology_names topology)" by simp
  have start: "check_instances (topology_items topology ''instances'') [] = Inr names \<longleftrightarrow>
      names = rev (topology_names topology) @ [] \<and> list_all instance_ok (topology_items topology ''instances'') \<and>
      distinct (topology_names topology)" for names
    by (simp add: check_instances_Inr topology_names_def)
  show ?thesis
    unfolding validateStaticTopology_def and_then_Inr start topology_ok_def
    using check_ingress_Inr [OF names] check_connections_Inr
    by auto
qed

text \<open>The pass over a topology is exactly its specification: it accepts a topology when
  instances have distinct non-empty names and component references, configurations are objects, every
  ingress rule lists distinct targets on declared instances and every connection has two endpoints;
  what it leaves is the same topology with the targets of every rule sorted.
\<close>

theorem static_topology_checked:
  "validateStaticTopology e topology = Inr topology' \<longleftrightarrow>
     topology_ok topology \<and> topology' = sorted_topology e topology"
  by (rule validateStaticTopology_Inr)

subsection \<open>The order of the targets\<close>

lemma json_field_put [simp]:
  "json_field (put_field k v doc) k' =
     (if k = k' \<and> is_object (Some doc) then Some v else json_field doc k')"
  by (cases doc) (auto simp: put_field_def is_object_def update_conv)

lemma is_object_put [simp]: "is_object (Some (put_field k v doc)) = is_object (Some doc)"
  by (cases doc) (auto simp: put_field_def is_object_def)

lemma put_put [simp]: "put_field k v (put_field k v' doc) = put_field k v doc"
  by (cases doc) (auto simp: put_field_def)

lemma consistent_target_cmp:
  assumes "collation e"
  shows "consistent_cmp (target_cmp e)"
  using assms unfolding collation_def consistent_cmp_def target_cmp_def Let_def
  by (smt (verit))

definition same_targets :: "string \<times> json \<Rightarrow> string \<times> json \<Rightarrow> bool" where
  "same_targets kr kr' \<longleftrightarrow>
     (\<exists>ts. kr' = (fst kr, put_field ''targets'' (JArr ts) (snd kr)) \<and> mset ts = mset (rule_targets (snd kr)))"

lemma rule_is_object: "rule_ok names kr \<Longrightarrow> is_object (Some (snd kr))"
  by (cases "snd kr") (auto simp: rule_ok_def array_items_def is_object_def)

lemma same_targets_ok:
  assumes "same_targets kr kr'" and "rule_ok names kr"
  shows "rule_ok names kr'" and "mset (rule_targets (snd kr')) = mset (rule_targets (snd kr))"
proof -
  from assms(1) obtain ts where kr': "kr' = (fst kr, put_field ''targets'' (JArr ts) (snd kr))"
    and ts: "mset ts = mset (rule_targets (snd kr))" by (auto simp: same_targets_def)
  have targets: "rule_targets (snd kr') = ts"
    using rule_is_object [OF assms(2)] kr' by (simp add: rule_targets_def array_items_def)
  from ts have "set ts = set (rule_targets (snd kr))" by (metis set_mset_mset)
  moreover from ts have "mset (map target_key ts) = mset (map target_key (rule_targets (snd kr)))" by simp
  then have "distinct (map target_key ts) = distinct (map target_key (rule_targets (snd kr)))"
    by (metis mset_eq_imp_distinct_iff)
  ultimately show "rule_ok names kr'"
    using assms(2) rule_is_object [OF assms(2)] kr' targets
    by (simp add: rule_ok_def list_all_iff array_items_def)
  from ts targets show "mset (rule_targets (snd kr')) = mset (rule_targets (snd kr))" by simp
qed

lemma same_targets_sorted:
  assumes "same_targets kr kr'" and "rule_ok names kr" and col: "collation e"
    and apart: "\<And>x y. locale_compare e x y = 0 \<Longrightarrow> x = y"
  shows "sorted_rule e (snd kr') = sorted_rule e (snd kr)"
proof -
  let ?ts = "rule_targets (snd kr)"
  have "sort_cmp (target_cmp e) ?ts = sort_cmp (target_cmp e) (rule_targets (snd kr'))"
  proof (rule sort_cmp_perm [OF consistent_target_cmp [OF col] same_targets_ok(2) [OF assms(1,2), symmetric]])
    fix a b
    assume mem: "a \<in> set ?ts" "b \<in> set ?ts" and le: "target_cmp e a b \<le> 0" "target_cmp e b a \<le> 0"
    let ?c = "\<lambda>t. text_of (json_field t ''component'')" and ?p = "\<lambda>t. text_of (json_field t ''port'')"
    have "locale_compare e (?c a) (?c b) = 0 \<and> locale_compare e (?p a) (?p b) = 0"
      using le collation_sign [OF col, of "?c a" "?c b"] collation_sign [OF col, of "?p a" "?p b"]
      by (auto simp: target_cmp_def Let_def split: if_splits)
    then have "?c a = ?c b" and "?p a = ?p b" using apart by blast+
    then have "target_key a = target_key b" by (simp add: target_key_def)
    moreover have "distinct (map target_key ?ts)" using assms(2) by (simp add: rule_ok_def)
    ultimately show "a = b" using mem by (metis distinct_map inj_onD)
  qed
  then show ?thesis
    using assms(1) by (auto simp: sorted_rule_def same_targets_def)
qed

lemma subfield_with_rules:
  assumes "subfield topology ''ingress'' ''commands'' = Some v"
  shows "subfield (with_rules kvs topology) ''ingress'' ''commands'' = Some (JObj kvs)"
    and "with_rules kvs' (with_rules kvs topology) = with_rules kvs' topology"
    and "k \<noteq> ''ingress'' \<Longrightarrow> json_field (with_rules kvs topology) k = json_field topology k"
    and "is_object (Some (with_rules kvs topology))"
proof -
  from assms obtain i where i: "json_field topology ''ingress'' = Some i" "json_field i ''commands'' = Some v"
    by (auto simp: subfield_def split: option.splits)
  then have "is_object (Some topology)" "is_object (Some i)"
    by (cases topology; cases i; simp add: is_object_def)+
  with i show "subfield (with_rules kvs topology) ''ingress'' ''commands'' = Some (JObj kvs)"
    "with_rules kvs' (with_rules kvs topology) = with_rules kvs' topology"
    "k \<noteq> ''ingress'' \<Longrightarrow> json_field (with_rules kvs topology) k = json_field topology k"
    "is_object (Some (with_rules kvs topology))"
    by (simp_all add: with_rules_def subfield_def)
qed

lemma same_targets_rules:
  assumes "list_all2 same_targets kvs kvs'" and "list_all (rule_ok names) kvs" and "collation e"
    and "\<And>x y. locale_compare e x y = 0 \<Longrightarrow> x = y"
  shows "list_all (rule_ok names) kvs'"
    and "map (map_prod id (sorted_rule e)) kvs' = map (map_prod id (sorted_rule e)) kvs"
  using assms(1,2)
proof (induction rule: list_all2_induct)
  case Nil
  { case 1 then show ?case by simp next case 2 then show ?case by simp }
next
  case (Cons kr krs kr' krs')
  have "fst kr' = fst kr" using Cons.hyps(1) by (auto simp: same_targets_def)
  moreover have "sorted_rule e (snd kr') = sorted_rule e (snd kr)" if "rule_ok names kr"
    using same_targets_sorted [OF Cons.hyps(1) that assms(3,4)] .
  ultimately have head: "map_prod id (sorted_rule e) kr' = map_prod id (sorted_rule e) kr" if "rule_ok names kr"
    using that by (simp add: map_prod_def split_beta)
  { case 1 then show ?case using Cons same_targets_ok(1) [OF Cons.hyps(1)] by simp
  next case 2 then show ?case using Cons head by (simp add: id_def) }
qed

text \<open>The order in which an ingress rule lists its targets does not matter: if a topology is
  valid, a topology that differs only in the order of the targets of its rules is valid, and both are
  left as the same document, so a template's digest does not depend on that order. The host collation
  has to tell different texts apart.
\<close>

theorem target_order:
  assumes "collation e" and "\<forall>x y. locale_compare e x y = 0 \<longrightarrow> x = y"
    and "subfield topology ''ingress'' ''commands'' = Some (JObj kvs)" and "list_all2 same_targets kvs kvs'"
    and "validateStaticTopology e topology = Inr topology'"
  shows "validateStaticTopology e (with_rules kvs' topology) = Inr topology'"
proof -
  note sub = subfield_with_rules [OF assms(3)]
  have apart: "\<And>x y. locale_compare e x y = 0 \<Longrightarrow> x = y" using assms(2) by blast
  from assms(5) have ok: "topology_ok topology" and top: "topology' = sorted_topology e topology"
    by (simp_all add: validateStaticTopology_Inr)
  let ?t = "with_rules kvs' topology"
  have items: "topology_items ?t ''instances'' = topology_items topology ''instances''"
    "topology_items ?t ''connections'' = topology_items topology ''connections''"
    by (simp_all add: topology_items_def sub(3))
  then have names: "topology_names ?t = topology_names topology" by (simp add: topology_names_def)
  have "list_all (rule_ok (topology_names topology)) kvs"
    using ok assms(3) by (simp add: topology_ok_def ingress_ok_def)
  note rules = same_targets_rules [OF assms(4) this assms(1) apart]
  have "topology_ok ?t"
    using ok rules(1) by (simp add: topology_ok_def ingress_ok_def items names sub)
  moreover have "sorted_topology e ?t = topology'"
    using rules(2) by (simp add: sorted_topology_def top sub(1,2) assms(3))
  ultimately show ?thesis by (simp add: validateStaticTopology_Inr)
qed

subsection \<open>Registrations that race\<close>

text \<open>The writes of the service: at any time, for any declaration that another request has looked up
  before.\<close>

inductive registration_step :: "db \<Rightarrow> db \<Rightarrow> bool" where
  schema: "registration_step s (snd (create_or_reread (findArtifactSchema (rg_key i))
     (createArtifactSchema e i) sch_digest (rg_content_digest i) s))"
| component: "registration_step s (snd (create_or_reread (findComponentDefinition (rg_key (fst ip)))
     (createComponentDefinition e ip) cdef_digest (rg_content_digest (fst ip)) s))"
| template: "registration_step s (snd (create_or_reread (findTemplate (rg_key i))
     (createTemplate e i) tpl_digest (rg_content_digest i) s))"
| policy: "registration_step s (snd (create_or_reread (findPolicy (rg_key i))
     (createPolicy e i) pol_digest (rg_content_digest i) s))"

lemma snd_create_or_reread:
  "snd (create_or_reread look create digest_of d s) = (case create s of Inr (r, s') \<Rightarrow> s' | Inl err \<Rightarrow> s)"
  by (auto simp: create_or_reread_def split: sum.splits option.splits)

definition extends :: "db \<Rightarrow> db \<Rightarrow> bool" where
  "extends s s' \<longleftrightarrow>
     (\<exists>new. artifact_schemas s' = artifact_schemas s @ new) \<and>
     (\<exists>new. component_definitions s' = component_definitions s @ new) \<and>
     (\<exists>new. templates s' = templates s @ new) \<and> (\<exists>new. policies s' = policies s @ new)"

lemma create_extends:
  "createArtifactSchema e i s = Inr (r1, s') \<Longrightarrow> extends s s'"
  "createComponentDefinition e ip s = Inr (r2, s') \<Longrightarrow> extends s s'"
  "createTemplate e i s = Inr (r3, s') \<Longrightarrow> extends s s'"
  "createPolicy e i s = Inr (r4, s') \<Longrightarrow> extends s s'"
proof -
  show "createComponentDefinition e ip s = Inr (r2, s') \<Longrightarrow> extends s s'"
    using createComponentDefinition_Inr [of e "fst ip" "snd ip" s r2 s'] by (simp add: extends_def)
qed (auto simp: createArtifactSchema_def createTemplate_def createPolicy_def extends_def tx_simps
    fresh_uuid_Inr Let_def insert_named_Inr split: sum.splits)

lemma extends_refl: "extends s s"
  by (simp add: extends_def)

lemma registration_step_extends: "registration_step s s' \<Longrightarrow> extends s s'"
  by (induction rule: registration_step.induct)
    (auto simp: snd_create_or_reread extends_refl split: sum.splits prod.splits dest: create_extends)

lemma extends_trans: "extends s t \<Longrightarrow> extends t u \<Longrightarrow> extends s u"
  unfolding extends_def by (metis append.assoc)

lemma registration_steps_extend: "registration_step\<^sup>*\<^sup>* s s' \<Longrightarrow> extends s s'"
  by (induction rule: rtranclp_induct) (auto intro: extends_refl extends_trans registration_step_extends)

lemma found_later:
  assumes "registration_step\<^sup>*\<^sup>* s s'"
  shows "findArtifactSchema k s = Some r1 \<Longrightarrow> findArtifactSchema k s' = Some r1"
    and "findComponentDefinition k s = Some r2 \<Longrightarrow> findComponentDefinition k s' = Some r2"
    and "findTemplate k s = Some r3 \<Longrightarrow> findTemplate k s' = Some r3"
    and "findPolicy k s = Some r4 \<Longrightarrow> findPolicy k s' = Some r4"
  using registration_steps_extend [OF assms]
  by (auto simp: extends_def intro: schemas.look_later components.look_later templates.look_later
      policies.look_later)

text \<open>C39. Registrations of one template name and version agree for ever: once a registration has
  returned an entity, any later one, whatever other registrations ran between, returns that entity
  as existing when its content has the same digest and is refused as a conflict otherwise, and writes
  nothing; so does the second half of a registration that looked the name up before the row was
  there and lost the race.
\<close>

theorem template_race:
  assumes "registerTemplate e doc s = (Inr g, s')" and "registration_step\<^sup>*\<^sup>* s' t"
    and "validateSimpleDeclaration e doc ''Template'' = Inr d"
    and "validateSimpleDeclaration e doc' ''Template'' = Inr d'" and "declared_key d' = declared_key d"
  shows "registerTemplate e doc' t =
      (if json_digest e d' = rg_digest g
       then Inr \<lparr>rg_entity = rg_entity g, rg_created = False, rg_digest = rg_digest g\<rparr>
       else Inl (DomainError ''registration_conflict''), t) \<and>
    create_or_reread (findTemplate (declared_key d')) (createTemplate e (input_of e d' d')) tpl_digest
        (json_digest e d') t = registerTemplate e doc' t"
proof -
  let ?i = "input_of e d d" and ?i' = "input_of e d' d'"
  have i: "rg_key ?i = declared_key d" "rg_content_digest ?i = json_digest e d"
    and i': "rg_key ?i' = declared_key d" "rg_content_digest ?i' = json_digest e d'"
    using assms(5) by (simp_all add: input_of_def)
  have "idempotent (findTemplate (rg_key ?i)) (createTemplate e ?i) tpl_digest (rg_content_digest ?i) s = (Inr g, s')"
    using assms(1,3) by (simp add: registerTemplate_def Let_def)
  note rec = templates.idempotent_recorded [OF this]
  then have "findTemplate (declared_key d) s' = Some (rg_entity g)" by (simp add: i)
  from found_later(3) [OF assms(2) this]
  have found: "findTemplate (rg_key ?i') t = Some (rg_entity g)" by (simp add: i')
  note again = templates.again [OF found]
  have reg: "registerTemplate e doc' t = (registered tpl_digest (json_digest e d') (rg_entity g), t)"
    using again(2) [of e] assms(4) by (simp add: registerTemplate_def Let_def i')
  with rec have "registerTemplate e doc' t =
      (if json_digest e d' = rg_digest g
       then Inr \<lparr>rg_entity = rg_entity g, rg_created = False, rg_digest = rg_digest g\<rparr>
       else Inl (DomainError ''registration_conflict''), t)"
    by (auto simp: registered_def)
  moreover have "create_or_reread (findTemplate (declared_key d')) (createTemplate e (input_of e d' d')) tpl_digest
        (json_digest e d') t = registerTemplate e doc' t"
    using again(1) [of e] reg assms(5) by (simp add: i')
  ultimately show ?thesis ..
qed

subsection \<open>The ports of a definition\<close>

lemma insert_ports_Inr:
  assumes "for_tx ports (\<lambda>p. insert_port e (p\<lparr>port_def := u\<rparr>)) s = Inr (v, s')"
  shows "port_definitions s' = port_definitions s @ map (\<lambda>p. p\<lparr>port_def := u\<rparr>) ports \<and>
    distinct (map (\<lambda>p. (port_name p, port_direction p)) ports) \<and>
    (\<forall>p\<in>set ports. \<exists>sch\<in>set (artifact_schemas s). sch_id sch = port_schema p) \<and>
    (\<forall>p\<in>set ports. \<forall>q\<in>set (port_definitions s). port_def q = u \<longrightarrow>
      (port_name p, port_direction p) \<noteq> (port_name q, port_direction q))"
  using assms
proof (induction ports arbitrary: s)
  case Nil
  then show ?case by (simp add: ret_Inr)
next
  case (Cons p ports)
  from Cons.prems obtain t x where step: "insert_port e (p\<lparr>port_def := u\<rparr>) s = Inr (x, t)"
    and rest: "for_tx ports (\<lambda>p. insert_port e (p\<lparr>port_def := u\<rparr>)) t = Inr (v, s')"
    by (auto simp: bind_tx_Inr)
  from step have t: "port_definitions t = port_definitions s @ [p\<lparr>port_def := u\<rparr>]"
    "artifact_schemas t = artifact_schemas s"
    and fk: "\<exists>sch\<in>set (artifact_schemas s). sch_id sch = port_schema p"
    and fresh: "\<forall>q\<in>set (port_definitions s). port_def q = u \<longrightarrow>
      (port_name p, port_direction p) \<noteq> (port_name q, port_direction q)"
    by (auto simp: insert_port_def bind_tx_Inr tx_simps fresh_uuid_Inr list_ex_iff split: if_splits)
  from Cons.IH [OF rest] t fk fresh show ?case by auto
qed

text \<open>A component definition that is created gets its ports in the same transaction: one row
  per declared port, owned by the definition, in order, no two with the same name and direction, each
  bound to a schema of the store. The name and version were free and now name the new row, which
  holds the document and its digest.
\<close>

theorem component_registered:
  assumes "registerComponentDefinition e doc s = (Inr g, s')" and "rg_created g"
  shows "\<exists>ports. resolve_ports (declared_ports doc) s = Inr ports \<and>
    port_definitions s' = port_definitions s @ map (\<lambda>p. p\<lparr>port_def := cdef_id (rg_entity g)\<rparr>) ports \<and>
    distinct (map (\<lambda>p. (port_name p, port_direction p)) ports) \<and>
    (\<forall>p\<in>set ports. \<exists>sch\<in>set (artifact_schemas s). sch_id sch = port_schema p) \<and>
    findComponentDefinition (declared_key doc) s = None \<and>
    findComponentDefinition (declared_key doc) s' = Some (rg_entity g) \<and>
    cdef_definition (rg_entity g) = doc \<and> cdef_digest (rg_entity g) = json_digest e doc"
proof -
  let ?i = "input_of e doc doc"
  have i: "rg_key ?i = declared_key doc" "rg_content_digest ?i = json_digest e doc" "rg_content ?i = doc"
    by (simp_all add: input_of_def)
  from assms obtain ports where ports: "resolve_ports (declared_ports doc) s = Inr ports"
    and run: "idempotent (findComponentDefinition (rg_key ?i)) (createComponentDefinition e (?i, ports))
      cdef_digest (rg_content_digest ?i) s = (Inr g, s')"
    by (auto simp: registerComponentDefinition_def Let_def throw_io_def split: sum.splits)
  from components.idempotent_recorded [of "(?i, ports)"] run
  have rec: "findComponentDefinition (rg_key ?i) s' = Some (rg_entity g)" "cdef_digest (rg_entity g) = rg_content_digest ?i"
    by simp_all
  from run assms(2) have made: "createComponentDefinition e (?i, ports) s = Inr (rg_entity g, s')"
    by (auto simp: idempotent_def create_or_reread_def registered_def split: option.splits sum.splits if_splits)
  obtain r where r: "r = rg_entity g" by blast
  from made have "createComponentDefinition e (?i, ports) s = Inr (r, s')" by (simp add: r)
  then obtain v t where loop: "for_tx ports (\<lambda>p. insert_port e (p\<lparr>port_def := cdef_id r\<rparr>)) t = Inr (v, s')"
    and t: "port_definitions t = port_definitions s" "artifact_schemas t = artifact_schemas s"
    and "cdef_definition r = doc"
    by (auto simp: createComponentDefinition_def bind_tx_Inr tx_simps fresh_uuid_Inr Let_def ret_Inr i
        split: sum.splits)
  with insert_ports_Inr [OF loop] rec createComponentDefinition_Inr(4) [OF made] ports t show ?thesis
    by (simp add: i r)
qed

subsection \<open>Samples\<close>

definition sample_declaration :: "string \<Rightarrow> json \<Rightarrow> json" where
  "sample_declaration kind spec = JObj
     [(''apiVersion'', JStr apiVersion), (''kind'', JStr kind),
      (''metadata'', JObj [(''name'', JStr ''n''), (''version'', JStr ''1'')]), (''spec'', spec)]"

definition sample_port :: json where
  "sample_port = JObj
     [(''name'', JStr ''in''), (''direction'', JStr ''input''), (''required'', JBool True),
      (''schema'', JObj [(''name'', JStr ''n''), (''version'', JStr ''1'')])]"

definition sample_target :: "string \<Rightarrow> json" where
  "sample_target p = JObj [(''component'', JStr ''a''), (''port'', JStr p)]"

definition sample_rule :: "string list \<Rightarrow> string \<times> json" where
  "sample_rule ps = (''go'', JObj [(''targets'', JArr (map sample_target ps))])"

definition sample_topology :: "string list \<Rightarrow> json" where
  "sample_topology ps = JObj
     [(''instances'', JArr [JObj [(''name'', JStr ''a''), (''component'', JStr ''c@1'')]]),
      (''connections'', JArr [JObj [(''from'', JStr ''a.out''), (''to'', JStr ''a.in'')]]),
      (''ingress'', JObj [(''commands'', JObj [sample_rule ps])])]"

theorem target_order_witness:
  "validateStaticTopology sample_env (with_rules [sample_rule [''p'', ''q'']] (sample_topology [''q'', ''p'']))
    = Inr (sample_topology [''p'', ''q''])"
proof (rule target_order)
  show "collation sample_env" by (rule sample_collation)
  show "\<forall>x y. locale_compare sample_env x y = 0 \<longrightarrow> x = y"
    by (auto simp: sample_env_def code_unit_compare_def split: if_splits)
  show "subfield (sample_topology [''q'', ''p'']) ''ingress'' ''commands'' = Some (JObj [sample_rule [''q'', ''p'']])"
    by (simp add: subfield_def sample_topology_def)
  show "list_all2 same_targets [sample_rule [''q'', ''p'']] [sample_rule [''p'', ''q'']]"
    by (auto simp: same_targets_def sample_rule_def put_field_def rule_targets_def array_items_def)
  show "validateStaticTopology sample_env (sample_topology [''q'', ''p'']) = Inr (sample_topology [''p'', ''q''])"
    by code_simp
qed

lemma sample_templates:
  "validateSimpleDeclaration sample_env (sample_declaration ''Template'' (JObj [])) ''Template''
    = Inr (sample_declaration ''Template'' (JObj []))"
  "validateSimpleDeclaration sample_env (sample_declaration ''Template'' (JObj [(''x'', JNull)])) ''Template''
    = Inr (sample_declaration ''Template'' (JObj [(''x'', JNull)]))"
  by code_simp+

definition sample_registered :: "template registration \<times> db" where
  "sample_registered =
     (case registerTemplate sample_env (sample_declaration ''Template'' (JObj [])) empty_db of
        (Inr g, s) \<Rightarrow> (g, s) | (Inl err, s) \<Rightarrow> undefined)"

lemma sample_registered:
  "registerTemplate sample_env (sample_declaration ''Template'' (JObj [])) empty_db
    = (Inr (fst sample_registered), snd sample_registered)"
  by code_simp

theorem template_race_witness:
  "registerTemplate sample_env (sample_declaration ''Template'' (JObj [(''x'', JNull)])) (snd sample_registered)
    = (Inl (DomainError ''registration_conflict''), snd sample_registered)"
proof -
  have "json_digest sample_env (sample_declaration ''Template'' (JObj [(''x'', JNull)]))
      \<noteq> rg_digest (fst sample_registered)" by code_simp
  moreover have "declared_key (sample_declaration ''Template'' (JObj [(''x'', JNull)])) =
      declared_key (sample_declaration ''Template'' (JObj []))" by code_simp
  ultimately show ?thesis
    using template_race [OF sample_registered rtranclp.rtrancl_refl sample_templates] by simp
qed

definition sample_schemas :: db where
  "sample_schemas = empty_db\<lparr>artifact_schemas :=
     [\<lparr>sch_id = ''s'', sch_name = ''n'', sch_version = ''1'', sch_digest = ''h'', sch_schema = JObj [],
       sch_retired = None\<rparr>]\<rparr>"

theorem component_registered_witness:
  "port_definitions (snd (registerComponentDefinition sample_env
     (sample_declaration ''ComponentDefinition'' (JObj [(''ports'', JArr [sample_port])])) sample_schemas))
    = [\<lparr>port_def = ''u'', port_name = ''in'', port_direction = PInput, port_schema = ''s'', port_required = True\<rparr>]"
proof -
  let ?doc = "sample_declaration ''ComponentDefinition'' (JObj [(''ports'', JArr [sample_port])])"
  let ?r = "\<lparr>cdef_id = ''u'', cdef_name = ''n'', cdef_version = ''1'',
    cdef_digest = json_digest sample_env ?doc, cdef_definition = ?doc, cdef_retired = None\<rparr>"
  have run: "registerComponentDefinition sample_env ?doc sample_schemas =
     (Inr \<lparr>rg_entity = ?r, rg_created = True, rg_digest = json_digest sample_env ?doc\<rparr>,
      snd (registerComponentDefinition sample_env ?doc sample_schemas))" by code_simp
  have "resolve_ports (declared_ports ?doc) sample_schemas = Inr
    [\<lparr>port_def = [], port_name = ''in'', port_direction = PInput, port_schema = ''s'', port_required = True\<rparr>]"
    by code_simp
  with component_registered [OF run] show ?thesis by (simp add: sample_schemas_def empty_db_def)
qed

end
