(* ===== verification/Instantiation.thy ===== *)
theory Instantiation
  imports Declarations Scheduler
begin

section \<open>Template instantiation\<close>

text \<open>
  \<open>runtime-core/src/systems/template-instantiation-service.ts\<close> and
  \<open>db/src/repositories/topology-repository.ts\<close>. A request names a region and a template. The service reads
  the definitions the template refers to, checks every port, schema, connection and fan-in rule, and
  writes one topology revision with its component instances and connections, which becomes the active one
  of the region. Everything up to the digest reads only definitions (\<open>plan\<close>); what is written
  is a function of the plan. Stages that collect references return them beside their value, in the
  order in which the code adds them.
\<close>

subsection \<open>Sequences of results\<close>

primrec sequence :: "(error + 'a) list \<Rightarrow> error + 'a list" where
  "sequence [] = Inr []"
| "sequence (v # vs) = and_then v (\<lambda>x. and_then (sequence vs) (\<lambda>xs. Inr (x # xs)))"

definition some_or :: "'a option \<Rightarrow> string \<Rightarrow> error + 'a" where
  "some_or v code = (case v of None \<Rightarrow> Inl (DomainError code) | Some x \<Rightarrow> Inr x)"

text \<open>\<open>for (const x of v ?? [])\<close>: arrays and strings can be iterated.\<close>

definition iterate :: "json option \<Rightarrow> error + json list" where
  "iterate v =
     (case v of
        None \<Rightarrow> Inr [] | Some JNull \<Rightarrow> Inr [] | Some (JArr xs) \<Rightarrow> Inr xs
      | Some (JStr s) \<Rightarrow> Inr (map (\<lambda>c. JStr [c]) s) | Some _ \<Rightarrow> Inl (PlainError ''TypeError''))"

subsection \<open>Texts\<close>

text \<open>\<open>lastIndexOf\<close> and the two slices around it; both have to be non-empty.\<close>

definition split_last :: "char \<Rightarrow> string \<Rightarrow> error + (string \<times> string)" where
  "split_last c s =
     (let r = rev s; post = rev (takeWhile (\<lambda>x. x \<noteq> c) r); pre = rev (drop 1 (dropWhile (\<lambda>x. x \<noteq> c) r)) in
      and_then (require (c \<in> set s \<and> pre \<noteq> [] \<and> post \<noteq> []) ''invalid_declaration'') (\<lambda>_.
      Inr (pre, post)))"

definition parseRef :: "string \<Rightarrow> error + (string \<times> string)" where
  "parseRef reference = split_last (CHR ''@'') reference"

definition endpoint :: "string \<Rightarrow> error + (string \<times> string)" where
  "endpoint v = split_last (CHR ''.'') v"

definition requireNonEmptyString :: "json option \<Rightarrow> error + string" where
  "requireNonEmptyString v = and_then (require (nonEmptyString v) ''invalid_declaration'') (\<lambda>_. Inr (text_of v))"

definition parseSchemaRef :: "json option \<Rightarrow> error + (string \<times> string)" where
  "parseSchemaRef reference =
     (case reference of
        Some (JObj kvs) \<Rightarrow>
          and_then (requireNonEmptyString (map_of kvs ''name'')) (\<lambda>n.
          and_then (requireNonEmptyString (map_of kvs ''version'')) (\<lambda>v. Inr (n, v)))
      | _ \<Rightarrow>
          and_then (requireNonEmptyString reference) (\<lambda>s.
          if CHR ''@'' \<in> set s then parseRef s else split_last (CHR ''.'') s))"

definition require_object :: "json option \<Rightarrow> error + json" where
  "require_object v = and_then (require (is_object v) ''invalid_declaration'') (\<lambda>_. Inr (the v))"

text \<open>\<open>typeof reference === 'string' ? reference : `${reference.name}@${reference.version}`\<close>\<close>

definition interpolated :: "env \<Rightarrow> json option \<Rightarrow> string" where
  "interpolated e v = (case v of None \<Rightarrow> ''undefined'' | Some j \<Rightarrow> js_text e j)"

definition reference_text :: "env \<Rightarrow> json \<Rightarrow> error + string" where
  "reference_text e j =
     (case j of
        JStr s \<Rightarrow> Inr s
      | JNull \<Rightarrow> Inl (PlainError ''TypeError'')
      | _ \<Rightarrow> Inr (interpolated e (json_field j ''name'') @ ''@'' @ interpolated e (json_field j ''version'')))"

subsection \<open>Parameters\<close>

text \<open>The names that every object has from its prototype: methods, and the prototype itself.\<close>

definition object_methods :: "string list" where
  "object_methods =
     [''constructor'', ''hasOwnProperty'', ''isPrototypeOf'', ''propertyIsEnumerable'', ''toLocaleString'',
      ''toString'', ''valueOf'', ''__defineGetter__'', ''__defineSetter__'', ''__lookupGetter__'',
      ''__lookupSetter__'']"

datatype js_place = Own json | Method | ObjectPrototype

definition js_in :: "string \<Rightarrow> js_place \<Rightarrow> js_place option" where
  "js_in part v =
     (let inherited =
        (if part \<in> set object_methods then Some Method else None) in
      case v of
        Own (JObj kvs) \<Rightarrow>
          (case map_of kvs part of
             Some x \<Rightarrow> Some (Own x)
           | None \<Rightarrow> if part = ''__proto__'' then Some ObjectPrototype else inherited)
      | ObjectPrototype \<Rightarrow> if part = ''__proto__'' then Some (Own JNull) else inherited
      | _ \<Rightarrow> None)"

primrec js_walk :: "string list \<Rightarrow> js_place \<Rightarrow> error + js_place" where
  "js_walk [] v = Inr v"
| "js_walk (part # parts) v =
     and_then (some_or (js_in part v) ''invalid_template_parameters'') (js_walk parts)"

fun unescape_pointer :: "char \<Rightarrow> char \<Rightarrow> string \<Rightarrow> string" where
  "unescape_pointer d c (x # y # s) =
     (if x = CHR ''~'' \<and> y = d then c # unescape_pointer d c s else x # unescape_pointer d c (y # s))"
| "unescape_pointer d c s = s"

definition parameter_path :: "string \<Rightarrow> string list" where
  "parameter_path path =
     (case path of
        CHR ''/'' # rest \<Rightarrow>
          map (\<lambda>p. unescape_pointer (CHR ''0'') (CHR ''~'') (unescape_pointer (CHR ''1'') (CHR ''/'') p))
            (filter (\<lambda>p. p \<noteq> []) (split_on (CHR ''/'') rest))
      | _ \<Rightarrow> filter (\<lambda>p. p \<noteq> []) (split_on (CHR ''.'') path))"

definition parameterValue :: "json \<Rightarrow> string \<Rightarrow> error + js_place" where
  "parameterValue parameters path = js_walk (parameter_path path) (Own parameters)"

text \<open>\<open>structuredClone\<close> copies own properties and refuses functions.\<close>

definition structuredClone :: "js_place \<Rightarrow> error + json" where
  "structuredClone v =
     (case v of Own j \<Rightarrow> Inr j | ObjectPrototype \<Rightarrow> Inr (JObj []) | Method \<Rightarrow> Inl (PlainError ''DataCloneError''))"

definition bound_parameter :: "(string \<times> json) list \<Rightarrow> string option" where
  "bound_parameter kvs =
     (case kvs of [(k, JStr path)] \<Rightarrow> if k = ''$parameter'' then Some path else None | _ \<Rightarrow> None)"

fun bindParameters :: "json \<Rightarrow> json \<Rightarrow> error + json" where
  "bindParameters ps (JArr js) = map_sum id JArr (sequence (map (bindParameters ps) js))"
| "bindParameters ps (JObj kvs) =
     (case bound_parameter kvs of
        Some path \<Rightarrow> and_then (parameterValue ps path) structuredClone
      | None \<Rightarrow>
          map_sum id JObj (sequence (map (\<lambda>(k, v). map_sum id (Pair k) v)
            (entries (map (map_prod id (bindParameters ps)) kvs)))))"
| "bindParameters ps j = Inr j"

text \<open>\<open>mergeObjects\<close>. Assigning \<open>__proto__\<close> creates no own property; what lookups then inherit is not modelled.\<close>

fun merge_json :: "json \<Rightarrow> json option \<Rightarrow> json" where
  "merge_json (JObj kvs) current =
     (case current of
        Some (JObj base) \<Rightarrow>
          JObj (fold (\<lambda>(k, f) acc.
              if k = ''__proto__'' \<and> map_of acc k = None then acc
              else AList.update k (f (map_of acc k)) acc)
            (entries (map (map_prod id merge_json) kvs)) base)
      | _ \<Rightarrow> JObj kvs)"
| "merge_json j current = j"

definition mergeObjects :: "json \<Rightarrow> json \<Rightarrow> json" where
  "mergeObjects base override = merge_json override (Some base)"

definition validateParameterSchema :: "env \<Rightarrow> json option \<Rightarrow> json \<Rightarrow> error + unit" where
  "validateParameterSchema e schema parameters =
     (case schema of
        None \<Rightarrow> require (parameters = JObj []) ''invalid_template_parameters''
      | Some sch \<Rightarrow>
          and_then (require (is_object (Some sch)) ''invalid_declaration'') (\<lambda>_.
          and_then (require (schema_compiles e sch) ''invalid_declaration'') (\<lambda>_.
          require (schema_valid e sch parameters) ''invalid_template_parameters'')))"

definition quantity_ok :: "json \<Rightarrow> bool" where
  "quantity_ok j = (case j of JNum r \<Rightarrow> 0 \<le> r | _ \<Rightarrow> False)"

definition resource_section :: "json \<Rightarrow> string \<Rightarrow> error + unit" where
  "resource_section spec name =
     (case json_field spec name of
        None \<Rightarrow> Inr ()
      | Some section \<Rightarrow>
          and_then (require_object (Some section)) (\<lambda>obj.
          require (case obj of JObj kvs \<Rightarrow> list_all (quantity_ok \<circ> snd) kvs | _ \<Rightarrow> False)
            ''invalid_declaration''))"

definition validateResourceDeclarations :: "json \<Rightarrow> error + unit" where
  "validateResourceDeclarations spec =
     and_then (resource_section spec ''constraints'') (\<lambda>_.
     and_then (resource_section spec ''budgets'') (\<lambda>_. resource_section spec ''resources''))"

subsection \<open>Definitions the template refers to\<close>

record reference =
  ref_kind :: string
  ref_id :: string
  ref_name :: string
  ref_version :: string
  ref_digest :: string

definition reference_key :: "reference \<Rightarrow> string" where
  "reference_key r = ref_kind r @ '':'' @ ref_id r"

text \<open>A \<open>Map\<close> keeps the place of a key that is set again.\<close>

definition addReference :: "reference \<Rightarrow> (string \<times> reference) list \<Rightarrow> (string \<times> reference) list" where
  "addReference r refs = AList.update (reference_key r) r refs"

definition reference_cmp :: "env \<Rightarrow> reference \<Rightarrow> reference \<Rightarrow> int" where
  "reference_cmp e l r =
     (let k = locale_compare e (ref_kind l) (ref_kind r); n = locale_compare e (ref_name l) (ref_name r);
          v = locale_compare e (ref_version l) (ref_version r) in
      if k \<noteq> 0 then k else if n \<noteq> 0 then n else if v \<noteq> 0 then v
      else locale_compare e (ref_id l) (ref_id r))"

definition sortedReferences :: "env \<Rightarrow> reference list \<Rightarrow> reference list" where
  "sortedReferences e rs = sort_cmp (reference_cmp e) (map snd (fold addReference rs []))"

definition findArtifactSchemaById :: "string \<Rightarrow> db \<Rightarrow> artifact_schema option" where
  "findArtifactSchemaById i s = List.find (\<lambda>r. sch_id r = i) (artifact_schemas s)"

definition find_capability :: "string \<times> string \<Rightarrow> db \<Rightarrow> capability option" where
  "find_capability k s = List.find (\<lambda>r. (cap_name r, cap_version r) = k) (capabilities s)"

definition direction_text :: "port_direction \<Rightarrow> string" where
  "direction_text d = (case d of PInput \<Rightarrow> ''input'' | POutput \<Rightarrow> ''output'' | PState \<Rightarrow> ''state'')"

text \<open>The collation of the database is taken to be that of the host.\<close>

definition port_order :: "env \<Rightarrow> port_definition \<Rightarrow> port_definition \<Rightarrow> int" where
  "port_order e p q =
     (let n = locale_compare e (port_name p) (port_name q) in
      if n \<noteq> 0 then n
      else locale_compare e (direction_text (port_direction p)) (direction_text (port_direction q)))"

definition listPorts :: "env \<Rightarrow> string \<Rightarrow> db \<Rightarrow> port_definition list" where
  "listPorts e d s = sort_cmp (port_order e) (filter (\<lambda>p. port_def p = d) (port_definitions s))"

definition schema_reference :: "artifact_schema \<Rightarrow> reference" where
  "schema_reference sch = \<lparr>ref_kind = ''schema'', ref_id = sch_id sch, ref_name = sch_name sch,
     ref_version = sch_version sch, ref_digest = sch_digest sch\<rparr>"

definition live_schema :: "artifact_schema option \<Rightarrow> error + artifact_schema" where
  "live_schema found =
     and_then (some_or found ''artifact_schema_not_found'') (\<lambda>sch.
     and_then (require (sch_retired sch = None) ''artifact_schema_retired'') (\<lambda>_. Inr sch))"

definition resolveSchemaContract :: "json option \<Rightarrow> db \<Rightarrow> error + artifact_schema" where
  "resolveSchemaContract r s = and_then (parseSchemaRef r) (\<lambda>k. live_schema (findArtifactSchema k s))"

definition policy_reference :: "env \<Rightarrow> json \<Rightarrow> db \<Rightarrow> error + reference" where
  "policy_reference e j s =
     and_then (reference_text e j) (\<lambda>t.
     and_then (parseRef t) (\<lambda>k.
     and_then (some_or (findPolicy k s) ''policy_not_found'') (\<lambda>p.
     and_then (require (pol_retired p = None) ''policy_retired'') (\<lambda>_.
     Inr \<lparr>ref_kind = ''policy'', ref_id = pol_id p, ref_name = pol_name p, ref_version = pol_version p,
       ref_digest = pol_digest p\<rparr>))))"

definition capability_reference :: "env \<Rightarrow> json \<Rightarrow> db \<Rightarrow> error + reference" where
  "capability_reference e j s =
     and_then (reference_text e j) (\<lambda>t.
     and_then (parseRef t) (\<lambda>k.
     and_then (some_or (find_capability k s) ''capability_not_found'') (\<lambda>c.
     and_then (require (cap_retired c = None) ''capability_retired'') (\<lambda>_.
     Inr \<lparr>ref_kind = ''capability'', ref_id = cap_id c, ref_name = cap_name c, ref_version = cap_version c,
       ref_digest = cap_digest c\<rparr>))))"

subsection \<open>Component instances\<close>

record resolved_instance =
  ri_name :: string
  ri_component :: string
  ri_definition :: string
  ri_configuration :: json
  ri_ports :: "port_definition list"

definition resolvedPort ::
  "resolved_instance list \<Rightarrow> string \<Rightarrow> string \<Rightarrow> port_direction \<Rightarrow> port_definition option" where
  "resolvedPort instances name port direction =
     (case List.find (\<lambda>i. ri_name i = name) instances of
        None \<Rightarrow> None
      | Some i \<Rightarrow> List.find (\<lambda>p. port_name p = port \<and> port_direction p = direction) (ri_ports i))"

text \<open>\<open>object[key] ?? {}\<close>, which also finds what every object inherits.\<close>

definition override_configuration :: "json \<Rightarrow> json \<Rightarrow> string \<Rightarrow> error + json" where
  "override_configuration ps overrides name =
     (case js_in name (Own overrides) of
        None \<Rightarrow> Inr (JObj [])
      | Some (Own j) \<Rightarrow> if j = JNull then Inr (JObj []) else bindParameters ps j
      | Some ObjectPrototype \<Rightarrow> Inr (JObj [])
      | Some Method \<Rightarrow> Inl (DomainError ''invalid_declaration''))"

definition base_configuration :: "json \<Rightarrow> json \<Rightarrow> error + json" where
  "base_configuration ps instance =
     (if json_field instance ''configuration'' \<in> {None, Some JNull} then Inr (JObj [])
      else bindParameters ps (the (json_field instance ''configuration'')))"

definition allowedComponents :: "env \<Rightarrow> json \<Rightarrow> string list option" where
  "allowedComponents e spec = map_option (map (js_text e)) (array_items (json_field spec ''allowedComponents''))"

definition resolve_definition :: "string \<Rightarrow> db \<Rightarrow> error + component_definition" where
  "resolve_definition component s =
     and_then (parseRef component) (\<lambda>k.
     and_then (some_or (findComponentDefinition k s) ''component_definition_not_found'') (\<lambda>d.
     and_then (require (cdef_retired d = None) ''component_definition_retired'') (\<lambda>_. Inr d)))"

definition resolve_instance ::
  "env \<Rightarrow> db \<Rightarrow> json \<Rightarrow> json \<Rightarrow> string list option \<Rightarrow> json \<Rightarrow> error + (resolved_instance \<times> reference list)" where
  "resolve_instance e s ps overrides allowed i =
     (let name = text_of (json_field i ''name''); component = text_of (json_field i ''component'') in
      and_then (require (case allowed of None \<Rightarrow> True | Some cs \<Rightarrow> component \<in> set cs) ''component_not_allowed'') (\<lambda>_.
      and_then (resolve_definition component s) (\<lambda>d.
      let ports = listPorts e (cdef_id d) s in
      and_then (sequence (map (\<lambda>p. live_schema (findArtifactSchemaById (port_schema p) s)) ports)) (\<lambda>schemas.
      and_then (base_configuration ps i) (\<lambda>base.
      and_then (override_configuration ps overrides name) (\<lambda>override.
      and_then (require_object (Some base)) (\<lambda>_.
      and_then (require_object (Some override)) (\<lambda>_.
      Inr (\<lparr>ri_name = name, ri_component = component, ri_definition = cdef_id d,
             ri_configuration = mergeObjects base override, ri_ports = ports\<rparr>,
           \<lparr>ref_kind = ''component'', ref_id = cdef_id d, ref_name = cdef_name d,
             ref_version = cdef_version d, ref_digest = cdef_digest d\<rparr> # map schema_reference schemas)))))))))"

subsection \<open>Inputs and outputs of the region\<close>

text \<open>An input is not read for \<open>required\<close>.\<close>

record boundary =
  bd_port :: string
  bd_schema :: artifact_schema
  bd_required :: bool

primrec resolve_boundaries :: "db \<Rightarrow> json list \<Rightarrow> boundary list \<Rightarrow> error + boundary list" where
  "resolve_boundaries s [] acc = Inr acc"
| "resolve_boundaries s (b # bs) acc =
     and_then (requireNonEmptyString (json_field b ''port'')) (\<lambda>port.
     and_then (require (port \<notin> set (map bd_port acc)) ''duplicate_port_identity'') (\<lambda>_.
     and_then (resolveSchemaContract (port_reference b) s) (\<lambda>sch.
     resolve_boundaries s bs (acc @ [\<lparr>bd_port = port, bd_schema = sch,
       bd_required = (json_field b ''required'' \<noteq> Some (JBool False))\<rparr>]))))"

definition boundary_schema :: "boundary list \<Rightarrow> string \<Rightarrow> string option" where
  "boundary_schema bs port = map_option (sch_id \<circ> bd_schema) (List.find (\<lambda>b. bd_port b = port) bs)"

definition completion_references :: "json \<Rightarrow> db \<Rightarrow> error + reference list" where
  "completion_references spec s =
     (case json_field spec ''completion'' of
        None \<Rightarrow> Inr []
      | Some c \<Rightarrow>
          (case subfield c ''requireValidation'' ''schema'' of
             None \<Rightarrow> Inr []
           | Some r \<Rightarrow> map_sum id (\<lambda>sch. [schema_reference sch]) (resolveSchemaContract (Some r) s)))"

subsection \<open>Ingress and connections\<close>

primrec check_ingress_targets :: "resolved_instance list \<Rightarrow> json list \<Rightarrow> string list \<Rightarrow> error + unit" where
  "check_ingress_targets instances [] seen = Inr ()"
| "check_ingress_targets instances (t # ts) seen =
     and_then (require (resolvedPort instances (text_of (json_field t ''component''))
        (text_of (json_field t ''port'')) PInput \<noteq> None) ''invalid_port_reference'') (\<lambda>_.
     and_then (require (target_key t \<notin> set seen) ''duplicate_ingress_target'') (\<lambda>_.
     check_ingress_targets instances ts (target_key t # seen)))"

definition ingress_rules :: "json \<Rightarrow> (string \<times> json) list" where
  "ingress_rules topology =
     (case subfield topology ''ingress'' ''commands'' of Some (JObj kvs) \<Rightarrow> entries kvs | _ \<Rightarrow> [])"

definition check_ingress_ports :: "resolved_instance list \<Rightarrow> json \<Rightarrow> error + unit" where
  "check_ingress_ports instances topology =
     map_sum id (\<lambda>_. ())
       (sequence (map (\<lambda>kr. check_ingress_targets instances (rule_targets (snd kr)) []) (ingress_rules topology)))"

record planned_connection =
  pc_source :: string
  pc_source_port :: string
  pc_target :: string
  pc_target_port :: string

record wiring =
  wi_keys :: "string list"
  wi_incoming :: "(string \<times> nat) list"
  wi_outputs :: "string list"
  wi_connections :: "planned_connection list"

definition port_text :: "string \<times> string \<Rightarrow> string" where
  "port_text ip = fst ip @ ''.'' @ snd ip"

definition incoming :: "(string \<times> nat) list \<Rightarrow> string \<Rightarrow> nat" where
  "incoming counts k = (case map_of counts k of None \<Rightarrow> 0 | Some n \<Rightarrow> n)"

definition REGION :: string where
  "REGION = ''region''"

text \<open>A connection from an input of the region, to an output of it, and between two instances.\<close>

definition from_region ::
  "resolved_instance list \<Rightarrow> boundary list \<Rightarrow> string \<times> string \<Rightarrow> string \<times> string \<Rightarrow> error + unit" where
  "from_region instances ins src tgt =
     and_then (some_or (resolvedPort instances (fst tgt) (snd tgt) PInput) ''invalid_port_reference'') (\<lambda>tp.
     and_then (some_or (boundary_schema ins (snd src)) ''invalid_port_reference'') (\<lambda>declared.
     require (declared = port_schema tp) ''incompatible_port_schema''))"

definition to_region ::
  "resolved_instance list \<Rightarrow> boundary list \<Rightarrow> string list \<Rightarrow> string \<times> string \<Rightarrow> string \<times> string \<Rightarrow> error + unit" where
  "to_region instances outs produced src tgt =
     and_then (some_or (resolvedPort instances (fst src) (snd src) POutput) ''invalid_port_reference'') (\<lambda>sp.
     and_then (some_or (boundary_schema outs (snd tgt)) ''invalid_port_reference'') (\<lambda>declared.
     and_then (require (declared = port_schema sp) ''incompatible_port_schema'') (\<lambda>_.
     require (snd tgt \<notin> set produced) ''duplicate_connection'')))"

definition between :: "resolved_instance list \<Rightarrow> string \<times> string \<Rightarrow> string \<times> string \<Rightarrow> error + unit" where
  "between instances src tgt =
     and_then (some_or (resolvedPort instances (fst src) (snd src) POutput) ''invalid_port_reference'') (\<lambda>sp.
     and_then (some_or (resolvedPort instances (fst tgt) (snd tgt) PInput) ''invalid_port_reference'') (\<lambda>tp.
     require (port_schema sp = port_schema tp) ''incompatible_port_schema''))"

definition connect ::
  "resolved_instance list \<Rightarrow> boundary list \<Rightarrow> boundary list \<Rightarrow> json \<Rightarrow> wiring \<Rightarrow> error + wiring" where
  "connect instances ins outs c w =
     (let from = text_of (json_field c ''from''); to = text_of (json_field c ''to''); key = from @ ''->'' @ to in
      and_then (endpoint from) (\<lambda>src.
      and_then (endpoint to) (\<lambda>tgt.
      and_then (require (key \<notin> set (wi_keys w)) ''duplicate_connection'') (\<lambda>_.
      let w = w\<lparr>wi_keys := key # wi_keys w,
                wi_incoming := (if fst tgt = REGION then wi_incoming w
                  else AList.update (port_text tgt) (Suc (incoming (wi_incoming w) (port_text tgt))) (wi_incoming w))\<rparr> in
      if fst src = REGION \<and> fst tgt = REGION then Inl (DomainError ''invalid_port_reference'')
      else if fst src = REGION then and_then (from_region instances ins src tgt) (\<lambda>_. Inr w)
      else if fst tgt = REGION then
        and_then (to_region instances outs (wi_outputs w) src tgt) (\<lambda>_.
        Inr (w\<lparr>wi_outputs := snd tgt # wi_outputs w\<rparr>))
      else
        and_then (between instances src tgt) (\<lambda>_.
        Inr (w\<lparr>wi_connections := wi_connections w @
          [\<lparr>pc_source = fst src, pc_source_port = snd src, pc_target = fst tgt, pc_target_port = snd tgt\<rparr>]\<rparr>))))))"

primrec connect_all ::
  "resolved_instance list \<Rightarrow> boundary list \<Rightarrow> boundary list \<Rightarrow> json list \<Rightarrow> wiring \<Rightarrow> error + wiring" where
  "connect_all instances ins outs [] w = Inr w"
| "connect_all instances ins outs (c # cs) w =
     and_then (connect instances ins outs c w) (connect_all instances ins outs cs)"

definition no_wiring :: wiring where
  "no_wiring = \<lparr>wi_keys = [], wi_incoming = [], wi_outputs = [], wi_connections = []\<rparr>"

definition outputs_connected :: "boundary list \<Rightarrow> wiring \<Rightarrow> bool" where
  "outputs_connected outs w \<longleftrightarrow> list_all (\<lambda>b. bd_required b \<longrightarrow> bd_port b \<in> set (wi_outputs w)) outs"

subsection \<open>Fan-in rules\<close>

definition completion_ok :: "json option \<Rightarrow> nat \<Rightarrow> bool" where
  "completion_ok completion n =
     (case completion of
        None \<Rightarrow> False
      | Some c \<Rightarrow>
          json_field c ''type'' = Some (JStr ''all-expected'') \<and>
          (case json_field c ''expected'' of
             Some (JNum q) \<Rightarrow> snd (quotient_of q) = 1 \<and> 0 < q \<and> q = of_nat n | _ \<Rightarrow> False) \<and>
          (case json_field c ''deadlineSeconds'' of
             None \<Rightarrow> True | Some (JNum q) \<Rightarrow> 0 < q | _ \<Rightarrow> False))"

primrec check_fan_in ::
  "resolved_instance list \<Rightarrow> (string \<times> nat) list \<Rightarrow> json list \<Rightarrow> string list \<Rightarrow> error + string list" where
  "check_fan_in instances counts [] seen = Inr seen"
| "check_fan_in instances counts (r # rs) seen =
     and_then (requireNonEmptyString (json_field r ''input'')) (\<lambda>input.
     and_then (endpoint input) (\<lambda>tgt.
     and_then (require (port_text tgt \<notin> set seen \<and>
         resolvedPort instances (fst tgt) (snd tgt) PInput \<noteq> None \<and>
         completion_ok (json_field r ''completion'') (incoming counts (port_text tgt))) ''invalid_fan_in_rule'') (\<lambda>_.
     check_fan_in instances counts rs (port_text tgt # seen))))"

definition fan_in_covered :: "(string \<times> nat) list \<Rightarrow> string list \<Rightarrow> bool" where
  "fan_in_covered counts ruled \<longleftrightarrow> list_all (\<lambda>kn. 1 < snd kn \<longrightarrow> fst kn \<in> set ruled) counts"

subsection \<open>The plan\<close>

record instantiation_request =
  ir_region :: string
  ir_template :: string
  ir_parameters :: "json option"
  ir_configuration :: "json option"
  ir_source :: "json option"

record instantiation_plan =
  ip_template :: template
  ip_parameters :: json
  ip_source :: json
  ip_references :: "reference list"
  ip_instances :: "resolved_instance list"
  ip_connections :: "planned_connection list"
  ip_topology :: json
  ip_digest :: string

definition optional_object :: "json option \<Rightarrow> error + unit" where
  "optional_object v = (if v = None then Inr () else and_then (require_object v) (\<lambda>_. Inr ()))"

definition validateRequest :: "instantiation_request \<Rightarrow> error + unit" where
  "validateRequest r =
     and_then (require (\<not> blank (ir_region r)) ''invalid_declaration'') (\<lambda>_.
     and_then (require (\<not> blank (ir_template r)) ''invalid_declaration'') (\<lambda>_.
     and_then (parseRef (ir_template r)) (\<lambda>_.
     and_then (optional_object (ir_parameters r)) (\<lambda>_.
     and_then (optional_object (ir_configuration r)) (\<lambda>_.
     optional_object (ir_source r))))))"

definition live_template :: "string \<Rightarrow> db \<Rightarrow> error + template" where
  "live_template reference s =
     and_then (parseRef reference) (\<lambda>k.
     and_then (some_or (findTemplate k s) ''template_not_found'') (\<lambda>t.
     and_then (require (tpl_retired t = None) ''template_retired'') (\<lambda>_. Inr t)))"

text \<open>The declaration and its topology, both as validation leaves them.\<close>

definition template_document :: "env \<Rightarrow> template \<Rightarrow> error + (json \<times> json)" where
  "template_document e t =
     and_then (validateSimpleDeclaration e (tpl_template t) ''Template'') (\<lambda>doc.
     and_then (some_or (subfield doc ''spec'' ''initialTopology'') ''invalid_declaration'') (\<lambda>topology.
     and_then (validateStaticTopology e topology) (\<lambda>topology.
     and_then (validateResourceDeclarations (the (json_field doc ''spec''))) (\<lambda>_. Inr (doc, topology)))))"

definition check_overrides :: "json \<Rightarrow> json \<Rightarrow> error + unit" where
  "check_overrides topology overrides =
     (case overrides of
        JObj kvs \<Rightarrow>
          map_sum id (\<lambda>_. ()) (sequence (map (\<lambda>(name, c).
            and_then (require (name \<in> set (topology_names topology)) ''invalid_component_configuration'') (\<lambda>_.
            require_object (Some c))) (entries kvs)))
      | _ \<Rightarrow> Inr ())"

definition template_reference :: "template \<Rightarrow> reference" where
  "template_reference t = \<lparr>ref_kind = ''template'', ref_id = tpl_id t, ref_name = tpl_name t,
     ref_version = tpl_version t, ref_digest = tpl_digest t\<rparr>"

definition reference_json :: "reference \<Rightarrow> json" where
  "reference_json r = JObj [(''kind'', JStr (ref_kind r)), (''id'', JStr (ref_id r)), (''name'', JStr (ref_name r)),
     (''version'', JStr (ref_version r)), (''contentDigest'', JStr (ref_digest r))]"

definition instance_json :: "resolved_instance \<Rightarrow> json" where
  "instance_json i = JObj [(''name'', JStr (ri_name i)), (''component'', JStr (ri_component i)),
     (''configuration'', ri_configuration i)]"

record resolved =
  rs_instances :: "resolved_instance list"
  rs_inputs :: "boundary list"
  rs_outputs :: "boundary list"
  rs_references :: "reference list"

definition resolve_all :: "env \<Rightarrow> db \<Rightarrow> template \<Rightarrow> json \<Rightarrow> json \<Rightarrow> json \<Rightarrow> json \<Rightarrow> error + resolved" where
  "resolve_all e s t spec topology ps overrides =
     and_then (sequence (map (resolve_instance e s ps overrides (allowedComponents e spec))
        (topology_items topology ''instances''))) (\<lambda>irs.
     and_then (iterate (json_field spec ''inputs'')) (\<lambda>is.
     and_then (resolve_boundaries s is []) (\<lambda>ins.
     and_then (iterate (json_field spec ''outputs'')) (\<lambda>os.
     and_then (resolve_boundaries s os []) (\<lambda>outs.
     and_then (completion_references spec s) (\<lambda>crs.
     and_then (iterate (json_field spec ''policies'')) (\<lambda>ps.
     and_then (sequence (map (\<lambda>j. policy_reference e j s) ps)) (\<lambda>prs.
     and_then (iterate (json_field spec ''capabilities'')) (\<lambda>cs.
     and_then (sequence (map (\<lambda>j. capability_reference e j s) cs)) (\<lambda>brs.
     Inr \<lparr>rs_instances = map fst irs, rs_inputs = ins, rs_outputs = outs,
       rs_references = template_reference t # concat (map snd irs) @
         map (schema_reference \<circ> bd_schema) ins @ map (schema_reference \<circ> bd_schema) outs @ crs @ prs @ brs\<rparr>))))))))))"

definition check_wiring :: "json \<Rightarrow> json \<Rightarrow> resolved \<Rightarrow> error + planned_connection list" where
  "check_wiring spec topology rs =
     and_then (check_ingress_ports (rs_instances rs) topology) (\<lambda>_.
     and_then (connect_all (rs_instances rs) (rs_inputs rs) (rs_outputs rs)
        (topology_items topology ''connections'') no_wiring) (\<lambda>w.
     and_then (require (outputs_connected (rs_outputs rs) w) ''missing_required_output'') (\<lambda>_.
     and_then (iterate (json_field spec ''fanIn'')) (\<lambda>rules.
     and_then (check_fan_in (rs_instances rs) (wi_incoming w) rules []) (\<lambda>ruled.
     and_then (require (fan_in_covered (wi_incoming w) ruled) ''invalid_fan_in_rule'') (\<lambda>_.
     Inr (wi_connections w)))))))"

text \<open>The topology that is stored: the declaration with the bound configurations and the request.\<close>

definition template_summary :: "template \<Rightarrow> json" where
  "template_summary t = JObj [(''id'', JStr (tpl_id t)), (''name'', JStr (tpl_name t)),
     (''version'', JStr (tpl_version t)), (''contentDigest'', JStr (tpl_digest t))]"

definition instantiation_record ::
  "instantiation_request \<Rightarrow> template \<Rightarrow> json \<Rightarrow> json \<Rightarrow> json \<Rightarrow> reference list \<Rightarrow> json" where
  "instantiation_record r t ps overrides source refs =
     JObj [(''targetRegionId'', JStr (ir_region r)), (''template'', template_summary t), (''parameters'', ps),
       (''componentConfiguration'', overrides), (''source'', source),
       (''referencedDefinitions'', JArr (map reference_json refs))]"

definition effective_topology ::
  "json \<Rightarrow> json \<Rightarrow> json \<Rightarrow> resolved_instance list \<Rightarrow> json \<Rightarrow> error + json" where
  "effective_topology doc topology ps instances record =
     (let spec = put_field ''initialTopology''
            (put_field ''instances'' (JArr (map instance_json instances)) topology) (the (json_field doc ''spec'')) in
      and_then (case json_field spec ''initialState'' of
          None \<Rightarrow> Inr spec
        | Some v \<Rightarrow> map_sum id (\<lambda>b. put_field ''initialState'' b spec) (bindParameters ps v)) (\<lambda>spec.
      Inr (put_field ''spec'' (put_field ''instantiation'' record spec) doc)))"

definition instantiation_digest ::
  "env \<Rightarrow> instantiation_request \<Rightarrow> template \<Rightarrow> json \<Rightarrow> json \<Rightarrow> json \<Rightarrow> reference list \<Rightarrow> json \<Rightarrow> string" where
  "instantiation_digest e r t ps overrides source refs topology =
     json_digest e (JObj [(''targetRegionId'', JStr (ir_region r)),
       (''template'', JObj [(''id'', JStr (tpl_id t)), (''contentDigest'', JStr (tpl_digest t))]),
       (''parameters'', ps), (''componentConfiguration'', overrides), (''source'', source),
       (''referencedDefinitions'', JArr (map reference_json refs)), (''effectiveTopology'', topology)])"

definition make_plan :: "env \<Rightarrow> instantiation_request \<Rightarrow> db \<Rightarrow> error + instantiation_plan" where
  "make_plan e r s =
     and_then (live_template (ir_template r) s) (\<lambda>t.
     and_then (template_document e t) (\<lambda>(doc, topology).
     let spec = the (json_field doc ''spec''); ps = or_empty (ir_parameters r);
         overrides = or_empty (ir_configuration r); source = or_empty (ir_source r) in
     and_then (validateParameterSchema e (json_field spec ''parameters'') ps) (\<lambda>_.
     and_then (check_overrides topology overrides) (\<lambda>_.
     and_then (resolve_all e s t spec topology ps overrides) (\<lambda>rs.
     and_then (check_wiring spec topology rs) (\<lambda>cs.
     let refs = sortedReferences e (rs_references rs) in
     and_then (effective_topology doc topology ps (rs_instances rs)
        (instantiation_record r t ps overrides source refs)) (\<lambda>top.
     Inr \<lparr>ip_template = t, ip_parameters = ps, ip_source = source, ip_references = refs,
       ip_instances = rs_instances rs, ip_connections = cs, ip_topology = top,
       ip_digest = instantiation_digest e r t ps overrides source refs top\<rparr>)))))))"

subsection \<open>Writing the topology\<close>

definition findRegion :: "string \<Rightarrow> db \<Rightarrow> region option" where
  "findRegion i s = List.find (\<lambda>r. reg_id r = i) (regions s)"

definition activeRevision :: "string \<Rightarrow> db \<Rightarrow> topology_revision option" where
  "activeRevision i s =
     (case findRegion i s of
        None \<Rightarrow> None
      | Some r \<Rightarrow> (case reg_active_rev r of
          None \<Rightarrow> None | Some v \<Rightarrow> List.find (\<lambda>x. rev_id x = v) (topology_revisions s)))"

definition insert_revision :: "topology_revision \<Rightarrow> (db, unit) tx" where
  "insert_revision v = (\<lambda>s.
     if list_ex (\<lambda>x. rev_id x = rev_id v) (topology_revisions s)
     then Inl (DbViolation ''topology_revisions_pkey'')
     else if list_ex (\<lambda>x. rev_region x = rev_region v \<and> rev_number x = rev_number v) (topology_revisions s)
     then Inl (DbViolation ''topology_revisions_region_id_revision_number_key'')
     else if list_ex (\<lambda>x. rev_region x = rev_region v \<and> rev_digest x = rev_digest v) (topology_revisions s)
     then Inl (DbViolation ''topology_revisions_region_id_content_digest_key'')
     else Inr ((), s\<lparr>topology_revisions := topology_revisions s @ [v]\<rparr>))"

definition createRevision :: "env \<Rightarrow> string \<Rightarrow> string \<Rightarrow> json \<Rightarrow> (db, topology_revision) tx" where
  "createRevision e region digest topology =
     bind_tx (fresh_uuid e) (\<lambda>u.
     let v = \<lparr>rev_id = u, rev_region = region, rev_number = 1, rev_digest = digest, rev_topology = topology\<rparr> in
     bind_tx (insert_revision v) (\<lambda>_. ret v))"

definition insert_instance :: "component_instance \<Rightarrow> (db, unit) tx" where
  "insert_instance c = (\<lambda>s.
     if list_ex (\<lambda>x. ci_id x = ci_id c) (component_instances s)
     then Inl (DbViolation ''component_instances_pkey'')
     else if list_ex (\<lambda>x. ci_rev x = ci_rev c \<and> ci_name x = ci_name c) (component_instances s)
     then Inl (DbViolation ''component_instances_topology_revision_id_name_key'')
     else Inr ((), s\<lparr>component_instances := component_instances s @ [c]\<rparr>))"

definition createInstance :: "env \<Rightarrow> string \<Rightarrow> string \<Rightarrow> resolved_instance \<Rightarrow> (db, string \<times> string) tx" where
  "createInstance e region rid i =
     bind_tx (fresh_uuid e) (\<lambda>u.
     bind_tx (insert_instance \<lparr>ci_id = u, ci_region = region, ci_rev = rid, ci_def = ri_definition i,
       ci_name = ri_name i, ci_configuration = ri_configuration i\<rparr>) (\<lambda>_. ret (ri_name i, u)))"

definition insert_connection :: "connection \<Rightarrow> (db, unit) tx" where
  "insert_connection c = (\<lambda>s.
     if c \<in> set (connections s)
     then Inl (DbViolation ''connections_topology_revision_id_source_component_instance_i_key'')
     else Inr ((), s\<lparr>connections := connections s @ [c]\<rparr>))"

definition connection_row :: "string \<Rightarrow> (string \<times> string) list \<Rightarrow> planned_connection \<Rightarrow> connection" where
  "connection_row rid ids c =
     \<lparr>con_rev = rid, con_source = the (map_of ids (pc_source c)), con_source_port = pc_source_port c,
      con_target = the (map_of ids (pc_target c)), con_target_port = pc_target_port c\<rparr>"

definition createConnection ::
  "env \<Rightarrow> string \<Rightarrow> (string \<times> string) list \<Rightarrow> planned_connection \<Rightarrow> (db, unit) tx" where
  "createConnection e rid ids c = bind_tx (fresh_uuid e) (\<lambda>_. insert_connection (connection_row rid ids c))"

definition activate :: "string \<Rightarrow> string \<Rightarrow> (db, unit) tx" where
  "activate region rid = modify (\<lambda>s. s\<lparr>regions :=
     set_rows (\<lambda>r. reg_id r = region) (\<lambda>r. r\<lparr>reg_active_rev := Some rid, reg_status := RRunning\<rparr>) (regions s)\<rparr>)"

record instantiation_result =
  in_created :: bool
  in_digest :: string
  in_region :: region
  in_revision :: topology_revision
  in_plan :: instantiation_plan

definition instantiated :: "bool \<Rightarrow> region \<Rightarrow> topology_revision \<Rightarrow> instantiation_plan \<Rightarrow> instantiation_result" where
  "instantiated created rgn v p =
     \<lparr>in_created = created, in_digest = ip_digest p, in_region = rgn, in_revision = v, in_plan = p\<rparr>"

definition write_topology :: "env \<Rightarrow> region \<Rightarrow> instantiation_plan \<Rightarrow> (db, instantiation_result) tx" where
  "write_topology e rgn p =
     bind_tx (createRevision e (reg_id rgn) (ip_digest p) (ip_topology p)) (\<lambda>v.
     bind_tx (map_tx (createInstance e (reg_id rgn) (rev_id v)) (ip_instances p)) (\<lambda>ids.
     bind_tx (for_tx (ip_connections p) (createConnection e (rev_id v) ids)) (\<lambda>_.
     bind_tx (activate (reg_id rgn) (rev_id v)) (\<lambda>_.
     ret (instantiated True rgn v p)))))"

definition instantiateInTransaction :: "env \<Rightarrow> instantiation_request \<Rightarrow> (db, instantiation_result) tx" where
  "instantiateInTransaction e r =
     bind_tx (of_sum (validateRequest r)) (\<lambda>_.
     bind_tx (get (findRegion (ir_region r))) (\<lambda>found.
     bind_tx (or_throw found (DomainError ''region_not_found'')) (\<lambda>rgn.
     bind_tx (\<lambda>s. of_sum (make_plan e r s) s) (\<lambda>p.
     bind_tx (get (activeRevision (reg_id rgn))) (\<lambda>current.
     case current of
       Some v \<Rightarrow>
         bind_tx (guard (rev_digest v = ip_digest p) (DomainError ''template_instantiation_conflict'')) (\<lambda>_.
         ret (instantiated False rgn v p))
     | None \<Rightarrow>
         bind_tx (guard (reg_status rgn \<in> {RDeclared, RStarting, RReady})
           (DomainError ''region_not_eligible'')) (\<lambda>_.
         write_topology e rgn p))))))"

text \<open>A unique violation means that another request was faster; the second try sees its rows.\<close>

definition retry_unique :: "(db, 'a) tx \<Rightarrow> (db, 'a) io" where
  "retry_unique body = (\<lambda>s.
     case transaction body s of
       (Inl err, s') \<Rightarrow> if isUniqueViolation err then transaction body s' else (Inl err, s')
     | r \<Rightarrow> r)"

definition instantiate :: "env \<Rightarrow> instantiation_request \<Rightarrow> (db, instantiation_result) io" where
  "instantiate e r =
     (case validateRequest r of
        Inl err \<Rightarrow> throw_io err
      | Inr _ \<Rightarrow> retry_unique (instantiateInTransaction e r))"

subsection \<open>What a plan reads\<close>

definition same_definitions :: "db \<Rightarrow> db \<Rightarrow> bool" where
  "same_definitions s s' \<longleftrightarrow>
     templates s' = templates s \<and> component_definitions s' = component_definitions s \<and>
     port_definitions s' = port_definitions s \<and> artifact_schemas s' = artifact_schemas s \<and>
     policies s' = policies s \<and> capabilities s' = capabilities s"

definition untouched :: "db \<Rightarrow> db \<Rightarrow> bool" where
  "untouched s s' \<longleftrightarrow> same_definitions s s' \<and> instantiations s' = instantiations s \<and>
     artifacts s' = artifacts s"

lemma same_definitions_reads:
  assumes "same_definitions s s'"
  shows "findTemplate k s' = findTemplate k s" "findComponentDefinition k s' = findComponentDefinition k s"
    "listPorts e d s' = listPorts e d s" "findArtifactSchema k s' = findArtifactSchema k s"
    "findArtifactSchemaById i s' = findArtifactSchemaById i s" "findPolicy k s' = findPolicy k s"
    "find_capability k s' = find_capability k s"
  using assms by (simp_all add: same_definitions_def findTemplate_def findComponentDefinition_def listPorts_def
      findArtifactSchema_def findArtifactSchemaById_def findPolicy_def find_capability_def)

lemma make_plan_cong:
  assumes "same_definitions s s'"
  shows "make_plan e r s' = make_plan e r s"
proof -
  note reads = same_definitions_reads [OF assms]
  have contract: "resolveSchemaContract x s' = resolveSchemaContract x s" for x
    by (simp add: resolveSchemaContract_def reads)
  have "resolve_boundaries s' bs acc = resolve_boundaries s bs acc" for bs acc
    by (induction bs arbitrary: acc) (simp_all add: contract)
  moreover have "resolve_instance e s' ps ov al = resolve_instance e s ps ov al" for ps ov al
    by (rule ext) (simp add: resolve_instance_def resolve_definition_def reads)
  moreover have "policy_reference e j s' = policy_reference e j s"
    "capability_reference e j s' = capability_reference e j s"
    "completion_references spec s' = completion_references spec s" for j spec
    by (simp_all add: policy_reference_def capability_reference_def completion_references_def reads contract
        split: option.split)
  ultimately have "resolve_all e s' t spec top ps ov = resolve_all e s t spec top ps ov" for t spec top ps ov
    by (simp add: resolve_all_def)
  then show ?thesis by (simp add: make_plan_def live_template_def reads)
qed

subsection \<open>What is written\<close>

lemma createRevision_Inr:
  assumes "createRevision e region digest topology s = Inr (v, s')"
  shows "rev_region v = region" "rev_digest v = digest" "rev_topology v = topology"
    "topology_revisions s' = topology_revisions s @ [v]" "List.find (\<lambda>x. rev_id x = rev_id v) (topology_revisions s) = None"
    "untouched s s'" "regions s' = regions s" "component_instances s' = component_instances s"
    "connections s' = connections s"
  using assms
  by (auto simp: createRevision_def bind_tx_Inr fresh_uuid_Inr insert_revision_def Let_def ret_Inr untouched_def same_definitions_def
      list_ex_iff find_None_iff split: if_splits)

definition instance_row :: "string \<Rightarrow> string \<Rightarrow> resolved_instance \<times> string \<Rightarrow> component_instance" where
  "instance_row region rid iu = \<lparr>ci_id = snd iu, ci_region = region, ci_rev = rid, ci_def = ri_definition (fst iu),
     ci_name = ri_name (fst iu), ci_configuration = ri_configuration (fst iu)\<rparr>"

lemma createInstances_Inr:
  assumes "map_tx (createInstance e region rid) instances s = Inr (ids, s')"
  shows "map fst ids = map ri_name instances \<and>
    component_instances s' = component_instances s @ map (instance_row region rid) (zip instances (map snd ids)) \<and>
    distinct (map ri_name instances) \<and>
    untouched s s' \<and> regions s' = regions s \<and> topology_revisions s' = topology_revisions s \<and>
    connections s' = connections s \<and>
    (\<forall>c\<in>set (component_instances s). ci_rev c = rid \<longrightarrow> ci_name c \<notin> set (map ri_name instances))"
  using assms
proof (induction instances arbitrary: ids s)
  case Nil
  then show ?case by (auto simp: ret_Inr untouched_def same_definitions_def)
next
  case (Cons i instances)
  from Cons.prems obtain iu us t where one: "createInstance e region rid i s = Inr (iu, t)"
    and rest: "map_tx (createInstance e region rid) instances t = Inr (us, s')" and ids: "ids = iu # us"
    by (auto simp: bind_tx_Inr ret_Inr)
  from one have iu: "fst iu = ri_name i"
    and t: "component_instances t = component_instances s @ [instance_row region rid (i, snd iu)]"
      "untouched s t" "regions t = regions s" "topology_revisions t = topology_revisions s"
      "connections t = connections s"
    and fresh: "\<forall>c\<in>set (component_instances s). ci_rev c = rid \<longrightarrow> ci_name c \<noteq> ri_name i"
    by (auto simp: createInstance_def bind_tx_Inr fresh_uuid_Inr insert_instance_def ret_Inr untouched_def same_definitions_def
        instance_row_def list_ex_iff split: if_splits)
  from Cons.IH [OF rest] iu t fresh ids show ?case
    by (auto simp: untouched_def same_definitions_def instance_row_def)
qed

lemma createConnections_Inr:
  assumes "for_tx cs (createConnection e rid ids) s = Inr (u, s')"
  shows "connections s' = connections s @ map (connection_row rid ids) cs \<and> untouched s s' \<and>
    regions s' = regions s \<and> topology_revisions s' = topology_revisions s \<and>
    component_instances s' = component_instances s"
  using assms
proof (induction cs arbitrary: s)
  case Nil
  then show ?case by (simp add: ret_Inr untouched_def same_definitions_def)
next
  case (Cons c cs)
  from Cons.prems obtain t x where one: "createConnection e rid ids c s = Inr (x, t)"
    and rest: "for_tx cs (createConnection e rid ids) t = Inr (u, s')" by (auto simp: bind_tx_Inr)
  from one have "connections t = connections s @ [connection_row rid ids c]" "untouched s t"
    "regions t = regions s" "topology_revisions t = topology_revisions s"
    "component_instances t = component_instances s"
    by (auto simp: createConnection_def bind_tx_Inr fresh_uuid_Inr insert_connection_def untouched_def same_definitions_def
        split: if_splits)
  with Cons.IH [OF rest] show ?case by (auto simp: untouched_def same_definitions_def)
qed

lemma write_topology_Inr:
  assumes "write_topology e rgn p s = Inr (res, s')"
  obtains v ids where "res = instantiated True rgn v p" and "rev_region v = reg_id rgn" and "rev_digest v = ip_digest p"
    and "rev_topology v = ip_topology p" and "topology_revisions s' = topology_revisions s @ [v]"
    and "List.find (\<lambda>x. rev_id x = rev_id v) (topology_revisions s) = None"
    and "regions s' = set_rows (\<lambda>r. reg_id r = reg_id rgn)
      (\<lambda>r. r\<lparr>reg_active_rev := Some (rev_id v), reg_status := RRunning\<rparr>) (regions s)"
    and "map fst ids = map ri_name (ip_instances p)" and "distinct (map ri_name (ip_instances p))"
    and "component_instances s' = component_instances s @
      map (instance_row (reg_id rgn) (rev_id v)) (zip (ip_instances p) (map snd ids))"
    and "connections s' = connections s @ map (connection_row (rev_id v) ids) (ip_connections p)"
    and "untouched s s'"
proof -
  from assms obtain v ids s1 s2 s3 u where
    a: "createRevision e (reg_id rgn) (ip_digest p) (ip_topology p) s = Inr (v, s1)"
    and b: "map_tx (createInstance e (reg_id rgn) (rev_id v)) (ip_instances p) s1 = Inr (ids, s2)"
    and c: "for_tx (ip_connections p) (createConnection e (rev_id v) ids) s2 = Inr (u, s3)"
    and d: "res = instantiated True rgn v p" "s' = s3\<lparr>regions := set_rows (\<lambda>r. reg_id r = reg_id rgn)
      (\<lambda>r. r\<lparr>reg_active_rev := Some (rev_id v), reg_status := RRunning\<rparr>) (regions s3)\<rparr>"
    by (auto simp: write_topology_def bind_tx_Inr ret_Inr activate_def modify_Inr)
  show ?thesis
    by (rule that [of v ids])
      (use createRevision_Inr [OF a] createInstances_Inr [OF b] createConnections_Inr [OF c] d in
        \<open>simp_all add: untouched_def same_definitions_def\<close>)
qed

lemma instantiate_Inr:
  "instantiateInTransaction e r s = Inr (res, s') \<longleftrightarrow>
     (\<exists>rgn p. validateRequest r = Inr () \<and> findRegion (ir_region r) s = Some rgn \<and> make_plan e r s = Inr p \<and>
       (case activeRevision (reg_id rgn) s of
          Some v \<Rightarrow> rev_digest v = ip_digest p \<and> res = instantiated False rgn v p \<and> s' = s
        | None \<Rightarrow> reg_status rgn \<in> {RDeclared, RStarting, RReady} \<and> write_topology e rgn p s = Inr (res, s')))"
  by (auto simp: instantiateInTransaction_def bind_tx_Inr of_sum_Inr get_Inr or_throw_Inr guard_Inr ret_Inr
      split: option.splits)

lemma instantiate_again:
  assumes "instantiateInTransaction e r s = Inr (res, s')"
    and "same_definitions s' t" and "regions t = regions s'" and "topology_revisions t = topology_revisions s'"
  shows "\<exists>rgn. reg_id rgn = reg_id (in_region res) \<and>
    instantiateInTransaction e r t = Inr (res\<lparr>in_created := False, in_region := rgn\<rparr>, t)"
proof -
  from assms(1) obtain rgn p where req: "validateRequest r = Inr ()" "findRegion (ir_region r) s = Some rgn"
    and plan: "make_plan e r s = Inr p"
    and out: "case activeRevision (reg_id rgn) s of
        Some v \<Rightarrow> rev_digest v = ip_digest p \<and> res = instantiated False rgn v p \<and> s' = s
      | None \<Rightarrow> reg_status rgn \<in> {RDeclared, RStarting, RReady} \<and> write_topology e rgn p s = Inr (res, s')"
    unfolding instantiate_Inr by blast
  have reads: "findRegion i t = findRegion i s'" "activeRevision i t = activeRevision i s'" for i
    by (simp_all add: findRegion_def activeRevision_def assms(3,4) split: option.split)
  have same_plan: "make_plan e r t = make_plan e r s'" by (rule make_plan_cong [OF assms(2)])
  show ?thesis
  proof (cases "activeRevision (reg_id rgn) s")
    case (Some v)
    with out have res: "res = instantiated False rgn v p" "s' = s" "rev_digest v = ip_digest p" by simp_all
    then have "instantiateInTransaction e r t = Inr (res, t)"
      unfolding instantiate_Inr using req plan Some reads same_plan by auto
    then show ?thesis using res(1) by (intro exI [of _ rgn]) (simp add: instantiated_def)
  next
    case None
    with out have "write_topology e rgn p s = Inr (res, s')" by simp
    then obtain v ids where res: "res = instantiated True rgn v p" and v: "rev_digest v = ip_digest p"
      and revs: "topology_revisions s' = topology_revisions s @ [v]"
        "List.find (\<lambda>x. rev_id x = rev_id v) (topology_revisions s) = None"
      and regs: "regions s' = set_rows (\<lambda>r. reg_id r = reg_id rgn)
        (\<lambda>r. r\<lparr>reg_active_rev := Some (rev_id v), reg_status := RRunning\<rparr>) (regions s)"
      and same: "untouched s s'" by (rule write_topology_Inr)
    let ?rgn = "rgn\<lparr>reg_active_rev := Some (rev_id v), reg_status := RRunning\<rparr>"
    have id: "reg_id rgn = ir_region r" using req(2) by (auto simp: findRegion_def dest: find_Some_mem)
    have found: "findRegion (ir_region r) s' = Some ?rgn"
      using req(2) id by (simp add: findRegion_def regs find_set_rows)
    then have "activeRevision (reg_id ?rgn) s' = Some v"
      using id by (simp add: activeRevision_def revs find_append_fresh)
    moreover have "make_plan e r t = Inr p" using make_plan_cong [of s s'] same plan same_plan by (simp add: untouched_def)
    ultimately have "instantiateInTransaction e r t = Inr (instantiated False ?rgn v p, t)"
      unfolding instantiate_Inr using req(1) found v reads by auto
    then show ?thesis using res by (intro exI [of _ ?rgn]) (simp add: instantiated_def)
  qed
qed

text \<open>Instantiation is idempotent: once a request has succeeded, the same request finds the revision
  it made or found, reports it as existing with the same digest, plan and references, and writes
  nothing.
\<close>

theorem instantiate_idempotent:
  assumes "instantiateInTransaction e r s = Inr (res, s')"
  shows "\<exists>rgn. reg_id rgn = reg_id (in_region res) \<and>
    instantiateInTransaction e r s' = Inr (res\<lparr>in_created := False, in_region := rgn\<rparr>, s')"
  using assms by (rule instantiate_again) (simp_all add: same_definitions_def)

subsection \<open>Results of the checks\<close>

lemma sequence_Inr: "sequence vs = Inr xs \<longleftrightarrow> list_all2 (\<lambda>v x. v = Inr x) vs xs"
  by (induction vs arbitrary: xs) (auto simp: list_all2_Cons1)

lemma sequence_map_mem:
  "sequence (map f xs) = Inr ys \<Longrightarrow> y \<in> set ys \<Longrightarrow> \<exists>x\<in>set xs. f x = Inr y"
  by (induction xs arbitrary: ys) auto

lemma some_or_Inr [simp]: "some_or v code = Inr x \<longleftrightarrow> v = Some x"
  by (cases v) (auto simp: some_or_def)

declare map_sum_Inr [simp]

lemma split_last_Inr:
  assumes "split_last c s = Inr (a, b)"
  shows "s = a @ c # b" and "c \<notin> set b" and "a \<noteq> []" and "b \<noteq> []"
proof -
  let ?r = "rev s"
  from assms have c: "c \<in> set ?r" and a: "a = rev (drop 1 (dropWhile (\<lambda>x. x \<noteq> c) ?r))"
    and b: "b = rev (takeWhile (\<lambda>x. x \<noteq> c) ?r)" and ne: "a \<noteq> []" "b \<noteq> []"
    by (auto simp: split_last_def Let_def)
  from c obtain zs where zs: "dropWhile (\<lambda>x. x \<noteq> c) ?r = c # zs"
    by (metis (mono_tags, lifting) dropWhile_eq_Nil_conv hd_dropWhile list.collapse)
  then have "?r = takeWhile (\<lambda>x. x \<noteq> c) ?r @ c # zs" by (metis takeWhile_dropWhile_id)
  then have "rev ?r = rev (takeWhile (\<lambda>x. x \<noteq> c) ?r @ c # zs)" by (rule arg_cong)
  then show "s = a @ c # b" using a b zs by simp
  show "c \<notin> set b" using b by (auto dest: set_takeWhileD)
  show "a \<noteq> []" "b \<noteq> []" using ne by simp_all
qed

lemma endpoint_text: "endpoint s = Inr ip \<Longrightarrow> port_text ip = s"
  by (cases ip) (auto simp: endpoint_def port_text_def dest: split_last_Inr(1))

subsection \<open>Resolved instances\<close>

definition resolved_ok :: "env \<Rightarrow> db \<Rightarrow> resolved_instance \<Rightarrow> bool" where
  "resolved_ok e s i \<longleftrightarrow>
     (\<exists>d\<in>set (component_definitions s). cdef_id d = ri_definition i \<and> cdef_retired d = None) \<and>
     ri_ports i = listPorts e (ri_definition i) s"

lemma resolve_instance_ok:
  assumes "resolve_instance e s ps ov al j = Inr (i, refs)"
  shows "resolved_ok e s i" and "ri_name i = text_of (json_field j ''name'')"
proof -
  from assms obtain d where "resolve_definition (text_of (json_field j ''component'')) s = Inr d"
    and i: "ri_definition i = cdef_id d" "ri_ports i = listPorts e (cdef_id d) s"
    and "ri_name i = text_of (json_field j ''name'')"
    by (auto simp: resolve_instance_def Let_def)
  moreover from this(1) have "d \<in> set (component_definitions s)" "cdef_retired d = None"
    by (auto simp: resolve_definition_def findComponentDefinition_def dest: find_Some_mem)
  ultimately show "resolved_ok e s i" "ri_name i = text_of (json_field j ''name'')"
    by (auto simp: resolved_ok_def)
qed

lemma resolve_all_ok:
  assumes "resolve_all e s t spec topology ps ov = Inr rs"
  shows "\<forall>i\<in>set (rs_instances rs). resolved_ok e s i"
    and "map ri_name (rs_instances rs) = topology_names topology"
proof -
  from assms obtain irs where seq: "sequence (map (resolve_instance e s ps ov (allowedComponents e spec))
        (topology_items topology ''instances'')) = Inr irs"
    and rs: "rs_instances rs = map fst irs"
    by (auto simp: resolve_all_def)
  show "\<forall>i\<in>set (rs_instances rs). resolved_ok e s i"
    using rs by (auto dest!: sequence_map_mem [OF seq] resolve_instance_ok(1))
  have "list_all2 (\<lambda>j ir. ri_name (fst ir) = text_of (json_field j ''name'')) (topology_items topology ''instances'') irs"
    using seq unfolding sequence_Inr list_all2_map1
    by (rule list_all2_mono) (auto dest: resolve_instance_ok(2))
  then show "map ri_name (rs_instances rs) = topology_names topology"
    unfolding rs topology_names_def by (induction rule: list_all2_induct) auto
qed

lemma resolvedPort_Some:
  assumes "resolvedPort instances name port d = Some p"
  obtains i where "i \<in> set instances" and "ri_name i = name" and "p \<in> set (ri_ports i)"
    and "port_name p = port" and "port_direction p = d"
proof -
  from assms obtain i where "List.find (\<lambda>i. ri_name i = name) instances = Some i"
    and "List.find (\<lambda>p. port_name p = port \<and> port_direction p = d) (ri_ports i) = Some p"
    by (auto simp: resolvedPort_def split: option.splits)
  then have "i \<in> set instances" "ri_name i = name" "p \<in> set (ri_ports i)" "port_name p = port"
    "port_direction p = d" by (auto dest: find_Some_mem)
  then show ?thesis by (rule that)
qed

subsection \<open>Connections\<close>

definition wired :: "resolved_instance list \<Rightarrow> planned_connection \<Rightarrow> bool" where
  "wired instances c \<longleftrightarrow>
     (\<exists>p q. resolvedPort instances (pc_source c) (pc_source_port c) POutput = Some p \<and>
       resolvedPort instances (pc_target c) (pc_target_port c) PInput = Some q \<and> port_schema p = port_schema q)"

definition target_text :: "json \<Rightarrow> string" where
  "target_text c = text_of (json_field c ''to'')"

lemma connect_Inr:
  assumes "connect instances ins outs c w = Inr w'"
  shows "\<forall>k\<in>set (wi_connections w') - set (wi_connections w). wired instances k"
    and "\<exists>tgt. endpoint (target_text c) = Inr tgt \<and>
      wi_incoming w' = (if fst tgt = REGION then wi_incoming w
        else AList.update (target_text c) (Suc (incoming (wi_incoming w) (target_text c))) (wi_incoming w))"
proof -
  from assms obtain src tgt where src: "endpoint (text_of (json_field c ''from'')) = Inr src"
    and tgt: "endpoint (target_text c) = Inr tgt"
    by (auto simp: connect_def Let_def target_text_def)
  note defs = connect_def Let_def target_text_def from_region_def to_region_def between_def wired_def
  show "\<forall>k\<in>set (wi_connections w') - set (wi_connections w). wired instances k"
    using assms src tgt by (auto simp: defs split: if_splits)
  show "\<exists>tgt. endpoint (target_text c) = Inr tgt \<and>
      wi_incoming w' = (if fst tgt = REGION then wi_incoming w
        else AList.update (target_text c) (Suc (incoming (wi_incoming w) (target_text c))) (wi_incoming w))"
    using assms src tgt endpoint_text [OF tgt] by (auto simp: defs split: if_splits)
qed

lemma incoming_update:
  "incoming (AList.update k v counts) k' = (if k = k' then v else incoming counts k')"
  by (simp add: incoming_def update_conv)

lemma connect_all_wired:
  "connect_all instances ins outs cs w = Inr w' \<Longrightarrow> \<forall>k\<in>set (wi_connections w). wired instances k \<Longrightarrow>
    \<forall>k\<in>set (wi_connections w'). wired instances k"
  by (induction cs arbitrary: w) (auto dest!: connect_Inr(1))

lemma check_wiring_wired:
  assumes "check_wiring spec topology rs = Inr cs"
  shows "\<forall>k\<in>set cs. wired (rs_instances rs) k"
  using assms connect_all_wired [of "rs_instances rs" _ _ _ no_wiring]
  by (auto simp: check_wiring_def no_wiring_def)

lemma make_plan_ok:
  assumes "make_plan e r s = Inr p"
  shows "\<forall>i\<in>set (ip_instances p). resolved_ok e s i" and "\<forall>k\<in>set (ip_connections p). wired (ip_instances p) k"
  using assms
  by (auto simp: make_plan_def Let_def dest: resolve_all_ok(1) check_wiring_wired)

lemma created_id:
  assumes "map fst ids = map ri_name instances" and "distinct (map ri_name instances)" and "i \<in> set instances"
  shows "\<exists>u. map_of ids (ri_name i) = Some u \<and> (i, u) \<in> set (zip instances (map snd ids))"
  using assms
proof (induction instances arbitrary: ids)
  case Nil
  then show ?case by simp
next
  case (Cons j js)
  then obtain u us where ids: "ids = (ri_name j, u) # us" and us: "map fst us = map ri_name js"
    by (cases ids) auto
  show ?case
  proof (cases "i = j")
    case True
    then show ?thesis by (simp add: ids)
  next
    case False
    with Cons.prems have "i \<in> set js" by simp
    moreover from this Cons.prems(2) have "ri_name i \<noteq> ri_name j" by (auto simp: image_iff)
    ultimately have "i \<in> set js" "ri_name i \<noteq> ri_name j" by simp_all
    with Cons.IH [OF us] Cons.prems(2) show ?thesis by (auto simp: ids)
  qed
qed

lemma set_listPorts: "p \<in> set (listPorts e d s) \<longleftrightarrow> p \<in> set (port_definitions s) \<and> port_def p = d"
  by (auto simp: listPorts_def)

text \<open>A connection row that joins an output port to an input port of the same schema.\<close>

definition joins :: "port_definition list \<Rightarrow> component_instance list \<Rightarrow> connection \<Rightarrow> bool" where
  "joins ports instances k \<longleftrightarrow>
     (\<exists>a\<in>set instances. \<exists>b\<in>set instances. \<exists>p\<in>set ports. \<exists>q\<in>set ports.
       ci_id a = con_source k \<and> port_def p = ci_def a \<and> port_name p = con_source_port k \<and> port_direction p = POutput \<and>
       ci_id b = con_target k \<and> port_def q = ci_def b \<and> port_name q = con_target_port k \<and> port_direction q = PInput \<and>
       port_schema p = port_schema q)"

lemma wired_joins:
  assumes ids: "map fst ids = map ri_name instances" "distinct (map ri_name instances)"
    and ok: "\<forall>i\<in>set instances. resolved_ok e s i" and "wired instances k"
  shows "joins (port_definitions s) (map (instance_row region rid) (zip instances (map snd ids))) (connection_row rid ids k)"
proof -
  from assms(4) obtain p q where p: "resolvedPort instances (pc_source k) (pc_source_port k) POutput = Some p"
    and q: "resolvedPort instances (pc_target k) (pc_target_port k) PInput = Some q"
    and schema: "port_schema p = port_schema q" by (auto simp: wired_def)
  from p obtain i where i: "i \<in> set instances" "ri_name i = pc_source k" "p \<in> set (ri_ports i)"
    "port_name p = pc_source_port k" "port_direction p = POutput" by (rule resolvedPort_Some)
  from q obtain j where j: "j \<in> set instances" "ri_name j = pc_target k" "q \<in> set (ri_ports j)"
    "port_name q = pc_target_port k" "port_direction q = PInput" by (rule resolvedPort_Some)
  from created_id [OF ids i(1)] i(2) obtain u where u: "map_of ids (pc_source k) = Some u"
    "(i, u) \<in> set (zip instances (map snd ids))" by auto
  from created_id [OF ids j(1)] j(2) obtain v where v: "map_of ids (pc_target k) = Some v"
    "(j, v) \<in> set (zip instances (map snd ids))" by auto
  have "p \<in> set (port_definitions s) \<and> port_def p = ri_definition i"
    "q \<in> set (port_definitions s) \<and> port_def q = ri_definition j"
    using ok i j by (auto simp: resolved_ok_def set_listPorts)
  with i j u v schema show ?thesis
    unfolding joins_def set_map
    by (intro bexI [OF _ imageI [OF u(2)]] bexI [OF _ imageI [OF v(2)]] bexI [of _ p] bexI [of _ q])
      (simp_all add: connection_row_def instance_row_def)
qed

text \<open>C28. A topology that is instantiated is well-formed. The new instances have distinct names, belong to
  the new revision and to live component definitions; every new connection leads from an output port
  of one of them to an input port of one of them with the same schema; the revision stores the planned
  topology, and the region runs with it as its active revision. Nothing else is added.
\<close>

theorem instantiated_topology_sound:
  assumes "instantiateInTransaction e r s = Inr (res, s')" and "in_created res"
  shows "\<exists>instances conns.
    component_instances s' = component_instances s @ instances \<and> connections s' = connections s @ conns \<and>
    topology_revisions s' = topology_revisions s @ [in_revision res] \<and>
    distinct (map ci_name instances) \<and>
    (\<forall>c\<in>set instances. ci_rev c = rev_id (in_revision res) \<and>
      (\<exists>d\<in>set (component_definitions s). cdef_id d = ci_def c \<and> cdef_retired d = None)) \<and>
    (\<forall>k\<in>set conns. con_rev k = rev_id (in_revision res) \<and> joins (port_definitions s) instances k) \<and>
    activeRevision (ir_region r) s' = Some (in_revision res) \<and>
    rev_digest (in_revision res) = in_digest res"
proof -
  from assms(1) obtain rgn p where found: "findRegion (ir_region r) s = Some rgn" and plan: "make_plan e r s = Inr p"
    and out: "case activeRevision (reg_id rgn) s of
        Some v \<Rightarrow> rev_digest v = ip_digest p \<and> res = instantiated False rgn v p \<and> s' = s
      | None \<Rightarrow> reg_status rgn \<in> {RDeclared, RStarting, RReady} \<and> write_topology e rgn p s = Inr (res, s')"
    unfolding instantiate_Inr by blast
  with assms(2) have "write_topology e rgn p s = Inr (res, s')"
    by (auto simp: instantiated_def split: option.splits)
  then obtain v ids where res: "res = instantiated True rgn v p" and v: "rev_digest v = ip_digest p"
    and revs: "topology_revisions s' = topology_revisions s @ [v]"
      "List.find (\<lambda>x. rev_id x = rev_id v) (topology_revisions s) = None"
    and regs: "regions s' = set_rows (\<lambda>r. reg_id r = reg_id rgn)
      (\<lambda>r. r\<lparr>reg_active_rev := Some (rev_id v), reg_status := RRunning\<rparr>) (regions s)"
    and ids: "map fst ids = map ri_name (ip_instances p)" "distinct (map ri_name (ip_instances p))"
    and rows: "component_instances s' = component_instances s @
      map (instance_row (reg_id rgn) (rev_id v)) (zip (ip_instances p) (map snd ids))"
      "connections s' = connections s @ map (connection_row (rev_id v) ids) (ip_connections p)"
    by (rule write_topology_Inr)
  let ?is = "map (instance_row (reg_id rgn) (rev_id v)) (zip (ip_instances p) (map snd ids))"
  let ?cs = "map (connection_row (rev_id v) ids) (ip_connections p)"
  note ok = make_plan_ok [OF plan]
  have "map ci_name ?is = map ri_name (map fst (zip (ip_instances p) (map snd ids)))"
    by (simp add: instance_row_def)
  also have "length (ip_instances p) = length (map snd ids)" using ids(1) by (metis length_map)
  then have "map fst (zip (ip_instances p) (map snd ids)) = ip_instances p" by simp
  finally have "map ci_name ?is = map ri_name (ip_instances p)" .
  then have "distinct (map ci_name ?is)" using ids(2) by simp
  moreover have "\<forall>c\<in>set ?is. ci_rev c = rev_id v \<and>
      (\<exists>d\<in>set (component_definitions s). cdef_id d = ci_def c \<and> cdef_retired d = None)"
    using ok(1) by (auto simp: instance_row_def resolved_ok_def dest!: set_zip_leftD)
  moreover have "\<forall>k\<in>set ?cs. con_rev k = rev_id v \<and> joins (port_definitions s) ?is k"
    using wired_joins [OF ids ok(1)] ok(2) by (auto simp: connection_row_def)
  moreover have "activeRevision (ir_region r) s' = Some v"
    using found by (auto simp: activeRevision_def findRegion_def regs revs find_set_rows find_append_fresh
        dest: find_Some_mem)
  ultimately show ?thesis
    using rows revs(1) v by (intro exI [of _ ?is] exI [of _ ?cs]) (simp add: res instantiated_def)
qed

subsection \<open>Counting the connections of an input\<close>

lemma last_separator:
  assumes "a @ c # b = a' @ c # b'" and "c \<notin> set b" and "c \<notin> set b'"
  shows "a = a' \<and> b = b'"
proof -
  have "takeWhile (\<lambda>x. x \<noteq> c) (rev (a @ c # b)) = rev b" "takeWhile (\<lambda>x. x \<noteq> c) (rev (a' @ c # b')) = rev b'"
    using assms(2,3) by (auto simp: takeWhile_append2 takeWhile_tail)
  with assms(1) have "rev b = rev b'" by simp
  with assms(1) show ?thesis by simp
qed

lemma parted_iff:
  assumes "s = a @ c # b" and "c \<notin> set b" and "a \<noteq> []" and "b \<noteq> []"
  shows "parted c s \<longleftrightarrow> c \<notin> set a"
proof -
  have "filter (\<lambda>x. x = c) b = []" using assms(2) by (auto simp: filter_empty_conv)
  moreover have "c \<notin> set a \<Longrightarrow> hd a \<noteq> c" "last b \<noteq> c" using assms(2-4) by auto
  ultimately show ?thesis using assms(1,3,4)
    by (auto simp: parted_def filter_empty_conv)
qed

lemma connect_all_incoming:
  assumes "connect_all instances ins outs cs w = Inr w'" and "name \<noteq> REGION" and "CHR ''.'' \<notin> set port"
  shows "incoming (wi_incoming w') (name @ CHR ''.'' # port) =
    incoming (wi_incoming w) (name @ CHR ''.'' # port) +
    length (filter (\<lambda>c. target_text c = name @ CHR ''.'' # port) cs)"
  using assms(1)
proof (induction cs arbitrary: w)
  case Nil
  then show ?case by simp
next
  case (Cons c cs)
  then obtain w1 where one: "connect instances ins outs c w = Inr w1"
    and rest: "connect_all instances ins outs cs w1 = Inr w'" by auto
  from connect_Inr(2) [OF one] obtain tgt where tgt: "endpoint (target_text c) = Inr tgt"
    and w1: "wi_incoming w1 = (if fst tgt = REGION then wi_incoming w
      else AList.update (target_text c) (Suc (incoming (wi_incoming w) (target_text c))) (wi_incoming w))" by blast
  have "fst tgt \<noteq> REGION" if "target_text c = name @ CHR ''.'' # port"
    using tgt that assms(2,3) last_separator [of name "CHR ''.''" port "fst tgt" "snd tgt"]
    by (cases tgt) (auto simp: endpoint_def dest: split_last_Inr(1,2))
  then show ?case using Cons.IH [OF rest] w1 by (auto simp: incoming_update)
qed

lemma connect_all_counted:
  assumes "connect_all instances ins outs cs w = Inr w'" and "0 < incoming (wi_incoming w') k"
  shows "0 < incoming (wi_incoming w) k \<or> (\<exists>c\<in>set cs. target_text c = k)"
  using assms(1)
proof (induction cs arbitrary: w)
  case Nil
  then show ?case using assms(2) by simp
next
  case (Cons c cs)
  then obtain w1 where one: "connect instances ins outs c w = Inr w1"
    and rest: "connect_all instances ins outs cs w1 = Inr w'" by auto
  from Cons.IH [OF rest] connect_Inr(2) [OF one] show ?case by (auto simp: incoming_update split: if_splits)
qed

subsection \<open>Accepted fan-in rules\<close>

definition rule_input :: "json \<Rightarrow> string" where
  "rule_input r = text_of (json_field r ''input'')"

definition fan_in_rule_ok :: "(string \<times> nat) list \<Rightarrow> json \<Rightarrow> bool" where
  "fan_in_rule_ok counts r \<longleftrightarrow> nonEmptyString (json_field r ''input'') \<and> (\<exists>tgt. endpoint (rule_input r) = Inr tgt) \<and>
     completion_ok (json_field r ''completion'') (incoming counts (rule_input r))"

lemma check_fan_in_Inr:
  assumes "check_fan_in instances counts rs seen = Inr ruled"
  shows "list_all (fan_in_rule_ok counts) rs" and "set ruled = rule_input ` set rs \<union> set seen"
proof -
  have "list_all (fan_in_rule_ok counts) rs \<and> set ruled = rule_input ` set rs \<union> set seen"
    using assms
  proof (induction rs arbitrary: seen)
    case Nil
    then show ?case by simp
  next
    case (Cons r rs)
    then obtain tgt where ne: "nonEmptyString (json_field r ''input'')" and tgt: "endpoint (rule_input r) = Inr tgt"
      and ok: "completion_ok (json_field r ''completion'') (incoming counts (port_text tgt))"
      and rest: "check_fan_in instances counts rs (port_text tgt # seen) = Inr ruled"
      by (auto simp: requireNonEmptyString_def rule_input_def)
    from Cons.IH [OF rest] ne tgt ok endpoint_text [OF tgt] show ?case
      by (auto simp: fan_in_rule_ok_def)
  qed
  then show "list_all (fan_in_rule_ok counts) rs" "set ruled = rule_input ` set rs \<union> set seen" by simp_all
qed

lemma completion_ok_expected:
  assumes "completion_ok c n"
  shows "0 < n" and "\<exists>x. c = Some x \<and> json_field x ''expected'' = Some (JNum (of_nat n))"
  using assms by (auto simp: completion_ok_def split: option.splits json.splits)

lemma split_on_none: "c \<notin> set s \<Longrightarrow> split_on c s = [s]"
  by (induction s) auto

lemma split_on_one:
  "c \<notin> set a \<Longrightarrow> c \<notin> set b \<Longrightarrow> split_on c (a @ c # b) = [a, b]"
  by (induction a) (auto simp: split_on_none)

lemma fan_in_rule_accepted:
  assumes "fan_in_rule_ok counts r" and "parted (CHR ''.'') (rule_input r)"
  shows "fan_in_rule e name r = Some (port, n) \<longleftrightarrow>
    rule_input r = name @ CHR ''.'' # port \<and> CHR ''.'' \<notin> set name \<and> CHR ''.'' \<notin> set port \<and> n = incoming counts (rule_input r)"
    and "0 < incoming counts (rule_input r)"
proof -
  from assms(1) obtain i p where ip: "split_last (CHR ''.'') (rule_input r) = Inr (i, p)"
    and ne: "nonEmptyString (json_field r ''input'')"
    and ok: "completion_ok (json_field r ''completion'') (incoming counts (rule_input r))"
    by (auto simp: fan_in_rule_ok_def endpoint_def)
  note s = split_last_Inr [OF ip]
  have i: "CHR ''.'' \<notin> set i" using parted_iff [OF s] assms(2) by simp
  have "json_field r ''input'' = Some (JStr (rule_input r))"
    using ne by (auto simp: rule_input_def nonEmptyString_def text_of_def split: option.splits json.splits)
  moreover have "split_on (CHR ''.'') (rule_input r) = [i, p]"
    using split_on_one [OF i s(2)] s(1) by simp
  moreover obtain c where "json_field r ''completion'' = Some c"
    "json_field c ''expected'' = Some (JNum (of_nat (incoming counts (rule_input r))))"
    using completion_ok_expected(2) [OF ok] by blast
  ultimately have fan: "fan_in_rule e name r =
      (if i = name then Some (p, incoming counts (rule_input r)) else None)"
    using completion_ok_expected(1) [OF ok]
    by (simp add: fan_in_rule_def Let_def)
  have sep: "i = name \<and> p = port" if "rule_input r = name @ CHR ''.'' # port" "CHR ''.'' \<notin> set port"
    by (rule last_separator [OF _ s(2) that(2)]) (use s(1) that(1) in simp)
  show "fan_in_rule e name r = Some (port, n) \<longleftrightarrow>
    rule_input r = name @ CHR ''.'' # port \<and> CHR ''.'' \<notin> set name \<and> CHR ''.'' \<notin> set port \<and> n = incoming counts (rule_input r)"
  proof (cases "i = name \<and> p = port")
    case True
    then show ?thesis using s(1,2) i fan by auto
  next
    case False
    then have "fan_in_rule e name r \<noteq> Some (port, n)" using fan by auto
    with False sep show ?thesis by blast
  qed
  show "0 < incoming counts (rule_input r)" using completion_ok_expected(1) [OF ok] .
qed

lemma mem_map_filter: "y \<in> set (List.map_filter f xs) \<longleftrightarrow> (\<exists>x\<in>set xs. f x = Some y)"
  by (force simp: List.map_filter_def image_iff)

lemma found_in_rules:
  assumes ok: "\<forall>r\<in>set rules. fan_in_rule_ok counts r \<and> parted (CHR ''.'') (rule_input r)"
    and parts: "CHR ''.'' \<notin> set name" "CHR ''.'' \<notin> set port"
    and covered: "fan_in_covered counts (map rule_input rules)"
  shows "expected_count (map_of (rev (List.map_filter (fan_in_rule e name) rules))) port
    = max 1 (incoming counts (name @ CHR ''.'' # port))"
proof -
  let ?k = "name @ CHR ''.'' # port" and ?m = "map_of (rev (List.map_filter (fan_in_rule e name) rules))"
  have entry: "fan_in_rule e name r = Some (port, n) \<longleftrightarrow> rule_input r = ?k \<and> n = incoming counts ?k"
    if "r \<in> set rules" for r n
    using fan_in_rule_accepted(1) [of counts r e name port n] ok that parts by auto
  have mem: "(port, n) \<in> set (List.map_filter (fan_in_rule e name) rules) \<longleftrightarrow>
      (\<exists>r\<in>set rules. rule_input r = ?k \<and> n = incoming counts ?k)" for n
    using entry by (auto simp: mem_map_filter)
  show ?thesis
  proof (cases "\<exists>r\<in>set rules. rule_input r = ?k")
    case True
    then obtain r where r: "r \<in> set rules" "rule_input r = ?k" by blast
    then have pos: "0 < incoming counts ?k" using fan_in_rule_accepted(2) ok by fastforce
    from r mem have "(port, incoming counts ?k) \<in> set (rev (List.map_filter (fan_in_rule e name) rules))" by auto
    then obtain n where n: "?m port = Some n" by (metis map_of_eq_None_iff not_Some_eq fst_conv image_eqI)
    then have "n = incoming counts ?k" using mem map_of_SomeD [OF n] by auto
    with n pos show ?thesis by (simp add: expected_count_def)
  next
    case False
    then have "?m port = None"
      using mem by (auto simp: map_of_eq_None_iff)
    moreover have "incoming counts ?k \<le> 1"
    proof (rule ccontr)
      assume "\<not> ?thesis"
      then obtain n where "map_of counts ?k = Some n" "1 < n"
        by (auto simp: incoming_def split: option.splits)
      with covered False show False by (fastforce simp: fan_in_covered_def list_all_iff dest: map_of_SomeD)
    qed
    ultimately show ?thesis by (simp add: expected_count_def)
  qed
qed

lemma check_wiring_fan_in:
  assumes "check_wiring spec topology rs = Inr cs" and "list_all connection_ok (topology_items topology ''connections'')"
  obtains counts rules where "iterate (json_field spec ''fanIn'') = Inr rules"
    and "\<forall>r\<in>set rules. fan_in_rule_ok counts r \<and> parted (CHR ''.'') (rule_input r)"
    and "fan_in_covered counts (map rule_input rules)"
    and "\<forall>name port. name \<noteq> REGION \<longrightarrow> CHR ''.'' \<notin> set port \<longrightarrow> incoming counts (name @ CHR ''.'' # port) =
      length (filter (\<lambda>c. target_text c = name @ CHR ''.'' # port) (topology_items topology ''connections''))"
proof -
  let ?cs = "topology_items topology ''connections''"
  from assms(1) obtain w rules ruled where w: "connect_all (rs_instances rs) (rs_inputs rs) (rs_outputs rs) ?cs no_wiring = Inr w"
    and rules: "iterate (json_field spec ''fanIn'') = Inr rules"
    and check: "check_fan_in (rs_instances rs) (wi_incoming w) rules [] = Inr ruled"
    and covered: "fan_in_covered (wi_incoming w) ruled"
    by (auto simp: check_wiring_def)
  note ok = check_fan_in_Inr [OF check]
  have zero: "incoming (wi_incoming no_wiring) k = 0" for k by (simp add: no_wiring_def incoming_def)
  have "parted (CHR ''.'') (rule_input r)" if "r \<in> set rules" for r
  proof -
    have "completion_ok (json_field r ''completion'') (incoming (wi_incoming w) (rule_input r))"
      using ok(1) that by (auto simp: list_all_iff fan_in_rule_ok_def)
    then have "0 < incoming (wi_incoming w) (rule_input r)" by (rule completion_ok_expected)
    with connect_all_counted [OF w] zero obtain c where c: "c \<in> set ?cs" "target_text c = rule_input r" by auto
    then have "connection_ok c" using assms(2) by (auto simp: list_all_iff)
    with c(2) show ?thesis by (simp add: connection_ok_def reference_ok_def target_text_def)
  qed
  with ok(1) have "\<forall>r\<in>set rules. fan_in_rule_ok (wi_incoming w) r \<and> parted (CHR ''.'') (rule_input r)"
    by (simp add: list_all_iff)
  moreover have "fan_in_covered (wi_incoming w) (map rule_input rules)"
    using covered ok(2) by (simp add: fan_in_covered_def)
  ultimately show ?thesis
    by (rule that [OF rules]) (simp add: connect_all_incoming [OF w] zero)
qed

lemma sorted_topology_field:
  "k \<noteq> ''ingress'' \<Longrightarrow> json_field (sorted_topology e topology) k = json_field topology k"
  "is_object (Some (sorted_topology e topology)) = is_object (Some topology)"
proof -
  have "(k \<noteq> ''ingress'' \<longrightarrow> json_field (sorted_topology e topology) k = json_field topology k) \<and>
    is_object (Some (sorted_topology e topology)) = is_object (Some topology)"
  proof (cases "\<exists>kvs. subfield topology ''ingress'' ''commands'' = Some (JObj kvs)")
    case True
    then obtain kvs where kvs: "subfield topology ''ingress'' ''commands'' = Some (JObj kvs)" by blast
    then have "is_object (Some topology)" by (cases topology) (auto simp: subfield_def is_object_def)
    with kvs subfield_with_rules(3,4) [OF kvs] show ?thesis by (simp add: sorted_topology_def)
  next
    case False
    then show ?thesis by (auto simp: sorted_topology_def split: option.splits json.splits)
  qed
  then show "k \<noteq> ''ingress'' \<Longrightarrow> json_field (sorted_topology e topology) k = json_field topology k"
    "is_object (Some (sorted_topology e topology)) = is_object (Some topology)" by simp_all
qed

lemma field_is_object: "json_field j k = Some x \<Longrightarrow> is_object (Some j)"
  by (cases j) (auto simp: is_object_def)

definition declared_connections :: "json \<Rightarrow> json list" where
  "declared_connections doc =
     (case subfield doc ''spec'' ''initialTopology'' of None \<Rightarrow> [] | Some t \<Rightarrow> topology_items t ''connections'')"

lemma template_document_Inr:
  assumes "template_document e t = Inr (doc, topology)"
  obtains spec where "json_field doc ''spec'' = Some spec" and "is_object (Some spec)"
    and "is_object (Some topology)" and "list_all connection_ok (topology_items topology ''connections'')"
proof -
  from assms obtain topo where sub: "subfield doc ''spec'' ''initialTopology'' = Some topo"
    and valid: "validateStaticTopology e topo = Inr topology"
    by (auto simp: template_document_def)
  from sub obtain spec where spec: "json_field doc ''spec'' = Some spec" "json_field spec ''initialTopology'' = Some topo"
    by (auto simp: subfield_def split: option.splits)
  from valid have ok: "topology_ok topo" and top: "topology = sorted_topology e topo"
    by (simp_all add: validateStaticTopology_Inr)
  have "topology_items topology ''connections'' = topology_items topo ''connections''"
    by (simp add: topology_items_def top sorted_topology_field)
  with ok top show ?thesis
    using that [OF spec(1) field_is_object [OF spec(2)]] by (simp add: topology_ok_def sorted_topology_field)
qed

lemma effective_topology_fields:
  assumes "effective_topology doc topology ps instances rec = Inr out"
    and "json_field doc ''spec'' = Some spec" and "is_object (Some spec)" and "is_object (Some topology)"
  shows "\<exists>spec'. json_field out ''spec'' = Some spec' \<and> json_field spec' ''fanIn'' = json_field spec ''fanIn''"
    and "declared_connections out = topology_items topology ''connections''"
proof -
  have "is_object (Some doc)" by (rule field_is_object [OF assms(2)])
  with assms show "\<exists>spec'. json_field out ''spec'' = Some spec' \<and> json_field spec' ''fanIn'' = json_field spec ''fanIn''"
    "declared_connections out = topology_items topology ''connections''"
    by (auto simp: effective_topology_def Let_def declared_connections_def subfield_def topology_items_def
        split: option.splits)
qed

lemma fan_in_rules_checked:
  assumes "iterate (json_field spec ''fanIn'') = Inr rules" and "json_field out ''spec'' = Some spec"
    and "json_field out ''fanIn'' = None" and "\<forall>r\<in>set rules. fan_in_rule_ok counts r"
  shows "fan_in_rules out = rules" and "JNull \<notin> set rules"
proof -
  have strings: "\<not> fan_in_rule_ok counts JNull" "\<not> fan_in_rule_ok counts (JStr x)" for x
    by (simp_all add: fan_in_rule_ok_def nonEmptyString_def)
  then show "JNull \<notin> set rules" using assms(4) by blast
  show "fan_in_rules out = rules"
  proof (cases "json_field spec ''fanIn''")
    case None
    with assms show ?thesis by (simp add: iterate_def fan_in_rules_def)
  next
    case (Some v)
    with assms strings show ?thesis
      by (cases v) (auto simp: iterate_def fan_in_rules_def)
  qed
qed

text \<open>C31. The scheduler waits for what the topology sends. In a topology that was instantiated, the
  number of inputs that a lease of a component instance expects on a port is the number of connections
  that lead to this port, and one when there is none: a fan-in rule is accepted only with this
  number, and a port with several connections has a rule. The declaration has no field \<open>fanIn\<close> beside
  its \<open>spec\<close>, where the scheduler looks as well.
\<close>

theorem fan_in_agrees:
  assumes "instantiateInTransaction e r s = Inr (res, s')" and "in_created res"
    and "json_field (rev_topology (in_revision res)) ''fanIn'' = None"
    and "name \<noteq> REGION" and "CHR ''.'' \<notin> set name" and "CHR ''.'' \<notin> set port"
  shows "\<exists>fan. fan_in_expected e (rev_topology (in_revision res)) name = Inr fan \<and>
    expected_count fan port = max 1 (length (filter (\<lambda>c. target_text c = name @ CHR ''.'' # port)
      (declared_connections (rev_topology (in_revision res)))))"
proof -
  from assms(1,2) obtain rgn p where plan: "make_plan e r s = Inr p" and "write_topology e rgn p s = Inr (res, s')"
    unfolding instantiate_Inr by (auto simp: instantiated_def split: option.splits)
  from this(2) have stored: "rev_topology (in_revision res) = ip_topology p"
    by (auto elim!: write_topology_Inr simp: instantiated_def)
  from plan obtain t doc topology rs rec spec where doc: "template_document e t = Inr (doc, topology)"
    and wiring: "check_wiring (the (json_field doc ''spec'')) topology rs = Inr (ip_connections p)"
    and eff: "effective_topology doc topology (ip_parameters p) (rs_instances rs) rec = Inr (ip_topology p)"
    by (auto simp: make_plan_def Let_def)
  from doc obtain spec where spec: "json_field doc ''spec'' = Some spec" "is_object (Some spec)"
    "is_object (Some topology)" and conns: "list_all connection_ok (topology_items topology ''connections'')"
    by (rule template_document_Inr)
  note fields = effective_topology_fields [OF eff spec]
  from fields(1) obtain spec' where spec': "json_field (ip_topology p) ''spec'' = Some spec'"
    "json_field spec' ''fanIn'' = json_field spec ''fanIn''" by blast
  from wiring have wiring: "check_wiring spec topology rs = Inr (ip_connections p)" using spec by simp
  obtain counts rules where rules: "iterate (json_field spec ''fanIn'') = Inr rules"
    and ok: "\<forall>r\<in>set rules. fan_in_rule_ok counts r \<and> parted (CHR ''.'') (rule_input r)"
    and covered: "fan_in_covered counts (map rule_input rules)"
    and counted: "\<forall>name port. name \<noteq> REGION \<longrightarrow> CHR ''.'' \<notin> set port \<longrightarrow> incoming counts (name @ CHR ''.'' # port) =
      length (filter (\<lambda>c. target_text c = name @ CHR ''.'' # port) (topology_items topology ''connections''))"
    by (rule check_wiring_fan_in [OF wiring conns])
  have same: "fan_in_rules (ip_topology p) = rules" "JNull \<notin> set rules"
    using fan_in_rules_checked [OF _ spec'(1), of rules counts] rules spec'(2) assms(3) ok stored by simp_all
  then have "fan_in_expected e (ip_topology p) name = Inr (map_of (rev (List.map_filter (fan_in_rule e name) rules)))"
    by (simp add: fan_in_expected_def)
  with found_in_rules [OF ok assms(5,6) covered, of e] show ?thesis
    by (simp add: stored fields(2) counted assms(4,6))
qed

subsection \<open>A template with a fan-in\<close>

definition fan_instance :: "string \<Rightarrow> json" where
  "fan_instance n = JObj [(''name'', JStr n), (''component'', JStr ''c@1''),
     (''configuration'', JObj [(''x'', JObj [(''$parameter'', JStr ''p.q'')])])]"

definition fan_connection :: "string \<Rightarrow> string \<Rightarrow> json" where
  "fan_connection a b = JObj [(''from'', JStr a), (''to'', JStr b)]"

definition fan_rule :: "rat \<Rightarrow> json" where
  "fan_rule n = JObj [(''input'', JStr ''d.in''),
     (''completion'', JObj [(''type'', JStr ''all-expected''), (''expected'', JNum n)])]"

definition fan_spec :: "rat \<Rightarrow> json" where
  "fan_spec n = JObj
     [(''initialTopology'', JObj
        [(''instances'', JArr [fan_instance ''a'', fan_instance ''b'', fan_instance ''d'']),
         (''connections'', JArr [fan_connection ''a.out'' ''d.in'', fan_connection ''b.out'' ''d.in''])]),
      (''parameters'', JObj []),
      (''fanIn'', JArr [fan_rule n])]"

definition fan_store :: "rat \<Rightarrow> db" where
  "fan_store n = empty_db\<lparr>
     regions := [\<lparr>reg_id = ''r'', reg_parent = None, reg_name = ''top'', reg_status = RReady, reg_epoch = 0,
       reg_active_rev = None\<rparr>],
     templates := [\<lparr>tpl_id = ''t'', tpl_name = ''n'', tpl_version = ''1'', tpl_digest = ''h'',
       tpl_template = sample_declaration ''Template'' (fan_spec n), tpl_retired = None\<rparr>],
     artifact_schemas := [\<lparr>sch_id = ''s'', sch_name = ''s'', sch_version = ''1'', sch_digest = ''h'',
       sch_schema = JObj [], sch_retired = None\<rparr>],
     component_definitions := [\<lparr>cdef_id = ''c'', cdef_name = ''c'', cdef_version = ''1'', cdef_digest = ''h'',
       cdef_definition = JObj [], cdef_retired = None\<rparr>],
     port_definitions :=
       [\<lparr>port_def = ''c'', port_name = ''in'', port_direction = PInput, port_schema = ''s'', port_required = True\<rparr>,
        \<lparr>port_def = ''c'', port_name = ''out'', port_direction = POutput, port_schema = ''s'', port_required = True\<rparr>]\<rparr>"

definition fan_request :: instantiation_request where
  "fan_request = \<lparr>ir_region = ''r'', ir_template = ''n@1'',
     ir_parameters = Some (JObj [(''p'', JObj [(''q'', JNum 5)])]), ir_configuration = None, ir_source = None\<rparr>"

lemma fan_runs:
  "case instantiateInTransaction sample_env fan_request (fan_store 2) of
     Inl err \<Rightarrow> False
   | Inr (r, s) \<Rightarrow> in_created r \<and> json_field (rev_topology (in_revision r)) ''fanIn'' = None \<and>
       length (filter (\<lambda>c. target_text c = ''d.in'') (declared_connections (rev_topology (in_revision r)))) = 2 \<and>
       length (connections s) = 2"
  by code_simp

lemma fan_result:
  obtains r s where "instantiateInTransaction sample_env fan_request (fan_store 2) = Inr (r, s)"
    and "in_created r" and "json_field (rev_topology (in_revision r)) ''fanIn'' = None"
    and "length (filter (\<lambda>c. target_text c = ''d.in'') (declared_connections (rev_topology (in_revision r)))) = 2"
    and "length (connections s) = 2"
  using fan_runs by (auto split: sum.splits prod.splits)

theorem instantiate_idempotent_witness:
  "\<exists>res s' rgn. instantiateInTransaction sample_env fan_request (fan_store 2) = Inr (res, s') \<and> in_created res \<and>
     instantiateInTransaction sample_env fan_request s' = Inr (res\<lparr>in_created := False, in_region := rgn\<rparr>, s')"
proof -
  obtain r s where run: "instantiateInTransaction sample_env fan_request (fan_store 2) = Inr (r, s)" "in_created r"
    by (rule fan_result)
  with instantiate_idempotent [OF run(1)] show ?thesis by blast
qed

theorem instantiated_topology_sound_witness:
  "\<exists>res s' instances. instantiateInTransaction sample_env fan_request (fan_store 2) = Inr (res, s') \<and>
     length (connections s') = 2 \<and> (\<forall>k\<in>set (connections s'). joins (port_definitions (fan_store 2)) instances k)"
proof -
  obtain r s where run: "instantiateInTransaction sample_env fan_request (fan_store 2) = Inr (r, s)" "in_created r"
    and two: "length (connections s) = 2" by (rule fan_result)
  have "connections (fan_store 2) = []" by (simp add: fan_store_def empty_db_def)
  with instantiated_topology_sound [OF run] run two show ?thesis by auto
qed

theorem fan_in_agrees_witness:
  "\<exists>res s' fan. instantiateInTransaction sample_env fan_request (fan_store 2) = Inr (res, s') \<and>
     fan_in_expected sample_env (rev_topology (in_revision res)) ''d'' = Inr fan \<and> expected_count fan ''in'' = 2"
proof -
  obtain r s where run: "instantiateInTransaction sample_env fan_request (fan_store 2) = Inr (r, s)" "in_created r"
    "json_field (rev_topology (in_revision r)) ''fanIn'' = None"
    and two: "length (filter (\<lambda>c. target_text c = ''d.in'') (declared_connections (rev_topology (in_revision r)))) = 2"
    by (rule fan_result)
  from fan_in_agrees [OF run, of "''d''" "''in''"] two run(1) show ?thesis by (auto simp: REGION_def)
qed

end
