(* ===== verification/Systems.thy ===== *)
theory Systems
  imports Instantiation Artifacts Admission
begin

section \<open>Durable instantiation and systems\<close>

text \<open>
  \<open>runtime-core/src/systems/template-initial-state-resolver.ts\<close>,
  \<open>runtime-core/src/systems/durable-template-instantiation-service.ts\<close>,
  \<open>runtime-core/src/systems/template-instantiation-error.ts\<close>,
  \<open>runtime-core/src/systems/system-application-service.ts\<close> and the repositories
  \<open>template-instantiation-repository.ts\<close> and \<open>component-state-repository.ts\<close>. A durable request has an
  identifier; the row it leaves binds the identifier to the content of the request and to the outcome. The
  initial states of the template are published as artifacts with their content in the database and as
  the first versions of the components' states. Applying a system creates its regions and instantiates
  their templates, in one transaction.
\<close>

subsection \<open>Initial states\<close>

record resolved_state =
  ini_instance :: string
  ini_port :: string
  ini_schema :: string
  ini_schema_digest :: string
  ini_value :: json

definition initialStateDeclaration :: "json \<Rightarrow> error + (string \<times> json) option" where
  "initialStateDeclaration instance =
     (case json_field instance ''initialState'' of
        None \<Rightarrow> Inr None
      | Some d \<Rightarrow>
          and_then (require_object (Some d)) (\<lambda>_.
          and_then (requireNonEmptyString (json_field d ''port'')) (\<lambda>port.
          and_then (some_or (json_field d ''value'') ''invalid_declaration'') (\<lambda>v.
          Inr (Some (port, v))))))"

definition resolve_state ::
  "env \<Rightarrow> db \<Rightarrow> json \<Rightarrow> json \<Rightarrow> error + resolved_state option" where
  "resolve_state e s ps instance =
     and_then (initialStateDeclaration instance) (\<lambda>declared.
     case declared of
       None \<Rightarrow> Inr None
     | Some (port, v) \<Rightarrow>
         and_then (requireNonEmptyString (json_field instance ''name'')) (\<lambda>name.
         and_then (requireNonEmptyString (json_field instance ''component'')) (\<lambda>component.
         and_then (resolve_definition component s) (\<lambda>d.
         and_then (some_or (List.find (\<lambda>p. port_direction p = PState \<and> port_name p = port)
            (listPorts e (cdef_id d) s)) ''invalid_port_reference'') (\<lambda>p.
         and_then (live_schema (findArtifactSchemaById (port_schema p) s)) (\<lambda>sch.
         and_then (bindParameters ps v) (\<lambda>bound.
         and_then (require (schema_compiles e (sch_schema sch)) ''invalid_declaration'') (\<lambda>_.
         and_then (require (schema_valid e (sch_schema sch) bound) ''invalid_declaration'') (\<lambda>_.
         Inr (Some \<lparr>ini_instance = name, ini_port = port, ini_schema = sch_id sch,
           ini_schema_digest = sch_digest sch, ini_value = bound\<rparr>))))))))))"

definition template_instances :: "json \<Rightarrow> json list" where
  "template_instances doc =
     (case subfield doc ''spec'' ''initialTopology'' of
        None \<Rightarrow> [] | Some topology \<Rightarrow> topology_items topology ''instances'')"

definition resolve_states :: "env \<Rightarrow> string \<Rightarrow> json \<Rightarrow> db \<Rightarrow> error + resolved_state list" where
  "resolve_states e reference ps s =
     and_then (require (\<not> blank reference) ''invalid_declaration'') (\<lambda>_.
     and_then (live_template reference s) (\<lambda>t.
     and_then (validateSimpleDeclaration e (tpl_template t) ''Template'') (\<lambda>doc.
     map_sum id (List.map_filter id) (sequence (map (resolve_state e s ps) (template_instances doc))))))"

subsection \<open>Request identifiers\<close>

definition is_hex_digit :: "char \<Rightarrow> bool" where
  "is_hex_digit c \<longleftrightarrow> c \<in> set ''0123456789abcdefABCDEF''"

definition uuid_text :: "string \<Rightarrow> bool" where
  "uuid_text s \<longleftrightarrow> length s = 36 \<and>
     list_all (\<lambda>i. if i \<in> {8, 13, 18, 23} then s ! i = CHR ''-'' else is_hex_digit (s ! i)) [0..<36] \<and>
     s ! 19 \<in> set ''89abAB''"

definition validateRequestId :: "string option \<Rightarrow> error + unit" where
  "validateRequestId i = require (case i of None \<Rightarrow> True | Some s \<Rightarrow> uuid_text s) ''invalid_declaration''"

text \<open>\<open>((Number.parseInt(c, 16) & 3) | 8).toString(16)\<close>\<close>

definition variant_digit :: "char \<Rightarrow> char" where
  "variant_digit c = hex_digit (8 + (if is_hex c then hex_value c mod 4 else 0))"

definition deterministicRequestId :: "string \<Rightarrow> string" where
  "deterministicRequestId digest =
     (let h = (take 32 digest)[12 := CHR ''5'']; v = h[16 := variant_digit (h ! 16)] in
      take 8 v @ ''-'' @ take 4 (drop 8 v) @ ''-'' @ take 4 (drop 12 v) @ ''-'' @ take 4 (drop 16 v) @ ''-'' @ drop 20 v)"

definition request_digest :: "env \<Rightarrow> instantiation_request \<Rightarrow> string" where
  "request_digest e r =
     json_digest e (JObj [(''targetRegionId'', JStr (ir_region r)), (''template'', JStr (ir_template r)),
       (''parameters'', or_empty (ir_parameters r)),
       (''componentConfiguration'', or_empty (ir_configuration r)), (''source'', or_empty (ir_source r))])"

definition cloned_request :: "instantiation_request \<Rightarrow> instantiation_request" where
  "cloned_request r = r\<lparr>ir_parameters := Some (or_empty (ir_parameters r)),
     ir_configuration := Some (or_empty (ir_configuration r)), ir_source := Some (or_empty (ir_source r))\<rparr>"

subsection \<open>Publishing initial states\<close>

definition utf8_length :: "string \<Rightarrow> nat" where
  "utf8_length s = sum_list (map (\<lambda>c. if of_char c < (128 :: nat) then 1 else 2) s)"

definition state_provenance :: "string \<Rightarrow> string \<Rightarrow> string \<Rightarrow> json" where
  "state_provenance iid tid rid = JObj [(''kind'', JStr ''templateInstantiation''),
     (''instantiationId'', JStr iid), (''templateId'', JStr tid), (''regionId'', JStr rid)]"

record publication =
  pb_instantiation :: string
  pb_region :: string
  pb_revision :: string
  pb_template :: string

definition state_artifact :: "env \<Rightarrow> publication \<Rightarrow> resolved_state \<Rightarrow> new_artifact" where
  "state_artifact e p st =
     (let digest = json_digest e (ini_value st) in
      \<lparr>na_digest = digest, na_size = int (utf8_length (canonical_text e (ini_value st))), na_schema = ini_schema st,
       na_media = ''application/json'', na_locator = ''inline-json://'' @ digest,
       na_provenance = state_provenance (pb_instantiation p) (pb_template p) (pb_region p)\<rparr>)"

definition artifact_matches :: "artifact \<Rightarrow> new_artifact \<Rightarrow> bool" where
  "artifact_matches a n \<longleftrightarrow> art_schema a = na_schema n \<and> art_media a = na_media n \<and> art_size a = na_size n \<and>
     art_state a = ArtCommitted"

definition CONFLICT :: error where
  "CONFLICT = DomainError ''template_instantiation_conflict''"

definition assertArtifactIdentity :: "artifact \<Rightarrow> new_artifact \<Rightarrow> (db, unit) tx" where
  "assertArtifactIdentity a n = guard (artifact_matches a n) CONFLICT"

text \<open>\<open>insert .. on conflict do nothing\<close>, then the row that is there.\<close>

definition createInlinePayloadIdempotently :: "inline_payload \<Rightarrow> (db, inline_payload) tx" where
  "createInlinePayloadIdempotently p = (\<lambda>s.
     case List.find (\<lambda>x. inl_artifact x = inl_artifact p) (inline_payloads s) of
       Some x \<Rightarrow> Inr (x, s)
     | None \<Rightarrow>
         if inl_size p < 0 then Inl (DbViolation ''artifact_inline_payloads_canonical_size_bytes_check'')
         else Inr (p, s\<lparr>inline_payloads := inline_payloads s @ [p]\<rparr>))"

definition same_version_key :: "state_version \<Rightarrow> state_version \<Rightarrow> bool" where
  "same_version_key v x \<longleftrightarrow> sv_component x = sv_component v \<and> sv_port x = sv_port v \<and> sv_number x = sv_number v"

definition createInitialVersionIdempotently :: "state_version \<Rightarrow> (db, state_version) tx" where
  "createInitialVersionIdempotently v = (\<lambda>s.
     if blank (sv_port v) then Inl (DbViolation ''component_state_versions_state_port_name_check'')
     else case List.find (same_version_key v) (state_versions s) of
       Some x \<Rightarrow> Inr (x, s)
     | None \<Rightarrow>
         if list_ex (\<lambda>x. sv_id x = sv_id v) (state_versions s)
         then Inl (DbViolation ''component_state_versions_pkey'')
         else Inr (v, s\<lparr>state_versions := state_versions s @ [v]\<rparr>))"

definition linkInstantiationIdempotently :: "string \<Rightarrow> string \<Rightarrow> (db, unit) tx" where
  "linkInstantiationIdempotently iid vid = modify (\<lambda>s.
     if (iid, vid) \<in> set (state_links s) then s else s\<lparr>state_links := state_links s @ [(iid, vid)]\<rparr>)"

definition initial_version ::
  "env \<Rightarrow> publication \<Rightarrow> resolved_state \<Rightarrow> string \<Rightarrow> string \<Rightarrow> string \<Rightarrow> state_version" where
  "initial_version e p st vid cid aid =
     \<lparr>sv_id = vid, sv_component = cid, sv_port = ini_port st, sv_number = 1, sv_artifact = aid,
      sv_schema = ini_schema st, sv_rev = pb_revision p, sv_region = pb_region p,
      sv_source_kind = ''template_instantiation'', sv_source_template = Some (pb_template p),
      sv_origin = Some (pb_instantiation p), sv_source_execution = None, sv_source_attempt = None,
      sv_provenance = state_provenance (pb_instantiation p) (pb_template p) (pb_region p),
      sv_created = db_now e\<rparr>"

definition version_matches :: "publication \<Rightarrow> resolved_state \<Rightarrow> string \<Rightarrow> state_version \<Rightarrow> bool" where
  "version_matches p st aid v \<longleftrightarrow> sv_artifact v = aid \<and> sv_schema v = ini_schema st \<and>
     sv_rev v = pb_revision p \<and> sv_region v = pb_region p \<and> sv_source_template v = Some (pb_template p)"

text \<open>\<open>new Map(rows)\<close>: the last row of a name counts.\<close>

definition instance_ids :: "string \<Rightarrow> db \<Rightarrow> (string \<times> string) list" where
  "instance_ids rid s =
     rev (map (\<lambda>c. (ci_name c, ci_id c)) (filter (\<lambda>c. ci_rev c = rid) (component_instances s)))"

definition publish_state ::
  "env \<Rightarrow> publication \<Rightarrow> (string \<times> string) list \<Rightarrow> resolved_state \<Rightarrow> (db, unit) tx" where
  "publish_state e p ids st =
     (let n = state_artifact e p st; canonical = canonical_text e (ini_value st) in
      bind_tx (or_throw (map_of ids (ini_instance st)) CONFLICT) (\<lambda>cid.
      bind_tx (createCommittedArtifactIdempotently e n) (\<lambda>ac.
      bind_tx (assertArtifactIdentity (fst ac) n) (\<lambda>_.
      bind_tx (createInlinePayloadIdempotently
         \<lparr>inl_artifact = art_id (fst ac), inl_payload = ini_value st, inl_size = na_size n\<rparr>) (\<lambda>inline.
      bind_tx (guard (canonical_text e (inl_payload inline) = canonical \<and> inl_size inline = na_size n) CONFLICT) (\<lambda>_.
      bind_tx (fresh_uuid e) (\<lambda>vid.
      bind_tx (createInitialVersionIdempotently (initial_version e p st vid cid (art_id (fst ac)))) (\<lambda>v.
      bind_tx (guard (version_matches p st (art_id (fst ac)) v) CONFLICT) (\<lambda>_.
      linkInstantiationIdempotently (pb_instantiation p) (sv_id v))))))))))"

definition publishInitialStates :: "env \<Rightarrow> publication \<Rightarrow> resolved_state list \<Rightarrow> (db, unit) tx" where
  "publishInitialStates e p states =
     (if states = [] then ret ()
      else bind_tx (get (instance_ids (pb_revision p))) (\<lambda>ids. for_tx states (publish_state e p ids)))"

subsection \<open>Durable instantiation\<close>

record durable_request =
  dr_id :: "string option"
  dr_request :: instantiation_request

record durable_result =
  du_outcome :: instantiation_result
  du_instantiation :: string

definition findByRequestId :: "string \<Rightarrow> db \<Rightarrow> template_instantiation option" where
  "findByRequestId i s = List.find (\<lambda>x. ti_request x = i) (instantiations s)"

definition insert_instantiation :: "template_instantiation \<Rightarrow> (db, unit) tx" where
  "insert_instantiation x = (\<lambda>s.
     if list_ex (\<lambda>y. ti_id y = ti_id x) (instantiations s) then Inl (DbViolation ''template_instantiations_pkey'')
     else if list_ex (\<lambda>y. ti_request y = ti_request x) (instantiations s)
     then Inl (DbViolation ''template_instantiations_request_id_key'')
     else if \<not> (is_object (Some (ti_parameters x)) \<and> is_object (Some (ti_configuration x)) \<and>
         is_object (Some (ti_source x)))
     then Inl (DbViolation ''template_instantiations_check'')
     else Inr ((), s\<lparr>instantiations := instantiations s @ [x]\<rparr>))"

definition instantiation_row ::
  "env \<Rightarrow> string \<Rightarrow> string \<Rightarrow> instantiation_request \<Rightarrow> instantiation_result \<Rightarrow> template_instantiation" where
  "instantiation_row e u rid r res =
     \<lparr>ti_id = u, ti_request = rid, ti_request_digest = request_digest e r, ti_region = reg_id (in_region res),
      ti_rev = rev_id (in_revision res), ti_template = tpl_id (ip_template (in_plan res)),
      ti_digest = in_digest res, ti_parameters = or_empty (ir_parameters r),
      ti_configuration = or_empty (ir_configuration r), ti_source = or_empty (ir_source r),
      ti_references = JArr (map reference_json (ip_references (in_plan res))), ti_created = in_created res\<rparr>"

definition same_outcome :: "template_instantiation \<Rightarrow> instantiation_result \<Rightarrow> bool" where
  "same_outcome x res \<longleftrightarrow> ti_region x = reg_id (in_region res) \<and> ti_rev x = rev_id (in_revision res) \<and>
     ti_template x = tpl_id (ip_template (in_plan res)) \<and> ti_digest x = in_digest res"

definition publication_of :: "string \<Rightarrow> instantiation_result \<Rightarrow> publication" where
  "publication_of iid res = \<lparr>pb_instantiation = iid, pb_region = reg_id (in_region res),
     pb_revision = rev_id (in_revision res), pb_template = tpl_id (ip_template (in_plan res))\<rparr>"

text \<open>The column is a \<open>uuid\<close>, which has no case.\<close>

definition request_id :: "env \<Rightarrow> durable_request \<Rightarrow> string" where
  "request_id e r =
     (case dr_id r of
        Some i \<Rightarrow> map to_lower i
      | None \<Rightarrow> deterministicRequestId (request_digest e (dr_request r)))"

definition durable_body ::
  "env \<Rightarrow> durable_request \<Rightarrow> template_instantiation option \<Rightarrow> (db, durable_result) tx" where
  "durable_body e r existing =
     bind_tx (\<lambda>s. of_sum (resolve_states e (ir_template (dr_request r)) (or_empty (ir_parameters (dr_request r))) s) s)
       (\<lambda>states.
     bind_tx (instantiateInTransaction e (cloned_request (dr_request r))) (\<lambda>res.
     case existing of
       Some x \<Rightarrow>
         bind_tx (guard (same_outcome x res) CONFLICT) (\<lambda>_.
         bind_tx (publishInitialStates e (publication_of (ti_id x) res) states) (\<lambda>_.
         ret \<lparr>du_outcome = res\<lparr>in_created := False\<rparr>, du_instantiation = ti_id x\<rparr>))
     | None \<Rightarrow>
         bind_tx (fresh_uuid e) (\<lambda>u.
         bind_tx (insert_instantiation (instantiation_row e u (request_id e r) (dr_request r) res)) (\<lambda>_.
         bind_tx (publishInitialStates e (publication_of u res) states) (\<lambda>_.
         ret \<lparr>du_outcome = res, du_instantiation = u\<rparr>)))))"

definition durableInstantiate :: "env \<Rightarrow> durable_request \<Rightarrow> (db, durable_result) tx" where
  "durableInstantiate e r =
     bind_tx (of_sum (validateRequestId (dr_id r))) (\<lambda>_.
     bind_tx (get (findByRequestId (request_id e r))) (\<lambda>existing.
     bind_tx (guard (case existing of None \<Rightarrow> True | Some x \<Rightarrow> ti_request_digest x = request_digest e (dr_request r))
        CONFLICT) (\<lambda>_.
     durable_body e r existing)))"

definition durable_instantiate :: "env \<Rightarrow> durable_request \<Rightarrow> (db, durable_result) io" where
  "durable_instantiate e r =
     (case validateRequestId (dr_id r) of
        Inl err \<Rightarrow> throw_io err
      | Inr _ \<Rightarrow> retry_unique (durableInstantiate e r))"

subsection \<open>Errors on the wire\<close>

definition templateInstantiationErrorCodes :: "string list" where
  "templateInstantiationErrorCodes =
     [''invalid_declaration'', ''unsupported_declaration_version'', ''duplicate_port_identity'',
      ''duplicate_ingress_target'', ''duplicate_component_instance'', ''duplicate_region_identity'',
      ''duplicate_connection'', ''component_definition_not_found'', ''component_definition_retired'',
      ''component_not_allowed'', ''template_not_found'', ''template_retired'', ''invalid_template_parameters'',
      ''invalid_component_configuration'', ''artifact_schema_not_found'', ''artifact_schema_retired'',
      ''policy_not_found'', ''policy_retired'', ''capability_not_found'', ''capability_retired'',
      ''region_not_found'', ''region_not_eligible'', ''invalid_port_reference'', ''incompatible_port_schema'',
      ''missing_required_output'', ''invalid_fan_in_rule'', ''template_instantiation_conflict'',
      ''internal_transient_failure'']"

definition exposedDomainCodes :: "string list" where
  "exposedDomainCodes = filter (\<lambda>c. c \<noteq> ''internal_transient_failure'') templateInstantiationErrorCodes"

record wire_error =
  we_code :: string
  we_retryable :: bool

definition toTemplateInstantiationError :: "error \<Rightarrow> wire_error" where
  "toTemplateInstantiationError err =
     (case err of
        DomainError code \<Rightarrow>
          if code \<in> set exposedDomainCodes then \<lparr>we_code = code, we_retryable = False\<rparr>
          else \<lparr>we_code = ''internal_transient_failure'', we_retryable = True\<rparr>
      | _ \<Rightarrow> \<lparr>we_code = ''internal_transient_failure'', we_retryable = True\<rparr>)"

subsection \<open>Applying a system\<close>

definition at_place :: "string option \<Rightarrow> string \<Rightarrow> region \<Rightarrow> bool" where
  "at_place parent name r \<longleftrightarrow> reg_parent r = parent \<and> reg_name r = name"

definition insert_region :: "region \<Rightarrow> (db, unit) tx" where
  "insert_region r = (\<lambda>s.
     if list_ex (\<lambda>x. reg_id x = reg_id r) (regions s) then Inl (DbViolation ''regions_pkey'')
     else if list_ex (\<lambda>x. reg_parent x = reg_parent r \<and> reg_name x = reg_name r) (regions s)
     then Inl (DbViolation (if reg_parent r = None then ''regions_root_name_unique'' else ''regions_child_name_unique''))
     else Inr ((), s\<lparr>regions := regions s @ [r]\<rparr>))"

definition createRegion :: "env \<Rightarrow> string \<Rightarrow> string option \<Rightarrow> (db, region) tx" where
  "createRegion e name parent =
     bind_tx (fresh_uuid e) (\<lambda>u.
     let r = \<lparr>reg_id = u, reg_parent = parent, reg_name = name, reg_status = RReady, reg_epoch = 0,
              reg_active_rev = None\<rparr> in
     bind_tx (insert_region r) (\<lambda>_. ret r))"

text \<open>The row that is found, or a new one.\<close>

definition find_or_create :: "env \<Rightarrow> string option \<Rightarrow> string \<Rightarrow> (db, region \<times> bool) tx" where
  "find_or_create e parent name =
     bind_tx (get (\<lambda>s. List.find (at_place parent name) (regions s))) (\<lambda>old.
     case old of
       Some r \<Rightarrow> ret (r, False)
     | None \<Rightarrow> bind_tx (createRegion e name parent) (\<lambda>r. ret (r, True)))"

definition budget_fields :: "json option \<Rightarrow> (string \<times> js_number option) list option" where
  "budget_fields decl =
     (case decl of
        Some (JObj kvs) \<Rightarrow> Some (map (\<lambda>(k, v). (k, case v of JNum q \<Rightarrow> Some (Finite q) | _ \<Rightarrow> None)) (entries kvs))
      | _ \<Rightarrow> None)"

definition system_source :: "env \<Rightarrow> json \<Rightarrow> json" where
  "system_source e doc = JObj [(''kind'', JStr ''system''),
     (''name'', JStr (text_of (subfield doc ''metadata'' ''name''))),
     (''version'', JStr (text_of (subfield doc ''metadata'' ''version''))),
     (''contentDigest'', JStr (json_digest e doc))]"

definition apply_region :: "env \<Rightarrow> string \<Rightarrow> json \<Rightarrow> (db, region \<times> bool) tx" where
  "apply_region e top_id decl =
     (let name = text_of (json_field decl ''id'') in
      bind_tx (find_or_create e (Some top_id) name) (\<lambda>rc.
      bind_tx (configureRegionBudgets e (reg_id (fst rc)) (Some top_id) (budget_fields (json_field decl ''budgets''))) (\<lambda>_.
      ret rc)))"

text \<open>A region whose template is not registered, or has no topology, stays as it is.\<close>

definition apply_template ::
  "env \<Rightarrow> json \<Rightarrow> json \<times> region \<Rightarrow> (db, (bool \<times> string \<times> string) option) tx" where
  "apply_template e source dr =
     (let decl = fst dr; reference = text_of (json_field decl ''template''); parts = split_on (CHR ''@'') reference in
      bind_tx (get (findTemplate (hd parts, parts ! 1))) (\<lambda>found.
      case found of
        None \<Rightarrow> ret None
      | Some t \<Rightarrow>
          bind_tx (of_sum (validateSimpleDeclaration e (tpl_template t) ''Template'')) (\<lambda>doc.
          if subfield doc ''spec'' ''initialTopology'' = None then ret None
          else bind_tx (durableInstantiate e \<lparr>dr_id = None, dr_request =
              \<lparr>ir_region = reg_id (snd dr), ir_template = reference,
               ir_parameters = Some (or_empty (json_field decl ''parameters'')),
               ir_configuration = Some (or_empty (json_field decl ''componentConfiguration'')),
               ir_source = Some source\<rparr>\<rparr>) (\<lambda>res.
            ret (Some (in_created (du_outcome res), reg_id (snd dr), in_digest (du_outcome res)))))))"

record system_result =
  sy_created :: bool
  sy_digest :: string
  sy_regions :: "region list"

definition system_digest :: "env \<Rightarrow> json \<Rightarrow> (bool \<times> string \<times> string) list \<Rightarrow> string" where
  "system_digest e source ins =
     json_digest e (JObj [(''source'', source),
       (''instantiations'', JArr (map (\<lambda>(c, r, d). JObj [(''regionId'', JStr r), (''digest'', JStr d)])
          (sort_cmp (\<lambda>a b. locale_compare e (fst (snd a)) (fst (snd b))) ins)))])"

definition applyOnce :: "env \<Rightarrow> json \<Rightarrow> (db, system_result) tx" where
  "applyOnce e doc =
     (let spec = the (json_field doc ''spec''); root_decl = the (json_field spec ''rootRegion'');
          root_name = text_of (json_field root_decl ''id''); decls = topology_items spec ''regions'';
          source = system_source e doc in
      bind_tx (find_or_create e None root_name) (\<lambda>root.
      bind_tx (configureRegionBudgets e (reg_id (fst root)) None (budget_fields (json_field root_decl ''budgets''))) (\<lambda>_.
      bind_tx (map_tx (apply_region e (reg_id (fst root))) decls) (\<lambda>rows.
      bind_tx (map_tx (apply_template e source) (zip decls (map fst rows))) (\<lambda>outs.
      let results = List.map_filter id outs in
      ret \<lparr>sy_created = (snd root \<or> list_ex snd rows \<or> list_ex fst results),
        sy_digest = system_digest e source results, sy_regions = fst root # map fst rows\<rparr>)))))"

definition applySystem :: "env \<Rightarrow> json \<Rightarrow> (db, system_result) io" where
  "applySystem e doc =
     (case validateSystemDeclaration doc of
        Inl err \<Rightarrow> throw_io err
      | Inr _ \<Rightarrow> retry_unique (applyOnce e doc))"

subsection \<open>Publishing again\<close>

text \<open>Tables that only grow.\<close>

definition grown :: "db \<Rightarrow> db \<Rightarrow> bool" where
  "grown s s' \<longleftrightarrow>
     (\<exists>new. artifacts s' = artifacts s @ new) \<and> (\<exists>new. inline_payloads s' = inline_payloads s @ new) \<and>
     (\<exists>new. state_versions s' = state_versions s @ new) \<and> set (state_links s) \<subseteq> set (state_links s')"

definition same_rest :: "db \<Rightarrow> db \<Rightarrow> bool" where
  "same_rest s s' \<longleftrightarrow> same_definitions s s' \<and> regions s' = regions s \<and>
     topology_revisions s' = topology_revisions s \<and> component_instances s' = component_instances s \<and>
     instantiations s' = instantiations s"

definition settled :: "env \<Rightarrow> publication \<Rightarrow> (string \<times> string) list \<Rightarrow> db \<Rightarrow> resolved_state \<Rightarrow> bool" where
  "settled e p ids s st \<longleftrightarrow>
     (\<exists>cid a x v. map_of ids (ini_instance st) = Some cid \<and>
       artifact_ok (artifact_row (art_id a) (state_artifact e p st)) \<and>
       lockArtifactByDigest (na_digest (state_artifact e p st)) s = Some a \<and>
       artifact_matches a (state_artifact e p st) \<and>
       List.find (\<lambda>y. inl_artifact y = art_id a) (inline_payloads s) = Some x \<and>
       canonical_text e (inl_payload x) = canonical_text e (ini_value st) \<and>
       inl_size x = na_size (state_artifact e p st) \<and>
       \<not> blank (ini_port st) \<and>
       List.find (\<lambda>y. sv_component y = cid \<and> sv_port y = ini_port st \<and> sv_number y = 1) (state_versions s) = Some v \<and>
       version_matches p st (art_id a) v \<and>
       (pb_instantiation p, sv_id v) \<in> set (state_links s))"

lemma artifact_ok_row: "artifact_ok (artifact_row i n) = artifact_ok (artifact_row j n)"
  by (simp add: artifact_ok_def artifact_row_def)

lemma settled_grown: "settled e p ids s st \<Longrightarrow> grown s s' \<Longrightarrow> settled e p ids s' st"
  unfolding settled_def grown_def lockArtifactByDigest_def by (fastforce simp: find_append_fresh)

lemma grown_refl: "grown s s" "grown s (s\<lparr>drawn := n\<rparr>)"
  by (simp_all add: grown_def)

lemma grown_trans: "grown s t \<Longrightarrow> grown t u \<Longrightarrow> grown s u"
  unfolding grown_def by (metis append.assoc subset_trans)

lemma same_rest_refl: "same_rest s s" "same_rest s (s\<lparr>drawn := n\<rparr>)"
  by (simp_all add: same_rest_def same_definitions_def)

lemma same_rest_trans: "same_rest s t \<Longrightarrow> same_rest t u \<Longrightarrow> same_rest s u"
  by (simp add: same_rest_def same_definitions_def)

lemma key_of_initial:
  "same_version_key (initial_version e p st vid cid aid) =
    (\<lambda>y. sv_component y = cid \<and> sv_port y = ini_port st \<and> sv_number y = 1)"
  by (simp add: same_version_key_def initial_version_def fun_eq_iff)

lemma createArtifact_Inr:
  assumes "createCommittedArtifactIdempotently e n s = Inr (ac, s')"
  shows "lockArtifactByDigest (na_digest n) s' = Some (fst ac)" "artifact_ok (artifact_row i n)"
    "grown s s'" "same_rest s s'" "inline_payloads s' = inline_payloads s" "state_versions s' = state_versions s"
    "state_links s' = state_links s"
  using assms artifact_ok_row [of i n]
  by (auto simp: createCommittedArtifactIdempotently_def bind_tx_Inr fresh_uuid_Inr insert_artifact_or_nothing_def
      lockArtifactByDigest_def get_Inr or_throw_Inr ret_Inr grown_def same_rest_def same_definitions_def
      not_list_ex_find find_append_fresh artifact_row_def split: if_splits option.splits)

lemma createInline_Inr:
  assumes "createInlinePayloadIdempotently p s = Inr (x, s')"
  shows "List.find (\<lambda>y. inl_artifact y = inl_artifact p) (inline_payloads s') = Some x"
    "grown s s'" "same_rest s s'" "artifacts s' = artifacts s" "state_versions s' = state_versions s"
    "state_links s' = state_links s"
  using assms
  by (auto simp: createInlinePayloadIdempotently_def grown_def same_rest_def same_definitions_def find_append_fresh
      split: if_splits option.splits)

lemma createVersion_Inr:
  assumes "createInitialVersionIdempotently v s = Inr (x, s')"
  shows "List.find (same_version_key v) (state_versions s') = Some x" "\<not> blank (sv_port v)"
    "grown s s'" "same_rest s s'" "artifacts s' = artifacts s" "inline_payloads s' = inline_payloads s"
    "state_links s' = state_links s"
  using assms
  by (auto simp: createInitialVersionIdempotently_def grown_def same_rest_def same_definitions_def find_append_fresh
      same_version_key_def split: if_splits option.splits)

lemma publish_state_Inr:
  assumes "publish_state e p ids st s = Inr (u, s')"
  shows "settled e p ids s' st" and "grown s s'" and "same_rest s s'"
proof -
  let ?n = "state_artifact e p st"
  from assms obtain cid ac s1 x s2 vid v s3 where cid: "map_of ids (ini_instance st) = Some cid"
    and a: "createCommittedArtifactIdempotently e ?n s = Inr (ac, s1)" and m: "artifact_matches (fst ac) ?n"
    and i: "createInlinePayloadIdempotently \<lparr>inl_artifact = art_id (fst ac), inl_payload = ini_value st,
        inl_size = na_size ?n\<rparr> s1 = Inr (x, s2)"
    and x: "canonical_text e (inl_payload x) = canonical_text e (ini_value st)" "inl_size x = na_size ?n"
    and v: "createInitialVersionIdempotently (initial_version e p st vid cid (art_id (fst ac)))
        (s2\<lparr>drawn := Suc (drawn s2)\<rparr>) = Inr (v, s3)"
    and vm: "version_matches p st (art_id (fst ac)) v"
    and s': "s' = (if (pb_instantiation p, sv_id v) \<in> set (state_links s3) then s3
      else s3\<lparr>state_links := state_links s3 @ [(pb_instantiation p, sv_id v)]\<rparr>)"
    by (auto simp: publish_state_def Let_def bind_tx_Inr or_throw_Inr assertArtifactIdentity_def guard_Inr
        fresh_uuid_Inr linkInstantiationIdempotently_def modify_Inr)
  note A = createArtifact_Inr [OF a] and I = createInline_Inr [OF i] and V = createVersion_Inr [OF v]
  have end1: "artifacts s' = artifacts s3" "inline_payloads s' = inline_payloads s3" "state_versions s' = state_versions s3"
    "(pb_instantiation p, sv_id v) \<in> set (state_links s')" "grown s3 s'" "same_rest s3 s'"
    by (auto simp: s' grown_def same_rest_def same_definitions_def)
  show "settled e p ids s' st"
    unfolding settled_def
    by (rule exI [of _ cid], rule exI [of _ "fst ac"], rule exI [of _ x], rule exI [of _ v])
      (use cid m x vm end1 A(1,2) I(1,4) V(1) [unfolded key_of_initial]
          V(2) [unfolded initial_version_def] V(5,6) in \<open>simp add: lockArtifactByDigest_def\<close>)
  have drawn: "grown s2 (s2\<lparr>drawn := Suc (drawn s2)\<rparr>)" "same_rest s2 (s2\<lparr>drawn := Suc (drawn s2)\<rparr>)"
    by (rule grown_refl same_rest_refl)+
  show "grown s s'" using A(3) I(2) drawn(1) V(3) end1(5) by (blast intro: grown_trans)
  show "same_rest s s'" using A(4) I(3) drawn(2) V(4) end1(6) by (blast intro: same_rest_trans)
qed

lemma publish_settled:
  assumes "settled e p ids s st"
  shows "publish_state e p ids st s = Inr ((), s\<lparr>drawn := Suc (Suc (drawn s))\<rparr>)"
proof -
  let ?n = "state_artifact e p st"
  from assms obtain cid a x v where cid: "map_of ids (ini_instance st) = Some cid"
    and ok: "artifact_ok (artifact_row (art_id a) ?n)"
    and a: "lockArtifactByDigest (na_digest ?n) s = Some a" "artifact_matches a ?n"
    and x: "List.find (\<lambda>y. inl_artifact y = art_id a) (inline_payloads s) = Some x"
      "canonical_text e (inl_payload x) = canonical_text e (ini_value st)" "inl_size x = na_size ?n"
    and port: "\<not> blank (ini_port st)"
    and v: "List.find (\<lambda>y. sv_component y = cid \<and> sv_port y = ini_port st \<and> sv_number y = 1) (state_versions s) = Some v"
      "version_matches p st (art_id a) v"
    and link: "(pb_instantiation p, sv_id v) \<in> set (state_links s)"
    unfolding settled_def by blast
  have "list_ex (\<lambda>b. art_digest b = na_digest ?n) (artifacts s)"
    using a(1) by (auto simp: lockArtifactByDigest_def list_ex_iff dest!: find_Some_mem)
  moreover have "artifact_ok (artifact_row i ?n)" for i using ok artifact_ok_row by metis
  ultimately have art: "createCommittedArtifactIdempotently e ?n s = Inr ((a, False), s\<lparr>drawn := Suc (drawn s)\<rparr>)"
    using a(1) by (simp add: createCommittedArtifactIdempotently_def tx_simps fresh_uuid_def insert_artifact_or_nothing_def
        lockArtifactByDigest_def artifact_row_def)
  let ?t = "s\<lparr>drawn := Suc (drawn s)\<rparr>"
  have "createInlinePayloadIdempotently \<lparr>inl_artifact = art_id a, inl_payload = ini_value st, inl_size = na_size ?n\<rparr> ?t
      = Inr (x, ?t)"
    using x(1) by (simp add: createInlinePayloadIdempotently_def)
  moreover have "createInitialVersionIdempotently (initial_version e p st vid cid (art_id a)) t = Inr (v, t)"
    if "state_versions t = state_versions s" for vid t
    using v(1) port that by (simp add: createInitialVersionIdempotently_def key_of_initial)
      (simp add: initial_version_def)
  ultimately show ?thesis
    using cid art a(2) x(2,3) v(2) link
    by (simp add: publish_state_def Let_def tx_simps assertArtifactIdentity_def fresh_uuid_def
        linkInstantiationIdempotently_def)
qed

lemma publish_all_Inr:
  assumes "for_tx states (publish_state e p ids) s = Inr (u, s')"
  shows "(\<forall>st\<in>set states. settled e p ids s' st) \<and> grown s s' \<and> same_rest s s'"
  using assms
proof (induction states arbitrary: s)
  case Nil
  then show ?case by (simp add: ret_Inr grown_refl same_rest_refl)
next
  case (Cons st states)
  then obtain t x where one: "publish_state e p ids st s = Inr (x, t)"
    and rest: "for_tx states (publish_state e p ids) t = Inr (u, s')" by (auto simp: bind_tx_Inr)
  note P = publish_state_Inr [OF one] and IH = Cons.IH [OF rest]
  have "settled e p ids s' st" using P(1) IH by (blast intro: settled_grown)
  moreover have "grown s s'" "same_rest s s'"
    using P(2,3) IH by (blast intro: grown_trans same_rest_trans)+
  ultimately show ?case using IH by simp
qed

lemma settled_drawn: "settled e p ids (s\<lparr>drawn := n\<rparr>) st = settled e p ids s st"
  by (simp add: settled_def lockArtifactByDigest_def)

lemma publish_all_settled:
  assumes "\<forall>st\<in>set states. settled e p ids s st"
  shows "\<exists>n. for_tx states (publish_state e p ids) s = Inr ((), s\<lparr>drawn := n\<rparr>)"
  using assms
proof (induction states arbitrary: s)
  case Nil
  have "s = s\<lparr>drawn := drawn s\<rparr>" by simp
  then show ?case by (intro exI [of _ "drawn s"]) (simp add: ret_app)
next
  case (Cons st states)
  from Cons.prems have "\<forall>st\<in>set states. settled e p ids (s\<lparr>drawn := Suc (Suc (drawn s))\<rparr>) st"
    by (simp add: settled_drawn)
  from Cons.IH [OF this] show ?case using publish_settled [of e p ids s st] Cons.prems by (simp add: bind_tx_app)
qed

lemma resolve_states_cong:
  assumes "same_definitions s s'"
  shows "resolve_states e reference ps s' = resolve_states e reference ps s"
proof -
  have "resolve_state e s' ps j = resolve_state e s ps j" for j
    by (simp add: resolve_state_def resolve_definition_def same_definitions_reads [OF assms]
        cong: option.case_cong prod.case_cong)
  then have "resolve_state e s' ps = resolve_state e s ps" by (rule ext)
  then show ?thesis by (simp add: resolve_states_def live_template_def same_definitions_reads [OF assms])
qed

lemma instantiate_keeps:
  assumes "instantiateInTransaction e r s = Inr (res, s')"
  shows "untouched s s'"
  using assms unfolding instantiate_Inr
  by (auto simp: untouched_def same_definitions_def split: option.splits elim!: write_topology_Inr)

lemma publish_states_Inr:
  assumes "publishInitialStates e p states s = Inr (u, s')"
  shows "same_rest s s'" and "\<exists>n. publishInitialStates e p states s' = Inr ((), s'\<lparr>drawn := n\<rparr>)"
proof -
  have "same_rest s s' \<and> (\<exists>n. publishInitialStates e p states s' = Inr ((), s'\<lparr>drawn := n\<rparr>))"
  proof (cases "states = []")
    case True
    with assms show ?thesis
      by (auto simp: publishInitialStates_def ret_Inr ret_app same_rest_refl intro: exI [of _ "drawn s"])
  next
    case False
    with assms have run: "for_tx states (publish_state e p (instance_ids (pb_revision p) s)) s = Inr (u, s')"
      by (simp add: publishInitialStates_def bind_tx_app get_app)
    note all = publish_all_Inr [OF run]
    then have "instance_ids (pb_revision p) s' = instance_ids (pb_revision p) s"
      by (simp add: instance_ids_def same_rest_def)
    with all publish_all_settled [of states e p "instance_ids (pb_revision p) s" s'] False show ?thesis
      by (simp add: publishInitialStates_def bind_tx_app get_app)
  qed
  then show "same_rest s s'" "\<exists>n. publishInitialStates e p states s' = Inr ((), s'\<lparr>drawn := n\<rparr>)" by simp_all
qed

lemma durable_Inr:
  assumes "durableInstantiate e r s = Inr (res, s')"
  obtains states out s1 x where "validateRequestId (dr_id r) = Inr ()"
    and "resolve_states e (ir_template (dr_request r)) (or_empty (ir_parameters (dr_request r))) s = Inr states"
    and "instantiateInTransaction e (cloned_request (dr_request r)) s = Inr (out, s1)"
    and "same_outcome x out" and "ti_request_digest x = request_digest e (dr_request r)"
    and "findByRequestId (request_id e r) s' = Some x"
    and "findByRequestId (request_id e r) s \<noteq> None \<longrightarrow> findByRequestId (request_id e r) s = Some x \<and> \<not> in_created (du_outcome res)"
    and "\<exists>n. publishInitialStates e (publication_of (ti_id x) out) states s' = Inr ((), s'\<lparr>drawn := n\<rparr>)"
    and "same_definitions s s'" and "same_definitions s1 s'" and "regions s' = regions s1"
    and "topology_revisions s' = topology_revisions s1"
    and "du_instantiation res = ti_id x" and "\<exists>b. du_outcome res = out\<lparr>in_created := b\<rparr>"
proof -
  let ?q = "dr_request r" and ?find = "findByRequestId (request_id e r)"
  from assms obtain states out s1 where valid: "validateRequestId (dr_id r) = Inr ()"
    and states: "resolve_states e (ir_template ?q) (or_empty (ir_parameters ?q)) s = Inr states"
    and run: "instantiateInTransaction e (cloned_request ?q) s = Inr (out, s1)"
    and known: "\<And>x. ?find s = Some x \<Longrightarrow> ti_request_digest x = request_digest e ?q"
    and body: "durable_body e r (?find s) s = Inr (res, s')"
    by (auto simp: durableInstantiate_def durable_body_def bind_tx_Inr of_sum_Inr get_Inr guard_Inr split: option.splits)
  note keeps = instantiate_keeps [OF run]
  show ?thesis
  proof (cases "?find s")
    case (Some x)
    with body states run have same: "same_outcome x out"
      and pub: "publishInitialStates e (publication_of (ti_id x) out) states s1 = Inr ((), s')"
      and res: "res = \<lparr>du_outcome = out\<lparr>in_created := False\<rparr>, du_instantiation = ti_id x\<rparr>"
      by (auto simp: durable_body_def bind_tx_Inr of_sum_Inr guard_Inr ret_Inr)
    note P = publish_states_Inr [OF pub]
    have "?find s' = Some x" using Some keeps P(1) by (simp add: findByRequestId_def same_rest_def untouched_def same_definitions_def)
    with Some same known res valid states run keeps P show ?thesis
      by (intro that [of states out s1 x]) (auto simp: same_rest_def untouched_def same_definitions_def)
  next
    case None
    with body states run obtain u s2 where
      ins: "insert_instantiation (instantiation_row e u (request_id e r) ?q out) (s1\<lparr>drawn := Suc (drawn s1)\<rparr>) = Inr ((), s2)"
      and pub: "publishInitialStates e (publication_of u out) states s2 = Inr ((), s')"
      and res: "res = \<lparr>du_outcome = out, du_instantiation = u\<rparr>"
      by (auto simp: durable_body_def bind_tx_Inr of_sum_Inr ret_Inr fresh_uuid_Inr)
    let ?x = "instantiation_row e u (request_id e r) ?q out"
    note P = publish_states_Inr [OF pub]
    from ins have s2: "instantiations s2 = instantiations s1 @ [?x]" "regions s2 = regions s1"
      "topology_revisions s2 = topology_revisions s1"
      "templates s2 = templates s1" "component_definitions s2 = component_definitions s1"
      "port_definitions s2 = port_definitions s1" "artifact_schemas s2 = artifact_schemas s1"
      "policies s2 = policies s1" "capabilities s2 = capabilities s1"
      by (auto simp: insert_instantiation_def split: if_splits)
    have "?find s' = Some ?x"
      using None keeps P(1) s2(1)
      by (simp add: findByRequestId_def same_rest_def untouched_def same_definitions_def find_append_fresh instantiation_row_def)
    moreover have "same_outcome ?x out" "ti_request_digest ?x = request_digest e ?q" "ti_id ?x = u"
      by (simp_all add: same_outcome_def instantiation_row_def)
    moreover have "\<exists>b. du_outcome res = out\<lparr>in_created := b\<rparr>"
      by (rule exI [of _ "in_created out"]) (simp add: res)
    ultimately show ?thesis
      using None res valid states run keeps P s2
      by (intro that [of states out s1 ?x]) (auto simp: same_rest_def untouched_def same_definitions_def)
  qed
qed

text \<open>C29. A durable request takes effect once. When it has succeeded, sending it again reports the same
  instantiation as existing, with the same revision and digest, and changes no table, the initial states
  included; a request with the same identifier and other content is refused as a conflict.
\<close>

theorem durable_idempotent:
  assumes "durableInstantiate e r s = Inr (res, s')"
  shows "(\<exists>n rgn. durableInstantiate e r s' =
      Inr (\<lparr>du_outcome = (du_outcome res)\<lparr>in_created := False, in_region := rgn\<rparr>,
             du_instantiation = du_instantiation res\<rparr>, s'\<lparr>drawn := n\<rparr>)) \<and>
    (\<forall>r'. validateRequestId (dr_id r') = Inr () \<longrightarrow> request_id e r' = request_id e r \<longrightarrow>
      request_digest e (dr_request r') \<noteq> request_digest e (dr_request r) \<longrightarrow>
      durableInstantiate e r' s' = Inl CONFLICT)"
proof -
  let ?q = "dr_request r"
  from assms obtain states out s1 x where valid: "validateRequestId (dr_id r) = Inr ()"
    and states: "resolve_states e (ir_template ?q) (or_empty (ir_parameters ?q)) s = Inr states"
    and run: "instantiateInTransaction e (cloned_request ?q) s = Inr (out, s1)"
    and same: "same_outcome x out" and digest: "ti_request_digest x = request_digest e ?q"
    and found: "findByRequestId (request_id e r) s' = Some x"
    and pub: "\<exists>n. publishInitialStates e (publication_of (ti_id x) out) states s' = Inr ((), s'\<lparr>drawn := n\<rparr>)"
    and defs: "same_definitions s s'" "same_definitions s1 s'"
    and regs: "regions s' = regions s1" "topology_revisions s' = topology_revisions s1"
    and id: "du_instantiation res = ti_id x" and outcome: "\<exists>b. du_outcome res = out\<lparr>in_created := b\<rparr>"
    by (rule durable_Inr)
  from instantiate_again [OF run defs(2) regs] obtain rgn where rgn: "reg_id rgn = reg_id (in_region out)"
    and again: "instantiateInTransaction e (cloned_request ?q) s' = Inr (out\<lparr>in_created := False, in_region := rgn\<rparr>, s')"
    by blast
  let ?out = "out\<lparr>in_created := False, in_region := rgn\<rparr>"
  have "same_outcome x ?out" using same rgn by (simp add: same_outcome_def)
  moreover have "publication_of (ti_id x) ?out = publication_of (ti_id x) out"
    using rgn by (simp add: publication_of_def)
  moreover obtain n where "publishInitialStates e (publication_of (ti_id x) out) states s' = Inr ((), s'\<lparr>drawn := n\<rparr>)"
    using pub by blast
  moreover have "resolve_states e (ir_template ?q) (or_empty (ir_parameters ?q)) s' = Inr states"
    using resolve_states_cong [OF defs(1)] states by simp
  ultimately have "durableInstantiate e r s' =
      Inr (\<lparr>du_outcome = ?out, du_instantiation = ti_id x\<rparr>, s'\<lparr>drawn := n\<rparr>)"
    using valid found digest again
    by (simp add: durableInstantiate_def durable_body_def tx_simps)
  moreover have "?out = (du_outcome res)\<lparr>in_created := False, in_region := rgn\<rparr>" using outcome by auto
  ultimately have "durableInstantiate e r s' =
      Inr (\<lparr>du_outcome = (du_outcome res)\<lparr>in_created := False, in_region := rgn\<rparr>,
             du_instantiation = du_instantiation res\<rparr>, s'\<lparr>drawn := n\<rparr>)" by (simp add: id)
  moreover have "durableInstantiate e r' s' = Inl CONFLICT"
    if "validateRequestId (dr_id r') = Inr ()" "request_id e r' = request_id e r"
      "request_digest e (dr_request r') \<noteq> request_digest e ?q" for r'
    using that found digest by (simp add: durableInstantiate_def tx_simps)
  ultimately show ?thesis by blast
qed

lemma durable_publishes:
  assumes "durableInstantiate e r s = Inr (res, s')"
    and "resolve_states e (ir_template (dr_request r)) (or_empty (ir_parameters (dr_request r))) s = Inr states"
  shows "\<exists>p t. artifacts t = artifacts s \<and> publishInitialStates e p states t = Inr ((), s')"
proof -
  from assms obtain out s1 where run: "instantiateInTransaction e (cloned_request (dr_request r)) s = Inr (out, s1)"
    and body: "durable_body e r (findByRequestId (request_id e r) s) s = Inr (res, s')"
    by (auto simp: durableInstantiate_def durable_body_def bind_tx_Inr of_sum_Inr get_Inr guard_Inr split: option.splits)
  have "artifacts s1 = artifacts s" using instantiate_keeps [OF run] by (simp add: untouched_def)
  show ?thesis
  proof (cases "findByRequestId (request_id e r) s")
    case (Some x)
    with body assms(2) run have "publishInitialStates e (publication_of (ti_id x) out) states s1 = Inr ((), s')"
      by (auto simp: durable_body_def bind_tx_Inr of_sum_Inr guard_Inr ret_Inr)
    with \<open>artifacts s1 = artifacts s\<close> show ?thesis by blast
  next
    case None
    with body assms(2) run obtain u s2 where
      ins: "insert_instantiation (instantiation_row e u (request_id e r) (dr_request r) out)
        (s1\<lparr>drawn := Suc (drawn s1)\<rparr>) = Inr ((), s2)"
      and pub: "publishInitialStates e (publication_of u out) states s2 = Inr ((), s')"
      by (auto simp: durable_body_def bind_tx_Inr of_sum_Inr ret_Inr fresh_uuid_Inr)
    from ins have "artifacts s2 = artifacts s1" by (auto simp: insert_instantiation_def split: if_splits)
    with \<open>artifacts s1 = artifacts s\<close> pub show ?thesis by metis
  qed
qed

text \<open>C33. Content is stored under one schema. When the store holds an artifact with the content of an initial
  state under another schema, which another template or an execution may have published, the template can
  not be instantiated: equal values of different schemas exclude each other.
\<close>

theorem initial_state_excluded:
  assumes "resolve_states e (ir_template (dr_request r)) (or_empty (ir_parameters (dr_request r))) s = Inr states"
    and "st \<in> set states" and "lockArtifactByDigest (json_digest e (ini_value st)) s = Some a"
    and "art_schema a \<noteq> ini_schema st"
  shows "\<exists>err. durableInstantiate e r s = Inl err"
proof (rule ccontr)
  assume "\<not> ?thesis"
  then obtain res s' where run: "durableInstantiate e r s = Inr (res, s')"
    by (cases "durableInstantiate e r s") auto
  from durable_publishes [OF run assms(1)] obtain p t where t: "artifacts t = artifacts s"
    and pub: "publishInitialStates e p states t = Inr ((), s')" by blast
  from assms(2) have "states \<noteq> []" by auto
  with pub have "for_tx states (publish_state e p (instance_ids (pb_revision p) t)) t = Inr ((), s')"
    by (simp add: publishInitialStates_def bind_tx_app get_app)
  note all = publish_all_Inr [OF this]
  then obtain a' where "lockArtifactByDigest (json_digest e (ini_value st)) s' = Some a'" "art_schema a' = ini_schema st"
    using assms(2) by (fastforce simp: settled_def artifact_matches_def state_artifact_def Let_def)
  moreover have "lockArtifactByDigest (json_digest e (ini_value st)) s' = Some a"
    using all assms(3) t by (auto simp: grown_def lockArtifactByDigest_def find_append_fresh)
  ultimately show False using assms(4) by simp
qed

subsection \<open>Every domain error has a code on the wire\<close>

definition exposed :: "error + 'a \<Rightarrow> bool" where
  "exposed v \<longleftrightarrow> (\<forall>c. v = Inl (DomainError c) \<longrightarrow> c \<in> set exposedDomainCodes)"

lemma exposed_Inr [simp, intro]: "exposed (Inr x)"
  by (simp add: exposed_def)

lemma exposed_plain [simp, intro]: "exposed (Inl (PlainError m))" "exposed (Inl (DbViolation m))"
  by (simp_all add: exposed_def)

lemma exposed_domain [simp]: "exposed (Inl (DomainError c)) \<longleftrightarrow> c \<in> set exposedDomainCodes"
  by (simp add: exposed_def)

lemma exposed_and_then [intro!]:
  assumes "exposed v" and "\<And>x. exposed (f x)"
  shows "exposed (and_then v f)"
  using assms by (cases v) (auto simp: and_then_def exposed_def)

lemma exposed_require [intro!]: "c \<in> set exposedDomainCodes \<Longrightarrow> exposed (require b c)"
  by (simp add: require_def)

lemma exposed_some_or [intro!]: "c \<in> set exposedDomainCodes \<Longrightarrow> exposed (some_or v c)"
  by (cases v) (simp_all add: some_or_def)

lemma exposed_map_sum [intro!]: "exposed v \<Longrightarrow> exposed (map_sum id f v)"
  by (cases v) (simp_all add: exposed_def)

lemma exposed_sequence [intro]: "(\<And>v. v \<in> set vs \<Longrightarrow> exposed v) \<Longrightarrow> exposed (sequence vs)"
  by (induction vs) auto

lemma exposed_if [intro!]: "exposed a \<Longrightarrow> exposed b \<Longrightarrow> exposed (if c then a else b)"
  by simp

lemma exposed_option [intro!]: "exposed a \<Longrightarrow> (\<And>y. exposed (b y)) \<Longrightarrow> exposed (case x of None \<Rightarrow> a | Some y \<Rightarrow> b y)"
  by (cases x) auto

lemma exposed_json [intro!]:
  assumes "exposed a" "\<And>b. exposed (f b)" "\<And>q. exposed (g q)" "\<And>t. exposed (h t)" "\<And>xs. exposed (i xs)" "\<And>kvs. exposed (j kvs)"
  shows "exposed (case v of JNull \<Rightarrow> a | JBool b \<Rightarrow> f b | JNum q \<Rightarrow> g q | JStr t \<Rightarrow> h t | JArr xs \<Rightarrow> i xs | JObj kvs \<Rightarrow> j kvs)"
  using assms by (cases v) auto

lemma exposed_prod [intro!]: "(\<And>a b. exposed (f a b)) \<Longrightarrow> exposed (case p of (a, b) \<Rightarrow> f a b)"
  by (cases p) auto

lemma exposed_codes [simp, intro!]:
  "''invalid_declaration'' \<in> set exposedDomainCodes" "''unsupported_declaration_version'' \<in> set exposedDomainCodes"
  "''duplicate_port_identity'' \<in> set exposedDomainCodes" "''duplicate_ingress_target'' \<in> set exposedDomainCodes"
  "''duplicate_component_instance'' \<in> set exposedDomainCodes" "''duplicate_connection'' \<in> set exposedDomainCodes"
  "''component_definition_not_found'' \<in> set exposedDomainCodes" "''component_definition_retired'' \<in> set exposedDomainCodes"
  "''component_not_allowed'' \<in> set exposedDomainCodes" "''template_not_found'' \<in> set exposedDomainCodes"
  "''template_retired'' \<in> set exposedDomainCodes" "''invalid_template_parameters'' \<in> set exposedDomainCodes"
  "''invalid_component_configuration'' \<in> set exposedDomainCodes" "''artifact_schema_not_found'' \<in> set exposedDomainCodes"
  "''artifact_schema_retired'' \<in> set exposedDomainCodes" "''policy_not_found'' \<in> set exposedDomainCodes"
  "''policy_retired'' \<in> set exposedDomainCodes" "''capability_not_found'' \<in> set exposedDomainCodes"
  "''capability_retired'' \<in> set exposedDomainCodes" "''region_not_found'' \<in> set exposedDomainCodes"
  "''region_not_eligible'' \<in> set exposedDomainCodes" "''invalid_port_reference'' \<in> set exposedDomainCodes"
  "''incompatible_port_schema'' \<in> set exposedDomainCodes" "''missing_required_output'' \<in> set exposedDomainCodes"
  "''invalid_fan_in_rule'' \<in> set exposedDomainCodes" "''template_instantiation_conflict'' \<in> set exposedDomainCodes"
  by code_simp+

lemma exposed_references [intro!]:
  "exposed (requireReference v)" "exposed (requireEndpoint v)" "exposed (requireNonEmptyString v)"
  "exposed (require_object v)" "exposed (split_last c s)" "exposed (parseRef s)" "exposed (endpoint s)"
  "exposed (iterate v)" "exposed (reference_text e j)"
  by (auto simp: requireReference_def requireEndpoint_def requireNonEmptyString_def require_object_def split_last_def
      Let_def parseRef_def endpoint_def iterate_def reference_text_def)

lemma exposed_envelope [intro!]: "exposed (requireEnvelope doc kind)"
  by (auto simp: requireEnvelope_def)

lemma exposed_instances [intro!]: "exposed (check_instances js names)"
  by (induction js arbitrary: names) auto

lemma exposed_targets [intro!]: "exposed (check_targets names ts seen)"
  by (induction ts arbitrary: seen) auto

lemma exposed_connections [intro!]: "exposed (check_connections cs)"
  by (induction cs) auto

lemma exposed_rules [intro!]: "exposed (check_rules names krs)"
  by (induction krs) auto

lemma exposed_topology [intro!]: "exposed (validateStaticTopology e topology)"
  by (auto simp: validateStaticTopology_def check_ingress_def)

lemma exposed_declaration [intro!]: "exposed (validateSimpleDeclaration e doc kind)"
  by (auto simp: validateSimpleDeclaration_def Let_def)

lemma exposed_parameter [intro!]: "exposed (and_then (parameterValue ps path) structuredClone)"
proof -
  have "exposed (js_walk parts v)" for parts v
    by (induction parts arbitrary: v) auto
  then have "exposed (parameterValue ps path)" by (simp add: parameterValue_def)
  moreover have "exposed (structuredClone v)" for v by (cases v) (auto simp: structuredClone_def)
  ultimately show ?thesis by auto
qed

lemma exposed_bind [intro!]: "exposed (bindParameters ps j)"
proof (induction ps j rule: bindParameters.induct)
  case (1 ps js)
  then show ?case by (auto intro!: exposed_sequence)
next
  case (2 ps kvs)
  have "exposed (bindParameters ps v)" if "(k, v) \<in> set kvs" and "bound_parameter kvs = None" for k v
    using 2 that by auto
  then show ?case by (auto intro!: exposed_sequence split: option.split)
qed auto

lemma exposed_live [intro!]: "exposed (live_schema found)" "exposed (live_template reference s)"
  "exposed (resolve_definition component s)" "exposed (resolveSchemaContract r s)"
  "exposed (policy_reference e j s)" "exposed (capability_reference e j s)"
proof -
  show schema: "exposed (live_schema found)" for found by (auto simp: live_schema_def)
  show "exposed (live_template reference s)" "exposed (resolve_definition component s)"
    "exposed (policy_reference e j s)" "exposed (capability_reference e j s)"
    by (auto simp: live_template_def resolve_definition_def policy_reference_def capability_reference_def)
  show "exposed (resolveSchemaContract r s)"
    using schema by (auto simp: resolveSchemaContract_def parseSchemaRef_def)
qed

lemma exposed_configuration [intro!]:
  "exposed (base_configuration ps j)" "exposed (override_configuration ps overrides name)"
proof -
  show "exposed (base_configuration ps j)" by (auto simp: base_configuration_def)
  show "exposed (override_configuration ps overrides name)"
    by (auto simp: override_configuration_def split: option.split js_place.split)
qed

lemma exposed_resolve_instance [intro!]: "exposed (resolve_instance e s ps ov al j)"
  by (auto simp: resolve_instance_def Let_def intro!: exposed_sequence)

lemma exposed_boundaries [intro!]: "exposed (resolve_boundaries s bs acc)"
  by (induction bs arbitrary: acc) auto

lemma exposed_resolve_all [intro!]: "exposed (resolve_all e s t spec topology ps ov)"
  by (auto simp: resolve_all_def completion_references_def intro!: exposed_sequence)

lemma exposed_connect_all [intro!]: "exposed (connect_all instances ins outs cs w)"
  by (induction cs arbitrary: w)
    (auto simp: connect_def Let_def from_region_def to_region_def between_def)

lemma exposed_ingress [intro!]: "exposed (check_ingress_targets instances ts seen)"
  by (induction ts arbitrary: seen) auto

lemma exposed_fan_in [intro!]: "exposed (check_fan_in instances counts rs seen)"
  by (induction rs arbitrary: seen) auto

lemma exposed_wiring [intro!]: "exposed (check_wiring spec topology rs)"
  by (auto simp: check_wiring_def check_ingress_ports_def intro!: exposed_sequence)

lemma exposed_document [intro!]: "exposed (template_document e t)"
  by (auto simp: template_document_def validateResourceDeclarations_def resource_section_def)

lemma exposed_parameters [intro!]: "exposed (validateParameterSchema e schema ps)"
  by (auto simp: validateParameterSchema_def)

lemma exposed_overrides [intro!]: "exposed (check_overrides topology overrides)"
  by (auto simp: check_overrides_def intro!: exposed_sequence)

lemma exposed_effective [intro!]: "exposed (effective_topology doc topology ps instances rec)"
  by (auto simp: effective_topology_def Let_def)

lemma exposed_plan [intro!]: "exposed (make_plan e r s)"
  by (auto simp: make_plan_def Let_def)

lemma exposed_states [intro!]: "exposed (resolve_states e reference ps s)"
proof -
  have "exposed (initialStateDeclaration j)" for j by (auto simp: initialStateDeclaration_def)
  then have "exposed (resolve_state e s ps j)" for j
    by (auto simp: resolve_state_def split: option.split)
  then show ?thesis by (auto simp: resolve_states_def intro!: exposed_sequence)
qed

subsection \<open>Transactions that fail\<close>

lemma exposed_bind_tx [intro!]:
  assumes "exposed (m s)" and "\<And>x t. exposed (f x t)"
  shows "exposed (bind_tx m f s)"
  using assms by (auto simp: bind_tx_app exposed_def split: sum.splits prod.splits)

lemma exposed_basic [intro!]:
  "exposed (ret x s)" "exposed (get g s)" "exposed (modify h s)" "exposed (fresh_uuid e t)"
  "c \<in> set exposedDomainCodes \<Longrightarrow> exposed (guard b (DomainError c) s)"
  "c \<in> set exposedDomainCodes \<Longrightarrow> exposed (or_throw o' (DomainError c) s)"
  by (auto simp: tx_simps fresh_uuid_def exposed_def split: sum.splits option.splits)

lemma exposed_of_sum [simp]: "exposed (of_sum v s) = exposed v"
  by (auto simp: of_sum_app exposed_def split: sum.splits)

lemma exposed_loops [intro]:
  "(\<And>x t. exposed (f x t)) \<Longrightarrow> exposed (for_tx xs f s)"
  "(\<And>x t. exposed (g x t)) \<Longrightarrow> exposed (map_tx g xs s)"
  by (induction xs arbitrary: s) auto

lemma exposed_write [intro!]: "exposed (write_topology e rgn p s)"
proof -
  have "exposed (createRevision e region digest topology t)" for region digest topology t
    by (auto simp: createRevision_def insert_revision_def Let_def)
  moreover have "exposed (createInstance e region rid i t)" for region rid i t
    by (auto simp: createInstance_def insert_instance_def)
  moreover have "exposed (createConnection e rid ids c t)" for rid ids c t
    by (auto simp: createConnection_def insert_connection_def)
  ultimately show ?thesis by (auto simp: write_topology_def activate_def intro!: exposed_loops)
qed

lemma exposed_instantiate [intro!]: "exposed (instantiateInTransaction e r s)"
proof -
  have "exposed (validateRequest r)" by (auto simp: validateRequest_def optional_object_def)
  then show ?thesis by (auto simp: instantiateInTransaction_def split: option.split)
qed

lemma exposed_publish [intro!]: "exposed (publishInitialStates e p states s)"
proof -
  have "exposed (createCommittedArtifactIdempotently e n t)" for n t
    by (auto simp: createCommittedArtifactIdempotently_def insert_artifact_or_nothing_def exposed_def tx_simps
        fresh_uuid_def split: option.splits if_splits sum.splits)
  moreover have "exposed (createInlinePayloadIdempotently x t)" for x t
    by (auto simp: createInlinePayloadIdempotently_def split: option.split)
  moreover have "exposed (createInitialVersionIdempotently v t)" for v t
    by (auto simp: createInitialVersionIdempotently_def split: option.split)
  ultimately have "exposed (publish_state e p ids st t)" for ids st t
    by (auto simp: publish_state_def Let_def assertArtifactIdentity_def linkInstantiationIdempotently_def CONFLICT_def)
  then show ?thesis by (auto simp: publishInitialStates_def intro!: exposed_loops)
qed

lemma exposed_durable: "exposed (durableInstantiate e r s)"
proof -
  have "exposed (durable_body e r existing t)" for existing t
    by (auto simp: durable_body_def CONFLICT_def insert_instantiation_def split: option.split)
  moreover have "exposed (validateRequestId i)" for i by (auto simp: validateRequestId_def)
  ultimately show ?thesis by (auto simp: durableInstantiate_def CONFLICT_def)
qed

text \<open>C32. A request that is wrong is never reported as one to retry: every domain error with which a durable
  instantiation fails, in whichever of its steps, keeps its code on the wire and is marked as final.
\<close>

theorem domain_errors_exposed:
  assumes "durableInstantiate e r s = Inl (DomainError c)"
  shows "toTemplateInstantiationError (DomainError c) = \<lparr>we_code = c, we_retryable = False\<rparr>"
  using exposed_durable [of e r s] assms by (simp add: exposed_def toTemplateInstantiationError_def)

text \<open>A parameter path that names what every object inherits ends the request with an error that is
  no domain error, so that it is reported as transient although it will fail in the same way for ever.
\<close>

theorem inherited_parameter_transient:
  assumes "path \<in> set object_methods" and "parameter_path path = [path]" and "map_of kvs path = None"
  shows "\<exists>err. bindParameters (JObj kvs) (JObj [(''$parameter'', JStr path)]) = Inl err \<and>
    toTemplateInstantiationError err = \<lparr>we_code = ''internal_transient_failure'', we_retryable = True\<rparr>"
proof -
  have "path \<noteq> ''__proto__''" using assms(1) by (auto simp: object_methods_def)
  then have "bindParameters (JObj kvs) (JObj [(''$parameter'', JStr path)]) = Inl (PlainError ''DataCloneError'')"
    using assms by (simp add: bound_parameter_def parameterValue_def js_in_def Let_def some_or_def and_then_def
        structuredClone_def)
  then show ?thesis by (simp add: toTemplateInstantiationError_def)
qed

subsection \<open>Applying a system again\<close>

definition place_keys :: "db \<Rightarrow> (string \<times> string option \<times> string) list" where
  "place_keys s = map (\<lambda>r. (reg_id r, reg_parent r, reg_name r)) (regions s)"

definition placed :: "(string \<times> string option \<times> string) list \<Rightarrow> string option \<Rightarrow> string \<Rightarrow> string option" where
  "placed ks parent name = map_option fst (List.find (\<lambda>k. snd k = (parent, name)) ks)"

lemma placed_find: "placed (place_keys s) parent name = map_option reg_id (List.find (at_place parent name) (regions s))"
proof -
  have "map_option fst (List.find (\<lambda>k. snd k = (parent, name)) (map (\<lambda>r. (reg_id r, reg_parent r, reg_name r)) rs))
      = map_option reg_id (List.find (at_place parent name) rs)" for rs
    by (induction rs) (auto simp: at_place_def)
  then show ?thesis by (simp add: placed_def place_keys_def)
qed

lemma placed_append: "placed ks parent name = Some i \<Longrightarrow> placed (ks @ new) parent name = Some i"
  by (auto simp: placed_def find_append_fresh split: option.splits)

abbreviation keeps_places :: "(string \<times> string option \<times> string) list \<Rightarrow> (db, 'a) tx \<Rightarrow> bool" where
  "keeps_places ks \<equiv> keeps (\<lambda>s. place_keys s = ks)"

lemma keeps_places_fresh [intro!]: "keeps_places ks (fresh_uuid e)"
  by (rule keepsI) (auto simp: fresh_uuid_Inr place_keys_def)

lemma keeps_places_budgets [intro!]: "keeps_places ks (configureRegionBudgets e rid parent decl)"
proof -
  have retire: "keeps_places ks (retire_budget e b)" for b
    unfolding retire_budget_def by (rule keeps_modify) (simp add: place_keys_def)
  have insert: "keeps_places ks (insert_budget b)" for b
    by (rule keepsI) (auto simp: insert_budget_def place_keys_def split: if_splits)
  have parent: "keeps_places ks (parent_budget p l)" for p l
    unfolding parent_budget_def by auto
  have "keeps_places ks (configure_limit e rid parent existing l)" for existing l
    unfolding configure_limit_def Let_def using retire insert parent by auto
  then show ?thesis
    unfolding configureRegionBudgets_def using retire by (auto split: sum.split)
qed

lemma keeps_places_instantiate [intro!]: "keeps_places ks (instantiateInTransaction e r)"
proof (rule keepsI)
  fix s res s'
  assume ks: "place_keys s = ks" and run: "instantiateInTransaction e r s = Inr (res, s')"
  have "place_keys s' = place_keys s" if "write_topology e rgn p s = Inr (res, s')" for rgn p
    using that by (rule write_topology_Inr) (auto simp: place_keys_def set_rows_def)
  with run ks show "place_keys s' = ks"
    unfolding instantiate_Inr by (auto split: option.splits)
qed

lemma keeps_places_durable [intro!]: "keeps_places ks (durableInstantiate e r)"
proof -
  have publish: "keeps_places ks (publishInitialStates e p states)" for p states
    by (rule keepsI) (auto dest!: publish_states_Inr(1) simp: same_rest_def place_keys_def)
  have "keeps_places ks (insert_instantiation x)" for x
    by (rule keepsI) (auto simp: insert_instantiation_def place_keys_def split: if_splits)
  moreover have "keeps_places ks (\<lambda>s. of_sum (f s) s)" for f :: "db \<Rightarrow> error + resolved_state list"
    by (rule keepsI) (auto simp: of_sum_Inr)
  ultimately have "keeps_places ks (durable_body e r existing)" for existing
    unfolding durable_body_def using publish by auto
  then show ?thesis unfolding durableInstantiate_def by auto
qed

lemma keeps_places_template [intro!]: "keeps_places ks (apply_template e source dr)"
  unfolding apply_template_def Let_def by auto

lemma find_or_create_known:
  assumes "placed (place_keys s) parent name \<noteq> None"
  shows "\<exists>r. find_or_create e parent name s = Inr ((r, False), s) \<and> placed (place_keys s) parent name = Some (reg_id r)"
proof -
  from assms obtain r where "List.find (at_place parent name) (regions s) = Some r" by (auto simp: placed_find)
  then show ?thesis by (simp add: find_or_create_def tx_simps placed_find)
qed

lemma find_or_create_Inr:
  assumes "find_or_create e parent name s = Inr (rc, s')"
  shows "placed (place_keys s') parent name = Some (reg_id (fst rc))" and "\<exists>new. place_keys s' = place_keys s @ new"
proof -
  have "placed (place_keys s') parent name = Some (reg_id (fst rc)) \<and> (\<exists>new. place_keys s' = place_keys s @ new)"
  proof (cases "List.find (at_place parent name) (regions s)")
    case (Some r)
    with assms show ?thesis by (auto simp: find_or_create_def tx_simps placed_find)
  next
    case None
    with assms obtain r where "createRegion e name parent s = Inr (r, s')" "rc = (r, True)"
      by (auto simp: find_or_create_def bind_tx_Inr get_Inr ret_Inr)
    then have regs: "regions s' = regions s @ [r]" and "at_place parent name r" "rc = (r, True)"
      by (auto simp: createRegion_def insert_region_def Let_def bind_tx_Inr ret_Inr fresh_uuid_Inr at_place_def
          split: if_splits)
    with None have "placed (place_keys s') parent name = Some (reg_id (fst rc))"
      by (simp add: placed_find find_append_fresh)
    moreover have "place_keys s' = place_keys s @ [(reg_id r, reg_parent r, reg_name r)]"
      using regs by (simp add: place_keys_def)
    ultimately show ?thesis by blast
  qed
  then show "placed (place_keys s') parent name = Some (reg_id (fst rc))" "\<exists>new. place_keys s' = place_keys s @ new"
    by simp_all
qed

definition root_name :: "json \<Rightarrow> string" where
  "root_name doc = text_of (json_field (the (json_field (the (json_field doc ''spec'')) ''rootRegion'')) ''id'')"

definition root_budgets :: "json \<Rightarrow> (string \<times> js_number option) list option" where
  "root_budgets doc = budget_fields (json_field (the (json_field (the (json_field doc ''spec'')) ''rootRegion'')) ''budgets'')"

definition region_decls :: "json \<Rightarrow> json list" where
  "region_decls doc = topology_items (the (json_field doc ''spec'')) ''regions''"

definition declared_name :: "json \<Rightarrow> string" where
  "declared_name decl = text_of (json_field decl ''id'')"

lemma apply_region_steps:
  assumes "apply_region e top_id decl s = Inr (rc, s')"
  obtains t where "find_or_create e (Some top_id) (declared_name decl) s = Inr (rc, t)"
    and "configureRegionBudgets e (reg_id (fst rc)) (Some top_id) (budget_fields (json_field decl ''budgets'')) t = Inr ((), s')"
  using assms by (auto simp: apply_region_def Let_def bind_tx_Inr ret_Inr declared_name_def)

lemma apply_region_known:
  assumes "placed ks (Some top_id) (declared_name decl) \<noteq> None"
  shows "keeps_places ks (apply_region e top_id decl)"
proof (rule keepsI)
  fix s rc s'
  assume ks: "place_keys s = ks" and run: "apply_region e top_id decl s = Inr (rc, s')"
  from find_or_create_known [of s "Some top_id" "declared_name decl" e] assms ks obtain r where
    found: "find_or_create e (Some top_id) (declared_name decl) s = Inr ((r, False), s)" by blast
  from run obtain t where "find_or_create e (Some top_id) (declared_name decl) s = Inr (rc, t)"
    and "configureRegionBudgets e (reg_id (fst rc)) (Some top_id) (budget_fields (json_field decl ''budgets'')) t = Inr ((), s')"
    by (rule apply_region_steps)
  with found have
    "configureRegionBudgets e (reg_id r) (Some top_id) (budget_fields (json_field decl ''budgets'')) s = Inr ((), s')"
    by simp
  with ks show "place_keys s' = ks" using keepsD [OF keeps_places_budgets] by blast
qed

lemma apply_region_Inr:
  assumes "apply_region e top_id decl s = Inr (rc, s')"
  shows "placed (place_keys s') (Some top_id) (declared_name decl) \<noteq> None" and "\<exists>new. place_keys s' = place_keys s @ new"
proof -
  from assms obtain t where found: "find_or_create e (Some top_id) (declared_name decl) s = Inr (rc, t)"
    and "configureRegionBudgets e (reg_id (fst rc)) (Some top_id) (budget_fields (json_field decl ''budgets'')) t = Inr ((), s')"
    by (rule apply_region_steps)
  then have "place_keys s' = place_keys t" using keepsD [OF keeps_places_budgets] by blast
  with find_or_create_Inr [OF found] show "placed (place_keys s') (Some top_id) (declared_name decl) \<noteq> None"
    "\<exists>new. place_keys s' = place_keys s @ new" by simp_all
qed

lemma apply_regions_Inr:
  assumes "map_tx (apply_region e top_id) decls s = Inr (rows, s')"
  shows "(\<forall>decl\<in>set decls. placed (place_keys s') (Some top_id) (declared_name decl) \<noteq> None) \<and>
    (\<exists>new. place_keys s' = place_keys s @ new)"
  using assms
proof (induction decls arbitrary: s rows)
  case Nil
  then show ?case by (simp add: ret_Inr)
next
  case (Cons decl decls)
  then obtain rc t rows' where one: "apply_region e top_id decl s = Inr (rc, t)"
    and rest: "map_tx (apply_region e top_id) decls t = Inr (rows', s')" by (auto simp: bind_tx_Inr ret_Inr)
  note A = apply_region_Inr [OF one] and IH = Cons.IH [OF rest]
  from IH obtain new where new: "place_keys s' = place_keys t @ new" by blast
  from A(1) placed_append new have "placed (place_keys s') (Some top_id) (declared_name decl) \<noteq> None" by fastforce
  with IH A(2) new show ?case by auto
qed

lemma keeps_places_map:
  "(\<And>x. x \<in> set xs \<Longrightarrow> keeps_places ks (f x)) \<Longrightarrow> keeps_places ks (map_tx f xs)"
  by (induction xs) auto

lemma places_of_templates:
  assumes "map_tx (apply_template e source) drs s = Inr (outs, s')"
  shows "place_keys s' = place_keys s"
proof -
  have "keeps_places (place_keys s) (map_tx (apply_template e source) drs)" by (rule keeps_places_map) (rule keeps_places_template)
  from keepsD [OF this refl assms] show ?thesis .
qed

lemma retry_unique_Inr: "retry_unique body s = (Inr r, s') \<longleftrightarrow> body s = Inr (r, s')"
  by (auto simp: retry_unique_def transaction_def split: sum.splits prod.splits)

lemma applyOnce_Inr:
  assumes "applyOnce e doc s = Inr (r, t)"
  obtains top s1 s2 rows s3 outs where
    "find_or_create e None (root_name doc) s = Inr (top, s1)"
    and "configureRegionBudgets e (reg_id (fst top)) None (root_budgets doc) s1 = Inr ((), s2)"
    and "map_tx (apply_region e (reg_id (fst top))) (region_decls doc) s2 = Inr (rows, s3)"
    and "map_tx (apply_template e (system_source e doc)) (zip (region_decls doc) (map fst rows)) s3 = Inr (outs, t)"
proof -
  note steps = assms [unfolded applyOnce_def Let_def root_name_def [symmetric] root_budgets_def [symmetric]
    region_decls_def [symmetric] bind_tx_Inr ret_Inr]
  show thesis by (insert steps, elim exE conjE, hypsubst, rule that, (assumption | simp)+)
qed


subsection \<open>A component with an initial state\<close>

definition counter_spec :: json where
  "counter_spec = JObj
     [(''initialTopology'', JObj
        [(''instances'', JArr [JObj [(''name'', JStr ''a''), (''component'', JStr ''c@1''),
           (''configuration'', JObj []),
           (''initialState'', JObj [(''port'', JStr ''count''), (''value'', JObj [(''$parameter'', JStr ''start'')])])]]),
         (''connections'', JArr [])]),
      (''parameters'', JObj [])]"

definition counter_store :: "artifact list \<Rightarrow> db" where
  "counter_store stored = (fan_store 2)\<lparr>
     templates := [\<lparr>tpl_id = ''t'', tpl_name = ''n'', tpl_version = ''1'', tpl_digest = ''h'',
       tpl_template = sample_declaration ''Template'' counter_spec, tpl_retired = None\<rparr>],
     port_definitions :=
       [\<lparr>port_def = ''c'', port_name = ''count'', port_direction = PState, port_schema = ''s'', port_required = True\<rparr>],
     artifacts := stored\<rparr>"

definition counter_request :: "rat \<Rightarrow> durable_request" where
  "counter_request n = \<lparr>dr_id = Some ''00000000-0000-5000-8000-000000000000'',
     dr_request = \<lparr>ir_region = ''r'', ir_template = ''n@1'',
       ir_parameters = Some (JObj [(''start'', JNum n)]), ir_configuration = None, ir_source = None\<rparr>\<rparr>"

lemma counter_runs:
  "case durableInstantiate sample_env (counter_request 5) (counter_store []) of
     Inl err \<Rightarrow> False
   | Inr (res, s) \<Rightarrow> length (state_versions s) = 1 \<and> in_created (du_outcome res)"
  by code_simp

theorem durable_idempotent_witness:
  "\<exists>res s' res' n. durableInstantiate sample_env (counter_request 5) (counter_store []) = Inr (res, s') \<and>
     length (state_versions s') = 1 \<and> in_created (du_outcome res) \<and>
     durableInstantiate sample_env (counter_request 5) s' = Inr (res', s'\<lparr>drawn := n\<rparr>) \<and>
     \<not> in_created (du_outcome res') \<and>
     durableInstantiate sample_env (counter_request 6) s' = Inl CONFLICT"
proof -
  from counter_runs obtain res s' where run: "durableInstantiate sample_env (counter_request 5) (counter_store []) = Inr (res, s')"
    and made: "length (state_versions s') = 1" "in_created (du_outcome res)" by (auto split: sum.splits)
  have "validateRequestId (dr_id (counter_request 6)) = Inr ()" by code_simp
  moreover have "request_id sample_env (counter_request 6) = request_id sample_env (counter_request 5)"
    by (simp add: request_id_def counter_request_def)
  moreover have "request_digest sample_env (dr_request (counter_request 6)) \<noteq> request_digest sample_env (dr_request (counter_request 5))"
    by code_simp
  ultimately have "durableInstantiate sample_env (counter_request 6) s' = Inl CONFLICT"
    using durable_idempotent [OF run] by blast
  moreover obtain n rgn where "durableInstantiate sample_env (counter_request 5) s' =
      Inr (\<lparr>du_outcome = (du_outcome res)\<lparr>in_created := False, in_region := rgn\<rparr>,
             du_instantiation = du_instantiation res\<rparr>, s'\<lparr>drawn := n\<rparr>)"
    using durable_idempotent [OF run] by blast
  ultimately show ?thesis using run made by fastforce
qed

definition other_artifact :: artifact where
  "other_artifact = artifact_row ''x''
     ((state_artifact sample_env \<lparr>pb_instantiation = ''i'', pb_region = ''r'', pb_revision = ''v'', pb_template = ''t''\<rparr>
        \<lparr>ini_instance = ''a'', ini_port = ''count'', ini_schema = ''other'', ini_schema_digest = ''h'',
         ini_value = JNum 5\<rparr>))"

theorem initial_state_excluded_witness:
  "\<exists>err. durableInstantiate sample_env (counter_request 5) (counter_store [other_artifact]) = Inl err"
proof -
  have "resolve_states sample_env (ir_template (dr_request (counter_request 5)))
      (or_empty (ir_parameters (dr_request (counter_request 5)))) (counter_store [other_artifact]) =
    Inr [\<lparr>ini_instance = ''a'', ini_port = ''count'', ini_schema = ''s'', ini_schema_digest = ''h'', ini_value = JNum 5\<rparr>]"
    by code_simp
  moreover have "lockArtifactByDigest (json_digest sample_env (JNum 5)) (counter_store [other_artifact]) = Some other_artifact"
    by code_simp
  moreover have "art_schema other_artifact \<noteq> ''s''" by code_simp
  ultimately show ?thesis by (intro initial_state_excluded) auto
qed

definition unknown_request :: durable_request where
  "unknown_request = \<lparr>dr_id = None, dr_request = \<lparr>ir_region = ''r'', ir_template = ''m@1'',
     ir_parameters = None, ir_configuration = None, ir_source = None\<rparr>\<rparr>"

theorem domain_errors_exposed_witness:
  "durableInstantiate sample_env unknown_request (counter_store []) = Inl (DomainError ''template_not_found'') \<and>
   toTemplateInstantiationError (DomainError ''template_not_found'') =
     \<lparr>we_code = ''template_not_found'', we_retryable = False\<rparr>"
proof -
  have run: "durableInstantiate sample_env unknown_request (counter_store []) = Inl (DomainError ''template_not_found'')"
    by code_simp
  with domain_errors_exposed [OF run] show ?thesis by blast
qed

theorem inherited_parameter_transient_witness:
  "\<exists>err. bindParameters (JObj []) (JObj [(''$parameter'', JStr ''toString'')]) = Inl err \<and>
     toTemplateInstantiationError err = \<lparr>we_code = ''internal_transient_failure'', we_retryable = True\<rparr>"
  by (rule inherited_parameter_transient) code_simp+

definition counter_system :: json where
  "counter_system = sample_declaration ''System'' (JObj
     [(''rootRegion'', JObj [(''id'', JStr ''plant'')]),
      (''regions'', JArr [JObj [(''id'', JStr ''line''), (''template'', JStr ''n@1''),
         (''parameters'', JObj [(''start'', JNum 5)])]])])"

definition short_env :: env where
  "short_env = sample_env\<lparr>sha256_hex := (\<lambda>_. replicate 32 (CHR ''a''))\<rparr>"

lemma system_runs:
  "case applySystem short_env counter_system (counter_store []) of
     (Inl err, s) \<Rightarrow> False
   | (Inr r, s) \<Rightarrow> map reg_name (regions s) = [''top'', ''plant'', ''line''] \<and> sy_created r \<and> length (state_versions s) = 1"
  by code_simp



end
