(* ===== verification/Access.thy ===== *)
theory Access
  imports Scheduler Blobs
begin

section \<open>Access to the control plane\<close>

text \<open>
  \<open>apps/control-plane/src/service-auth.ts\<close>, \<open>nonce-repository.ts\<close>, \<open>security.ts\<close>,
  \<open>activity-session-service.ts\<close> and \<open>activity-session-read-authorizer.ts\<close>. The agent service signs its
  requests with a shared key, a time and a nonce; operators and administrators send a bearer token; an
  activity in a Discord channel reads its run with the token of a session that the agent service
  opened. HMAC-SHA256 and \<open>decodeURIComponent\<close> are parameters (\<open>access_env\<close>), bodies are byte strings,
  methods are ASCII.
\<close>

subsection \<open>Tables\<close>

record binding =
  bi_id :: string
  bi_application :: string
  bi_instance :: string
  bi_installation :: string
  bi_guild :: "string option"
  bi_channel :: "string option"
  bi_thread :: "string option"
  bi_launch :: string
  bi_identifier :: string
  bi_run :: "string option"
  bi_view :: json
  bi_principal :: string
  bi_adapter :: string
  bi_expires :: int
  bi_closed :: "int option"

record session =
  se_id :: string
  se_binding :: string
  se_principal :: string
  se_digest :: string
  se_expires :: int
  se_idle :: int
  se_revoked :: "int option"
  se_refreshed :: "int option"

record nonce =
  no_key :: string
  no_nonce :: string
  no_created :: int

text \<open>\<open>last_cleanup\<close> is a variable of the nonce repository, in the memory of the process.\<close>

record access_db =
  bindings :: "binding list"
  sessions :: "session list"
  nonces :: "nonce list"
  last_cleanup :: int
  uuid_draws :: nat
  token_draws :: nat

definition no_access :: access_db where
  "no_access = \<lparr>bindings = [], sessions = [], nonces = [], last_cleanup = 0, uuid_draws = 0, token_draws = 0\<rparr>"

subsection \<open>Signatures\<close>

record access_env =
  hmac :: "string \<Rightarrow> string \<Rightarrow> string"
  decode_component :: "string \<Rightarrow> string option"

datatype direction = AgentToFf | FfToAgent

record service_keys =
  agentToFactoryKey :: string
  factoryToAgentKey :: string
  previousAgentToFactoryKey :: "string option"
  previousFactoryToAgentKey :: "string option"

record service_config =
  sc_keys :: service_keys
  sc_max_skew :: "int option"

definition MAX_SKEW_MS :: int where
  "MAX_SKEW_MS = 30000"

definition MAX_NONCE_LENGTH :: nat where
  "MAX_NONCE_LENGTH = 128"

definition direction_name :: "direction \<Rightarrow> string" where
  "direction_name d = (case d of AgentToFf \<Rightarrow> ''agent-to-ff'' | FfToAgent \<Rightarrow> ''ff-to-agent'')"

definition keyId :: "direction \<Rightarrow> string" where
  "keyId d = ''ff-'' @ direction_name d @ ''-v1''"

definition currentKey :: "service_keys \<Rightarrow> direction \<Rightarrow> string" where
  "currentKey ks d = (case d of AgentToFf \<Rightarrow> agentToFactoryKey ks | FfToAgent \<Rightarrow> factoryToAgentKey ks)"

definition previousKey :: "service_keys \<Rightarrow> direction \<Rightarrow> string option" where
  "previousKey ks d =
     (case d of AgentToFf \<Rightarrow> previousAgentToFactoryKey ks | FfToAgent \<Rightarrow> previousFactoryToAgentKey ks)"

definition verificationKeys :: "service_keys \<Rightarrow> direction \<Rightarrow> string list" where
  "verificationKeys ks d =
     (case previousKey ks d of
        None \<Rightarrow> [currentKey ks d]
      | Some k \<Rightarrow> if k = [] then [currentKey ks d] else [currentKey ks d, k])"

definition upper :: "char \<Rightarrow> char" where
  "upper c = (if 97 \<le> (of_char c :: nat) \<and> of_char c \<le> (122 :: nat) then char_of (of_char c - 32 :: nat) else c)"

definition signaturePayload :: "env \<Rightarrow> direction \<Rightarrow> string \<Rightarrow> string \<Rightarrow> string \<Rightarrow> string \<Rightarrow> string \<Rightarrow> string" where
  "signaturePayload e d timestamp nonce meth path body =
     join [CHR 0x0A] [''1'', keyId d, timestamp, nonce, map upper meth, path, sha256_hex e body]"

definition hex_text :: "string \<Rightarrow> string" where
  "hex_text bytes = concat (map (\<lambda>c. [hex_digit (of_char c div 16), hex_digit (of_char c mod 16)]) bytes)"

text \<open>\<open>Buffer.from(text, 'hex')\<close> of hexadecimal digits in either case.\<close>

definition hex_number :: "char \<Rightarrow> nat" where
  "hex_number c = (if c \<in> set ''ABCDEF'' then of_char c - 55 else hex_value c)"

fun hex_bytes :: "string \<Rightarrow> string" where
  "hex_bytes (a # b # s) = char_of (16 * hex_number a + hex_number b) # hex_bytes s"
| "hex_bytes _ = []"

record signed =
  sg_key :: string
  sg_timestamp :: string
  sg_nonce :: string
  sg_signature :: string

definition signRequest ::
  "env \<Rightarrow> access_env \<Rightarrow> service_keys \<Rightarrow> direction \<Rightarrow> string \<Rightarrow> string \<Rightarrow> string \<Rightarrow> nat \<Rightarrow> string \<Rightarrow> signed" where
  "signRequest e a ks d meth path body now nonce =
     \<lparr>sg_key = keyId d, sg_timestamp = decimal_text now, sg_nonce = nonce,
      sg_signature = hex_text (hmac a (currentKey ks d)
        (signaturePayload e d (decimal_text now) nonce meth path body))\<rparr>"

definition signatureHeader :: "signed \<Rightarrow> string" where
  "signatureHeader g = ''HMAC-SHA256 keyId='' @ sg_key g @ '',timestamp='' @ sg_timestamp g @ '',nonce='' @ sg_nonce g @
     '',signature='' @ sg_signature g"

text \<open>What follows a prefix, when something does.\<close>

definition after_prefix :: "string \<Rightarrow> string \<Rightarrow> string option" where
  "after_prefix p s = (if take (length p) s = p \<and> length p < length s then Some (drop (length p) s) else None)"

definition parse_scheme :: "string \<Rightarrow> string option" where
  "parse_scheme part =
     (case after_prefix ''HMAC-SHA256'' part of
        None \<Rightarrow> None
      | Some r \<Rightarrow> if is_space (hd r) then after_prefix ''keyId='' (dropWhile is_space r) else None)"

definition parseSignatureHeader :: "string \<Rightarrow> signed option" where
  "parseSignatureHeader header =
     (case split_on (CHR '','') header of
        [a, b, c, d] \<Rightarrow>
          (case (parse_scheme a, after_prefix ''timestamp='' b, after_prefix ''nonce='' c, after_prefix ''signature='' d) of
             (Some k, Some t, Some n, Some g) \<Rightarrow>
               Some \<lparr>sg_key = k, sg_timestamp = t, sg_nonce = n, sg_signature = g\<rparr>
           | _ \<Rightarrow> None)
      | _ \<Rightarrow> None)"

definition is_digits :: "string \<Rightarrow> bool" where
  "is_digits s \<longleftrightarrow> s \<noteq> [] \<and> list_all is_digit s"

definition timestamp_ok :: "string \<Rightarrow> bool" where
  "timestamp_ok t \<longleftrightarrow> is_digits t \<and> length t \<le> 16 \<and> decimal_value t < 2 ^ 53"

definition signature_text :: "string \<Rightarrow> bool" where
  "signature_text s \<longleftrightarrow> length s = 64 \<and> list_all (\<lambda>c. c \<in> set ''0123456789abcdefABCDEF'') s"

definition auth_error :: "string \<Rightarrow> error" where
  "auth_error code = ServiceAuthError code 401"

definition max_skew :: "service_config \<Rightarrow> int" where
  "max_skew cfg = (case sc_max_skew cfg of None \<Rightarrow> MAX_SKEW_MS | Some m \<Rightarrow> m)"

record service_request =
  rq_method :: string
  rq_path :: string
  rq_body :: string
  rq_header :: "string option"

text \<open>Everything up to the nonce, in the order of the code.\<close>

definition check_signed ::
  "env \<Rightarrow> access_env \<Rightarrow> service_config \<Rightarrow> direction \<Rightarrow> service_request \<Rightarrow> signed \<Rightarrow> error + unit" where
  "check_signed e a cfg d r g =
     (if sg_key g \<noteq> keyId d then Inl (auth_error ''service_auth_unknown_key'')
      else if \<not> timestamp_ok (sg_timestamp g) then Inl (auth_error ''service_auth_invalid_timestamp'')
      else if max_skew cfg < \<bar>clock e - int (decimal_value (sg_timestamp g))\<bar>
      then Inl (auth_error ''service_auth_timestamp_skew'')
      else if blank (sg_nonce g) then Inl (auth_error ''service_auth_nonce_required'')
      else if MAX_NONCE_LENGTH < length (sg_nonce g) then Inl (auth_error ''service_auth_nonce_too_long'')
      else if \<not> signature_text (sg_signature g) then Inl (auth_error ''service_auth_signature_mismatch'')
      else if list_ex (\<lambda>k. hex_bytes (sg_signature g) =
          hmac a k (signaturePayload e d (sg_timestamp g) (sg_nonce g) (rq_method r) (rq_path r) (rq_body r)))
        (verificationKeys (sc_keys cfg) d) then Inr ()
      else Inl (auth_error ''service_auth_signature_mismatch''))"

definition authenticate ::
  "env \<Rightarrow> access_env \<Rightarrow> service_config \<Rightarrow> direction \<Rightarrow> service_request \<Rightarrow> error + signed" where
  "authenticate e a cfg d r =
     (case rq_header r of
        None \<Rightarrow> Inl (auth_error ''service_auth_header_required'')
      | Some h \<Rightarrow>
          if h = [] then Inl (auth_error ''service_auth_header_required'')
          else (case parseSignatureHeader h of
            None \<Rightarrow> Inl (auth_error ''service_auth_header_malformed'')
          | Some g \<Rightarrow> map_sum id (\<lambda>_. g) (check_signed e a cfg d r g)))"

subsection \<open>Nonces\<close>

definition NONCE_RETENTION_MS :: int where
  "NONCE_RETENTION_MS = 300000"

definition NONCE_CLEANUP_INTERVAL_MS :: int where
  "NONCE_CLEANUP_INTERVAL_MS = 30000"

definition same_nonce :: "string \<Rightarrow> string \<Rightarrow> nonce \<Rightarrow> bool" where
  "same_nonce key n x \<longleftrightarrow> no_key x = key \<and> no_nonce x = n"

text \<open>\<open>cleans\<close> is whether the deletion succeeds: its failure is ignored.\<close>

definition cleanup :: "env \<Rightarrow> bool \<Rightarrow> access_db \<Rightarrow> access_db" where
  "cleanup e cleans s =
     (if clock e - last_cleanup s < NONCE_CLEANUP_INTERVAL_MS then s
      else s\<lparr>last_cleanup := clock e, nonces :=
        (if cleans then filter (\<lambda>x. \<not> no_created x < clock e - NONCE_RETENTION_MS) (nonces s) else nonces s)\<rparr>)"

definition consumeNonce :: "env \<Rightarrow> bool \<Rightarrow> string \<Rightarrow> string \<Rightarrow> access_db \<Rightarrow> bool \<times> access_db" where
  "consumeNonce e cleans key n s =
     (if list_ex (same_nonce key n) (nonces s) then (False, s)
      else (True, cleanup e cleans
        (s\<lparr>nonces := nonces s @ [\<lparr>no_key = key, no_nonce = n, no_created = db_now e\<rparr>]\<rparr>)))"

definition verifyServiceRequest ::
  "env \<Rightarrow> access_env \<Rightarrow> bool \<Rightarrow> service_config \<Rightarrow> direction \<Rightarrow> service_request \<Rightarrow> (access_db, unit) io" where
  "verifyServiceRequest e a cleans cfg d r = (\<lambda>s.
     case authenticate e a cfg d r of
       Inl err \<Rightarrow> (Inl err, s)
     | Inr g \<Rightarrow>
         (case consumeNonce e cleans (sg_key g) (sg_nonce g) s of
            (fresh, s') \<Rightarrow> (if fresh then Inr () else Inl (auth_error ''service_auth_nonce_replayed''), s')))"

subsection \<open>Activity sessions\<close>

record session_request =
  sr_application :: string
  sr_instance :: string
  sr_installation :: string
  sr_guild :: "string option"
  sr_channel :: "string option"
  sr_thread :: "string option"
  sr_launch :: string
  sr_principal :: string
  sr_adapter :: string
  sr_run :: "string option"
  sr_view :: "json option"

record session_response =
  rs_token :: string
  rs_expires :: int
  rs_idle :: int

definition SESSION_TTL_MS :: int where
  "SESSION_TTL_MS = 3600000"

definition IDLE_TTL_MS :: int where
  "IDLE_TTL_MS = 300000"

definition BINDING_TTL_MS :: int where
  "BINDING_TTL_MS = 7200000"

definition assertBindingMatches :: "env \<Rightarrow> binding \<Rightarrow> session_request \<Rightarrow> error + unit" where
  "assertBindingMatches e b r =
     (if bi_closed b \<noteq> None then Inl (ActivitySessionError ''instance_closed'')
      else if bi_expires b \<le> clock e then Inl (ActivitySessionError ''instance_expired'')
      else if bi_installation b = sr_installation r \<and> bi_guild b = sr_guild r \<and> bi_channel b = sr_channel r \<and>
        bi_thread b = sr_thread r \<and> bi_adapter b = sr_adapter r \<and> (sr_run r = None \<or> bi_run b = sr_run r) then Inr ()
      else Inl (ActivitySessionError ''instance_binding_mismatch''))"

definition draw_uuid :: "env \<Rightarrow> (access_db, string) tx" where
  "draw_uuid e = (\<lambda>s. Inr (new_uuid e (uuid_draws s), s\<lparr>uuid_draws := Suc (uuid_draws s)\<rparr>))"

definition draw_token :: "env \<Rightarrow> (access_db, string) tx" where
  "draw_token e = (\<lambda>s. Inr (new_token e (token_draws s), s\<lparr>token_draws := Suc (token_draws s)\<rparr>))"

definition instance_binding :: "string \<Rightarrow> string \<Rightarrow> binding \<Rightarrow> bool" where
  "instance_binding app ins b \<longleftrightarrow> bi_application b = app \<and> bi_instance b = ins"

definition new_binding :: "env \<Rightarrow> string \<Rightarrow> session_request \<Rightarrow> binding" where
  "new_binding e u r =
     \<lparr>bi_id = u, bi_application = sr_application r, bi_instance = sr_instance r, bi_installation = sr_installation r,
      bi_guild = sr_guild r, bi_channel = sr_channel r, bi_thread = sr_thread r, bi_launch = sr_launch r,
      bi_identifier = sr_application r @ '':'' @ sr_installation r, bi_run = sr_run r,
      bi_view = (case sr_view r of None \<Rightarrow> JObj [] | Some v \<Rightarrow> v), bi_principal = sr_principal r,
      bi_adapter = sr_adapter r, bi_expires = clock e + BINDING_TTL_MS, bi_closed = None\<rparr>"

definition insert_binding_or_nothing :: "binding \<Rightarrow> (access_db, bool) tx" where
  "insert_binding_or_nothing b = (\<lambda>s.
     if list_ex (instance_binding (bi_application b) (bi_instance b)) (bindings s) then Inr (False, s)
     else if list_ex (\<lambda>x. bi_id x = bi_id b) (bindings s) then Inl (DbViolation ''activity_instance_bindings_pkey'')
     else Inr (True, s\<lparr>bindings := bindings s @ [b]\<rparr>))"

definition find_binding :: "session_request \<Rightarrow> access_db \<Rightarrow> binding option" where
  "find_binding r s = List.find (instance_binding (sr_application r) (sr_instance r)) (bindings s)"

definition join_existing :: "env \<Rightarrow> session_request \<Rightarrow> binding \<Rightarrow> (access_db, string \<times> int) tx" where
  "join_existing e r b =
     bind_tx (guard (bi_adapter b \<noteq> []) (ActivitySessionError ''instance_binding_invalid'')) (\<lambda>_.
     bind_tx (of_sum (assertBindingMatches e b r)) (\<lambda>_.
     bind_tx (modify (\<lambda>s. s\<lparr>bindings := set_rows (\<lambda>x. bi_id x = bi_id b)
       (\<lambda>x. x\<lparr>bi_expires := clock e + BINDING_TTL_MS\<rparr>) (bindings s)\<rparr>)) (\<lambda>_.
     ret (bi_id b, clock e + BINDING_TTL_MS))))"

text \<open>An insert that meets the row of a faster request does nothing, and the row is joined.\<close>

definition join_binding :: "env \<Rightarrow> session_request \<Rightarrow> (access_db, string \<times> int) tx" where
  "join_binding e r =
     bind_tx (get (find_binding r)) (\<lambda>existing.
     case existing of
       Some b \<Rightarrow> join_existing e r b
     | None \<Rightarrow>
         bind_tx (draw_uuid e) (\<lambda>u.
         bind_tx (insert_binding_or_nothing (new_binding e u r)) (\<lambda>inserted.
         if inserted then ret (u, clock e + BINDING_TTL_MS)
         else bind_tx (get (find_binding r)) (\<lambda>raced.
           bind_tx (or_throw raced (NoResultError ''activity_instance_bindings'')) (join_existing e r)))))"

definition insert_session :: "session \<Rightarrow> (access_db, unit) tx" where
  "insert_session x = (\<lambda>s.
     if list_ex (\<lambda>y. se_id y = se_id x) (sessions s) then Inl (DbViolation ''activity_sessions_pkey'')
     else if list_ex (\<lambda>y. se_digest y = se_digest x) (sessions s) then Inl (DbViolation ''uq_activity_session_token'')
     else Inr ((), s\<lparr>sessions := sessions s @ [x]\<rparr>))"

definition createSession :: "env \<Rightarrow> string \<Rightarrow> string \<Rightarrow> int \<Rightarrow> (access_db, session_response) tx" where
  "createSession e bid who expiry =
     bind_tx (draw_token e) (\<lambda>token.
     let expires = min (clock e + SESSION_TTL_MS) expiry; idle = min (clock e + IDLE_TTL_MS) expires in
     bind_tx (guard (clock e < expires \<and> clock e < idle) (ActivitySessionError ''instance_expired'')) (\<lambda>_.
     bind_tx (draw_uuid e) (\<lambda>u.
     bind_tx (insert_session \<lparr>se_id = u, se_binding = bid, se_principal = who, se_digest = sha256_hex e token,
       se_expires = expires, se_idle = idle, se_revoked = None, se_refreshed = None\<rparr>) (\<lambda>_.
     ret \<lparr>rs_token = token, rs_expires = expires, rs_idle = idle\<rparr>))))"

text \<open>The binding is one transaction and the session another.\<close>

definition createOrJoinSession :: "env \<Rightarrow> session_request \<Rightarrow> (access_db, string \<times> session_response) io" where
  "createOrJoinSession e r =
     bind_io (transaction (join_binding e r)) (\<lambda>(bid, expiry).
     bind_io (transaction (createSession e bid (sr_principal r) expiry)) (\<lambda>x. ret_io (bid, x)))"

definition session_by :: "string \<Rightarrow> access_db \<Rightarrow> session option" where
  "session_by digest s = List.find (\<lambda>x. se_digest x = digest) (sessions s)"

definition binding_by :: "string \<Rightarrow> access_db \<Rightarrow> binding option" where
  "binding_by i s = List.find (\<lambda>b. bi_id b = i) (bindings s)"

definition session_live :: "env \<Rightarrow> session \<Rightarrow> bool" where
  "session_live e x \<longleftrightarrow> se_revoked x = None \<and> clock e < se_expires x \<and> clock e < se_idle x"

definition binding_live :: "env \<Rightarrow> binding \<Rightarrow> bool" where
  "binding_live e b \<longleftrightarrow> bi_closed b = None \<and> clock e < bi_expires b"

definition replace_digest :: "env \<Rightarrow> session \<Rightarrow> string \<Rightarrow> int \<Rightarrow> (access_db, bool) tx" where
  "replace_digest e x digest idle = (\<lambda>s.
     if list_ex (\<lambda>y. se_id y \<noteq> se_id x \<and> se_digest y = digest) (sessions s)
     then Inl (DbViolation ''uq_activity_session_token'')
     else Inr (True, s\<lparr>sessions := set_rows (\<lambda>y. se_id y = se_id x \<and> se_digest y = se_digest x)
       (\<lambda>y. y\<lparr>se_digest := digest, se_idle := idle, se_refreshed := Some (clock e)\<rparr>) (sessions s)\<rparr>))"

definition refreshSession :: "env \<Rightarrow> string \<Rightarrow> (access_db, session_response option) tx" where
  "refreshSession e token =
     bind_tx (get (session_by (sha256_hex e token))) (\<lambda>found.
     case found of
       None \<Rightarrow> ret None
     | Some x \<Rightarrow>
         if \<not> session_live e x then ret None
         else bind_tx (get (binding_by (se_binding x))) (\<lambda>bound.
         case bound of
           None \<Rightarrow> ret None
         | Some b \<Rightarrow>
             if \<not> binding_live e b then ret None
             else bind_tx (draw_token e) (\<lambda>replacement.
             let idle = min (clock e + IDLE_TTL_MS) (min (se_expires x) (bi_expires b)) in
             if idle \<le> clock e then ret None
             else bind_tx (replace_digest e x (sha256_hex e replacement) idle) (\<lambda>_.
             ret (Some \<lparr>rs_token = replacement, rs_expires = se_expires x, rs_idle = idle\<rparr>)))))"

definition revokeSession :: "env \<Rightarrow> string \<Rightarrow> (access_db, bool) tx" where
  "revokeSession e token = (\<lambda>s.
     let hit = (\<lambda>x. se_digest x = sha256_hex e token \<and> se_revoked x = None) in
     Inr (list_ex hit (sessions s),
       s\<lparr>sessions := set_rows hit (\<lambda>x. x\<lparr>se_revoked := Some (clock e)\<rparr>) (sessions s)\<rparr>))"

definition closeInstance :: "env \<Rightarrow> string \<Rightarrow> string \<Rightarrow> (access_db, bool) tx" where
  "closeInstance e app ins = (\<lambda>s.
     let hit = (\<lambda>b. instance_binding app ins b \<and> bi_closed b = None) in
     case List.find hit (bindings s) of
       None \<Rightarrow> Inr (False, s)
     | Some b \<Rightarrow> Inr (True, s\<lparr>
         bindings := set_rows hit (\<lambda>x. x\<lparr>bi_closed := Some (clock e)\<rparr>) (bindings s),
         sessions := set_rows (\<lambda>x. se_binding x = bi_id b \<and> se_revoked x = None)
           (\<lambda>x. x\<lparr>se_revoked := Some (clock e)\<rparr>) (sessions s)\<rparr>))"

record read_session =
  rd_session :: string
  rd_binding :: string
  rd_application :: string
  rd_instance :: string
  rd_installation :: string
  rd_guild :: "string option"
  rd_channel :: "string option"
  rd_thread :: "string option"
  rd_principal :: string
  rd_adapter :: string
  rd_run :: "string option"
  rd_expires :: int
  rd_idle :: int

definition resolveSession :: "env \<Rightarrow> string \<Rightarrow> access_db \<Rightarrow> read_session option" where
  "resolveSession e sessionToken s =
     (let token = trim sessionToken in
      if token = [] then None
      else (case session_by (sha256_hex e token) s of
        None \<Rightarrow> None
      | Some x \<Rightarrow>
          (case binding_by (se_binding x) s of
             None \<Rightarrow> None
           | Some b \<Rightarrow>
               if session_live e x \<and> binding_live e b
               then Some \<lparr>rd_session = se_id x, rd_binding = se_binding x, rd_application = bi_application b,
                 rd_instance = bi_instance b, rd_installation = bi_installation b, rd_guild = bi_guild b,
                 rd_channel = bi_channel b, rd_thread = bi_thread b, rd_principal = se_principal x,
                 rd_adapter = bi_adapter b, rd_run = bi_run b, rd_expires = se_expires x, rd_idle = se_idle x\<rparr>
               else None)))"

subsection \<open>The request hook\<close>

record tokens =
  operatorToken :: string
  adminToken :: string

definition bearer :: "string option \<Rightarrow> string option" where
  "bearer auth =
     (case auth of
        None \<Rightarrow> None
      | Some h \<Rightarrow>
          (case after_prefix ''Bearer '' h of
             None \<Rightarrow> None
           | Some t \<Rightarrow> if list_all (\<lambda>c. \<not> is_space c) t then Some t else None))"

definition tokenMatches :: "env \<Rightarrow> string \<Rightarrow> string \<Rightarrow> bool" where
  "tokenMatches e actual expected \<longleftrightarrow> sha256_hex e actual = sha256_hex e expected"

definition starts :: "string \<Rightarrow> string \<Rightarrow> bool" where
  "starts p s \<longleftrightarrow> take (length p) s = p"

definition isServiceAuthenticatedActivityRoute :: "string \<Rightarrow> bool" where
  "isServiceAuthenticatedActivityRoute path \<longleftrightarrow>
     path \<in> {''/api/v1/discord/activity/sessions'', ''/api/v1/discord/activity/sessions/refresh'',
       ''/api/v1/discord/activity/sessions/revoke''}"

definition isBrowserActivitySessionRoute :: "string \<Rightarrow> bool" where
  "isBrowserActivitySessionRoute path \<longleftrightarrow>
     path \<in> {''/api/v1/discord/activity/session'', ''/api/v1/discord/activity/session/refresh'',
       ''/api/v1/discord/activity/session/revoke''}"

definition activityRunId :: "access_env \<Rightarrow> string \<Rightarrow> string option" where
  "activityRunId a path =
     (case after_prefix ''/api/v1/operator/runs/'' path of
        None \<Rightarrow> None
      | Some r \<Rightarrow> (case takeWhile (\<lambda>c. c \<noteq> CHR ''/'') r of [] \<Rightarrow> None | seg \<Rightarrow> decode_component a seg))"

datatype hook_result = Continue | ContinueAs string string | Refuse nat string

definition url_path :: "string \<Rightarrow> string" where
  "url_path url = hd (split_on (CHR ''?'') url)"

definition exempt :: "string \<Rightarrow> bool" where
  "exempt path \<longleftrightarrow> path = ''/health'' \<or> starts ''/health/'' path \<or> starts ''/worker/v1/'' path \<or>
     isServiceAuthenticatedActivityRoute path \<or> isBrowserActivitySessionRoute path"

definition reads :: "string \<Rightarrow> bool" where
  "reads meth \<longleftrightarrow> meth = ''GET'' \<or> meth = ''HEAD''"

definition staticallyAuthorized :: "env \<Rightarrow> tokens \<Rightarrow> string \<Rightarrow> string \<Rightarrow> string \<Rightarrow> bool" where
  "staticallyAuthorized e ts meth path supplied \<longleftrightarrow>
     (if (reads meth \<and> starts ''/api/v1/inspect/'' path) \<or> starts ''/api/v1/operator/'' path
      then tokenMatches e supplied (operatorToken ts) \<or> tokenMatches e supplied (adminToken ts)
      else tokenMatches e supplied (adminToken ts))"

definition activity_read ::
  "env \<Rightarrow> access_env \<Rightarrow> bool \<Rightarrow> string \<Rightarrow> string \<Rightarrow> string \<Rightarrow> access_db \<Rightarrow> hook_result" where
  "activity_read e a activity meth path supplied s =
     (case activityRunId a path of
        None \<Rightarrow> Refuse 403 ''forbidden''
      | Some run \<Rightarrow>
          if \<not> activity \<or> run = [] \<or> \<not> reads meth then Refuse 403 ''forbidden''
          else (case resolveSession e supplied s of
            None \<Rightarrow> Refuse 403 ''forbidden''
          | Some x \<Rightarrow>
              if rd_run x \<in> {None, Some []} \<or> rd_run x \<noteq> Some run
              then Refuse 403 ''activity_run_binding_mismatch''
              else ContinueAs (rd_principal x) (rd_adapter x)))"

definition onRequest ::
  "env \<Rightarrow> access_env \<Rightarrow> tokens \<Rightarrow> bool \<Rightarrow> string \<Rightarrow> string \<Rightarrow> string option \<Rightarrow> access_db \<Rightarrow> hook_result" where
  "onRequest e a ts activity meth url auth s =
     (let path = url_path url in
      if exempt path then Continue
      else if \<not> starts ''/api/v1/'' path then Continue
      else (case bearer auth of
        None \<Rightarrow> Refuse 401 ''authentication_required''
      | Some supplied \<Rightarrow>
          if staticallyAuthorized e ts meth path supplied then Continue
          else activity_read e a activity meth path supplied s))"

definition controlPlaneSecurityFromEnv :: "string option \<Rightarrow> string option \<Rightarrow> error + tokens" where
  "controlPlaneSecurityFromEnv operator admin =
     (let given = (\<lambda>v. case v of None \<Rightarrow> [] | Some t \<Rightarrow> trim t) in
      if given operator = [] then Inl (PlainError ''CONTROL_PLANE_OPERATOR_TOKEN is required'')
      else if given admin = [] then Inl (PlainError ''CONTROL_PLANE_ADMIN_TOKEN is required'')
      else if given operator = given admin then Inl (PlainError ''operator and admin tokens must be different'')
      else Inr \<lparr>operatorToken = given operator, adminToken = given admin\<rparr>)"

definition serviceAuthFromEnv ::
  "string option \<Rightarrow> string option \<Rightarrow> string option \<Rightarrow> string option \<Rightarrow> service_keys option" where
  "serviceAuthFromEnv agent factory previous_agent previous_factory =
     (let given = (\<lambda>v. case v of None \<Rightarrow> None | Some t \<Rightarrow> if trim t = [] then None else Some (trim t)) in
      case (given agent, given factory) of
        (Some x, Some y) \<Rightarrow> Some \<lparr>agentToFactoryKey = x, factoryToAgentKey = y,
          previousAgentToFactoryKey = given previous_agent, previousFactoryToAgentKey = given previous_factory\<rparr>
      | _ \<Rightarrow> None)"

subsection \<open>The routes of the sessions\<close>

text \<open>What a route answers: the status and, for an error, its code.\<close>

datatype reply =
    Opened string session_response
  | Session read_session string
  | Refreshed session_response
  | NoContent
  | ErrorReply int string

definition field_required :: "string \<Rightarrow> string \<Rightarrow> json \<Rightarrow> string + string" where
  "field_required field code body =
     (case json_field body field of
        Some (JStr t) \<Rightarrow> if trim t = [] then Inl code else Inr (trim t)
      | _ \<Rightarrow> Inl code)"

definition requiredString :: "json \<Rightarrow> string \<Rightarrow> string + string" where
  "requiredString body field = field_required field (field @ ''_required'') body"

definition optionalString :: "json \<Rightarrow> string \<Rightarrow> string option" where
  "optionalString body field =
     (case json_field body field of
        Some (JStr t) \<Rightarrow> if trim t = [] then None else Some (trim t)
      | _ \<Rightarrow> None)"

definition bodyRecord :: "json option \<Rightarrow> string + json" where
  "bodyRecord body = (case body of Some (JObj kvs) \<Rightarrow> Inr (JObj kvs) | _ \<Rightarrow> Inl ''malformed_request_body'')"

definition and_so :: "string + 'a \<Rightarrow> ('a \<Rightarrow> string + 'b) \<Rightarrow> string + 'b" where
  "and_so v f = (case v of Inl c \<Rightarrow> Inl c | Inr x \<Rightarrow> f x)"

definition parseCreateSessionRequest :: "json option \<Rightarrow> string + session_request" where
  "parseCreateSessionRequest body =
     and_so (bodyRecord body) (\<lambda>j.
     and_so (requiredString j ''applicationId'') (\<lambda>app.
     and_so (requiredString j ''instanceId'') (\<lambda>ins.
     and_so (requiredString j ''installationId'') (\<lambda>inst.
     and_so (requiredString j ''launchId'') (\<lambda>launch.
     and_so (requiredString j ''principalId'') (\<lambda>who.
     and_so (requiredString j ''adapter'') (\<lambda>adapter.
     Inr \<lparr>sr_application = app, sr_instance = ins, sr_installation = inst, sr_guild = optionalString j ''guildId'',
       sr_channel = optionalString j ''channelId'', sr_thread = optionalString j ''threadId'', sr_launch = launch,
       sr_principal = who, sr_adapter = adapter, sr_run = optionalString j ''boundRunId'', sr_view = None\<rparr>)))))))"

definition sessionErrorReply :: "error \<Rightarrow> reply" where
  "sessionErrorReply err =
     (case err of
        ActivitySessionError code \<Rightarrow>
          ErrorReply (if code = ''instance_binding_mismatch'' then 409
            else if code = ''instance_closed'' \<or> code = ''instance_expired'' then 410 else 500) code
      | _ \<Rightarrow> ErrorReply 500 ''internal_error'')"

definition requireServiceAuth ::
  "env \<Rightarrow> access_env \<Rightarrow> bool \<Rightarrow> service_config \<Rightarrow> service_request \<Rightarrow> access_db \<Rightarrow> reply option \<times> access_db" where
  "requireServiceAuth e a cleans cfg r s =
     (case verifyServiceRequest e a cleans cfg AgentToFf r s of
        (Inr _, s') \<Rightarrow> (None, s')
      | (Inl err, s') \<Rightarrow>
          (Some (case err of ServiceAuthError code status \<Rightarrow> ErrorReply status code
             | _ \<Rightarrow> ErrorReply 401 ''service_auth_denied''), s'))"

definition with_service_auth ::
  "env \<Rightarrow> access_env \<Rightarrow> bool \<Rightarrow> service_config \<Rightarrow> service_request \<Rightarrow> (access_db \<Rightarrow> reply \<times> access_db) \<Rightarrow>
   access_db \<Rightarrow> reply \<times> access_db" where
  "with_service_auth e a cleans cfg r handler s =
     (case requireServiceAuth e a cleans cfg r s of
        (Some refused, s') \<Rightarrow> (refused, s')
      | (None, s') \<Rightarrow> handler s')"

definition postSessions ::
  "env \<Rightarrow> access_env \<Rightarrow> bool \<Rightarrow> service_config \<Rightarrow> service_request \<Rightarrow> json option \<Rightarrow> access_db \<Rightarrow> reply \<times> access_db" where
  "postSessions e a cleans cfg r body =
     with_service_auth e a cleans cfg r (\<lambda>s.
       case parseCreateSessionRequest body of
         Inl code \<Rightarrow> (ErrorReply 400 code, s)
       | Inr q \<Rightarrow>
           (case createOrJoinSession e q s of
              (Inl err, s') \<Rightarrow> (sessionErrorReply err, s')
            | (Inr (bid, x), s') \<Rightarrow> (Opened bid x, s')))"

definition with_token ::
  "json option \<Rightarrow> (string \<Rightarrow> access_db \<Rightarrow> reply \<times> access_db) \<Rightarrow> access_db \<Rightarrow> reply \<times> access_db" where
  "with_token body handler s =
     (case and_so (bodyRecord body) (\<lambda>j. requiredString j ''sessionToken'') of
        Inl code \<Rightarrow> (ErrorReply 400 code, s)
      | Inr token \<Rightarrow> handler token s)"

definition postRefresh ::
  "env \<Rightarrow> access_env \<Rightarrow> bool \<Rightarrow> service_config \<Rightarrow> service_request \<Rightarrow> json option \<Rightarrow> access_db \<Rightarrow> reply \<times> access_db" where
  "postRefresh e a cleans cfg r body =
     with_service_auth e a cleans cfg r (with_token body (\<lambda>token s.
       case transaction (refreshSession e token) s of
         (Inl err, s') \<Rightarrow> (sessionErrorReply err, s')
       | (Inr None, s') \<Rightarrow> (ErrorReply 404 ''session_not_found'', s')
       | (Inr (Some x), s') \<Rightarrow> (Refreshed x, s')))"

definition postRevoke ::
  "env \<Rightarrow> access_env \<Rightarrow> bool \<Rightarrow> service_config \<Rightarrow> service_request \<Rightarrow> json option \<Rightarrow> access_db \<Rightarrow> reply \<times> access_db" where
  "postRevoke e a cleans cfg r body =
     with_service_auth e a cleans cfg r (with_token body (\<lambda>token s.
       case transaction (revokeSession e token) s of
         (Inl err, s') \<Rightarrow> (sessionErrorReply err, s')
       | (Inr _, s') \<Rightarrow> (NoContent, s')))"

definition UNAUTHORIZED :: reply where
  "UNAUTHORIZED = ErrorReply 401 ''activity_session_invalid''"

definition getBrowserSession :: "env \<Rightarrow> string option \<Rightarrow> access_db \<Rightarrow> reply" where
  "getBrowserSession e auth s =
     (case bearer auth of
        None \<Rightarrow> UNAUTHORIZED
      | Some token \<Rightarrow>
          (case resolveSession e token s of
             None \<Rightarrow> UNAUTHORIZED
           | Some x \<Rightarrow>
               (case rd_run x of
                  None \<Rightarrow> ErrorReply 409 ''activity_run_binding_required''
                | Some run \<Rightarrow> if run = [] then ErrorReply 409 ''activity_run_binding_required'' else Session x run)))"

definition postBrowserRefresh :: "env \<Rightarrow> string option \<Rightarrow> access_db \<Rightarrow> reply \<times> access_db" where
  "postBrowserRefresh e auth s =
     (case bearer auth of
        None \<Rightarrow> (UNAUTHORIZED, s)
      | Some token \<Rightarrow>
          (case transaction (refreshSession e token) s of
             (Inl err, s') \<Rightarrow> (ErrorReply 500 [], s')
           | (Inr None, s') \<Rightarrow> (UNAUTHORIZED, s')
           | (Inr (Some x), s') \<Rightarrow> (Refreshed x, s')))"

definition postBrowserRevoke :: "env \<Rightarrow> string option \<Rightarrow> access_db \<Rightarrow> reply \<times> access_db" where
  "postBrowserRevoke e auth s =
     (case bearer auth of
        None \<Rightarrow> (UNAUTHORIZED, s)
      | Some token \<Rightarrow>
          (case transaction (revokeSession e token) s of
             (Inl err, s') \<Rightarrow> (ErrorReply 500 [], s')
           | (Inr _, s') \<Rightarrow> (NoContent, s')))"

subsection \<open>A signed request is accepted once\<close>

lemma consumeNonce_True:
  assumes "consumeNonce e cl key n s = (True, s')"
  shows "\<not> list_ex (same_nonce key n) (nonces s)"
    and "s' = cleanup e cl (s\<lparr>nonces := nonces s @ [\<lparr>no_key = key, no_nonce = n, no_created = db_now e\<rparr>]\<rparr>)"
  using assms by (auto simp: consumeNonce_def split: if_splits)

lemma verified_Inr:
  assumes "verifyServiceRequest e a cl cfg d r s = (Inr x, s')"
  obtains g where "authenticate e a cfg d r = Inr g" and "consumeNonce e cl (sg_key g) (sg_nonce g) s = (True, s')"
  using assms by (auto simp: verifyServiceRequest_def split: sum.splits prod.splits if_splits)

lemma authenticated:
  assumes "authenticate e a cfg d r = Inr g"
  shows "\<exists>h. rq_header r = Some h \<and> parseSignatureHeader h = Some g"
    and "sg_key g = keyId d" and "\<bar>clock e - int (decimal_value (sg_timestamp g))\<bar> \<le> max_skew cfg"
  using assms by (auto simp: authenticate_def check_signed_def split: option.splits if_splits)

definition held :: "string \<Rightarrow> string \<Rightarrow> int \<Rightarrow> access_db \<Rightarrow> bool" where
  "held key n t s \<longleftrightarrow> (\<exists>x\<in>set (nonces s). same_nonce key n x \<and> t \<le> no_created x)"

lemma held_cleanup: "held key n t s \<Longrightarrow> clock e \<le> t + NONCE_RETENTION_MS \<Longrightarrow> held key n t (cleanup e cl s)"
  by (auto simp: held_def cleanup_def)

lemma held_verify:
  assumes "held key n t s" and "clock e \<le> t + NONCE_RETENTION_MS"
  shows "held key n t (snd (verifyServiceRequest e a cl cfg d r s))"
proof -
  have "held key n t (s\<lparr>nonces := nonces s @ [x]\<rparr>)" for x using assms(1) by (auto simp: held_def)
  then have "held key n t (snd (consumeNonce e cl k m s))" for k m
    using assms held_cleanup by (auto simp: consumeNonce_def)
  then show ?thesis using assms(1) by (auto simp: verifyServiceRequest_def split: sum.splits prod.splits) (metis snd_conv)+
qed

type_synonym service_call = "env \<times> bool \<times> service_request"

fun serve :: "access_env \<Rightarrow> service_config \<Rightarrow> direction \<Rightarrow> service_call list \<Rightarrow> access_db \<Rightarrow> (error + unit) list" where
  "serve a cfg d [] s = []"
| "serve a cfg d ((e, cl, r) # cs) s =
     (case verifyServiceRequest e a cl cfg d r s of (v, s') \<Rightarrow> v # serve a cfg d cs s')"

lemma length_serve [simp]: "length (serve a cfg d cs s) = length cs"
  by (induction a cfg d cs s rule: serve.induct) (auto split: prod.splits)

lemma serve_held:
  assumes "held (keyId d) n t s" and "j < length cs"
    and "\<forall>k\<le>j. clock (fst (cs ! k)) \<le> t + NONCE_RETENTION_MS"
    and "rq_header (snd (snd (cs ! j))) = Some h" "parseSignatureHeader h = Some g" "sg_nonce g = n"
  shows "serve a cfg d cs s ! j \<noteq> Inr ()"
  using assms
proof (induction cs arbitrary: s j)
  case (Cons c cs)
  obtain e cl r where c: "c = (e, cl, r)" by (cases c)
  obtain v s' where run: "verifyServiceRequest e a cl cfg d r s = (v, s')" by (cases "verifyServiceRequest e a cl cfg d r s")
  show ?case
  proof (cases j)
    case 0
    have "v \<noteq> Inr ()"
    proof
      assume "v = Inr ()"
      with run obtain g' where g: "authenticate e a cfg d r = Inr g'"
        and fresh: "consumeNonce e cl (sg_key g') (sg_nonce g') s = (True, s')" by (auto elim: verified_Inr)
      from authenticated [OF g] Cons.prems 0 c have "sg_key g' = keyId d" "sg_nonce g' = n" by auto
      with Cons.prems(1) consumeNonce_True(1) [OF fresh] show False by (auto simp: held_def list_ex_iff)
    qed
    with 0 run c show ?thesis by simp
  next
    case (Suc i)
    from Cons.prems(3) c have "clock e \<le> t + NONCE_RETENTION_MS" by force
    from held_verify [OF Cons.prems(1) this, of a cl cfg d r] have "held (keyId d) n t s'" by (simp add: run)
    moreover have "\<forall>k\<le>i. clock (fst (cs ! k)) \<le> t + NONCE_RETENTION_MS" using Cons.prems(3) Suc by force
    ultimately have "serve a cfg d cs s' ! i \<noteq> Inr ()" using Cons.prems Suc by (intro Cons.IH) auto
    with Suc run c show ?thesis by simp
  qed
qed simp

lemma accepted_skew:
  assumes "serve a cfg d cs s ! j = Inr ()" and "j < length cs"
    and "rq_header (snd (snd (cs ! j))) = Some h" and "parseSignatureHeader h = Some g"
  shows "\<bar>clock (fst (cs ! j)) - int (decimal_value (sg_timestamp g))\<bar> \<le> max_skew cfg"
  using assms
proof (induction cs arbitrary: s j)
  case (Cons c cs)
  obtain e cl r where c: "c = (e, cl, r)" by (cases c)
  obtain v s' where run: "verifyServiceRequest e a cl cfg d r s = (v, s')" by (cases "verifyServiceRequest e a cl cfg d r s")
  show ?case
  proof (cases j)
    case 0
    with Cons.prems(1) run c obtain g' where "authenticate e a cfg d r = Inr g'" by (auto elim: verified_Inr)
    from authenticated [OF this] Cons.prems 0 c show ?thesis by auto
  next
    case (Suc i)
    with Cons run c show ?thesis by (auto split: prod.splits)
  qed
qed simp

text \<open>C34. A signed request is accepted once. As long as the clock of the control plane does not run backwards
  and its distance to that of the database and twice the accepted skew stay within the retention of nonces,
  which they do for the default skew when the clocks differ by less than four minutes, a header that was
  accepted is refused whenever it comes again, whatever is asked in between and whenever old nonces are
  deleted.
\<close>

theorem accepted_once:
  assumes "sorted_wrt (\<lambda>x y. clock (fst x) \<le> clock (fst y)) calls"
    and "\<forall>c\<in>set calls. \<bar>db_now (fst c) - clock (fst c)\<bar> \<le> drift"
    and "2 * max_skew cfg + drift \<le> NONCE_RETENTION_MS"
    and "i < j" and "j < length calls"
    and "rq_header (snd (snd (calls ! i))) = rq_header (snd (snd (calls ! j)))"
    and "serve a cfg d calls s ! i = Inr ()"
  shows "serve a cfg d calls s ! j \<noteq> Inr ()"
  using assms(1,2,4-)
proof (induction calls arbitrary: i j s)
  case (Cons c cs)
  obtain e cl r where c: "c = (e, cl, r)" by (cases c)
  obtain v s' where run: "verifyServiceRequest e a cl cfg d r s = (v, s')" by (cases "verifyServiceRequest e a cl cfg d r s")
  from Cons.prems obtain m where j: "j = Suc m" "m < length cs" by (cases j) auto
  show ?case
  proof (cases i)
    case 0
    with Cons.prems(6) run c have "v = Inr ()" by simp
    with run obtain g where g: "authenticate e a cfg d r = Inr g"
      and fresh: "consumeNonce e cl (sg_key g) (sg_nonce g) s = (True, s')" by (auto elim: verified_Inr)
    note A = authenticated [OF g]
    from A(1) obtain h where h: "rq_header r = Some h" "parseSignatureHeader h = Some g" by blast
    have drift: "clock e - drift \<le> db_now e" "0 \<le> drift" using Cons.prems(2) c by auto
    let ?new = "\<lparr>no_key = sg_key g, no_nonce = sg_nonce g, no_created = db_now e\<rparr>"
    have "held (keyId d) (sg_nonce g) (clock e - drift) (s\<lparr>nonces := nonces s @ [?new]\<rparr>)"
      using drift A(2) by (auto simp: held_def same_nonce_def)
    moreover have "clock e \<le> clock e - drift + NONCE_RETENTION_MS"
      using assms(3) A(3) by linarith
    ultimately have held: "held (keyId d) (sg_nonce g) (clock e - drift) s'"
      unfolding consumeNonce_True(2) [OF fresh] by (rule held_cleanup)
    let ?cj = "cs ! m"
    show ?thesis
    proof
      assume "serve a cfg d (c # cs) s ! j = Inr ()"
      then have accepted: "serve a cfg d cs s' ! m = Inr ()" using j run c by simp
      have header: "rq_header (snd (snd ?cj)) = Some h" using Cons.prems(5) 0 j c h by simp
      have "clock (fst ?cj) \<le> clock e - drift + NONCE_RETENTION_MS \<or> \<bar>clock (fst ?cj) - int (decimal_value (sg_timestamp g))\<bar> > max_skew cfg"
        using assms(3) A(3) by linarith
      then show False
      proof
        assume late: "clock (fst ?cj) \<le> clock e - drift + NONCE_RETENTION_MS"
        have "clock (fst (cs ! k)) \<le> clock (fst ?cj)" if "k \<le> m" for k
        proof -
          have "sorted_wrt (\<lambda>x y. clock (fst x) \<le> clock (fst y)) cs" using Cons.prems(1) by simp
          then show ?thesis using j(2) that by (cases "k = m") (auto simp: sorted_wrt_iff_nth_less)
        qed
        with late have "\<forall>k\<le>m. clock (fst (cs ! k)) \<le> clock e - drift + NONCE_RETENTION_MS" by force
        from serve_held [OF held j(2) this header h(2) refl] accepted show False by blast
      next
        assume "max_skew cfg < \<bar>clock (fst ?cj) - int (decimal_value (sg_timestamp g))\<bar>"
        with accepted_skew [OF accepted j(2) header h(2)] show False by simp
      qed
    qed
  next
    case (Suc k)
    with Cons.prems run c j have "serve a cfg d cs s' ! m \<noteq> Inr ()" by (intro Cons.IH [of k m s']) auto
    with run c j show ?thesis by simp
  qed
qed simp

subsection \<open>What is signed is accepted\<close>

lemma split_on_parts: "c \<notin> set a \<Longrightarrow> split_on c (a @ c # b) = a # split_on c b"
  by (induction a) (auto split: list.split)

lemma split_on_whole: "c \<notin> set a \<Longrightarrow> split_on c a = [a]"
  by (induction a) (auto split: list.split)

lemma after_prefix_append: "after_prefix p (p @ s) = (if s = [] then None else Some s)"
  by (simp add: after_prefix_def)

lemma parse_signature_header:
  assumes "CHR '','' \<notin> set (sg_key g)" "CHR '','' \<notin> set (sg_timestamp g)"
    "CHR '','' \<notin> set (sg_nonce g)" "CHR '','' \<notin> set (sg_signature g)"
    and "sg_key g \<noteq> []" "sg_timestamp g \<noteq> []" "sg_nonce g \<noteq> []" "sg_signature g \<noteq> []"
  shows "parseSignatureHeader (signatureHeader g) = Some g"
proof -
  let ?a = "''HMAC-SHA256 keyId='' @ sg_key g" and ?b = "''timestamp='' @ sg_timestamp g"
  let ?c = "''nonce='' @ sg_nonce g" and ?d = "''signature='' @ sg_signature g"
  have "signatureHeader g = ?a @ CHR '','' # ?b @ CHR '','' # ?c @ CHR '','' # ?d"
    by (simp add: signatureHeader_def)
  then have parts: "split_on (CHR '','') (signatureHeader g) = [?a, ?b, ?c, ?d]"
    using assms(1-4) by (simp only: split_on_parts split_on_whole) (simp add: split_on_parts split_on_whole)
  have "parse_scheme ?a = Some (sg_key g)"
    using assms(5) after_prefix_append [of "''keyId=''" "sg_key g"]
    by (simp add: parse_scheme_def after_prefix_def is_space_def)
  then show ?thesis
    using assms(6-8) after_prefix_append [of "''timestamp=''" "sg_timestamp g"]
      after_prefix_append [of "''nonce=''" "sg_nonce g"] after_prefix_append [of "''signature=''" "sg_signature g"]
    unfolding parseSignatureHeader_def parts by simp
qed

lemma hex_number_digit: "n < 16 \<Longrightarrow> hex_number (hex_digit n) = n"
proof -
  have "list_all (\<lambda>n. hex_number (hex_digit n) = n) [0..<16]" by code_simp
  then show "n < 16 \<Longrightarrow> hex_number (hex_digit n) = n" by (simp add: list_all_iff)
qed

lemma hex_roundtrip: "hex_bytes (hex_text bytes) = bytes"
proof (induction bytes)
  case (Cons c bytes)
  have "(of_char c :: nat) < 256" by simp
  then have "(of_char c :: nat) div 16 < 16" "(of_char c :: nat) mod 16 < 16" by simp_all
  then show ?case using Cons by (simp add: hex_text_def hex_number_digit)
qed (simp add: hex_text_def)

lemma hex_text_ok:
  assumes "length bytes = 32"
  shows "signature_text (hex_text bytes)" and "CHR '','' \<notin> set (hex_text bytes)" and "hex_text bytes \<noteq> []"
proof -
  have digits: "hex_digit n \<in> set ''0123456789abcdef''" if "n < 16" for n
    unfolding hex_digit_def using that by (intro nth_mem) simp
  have "(of_char c :: nat) div 16 < 16" "(of_char c :: nat) mod 16 < 16" for c :: char
  proof -
    have "(of_char c :: nat) < 256" by simp
    then show "(of_char c :: nat) div 16 < 16" by simp
  qed simp
  moreover have "\<exists>c::char. x = hex_digit (of_char c div 16) \<or> x = hex_digit (of_char c mod 16)"
    if "x \<in> set (hex_text bytes)" for x
    using that by (auto simp: hex_text_def)
  ultimately have hex: "x \<in> set ''0123456789abcdef''" if "x \<in> set (hex_text bytes)" for x
    using that digits by metis
  have "length (hex_text bytes) = 64"
    using assms by (simp add: hex_text_def length_concat comp_def sum_list_triv)
  moreover have "list_all (\<lambda>c. c \<in> set ''0123456789abcdefABCDEF'') (hex_text bytes)"
    using hex by (force simp: list_all_iff)
  ultimately show "signature_text (hex_text bytes)" by (simp add: signature_text_def)
  show "CHR '','' \<notin> set (hex_text bytes)" using hex by fastforce
  show "hex_text bytes \<noteq> []" using \<open>length (hex_text bytes) = 64\<close> by auto
qed

lemma decimal_text_length: "n < 10 ^ k \<Longrightarrow> 0 < k \<Longrightarrow> length (decimal_text n) \<le> k"
proof (induction n arbitrary: k rule: decimal_text.induct)
  case (1 n)
  show ?case
  proof (cases "n < 10")
    case True
    with 1(3) show ?thesis by (simp add: decimal_text.simps [of n])
  next
    case False
    obtain m where k: "k = Suc m" using 1(3) by (cases k) auto
    have "0 < m" using 1(2) False k by (cases m) auto
    from 1(2) k have "n div 10 < 10 ^ m" by (simp add: less_mult_imp_div_less mult.commute)
    with 1(1) False \<open>0 < m\<close> have "length (decimal_text (n div 10)) \<le> m" by blast
    with False k show ?thesis by (simp add: decimal_text.simps [of n])
  qed
qed

lemma timestamp_text:
  assumes "now < 2 ^ 53"
  shows "timestamp_ok (decimal_text now)" and "CHR '','' \<notin> set (decimal_text now)"
proof -
  have size: "is_size_text (decimal_text now)" by simp
  have "now < 10 ^ 16" using assms by simp
  from decimal_text_length [OF this] have len: "length (decimal_text now) \<le> 16" by simp
  have "is_digit (CHR ''0'')" "\<not> is_digit (CHR '','')" by code_simp+
  then have digits: "is_digits (decimal_text now)" "CHR '','' \<notin> set (decimal_text now)"
    using size by (auto simp: is_size_text_def is_digits_def list_all_iff)
  with len assms show "timestamp_ok (decimal_text now)" by (simp add: timestamp_ok_def)
  show "CHR '','' \<notin> set (decimal_text now)" by (rule digits)
qed

lemma signed_authenticates:
  assumes "\<And>k m. length (hmac a k m) = 32"
    and "currentKey ks d \<in> set (verificationKeys (sc_keys cfg) d)"
    and "now < 2 ^ 53" and "\<bar>clock e - int now\<bar> \<le> max_skew cfg"
    and "CHR '','' \<notin> set n" "\<not> blank n" "length n \<le> MAX_NONCE_LENGTH"
    and "rq_header r = Some (signatureHeader (signRequest e a ks d (rq_method r) (rq_path r) (rq_body r) now n))"
  shows "authenticate e a cfg d r = Inr (signRequest e a ks d (rq_method r) (rq_path r) (rq_body r) now n)"
proof -
  let ?g = "signRequest e a ks d (rq_method r) (rq_path r) (rq_body r) now n"
  let ?mac = "\<lambda>k. hmac a k (signaturePayload e d (decimal_text now) n (rq_method r) (rq_path r) (rq_body r))"
  note stamp = timestamp_text [OF assms(3)]
  note sig = hex_text_ok [OF assms(1) [of "currentKey ks d"
      "signaturePayload e d (decimal_text now) n (rq_method r) (rq_path r) (rq_body r)"]]
  have g: "sg_key ?g = keyId d" "sg_timestamp ?g = decimal_text now" "sg_nonce ?g = n"
    "sg_signature ?g = hex_text (?mac (currentKey ks d))" by (simp_all add: signRequest_def)
  have "CHR '','' \<notin> set (keyId d)" "keyId d \<noteq> []" by (cases d; simp add: keyId_def direction_name_def)+
  moreover have "decimal_text now \<noteq> []" using stamp(1) by (auto simp: timestamp_ok_def is_digits_def)
  moreover have "n \<noteq> []" using assms(6) by (auto simp: blank_def trim_def)
  ultimately have parsed: "parseSignatureHeader (signatureHeader ?g) = Some ?g"
    using assms(5) stamp(2) sig by (intro parse_signature_header) (simp_all add: g)
  have "hex_bytes (sg_signature ?g) = ?mac (currentKey ks d)" by (simp add: g hex_roundtrip)
  then have "list_ex (\<lambda>k. hex_bytes (sg_signature ?g) = ?mac k) (verificationKeys (sc_keys cfg) d)"
    using assms(2) by (auto simp: list_ex_iff)
  then have "check_signed e a cfg d r ?g = Inr ()"
    using assms(4,6,7) stamp(1) sig(1) by (simp add: check_signed_def g)
  moreover have "signatureHeader ?g \<noteq> []" by (simp add: signatureHeader_def)
  ultimately show ?thesis using assms(8) parsed by (simp add: authenticate_def)
qed

text \<open>C37. What one service signs the other accepts: a request signed with a key that the receiver knows, as
  its current key or as the previous one during a rotation, passes within the accepted skew as long as its
  nonce is new, whatever its method, path and body, and its nonce is recorded.
\<close>

theorem signed_request_accepted:
  assumes "\<And>k m. length (hmac a k m) = 32"
    and "currentKey ks d \<in> set (verificationKeys (sc_keys cfg) d)"
    and "now < 2 ^ 53" and "\<bar>clock e - int now\<bar> \<le> max_skew cfg"
    and "CHR '','' \<notin> set n" "\<not> blank n" "length n \<le> MAX_NONCE_LENGTH"
    and "rq_header r = Some (signatureHeader (signRequest e a ks d (rq_method r) (rq_path r) (rq_body r) now n))"
    and "\<not> list_ex (same_nonce (keyId d) n) (nonces s)"
  shows "verifyServiceRequest e a cl cfg d r s =
    (Inr (), cleanup e cl (s\<lparr>nonces := nonces s @ [\<lparr>no_key = keyId d, no_nonce = n, no_created = db_now e\<rparr>]\<rparr>))"
  using signed_authenticates [OF assms(1-8)] assms(9)
  by (simp add: verifyServiceRequest_def consumeNonce_def signRequest_def)

subsection \<open>Sessions under any sequence of requests\<close>

text \<open>The transactions of the sessions and of the nonces, in any order. The session of a join is its own
  transaction, so it may belong to a binding that has been closed since.\<close>

inductive access_step :: "access_db \<Rightarrow> access_db \<Rightarrow> bool" where
  join: "join_binding e q s = Inr (x, s') \<Longrightarrow> access_step s s'"
| open_session: "createSession e bid who expiry s = Inr (y, s') \<Longrightarrow> access_step s s'"
| refresh: "refreshSession e token s = Inr (z, s') \<Longrightarrow> access_step s s'"
| revoke: "revokeSession e token s = Inr (b, s') \<Longrightarrow> access_step s s'"
| close_instance: "closeInstance e app ins s = Inr (b, s') \<Longrightarrow> access_step s s'"
| verify: "verifyServiceRequest e a cl cfg d r s = (v, s') \<Longrightarrow> access_step s s'"

text \<open>What a step does to the two tables.\<close>

definition grows_bindings :: "access_db \<Rightarrow> access_db \<Rightarrow> bool" where
  "grows_bindings s s' \<longleftrightarrow>
     (\<exists>f. (\<forall>b. bi_id (f b) = bi_id b \<and> bi_application (f b) = bi_application b \<and> bi_instance (f b) = bi_instance b \<and>
         bi_run (f b) = bi_run b \<and> (bi_closed b \<noteq> None \<longrightarrow> bi_closed (f b) = bi_closed b)) \<and>
       (bindings s' = map f (bindings s) \<or>
        (\<exists>b. bindings s' = map f (bindings s) @ [b] \<and>
          \<not> list_ex (instance_binding (bi_application b) (bi_instance b)) (bindings s))))"

definition session_kept :: "session \<Rightarrow> session \<Rightarrow> bool" where
  "session_kept x y \<longleftrightarrow> se_id y = se_id x \<and> se_binding y = se_binding x \<and> se_principal y = se_principal x \<and>
     se_expires y = se_expires x \<and>
     (se_revoked x \<noteq> None \<longrightarrow> se_digest y = se_digest x \<and> se_revoked y = se_revoked x) \<and>
     (se_idle x \<le> se_expires x \<longrightarrow> se_idle y \<le> se_expires x)"

definition grows_sessions :: "access_db \<Rightarrow> access_db \<Rightarrow> bool" where
  "grows_sessions s s' \<longleftrightarrow>
     (\<exists>f. (\<forall>x\<in>set (sessions s). session_kept x (f x)) \<and>
       (sessions s' = map f (sessions s) \<or>
        (\<exists>y. sessions s' = map f (sessions s) @ [y] \<and> se_id y \<notin> set (map se_id (sessions s)) \<and>
          se_idle y \<le> se_expires y)))"

definition access_ok :: "access_db \<Rightarrow> bool" where
  "access_ok s \<longleftrightarrow> distinct (map se_id (sessions s)) \<and> distinct (map se_digest (sessions s)) \<and>
     (\<forall>x\<in>set (sessions s). se_idle x \<le> se_expires x)"

lemma session_kept_refl [simp]: "session_kept x x"
  by (simp add: session_kept_def)

lemma grows_same [simp]:
  "bindings s' = bindings s \<Longrightarrow> grows_bindings s s'" "sessions s' = sessions s \<Longrightarrow> grows_sessions s s'"
  unfolding grows_bindings_def grows_sessions_def by (auto intro!: exI [of _ id])

lemma grows_set_rows:
  assumes "sessions s' = set_rows p g (sessions s)" and "\<And>x. x \<in> set (sessions s) \<Longrightarrow> p x \<Longrightarrow> session_kept x (g x)"
  shows "grows_sessions s s'"
  unfolding grows_sessions_def using assms
  by (intro exI [of _ "\<lambda>x. if p x then g x else x"]) (simp add: set_rows_def)

lemma join_binding_frame:
  assumes "join_binding e q s = Inr (x, s')"
  shows "grows_bindings s s' \<and> sessions s' = sessions s"
proof -
  have set_rows: "grows_bindings s (s\<lparr>bindings := set_rows p (\<lambda>x. x\<lparr>bi_expires := t\<rparr>) (bindings s)\<rparr>)" for p t
    unfolding grows_bindings_def by (intro exI [of _ "\<lambda>x. if p x then x\<lparr>bi_expires := t\<rparr> else x"]) (simp add: set_rows_def)
  have existing: "grows_bindings s s' \<and> sessions s' = sessions s" if "join_existing e q b s = Inr (x, s')" for b
    using that set_rows by (auto simp: join_existing_def tx_Inr of_sum_Inr)
  show ?thesis
  proof (cases "find_binding q s")
    case (Some b)
    with assms existing show ?thesis by (auto simp: join_binding_def bind_tx_Inr get_Inr)
  next
    case None
    then have fresh: "\<not> list_ex (instance_binding (sr_application q) (sr_instance q)) (bindings s)"
      by (auto simp: find_binding_def find_None_iff list_ex_iff)
    let ?b = "new_binding e (new_uuid e (uuid_draws s)) q"
    have "bi_application ?b = sr_application q" "bi_instance ?b = sr_instance q" by (simp_all add: new_binding_def)
    with None fresh assms have "s' = s\<lparr>uuid_draws := Suc (uuid_draws s), bindings := bindings s @ [?b]\<rparr>"
      by (auto simp: join_binding_def tx_Inr draw_uuid_def insert_binding_or_nothing_def split: if_splits)
    with fresh show ?thesis unfolding grows_bindings_def
      by (auto simp: new_binding_def intro!: exI [of _ id] exI [of _ ?b])
  qed
qed

lemma createSession_frame:
  assumes "createSession e bid who expiry s = Inr (y, s')"
  obtains x where "sessions s' = sessions s @ [x]" and "bindings s' = bindings s"
    and "\<not> list_ex (\<lambda>y. se_id y = se_id x) (sessions s)" "\<not> list_ex (\<lambda>y. se_digest y = se_digest x) (sessions s)"
    and "se_idle x \<le> se_expires x" "se_expires x \<le> clock e + SESSION_TTL_MS" "se_id x = new_uuid e (uuid_draws s)"
proof -
  from assms have "\<exists>x. sessions s' = sessions s @ [x] \<and> bindings s' = bindings s \<and>
    \<not> list_ex (\<lambda>y. se_id y = se_id x) (sessions s) \<and> \<not> list_ex (\<lambda>y. se_digest y = se_digest x) (sessions s) \<and>
    se_idle x \<le> se_expires x \<and> se_expires x \<le> clock e + SESSION_TTL_MS \<and> se_id x = new_uuid e (uuid_draws s)"
    by (auto simp: createSession_def Let_def tx_Inr draw_token_def draw_uuid_def insert_session_def split: if_splits)
  with that show ?thesis by blast
qed

lemma refreshSession_frame:
  assumes "refreshSession e token s = Inr (z, s')"
  shows "sessions s' = sessions s \<or> (\<exists>x d idle. x \<in> set (sessions s) \<and> se_revoked x = None \<and> idle \<le> se_expires x \<and>
      \<not> list_ex (\<lambda>y. se_id y \<noteq> se_id x \<and> se_digest y = d) (sessions s) \<and>
      sessions s' = set_rows (\<lambda>y. se_id y = se_id x \<and> se_digest y = se_digest x)
        (\<lambda>y. y\<lparr>se_digest := d, se_idle := idle, se_refreshed := Some (clock e)\<rparr>) (sessions s))"
    and "bindings s' = bindings s"
proof -
  show "bindings s' = bindings s"
    using assms by (auto simp: refreshSession_def Let_def tx_Inr draw_token_def replace_digest_def split: option.splits if_splits)
  show "sessions s' = sessions s \<or> (\<exists>x d idle. x \<in> set (sessions s) \<and> se_revoked x = None \<and> idle \<le> se_expires x \<and>
      \<not> list_ex (\<lambda>y. se_id y \<noteq> se_id x \<and> se_digest y = d) (sessions s) \<and>
      sessions s' = set_rows (\<lambda>y. se_id y = se_id x \<and> se_digest y = se_digest x)
        (\<lambda>y. y\<lparr>se_digest := d, se_idle := idle, se_refreshed := Some (clock e)\<rparr>) (sessions s))"
  proof (cases "session_by (sha256_hex e token) s")
    case None
    with assms show ?thesis by (simp add: refreshSession_def tx_Inr)
  next
    case (Some x)
    then have x: "x \<in> set (sessions s)" by (auto simp: session_by_def dest: find_Some_mem)
    show ?thesis
    proof (cases "sessions s' = sessions s")
      case False
      with assms Some have "\<exists>(b :: binding) r. session_live e x \<and> replace_digest e x (sha256_hex e (new_token e (token_draws s)))
          (min (clock e + IDLE_TTL_MS) (min (se_expires x) (bi_expires b))) (s\<lparr>token_draws := Suc (token_draws s)\<rparr>) = Inr (r, s')"
        by (auto simp: refreshSession_def Let_def tx_Inr draw_token_def split: option.splits if_splits)
      then obtain b :: binding and r where live: "session_live e x"
        and run: "replace_digest e x (sha256_hex e (new_token e (token_draws s)))
          (min (clock e + IDLE_TTL_MS) (min (se_expires x) (bi_expires b))) (s\<lparr>token_draws := Suc (token_draws s)\<rparr>) = Inr (r, s')"
        by blast
      from run have "\<not> list_ex (\<lambda>y. se_id y \<noteq> se_id x \<and> se_digest y = sha256_hex e (new_token e (token_draws s))) (sessions s)"
        "sessions s' = set_rows (\<lambda>y. se_id y = se_id x \<and> se_digest y = se_digest x)
          (\<lambda>y. y\<lparr>se_digest := sha256_hex e (new_token e (token_draws s)),
            se_idle := min (clock e + IDLE_TTL_MS) (min (se_expires x) (bi_expires b)), se_refreshed := Some (clock e)\<rparr>) (sessions s)"
        by (auto simp: replace_digest_def split: if_splits)
      moreover have "min (clock e + IDLE_TTL_MS) (min (se_expires x) (bi_expires b)) \<le> se_expires x" by simp
      moreover have "se_revoked x = None" using live by (simp add: session_live_def)
      ultimately show ?thesis using x by blast
    qed simp
  qed
qed

lemma distinct_images:
  assumes "distinct (map k xs)" and "\<And>x y. x \<in> set xs \<Longrightarrow> y \<in> set xs \<Longrightarrow> g (f x) = g (f y) \<Longrightarrow> x = y"
  shows "distinct (map g (map f xs))"
  using assms by (auto simp: distinct_map inj_on_def)

lemma revoked_rows:
  assumes "sessions s' = set_rows p (\<lambda>x. x\<lparr>se_revoked := t\<rparr>) (sessions s)" and "\<And>x. p x \<Longrightarrow> se_revoked x = None"
  shows "grows_sessions s s' \<and> map se_digest (sessions s') = map se_digest (sessions s)"
proof
  show "grows_sessions s s'" by (rule grows_set_rows [OF assms(1)]) (simp add: session_kept_def assms(2))
  show "map se_digest (sessions s') = map se_digest (sessions s)"
    unfolding assms(1) by (simp add: set_rows_def)
qed

lemma verify_frame:
  assumes "verifyServiceRequest e a cl cfg d r s = (v, s')"
  shows "bindings s' = bindings s" and "sessions s' = sessions s"
  using assms
  by (auto simp: verifyServiceRequest_def consumeNonce_def cleanup_def split: sum.splits prod.splits if_splits)

lemma closeInstance_frame:
  assumes "closeInstance e app ins s = Inr (b, s')"
  shows "grows_bindings s s'" and "grows_sessions s s' \<and> map se_digest (sessions s') = map se_digest (sessions s)"
proof -
  let ?hit = "\<lambda>b. instance_binding app ins b \<and> bi_closed b = None"
  have "grows_bindings s (s\<lparr>bindings := set_rows ?hit (\<lambda>x. x\<lparr>bi_closed := Some (clock e)\<rparr>) (bindings s), sessions := xs\<rparr>)" for xs
    unfolding grows_bindings_def
    by (intro exI [of _ "\<lambda>x. if ?hit x then x\<lparr>bi_closed := Some (clock e)\<rparr> else x"]) (simp add: set_rows_def)
  then show "grows_bindings s s'"
    using assms by (auto simp: closeInstance_def Let_def split: option.splits)
  show "grows_sessions s s' \<and> map se_digest (sessions s') = map se_digest (sessions s)"
  proof (cases "List.find ?hit (bindings s)")
    case None
    with assms have "s' = s" by (simp add: closeInstance_def)
    then show ?thesis by simp
  next
    case (Some x)
    with assms have "sessions s' = set_rows (\<lambda>y. se_binding y = bi_id x \<and> se_revoked y = None)
      (\<lambda>y. y\<lparr>se_revoked := Some (clock e)\<rparr>) (sessions s)" by (auto simp: closeInstance_def)
    then show ?thesis by (rule revoked_rows) simp
  qed
qed

lemma step_frame:
  assumes "access_step s s'" and "access_ok s"
  shows "grows_bindings s s' \<and> grows_sessions s s' \<and> distinct (map se_digest (sessions s'))"
  using assms
proof (cases rule: access_step.cases)
  case (join e q x)
  with join_binding_frame assms(2) show ?thesis by (auto simp: access_ok_def)
next
  case (open_session e bid who expiry y)
  then show ?thesis
  proof (rule createSession_frame)
    fix x
    assume new: "sessions s' = sessions s @ [x]" "bindings s' = bindings s"
      "\<not> list_ex (\<lambda>y. se_id y = se_id x) (sessions s)" "\<not> list_ex (\<lambda>y. se_digest y = se_digest x) (sessions s)"
      "se_idle x \<le> se_expires x"
    then have "grows_sessions s s'" unfolding grows_sessions_def
      by (intro exI [of _ id] conjI disjI2 exI [of _ x]) (auto simp: list_ex_iff)
    with new assms(2) show ?thesis by (auto simp: access_ok_def list_ex_iff)
  qed
next
  case (refresh e token z)
  note R = refreshSession_frame [OF refresh]
  from R(1) show ?thesis
  proof
    assume "sessions s' = sessions s"
    with R(2) assms(2) show ?thesis by (simp add: access_ok_def)
  next
    assume "\<exists>x d idle. x \<in> set (sessions s) \<and> se_revoked x = None \<and> idle \<le> se_expires x \<and>
      \<not> list_ex (\<lambda>y. se_id y \<noteq> se_id x \<and> se_digest y = d) (sessions s) \<and>
      sessions s' = set_rows (\<lambda>y. se_id y = se_id x \<and> se_digest y = se_digest x)
        (\<lambda>y. y\<lparr>se_digest := d, se_idle := idle, se_refreshed := Some (clock e)\<rparr>) (sessions s)"
    then obtain x d idle where x: "x \<in> set (sessions s)" "se_revoked x = None" "idle \<le> se_expires x"
      and new: "\<not> list_ex (\<lambda>y. se_id y \<noteq> se_id x \<and> se_digest y = d) (sessions s)"
      and rows: "sessions s' = set_rows (\<lambda>y. se_id y = se_id x \<and> se_digest y = se_digest x)
        (\<lambda>y. y\<lparr>se_digest := d, se_idle := idle, se_refreshed := Some (clock e)\<rparr>) (sessions s)" by blast
    have ids: "distinct (map se_id (sessions s))" and digests: "distinct (map se_digest (sessions s))"
      using assms(2) by (auto simp: access_ok_def)
    have same: "y = x" if "y \<in> set (sessions s)" "se_id y = se_id x" for y
      using distinct_keys_unique [OF ids] that x(1) by blast
    have "grows_sessions s s'"
    proof (rule grows_set_rows [OF rows])
      fix y
      assume "y \<in> set (sessions s)" "se_id y = se_id x \<and> se_digest y = se_digest x"
      with same have "y = x" by blast
      with x show "session_kept y (y\<lparr>se_digest := d, se_idle := idle, se_refreshed := Some (clock e)\<rparr>)"
        by (simp add: session_kept_def)
    qed
    moreover have "distinct (map se_digest (sessions s'))"
      unfolding rows set_rows_def
    proof (rule distinct_images [OF ids])
      fix y z
      assume "y \<in> set (sessions s)" "z \<in> set (sessions s)"
        and "se_digest (if se_id y = se_id x \<and> se_digest y = se_digest x
            then y\<lparr>se_digest := d, se_idle := idle, se_refreshed := Some (clock e)\<rparr> else y) =
          se_digest (if se_id z = se_id x \<and> se_digest z = se_digest x
            then z\<lparr>se_digest := d, se_idle := idle, se_refreshed := Some (clock e)\<rparr> else z)"
      with same new distinct_keys_unique [OF digests] show "y = z"
        by (auto simp: list_ex_iff split: if_splits)
    qed
    ultimately show ?thesis using R(2) by simp
  qed
next
  case (revoke e token b)
  from revoke have "sessions s' = set_rows (\<lambda>x. se_digest x = sha256_hex e token \<and> se_revoked x = None)
    (\<lambda>x. x\<lparr>se_revoked := Some (clock e)\<rparr>) (sessions s)" by (auto simp: revokeSession_def Let_def)
  then have "grows_sessions s s' \<and> map se_digest (sessions s') = map se_digest (sessions s)"
    by (rule revoked_rows) simp
  moreover have "bindings s' = bindings s" using revoke by (auto simp: revokeSession_def Let_def)
  ultimately show ?thesis using assms(2) by (simp add: access_ok_def)
next
  case (close_instance e app ins b)
  from closeInstance_frame [OF close_instance] assms(2) show ?thesis by (simp add: access_ok_def)
next
  case (verify e a cl cfg d r v)
  from verify_frame [OF verify] assms(2) show ?thesis by (simp add: access_ok_def)
qed

lemma access_ok_step:
  assumes "access_step s s'" and "access_ok s"
  shows "access_ok s'"
proof -
  from step_frame [OF assms] obtain f where f: "\<forall>x\<in>set (sessions s). session_kept x (f x)"
    and rows: "sessions s' = map f (sessions s) \<or>
        (\<exists>y. sessions s' = map f (sessions s) @ [y] \<and> se_id y \<notin> set (map se_id (sessions s)) \<and>
          se_idle y \<le> se_expires y)"
    and digests: "distinct (map se_digest (sessions s'))" unfolding grows_sessions_def by blast
  have same: "map (\<lambda>x. se_id (f x)) (sessions s) = map se_id (sessions s)"
    using f by (simp add: session_kept_def)
  have ids: "distinct (map (\<lambda>x. se_id (f x)) (sessions s))"
    unfolding same using assms(2) by (simp add: access_ok_def)
  have "set (map (\<lambda>x. se_id (f x)) (sessions s)) = set (map se_id (sessions s))" unfolding same ..
  then have "(\<lambda>x. se_id (f x)) ` set (sessions s) = se_id ` set (sessions s)" by simp
  note ids = ids this
  have "\<forall>x\<in>set (sessions s). se_idle (f x) \<le> se_expires (f x)"
    using f assms(2) by (auto simp: session_kept_def access_ok_def)
  with rows digests ids assms(2) show ?thesis
    unfolding access_ok_def by (elim disjE exE conjE) (simp_all add: comp_def image_image)
qed

lemma access_ok_steps: "access_step\<^sup>*\<^sup>* s s' \<Longrightarrow> access_ok s \<Longrightarrow> access_ok s'"
  by (induction rule: rtranclp_induct) (auto intro: access_ok_step)

lemma session_stays_step:
  assumes "access_step s s'" and "access_ok s" and "x \<in> set (sessions s)"
  shows "\<exists>y\<in>set (sessions s'). session_kept x y"
  using step_frame [OF assms(1,2)] assms(3) unfolding grows_sessions_def by auto

text \<open>A row of a session keeps its limits, and a revoked one its digest.\<close>

lemma session_stays:
  assumes "access_step\<^sup>*\<^sup>* s s'" and "access_ok s" and "x \<in> set (sessions s)"
  shows "\<exists>y\<in>set (sessions s'). session_kept x y"
  using assms
proof (induction rule: rtranclp_induct)
  case base
  then show ?case using session_kept_refl by blast
next
  case (step t u)
  then obtain y where y: "y \<in> set (sessions t)" "session_kept x y" by blast
  from session_stays_step [OF step.hyps(2) access_ok_steps [OF step.hyps(1) step.prems(1)] y(1)]
  obtain z where "z \<in> set (sessions u)" "session_kept y z" by blast
  with y(2) show ?case by (intro bexI [of _ z]) (auto simp: session_kept_def)
qed

lemma resolveSession_Some:
  assumes "resolveSession e token s = Some r"
  obtains x b where "session_by (sha256_hex e (trim token)) s = Some x" "binding_by (se_binding x) s = Some b"
    "session_live e x" "binding_live e b" "rd_session r = se_id x" "rd_expires r = se_expires x" "rd_idle r = se_idle x"
    "rd_application r = bi_application b" "rd_instance r = bi_instance b" "rd_run r = bi_run b"
  using assms by (auto simp: resolveSession_def Let_def split: option.splits if_splits)

lemma session_by_mem: "session_by d s = Some x \<Longrightarrow> x \<in> set (sessions s) \<and> se_digest x = d"
  by (auto simp: session_by_def dest: find_Some_mem)

lemma revoked_row:
  assumes "revokeSession e token s = Inr (True, s')"
  shows "\<exists>x\<in>set (sessions s'). se_digest x = sha256_hex e token \<and> se_revoked x \<noteq> None"
proof -
  let ?hit = "\<lambda>x. se_digest x = sha256_hex e token \<and> se_revoked x = None"
  let ?f = "\<lambda>x. if ?hit x then x\<lparr>se_revoked := Some (clock e)\<rparr> else x"
  from assms obtain x where x: "x \<in> set (sessions s)" "?hit x"
    and rows: "sessions s' = map ?f (sessions s)"
    by (auto simp: revokeSession_def Let_def list_ex_iff set_rows_def)
  from x(1) have "?f x \<in> set (sessions s')" unfolding rows by simp
  with x(2) show ?thesis by (intro bexI [of _ "?f x"]) simp_all
qed

lemma revoked_for_ever:
  assumes "access_ok s" and "revokeSession e token s = Inr (True, s1)" and "access_step\<^sup>*\<^sup>* s1 s2"
    and "session_by (sha256_hex e token) s2 = Some x"
  shows "se_revoked x \<noteq> None"
proof -
  have ok: "access_ok s1" using access_ok_step [OF revoke assms(1)] assms(2) by blast
  from revoked_row [OF assms(2)] obtain y where y: "y \<in> set (sessions s1)" "se_digest y = sha256_hex e token"
    "se_revoked y \<noteq> None" by blast
  from session_stays [OF assms(3) ok y(1)] y obtain z where z: "z \<in> set (sessions s2)"
    "se_digest z = sha256_hex e token" "se_revoked z \<noteq> None" by (auto simp: session_kept_def)
  have "distinct (map se_digest (sessions s2))" using access_ok_steps [OF assms(3) ok] by (simp add: access_ok_def)
  from distinct_keys_unique [OF this] z session_by_mem [OF assms(4)] have "x = z" by auto
  with z show ?thesis by simp
qed

text \<open>C35. A token that has been revoked is out for ever: whatever sessions are opened, refreshed, revoked or
  closed afterwards, at any time it resolves to no session, can not be refreshed, and the hook in front
  of the routes lets no request with it pass to an API path that needs authentication.
\<close>

theorem revoked_locked_out:
  assumes "access_ok s" and "revokeSession e token s = Inr (True, s1)" and "access_step\<^sup>*\<^sup>* s1 s2"
    and "sha256_hex e' = sha256_hex e" and "trim token = token"
  shows "resolveSession e' token s2 = None \<and> refreshSession e' token s2 = Inr (None, s2) \<and>
    (exempt (url_path url) \<or> \<not> starts ''/api/v1/'' (url_path url) \<or>
     staticallyAuthorized e' ts meth (url_path url) token \<or>
     (\<exists>status code. onRequest e' a ts activity meth url (Some (''Bearer '' @ token)) s2 = Refuse status code))"
proof -
  have dead: "\<not> session_live e' x" if "session_by (sha256_hex e token) s2 = Some x" for x
    using revoked_for_ever [OF assms(1-3) that] by (simp add: session_live_def)
  then have none: "resolveSession e' token s2 = None"
    using assms(4,5) by (auto simp: resolveSession_def Let_def split: option.splits)
  moreover have "refreshSession e' token s2 = Inr (None, s2)"
    using dead assms(4) by (auto simp: refreshSession_def tx_simps split: option.splits)
  moreover have "bearer (Some (''Bearer '' @ token)) \<in> {None, Some token}"
    using after_prefix_append [of "''Bearer ''" token] by (simp add: bearer_def split: if_splits)
  ultimately show ?thesis
    by (auto simp: onRequest_def Let_def activity_read_def none split: option.splits)
qed

lemma binding_stays_closed:
  assumes "access_step\<^sup>*\<^sup>* s s'" and "access_ok s"
    and "list_ex (instance_binding app ins) (bindings s)"
    and "\<forall>b\<in>set (bindings s). instance_binding app ins b \<longrightarrow> bi_closed b \<noteq> None"
  shows "list_ex (instance_binding app ins) (bindings s') \<and>
    (\<forall>b\<in>set (bindings s'). instance_binding app ins b \<longrightarrow> bi_closed b \<noteq> None)"
  using assms
proof (induction rule: rtranclp_induct)
  case (step t u)
  then have IH: "list_ex (instance_binding app ins) (bindings t)"
    "\<forall>b\<in>set (bindings t). instance_binding app ins b \<longrightarrow> bi_closed b \<noteq> None" by auto
  from step_frame [OF step.hyps(2) access_ok_steps [OF step.hyps(1) step.prems(1)]]
  obtain f where f: "\<forall>b. bi_id (f b) = bi_id b \<and> bi_application (f b) = bi_application b \<and> bi_instance (f b) = bi_instance b \<and>
      bi_run (f b) = bi_run b \<and> (bi_closed b \<noteq> None \<longrightarrow> bi_closed (f b) = bi_closed b)"
    and rows: "bindings u = map f (bindings t) \<or> (\<exists>b. bindings u = map f (bindings t) @ [b] \<and>
      \<not> list_ex (instance_binding (bi_application b) (bi_instance b)) (bindings t))"
    unfolding grows_bindings_def by blast
  have "instance_binding app ins (f b) = instance_binding app ins b" for b using f by (simp add: instance_binding_def)
  with IH f have mapped: "list_ex (instance_binding app ins) (map f (bindings t))"
    "\<forall>b\<in>set (map f (bindings t)). instance_binding app ins b \<longrightarrow> bi_closed b \<noteq> None"
    by (auto simp: list_ex_iff)
  moreover have "\<not> instance_binding app ins b"
    if "\<not> list_ex (instance_binding (bi_application b) (bi_instance b)) (bindings t)" for b
    using that IH(1) by (auto simp: instance_binding_def)
  ultimately show ?case using rows by auto
qed auto

text \<open>Closing an instance ends its sessions for ever: no token, of a session opened before or after, also
  by a join that was on its way when the instance was closed, ever again resolves to the instance.
\<close>

theorem closed_stays_dark:
  assumes "access_ok s" and "closeInstance e app ins s = Inr (True, s1)" and "access_step\<^sup>*\<^sup>* s1 s2"
    and "resolveSession e' token s2 = Some r"
  shows "\<not> (rd_application r = app \<and> rd_instance r = ins)"
proof -
  let ?hit = "\<lambda>b. instance_binding app ins b \<and> bi_closed b = None"
  have ok: "access_ok s1" using access_ok_step [OF close_instance assms(1)] assms(2) by blast
  from assms(2) obtain b where b: "b \<in> set (bindings s)" "instance_binding app ins b"
    and rows: "bindings s1 = set_rows ?hit (\<lambda>x. x\<lparr>bi_closed := Some (clock e)\<rparr>) (bindings s)"
    by (auto simp: closeInstance_def Let_def split: option.splits dest: find_Some_mem)
  have "list_ex (instance_binding app ins) (bindings s1)"
    using b unfolding rows set_rows_def list_ex_iff set_map bex_simps
    by (intro bexI [of _ b]) (simp_all add: instance_binding_def)
  moreover have "\<forall>b\<in>set (bindings s1). instance_binding app ins b \<longrightarrow> bi_closed b \<noteq> None"
    unfolding rows by (auto simp: set_rows_def)
  ultimately have "\<forall>b\<in>set (bindings s2). instance_binding app ins b \<longrightarrow> bi_closed b \<noteq> None"
    using binding_stays_closed [OF assms(3) ok] by blast
  with assms(4) show ?thesis
    by (auto elim!: resolveSession_Some simp: binding_by_def binding_live_def instance_binding_def dest!: find_Some_mem)
qed

text \<open>C38. A session lives for an hour at most, however often it is refreshed: it is never resolved at or after
  the end that it was opened with.
\<close>

theorem session_lifetime:
  assumes "access_ok s" and "createSession e bid who expiry s = Inr (y, s1)" and "access_step\<^sup>*\<^sup>* s1 s2"
    and "resolveSession e' token s2 = Some r" and "rd_session r = new_uuid e (uuid_draws s)"
  shows "clock e' < clock e + SESSION_TTL_MS \<and> clock e' < rd_idle r \<and> rd_idle r \<le> rd_expires r \<and>
    rd_expires r \<le> clock e + SESSION_TTL_MS"
proof -
  have ok: "access_ok s1" using access_ok_step [OF open_session assms(1)] assms(2) by blast
  from assms(2) obtain x where x: "x \<in> set (sessions s1)" "se_id x = new_uuid e (uuid_draws s)"
    "se_expires x \<le> clock e + SESSION_TTL_MS"
  proof (rule createSession_frame)
    fix x
    assume "sessions s1 = sessions s @ [x]" "se_id x = new_uuid e (uuid_draws s)" "se_expires x \<le> clock e + SESSION_TTL_MS"
    with that [of x] show thesis by simp
  qed
  from session_stays [OF assms(3) ok x(1)] obtain z where z: "z \<in> set (sessions s2)" "session_kept x z" by blast
  have ok2: "access_ok s2" using access_ok_steps [OF assms(3) ok] .
  from assms(4) obtain w where found: "session_by (sha256_hex e' (trim token)) s2 = Some w" and live: "session_live e' w"
    and rd: "rd_session r = se_id w" "rd_expires r = se_expires w" "rd_idle r = se_idle w" by (rule resolveSession_Some)
  have mem: "w \<in> set (sessions s2)" using session_by_mem [OF found] by blast
  have ids: "distinct (map se_id (sessions s2))" using ok2 by (simp add: access_ok_def)
  have "se_id w = se_id z" using rd(1) z(2) x(2) assms(5) by (simp add: session_kept_def)
  from distinct_keys_unique [OF ids mem z(1) this] have "w = z" .
  then have "se_expires w = se_expires x" using z(2) by (simp add: session_kept_def)
  moreover have "se_idle w \<le> se_expires w" using ok2 mem by (simp add: access_ok_def)
  ultimately show ?thesis using live rd x(3) by (simp add: session_live_def)
qed

text \<open>The hook compares the raw path. A path whose text does not begin with the prefix of the API passes
  without a token, also when it names the same resource for a router that decodes percent-encoded characters
  or accepts an absolute URL.
\<close>

lemma raw_path_unchecked: "\<not> starts ''/api/v1/'' (url_path url) \<Longrightarrow> onRequest e a ts activity meth url auth s = Continue"
  by (simp add: onRequest_def Let_def)

lemma encoded_path_unchecked: "onRequest e a ts activity ''POST'' ''/%61pi/v1/commands'' None s = Continue"
  by (rule raw_path_unchecked) code_simp

subsection \<open>An activity and its session\<close>

definition sample_access :: access_env where
  "sample_access = \<lparr>hmac = (\<lambda>k m. replicate 32 (CHR ''h'')), decode_component = Some\<rparr>"

definition sample_keys :: service_keys where
  "sample_keys = \<lparr>agentToFactoryKey = ''k'', factoryToAgentKey = ''f'', previousAgentToFactoryKey = Some ''o'',
     previousFactoryToAgentKey = None\<rparr>"

definition rotated_keys :: service_keys where
  "rotated_keys = sample_keys\<lparr>agentToFactoryKey := ''o'', previousAgentToFactoryKey := None\<rparr>"

definition sample_config :: service_config where
  "sample_config = \<lparr>sc_keys = sample_keys, sc_max_skew = None\<rparr>"

definition signed_request :: service_request where
  "signed_request = \<lparr>rq_method = ''POST'', rq_path = ''/p'', rq_body = ''b'',
     rq_header = Some (signatureHeader (signRequest sample_env sample_access rotated_keys AgentToFf ''POST'' ''/p'' ''b'' 900 ''n''))\<rparr>"

lemma signed_request_known:
  "length (hmac sample_access k m) = 32"
  "currentKey rotated_keys AgentToFf \<in> set (verificationKeys (sc_keys sample_config) AgentToFf)"
  "\<bar>clock sample_env - int 900\<bar> \<le> max_skew sample_config" "\<not> blank ''n''" "length ''n'' \<le> MAX_NONCE_LENGTH"
  by (simp add: sample_access_def) code_simp+

theorem signed_request_accepted_witness:
  "verifyServiceRequest sample_env sample_access True sample_config AgentToFf signed_request no_access =
    (Inr (), cleanup sample_env True
      (no_access\<lparr>nonces := [\<lparr>no_key = ''ff-agent-to-ff-v1'', no_nonce = ''n'', no_created = 1000\<rparr>]\<rparr>))"
proof -
  have "verifyServiceRequest sample_env sample_access True sample_config AgentToFf signed_request no_access =
    (Inr (), cleanup sample_env True (no_access\<lparr>nonces := nonces no_access @
      [\<lparr>no_key = keyId AgentToFf, no_nonce = ''n'', no_created = db_now sample_env\<rparr>]\<rparr>))"
    using signed_request_known
    by (intro signed_request_accepted [where ks = rotated_keys and now = 900]) (simp_all add: no_access_def signed_request_def)
  then show ?thesis by (simp add: no_access_def keyId_def direction_name_def sample_env_def)
qed

lemma signed_request_runs:
  "\<exists>s. verifyServiceRequest sample_env sample_access True sample_config AgentToFf signed_request no_access = (Inr (), s)"
proof -
  have "authenticate sample_env sample_access sample_config AgentToFf signed_request =
    Inr (signRequest sample_env sample_access rotated_keys AgentToFf (rq_method signed_request) (rq_path signed_request)
      (rq_body signed_request) 900 ''n'')"
    using signed_request_known by (intro signed_authenticates) (simp_all add: signed_request_def)
  then show ?thesis by (auto simp: verifyServiceRequest_def consumeNonce_def no_access_def)
qed

theorem accepted_once_witness:
  "serve sample_access sample_config AgentToFf
     [(sample_env, True, signed_request), (sample_env\<lparr>clock := 30900, db_now := 30900\<rparr>, True, signed_request)] no_access ! 1 \<noteq> Inr ()"
proof (rule accepted_once [where i = 0 and drift = 0])
  show "2 * max_skew sample_config + 0 \<le> NONCE_RETENTION_MS" by code_simp
  show "serve sample_access sample_config AgentToFf
     [(sample_env, True, signed_request), (sample_env\<lparr>clock := 30900, db_now := 30900\<rparr>, True, signed_request)] no_access ! 0 = Inr ()"
    using signed_request_runs by (auto split: prod.split)
qed (simp_all add: sample_env_def)

definition sample_session_request :: session_request where
  "sample_session_request = \<lparr>sr_application = ''a'', sr_instance = ''i'', sr_installation = ''n'', sr_guild = None,
     sr_channel = None, sr_thread = None, sr_launch = ''l'', sr_principal = ''p'', sr_adapter = ''d'',
     sr_run = Some ''r'', sr_view = None\<rparr>"

definition joined_store :: access_db where
  "joined_store = no_access\<lparr>bindings := [new_binding sample_env ''u'' sample_session_request], uuid_draws := 1\<rparr>"

definition opened :: "session_response \<times> access_db" where
  "opened = (case createSession sample_env ''u'' ''p'' 7201000 joined_store of Inr r \<Rightarrow> r 
     | Inl _ \<Rightarrow> (\<lparr>rs_token = [], rs_expires = 0, rs_idle = 0\<rparr>, no_access))"

lemma opened_runs: "createSession sample_env ''u'' ''p'' 7201000 joined_store = Inr opened"
  "rs_token (fst opened) = ''t''" "resolveSession sample_env ''t'' (snd opened) \<noteq> None"
  by code_simp+

lemma opened_ok: "access_ok (snd opened)"
  by code_simp

lemma joined_ok: "access_ok joined_store"
  by code_simp

theorem revoked_locked_out_witness:
  "\<exists>s. revokeSession sample_env ''t'' (snd opened) = Inr (True, s) \<and> resolveSession sample_env ''t'' s = None \<and>
     (\<exists>status code. onRequest sample_env sample_access \<lparr>operatorToken = ''o'', adminToken = ''a''\<rparr> True ''GET''
        ''/api/v1/operator/runs/r'' (Some ''Bearer t'') s = Refuse status code)"
proof -
  have "fst (the (case revokeSession sample_env ''t'' (snd opened) of Inr r \<Rightarrow> Some r | Inl _ \<Rightarrow> None)) = True" by code_simp
  moreover obtain b s where run: "revokeSession sample_env ''t'' (snd opened) = Inr (b, s)"
    by (auto simp: revokeSession_def Let_def)
  ultimately have run: "revokeSession sample_env ''t'' (snd opened) = Inr (True, s)" by simp
  have path: "\<not> exempt (url_path ''/api/v1/operator/runs/r'')" "starts ''/api/v1/'' (url_path ''/api/v1/operator/runs/r'')"
    "\<not> staticallyAuthorized sample_env \<lparr>operatorToken = ''o'', adminToken = ''a''\<rparr> ''GET'' (url_path ''/api/v1/operator/runs/r'') ''t''"
    by code_simp+
  have "trim ''t'' = ''t''" by code_simp
  from revoked_locked_out [OF opened_ok run rtranclp.rtrancl_refl refl this,
      where ts = "\<lparr>operatorToken = ''o'', adminToken = ''a''\<rparr>" and meth = "''GET''"
        and url = "''/api/v1/operator/runs/r''" and a = sample_access and activity = True] path run
  show ?thesis by simp
qed

theorem closed_stays_dark_witness:
  "\<exists>s s' y. closeInstance sample_env ''a'' ''i'' joined_store = Inr (True, s) \<and>
     createSession sample_env ''u'' ''p'' 7201000 s = Inr (y, s') \<and> resolveSession sample_env (rs_token y) s' = None"
proof -
  have runs: "case closeInstance sample_env ''a'' ''i'' joined_store of Inl _ \<Rightarrow> False | Inr (b, s) \<Rightarrow> b \<and>
    (case createSession sample_env ''u'' ''p'' 7201000 s of Inl _ \<Rightarrow> False | Inr (y, s') \<Rightarrow> 
      list_all (\<lambda>b. bi_application b = ''a'' \<and> bi_instance b = ''i'') (bindings s'))" by code_simp
  have "case closeInstance sample_env ''a'' ''i'' joined_store of Inl _ \<Rightarrow> False | Inr (b, s) \<Rightarrow> b" by code_simp
  then obtain s where close: "closeInstance sample_env ''a'' ''i'' joined_store = Inr (True, s)"
    by (auto split: sum.splits prod.splits)
  with runs obtain y s' where create: "createSession sample_env ''u'' ''p'' 7201000 s = Inr (y, s')"
    and all: "list_all (\<lambda>b. bi_application b = ''a'' \<and> bi_instance b = ''i'') (bindings s')"
    by (auto split: sum.splits)
  have "access_step\<^sup>*\<^sup>* s s'" using open_session [OF create] by blast
  have "resolveSession sample_env (rs_token y) s' = None"
  proof (rule ccontr)
    assume "resolveSession sample_env (rs_token y) s' \<noteq> None"
    then obtain r where r: "resolveSession sample_env (rs_token y) s' = Some r" by blast
    from closed_stays_dark [OF joined_ok close \<open>access_step\<^sup>*\<^sup>* s s'\<close> r]
    show False using r all by (auto elim!: resolveSession_Some simp: binding_by_def list_all_iff dest!: find_Some_mem)
  qed
  with close create show ?thesis by blast
qed

theorem session_lifetime_witness:
  "\<exists>r. resolveSession sample_env ''t'' (snd opened) = Some r \<and> clock sample_env < rd_idle r \<and> rd_idle r \<le> rd_expires r \<and>
     rd_expires r \<le> clock sample_env + SESSION_TTL_MS"
proof -
  obtain r where r: "resolveSession sample_env ''t'' (snd opened) = Some r" using opened_runs(3) by blast
  have run: "createSession sample_env ''u'' ''p'' 7201000 joined_store = Inr (fst opened, snd opened)"
    using opened_runs(1) by simp
  have "map_option rd_session (resolveSession sample_env ''t'' (snd opened)) = Some (new_uuid sample_env (uuid_draws joined_store))"
    by code_simp
  with r have "rd_session r = new_uuid sample_env (uuid_draws joined_store)" by simp
  from session_lifetime [OF joined_ok run rtranclp.rtrancl_refl r this] r show ?thesis by blast
qed

end
