(* ===== verification/GitHub.thy ===== *)
theory GitHub
  imports External Scheduler
begin

section \<open>The provider of draft pull requests\<close>

text \<open>
  \<open>runtime-core/src/external-actions/github-draft-pr-adapter.ts\<close>: the provider that turns an authorized
  action into a draft pull request. It looks for a draft that carries the key of the action in its body
  before it creates one, so that an action that is dispatched again or reconciled finds the draft it
  made. \<open>fetch\<close>, that is GitHub, is a parameter: a function from a request and the state of the world
  to an answer, or the name of the error that was thrown, and the next state. The query of a request is
  kept as a list of parameters, its body as JSON.
\<close>

subsection \<open>Requests and responses\<close>

record http_request =
  hr_method :: string
  hr_url :: string
  hr_query :: "(string \<times> string) list"
  hr_headers :: "(string \<times> string) list"
  hr_body :: "json option"

text \<open>\<open>hs_json\<close> is what \<open>response.json()\<close> returns, \<open>None\<close> when it throws.\<close>

record http_response =
  hs_status :: int
  hs_headers :: "(string \<times> string) list"
  hs_json :: "json option"

datatype fetched = Response http_response | FetchThrew string

type_synonym 'w fetch = "http_request \<Rightarrow> 'w \<Rightarrow> fetched \<times> 'w"

record adapter_options =
  ao_repository :: string
  ao_token :: string
  ao_head_prefixes :: "string list"
  ao_base_branches :: "string list"
  ao_load :: "string \<Rightarrow> error + json"

record draft_artifact =
  da_repository :: string
  da_head :: string
  da_base :: string
  da_title :: string
  da_body :: string

record pull_summary =
  ps_number :: int
  ps_draft :: bool
  ps_url :: string
  ps_body :: "string option"
  ps_head :: "string option"
  ps_base :: "string option"

definition GITHUB_DRAFT_PULL_REQUEST_ACTION :: string where
  "GITHUB_DRAFT_PULL_REQUEST_ACTION = ''github.draft_pull_request.upsert''"

subsection \<open>Reading the request\<close>

definition starts_with :: "string \<Rightarrow> string \<Rightarrow> bool" where
  "starts_with p s \<longleftrightarrow> take (length p) s = p"

fun contains_text :: "string \<Rightarrow> string \<Rightarrow> bool" where
  "contains_text p [] \<longleftrightarrow> p = []"
| "contains_text p (c # s) \<longleftrightarrow> starts_with p (c # s) \<or> contains_text p s"

definition word_char :: "char \<Rightarrow> bool" where
  "word_char c \<longleftrightarrow> c \<in> set ''ABCDEFGHIJKLMNOPQRSTUVWXYZabcdefghijklmnopqrstuvwxyz0123456789''"

definition repository_name :: "string \<Rightarrow> bool" where
  "repository_name s \<longleftrightarrow>
     (case split_on (CHR ''/'') s of
        [a, b] \<Rightarrow> a \<noteq> [] \<and> b \<noteq> [] \<and> list_all (\<lambda>c. word_char c \<or> c \<in> set ''_.-'') (a @ b)
      | _ \<Rightarrow> False)"

definition boundedString :: "json option \<Rightarrow> int \<Rightarrow> bool \<Rightarrow> string option" where
  "boundedString raw maxLength allowEmpty =
     (case raw of
        Some (JStr t) \<Rightarrow> if maxLength < int (length t) \<or> (\<not> allowEmpty \<and> blank t) then None else Some t
      | _ \<Rightarrow> None)"

definition ref_char :: "char \<Rightarrow> bool" where
  "ref_char c \<longleftrightarrow> 31 < (of_char c :: nat) \<and> of_char c \<noteq> (127 :: nat) \<and> \<not> is_space c \<and> c \<noteq> CHR 0xA0"

definition safeRef :: "string \<Rightarrow> bool" where
  "safeRef s \<longleftrightarrow> list_all ref_char s \<and> \<not> starts_with ''/'' s \<and> \<not> starts_with ''/'' (rev s) \<and> \<not> contains_text ''..'' s \<and>
     list_all (\<lambda>c. c \<notin> set ''~^:?*['' \<and> c \<noteq> CHR 0x5C) s"

definition parseArtifact :: "json \<Rightarrow> draft_artifact option" where
  "parseArtifact raw =
     (if \<not> is_record raw then None
      else (case (boundedString (json_field raw ''repository'') 200 False, boundedString (json_field raw ''head'') 255 False,
          boundedString (json_field raw ''base'') 255 False, boundedString (json_field raw ''title'') 256 False,
          boundedString (json_field raw ''body'') 65000 True) of
        (Some repository, Some head, Some base, Some title, Some body) \<Rightarrow>
          if repository_name repository \<and> safeRef head \<and> safeRef base
          then Some \<lparr>da_repository = repository, da_head = head, da_base = base, da_title = title, da_body = body\<rparr>
          else None
      | _ \<Rightarrow> None))"

definition validIdempotencyKey :: "string \<Rightarrow> bool" where
  "validIdempotencyKey s \<longleftrightarrow> s \<noteq> [] \<and> length s \<le> 200 \<and> list_all (\<lambda>c. word_char c \<or> c \<in> set ''._:/-'') s"

definition idempotencyMarker :: "string \<Rightarrow> string" where
  "idempotencyMarker key = ''<!-- factory-floor-idempotency:'' @ key @ '' -->''"

definition scopeFailure :: "string \<Rightarrow> provider_outcome" where
  "scopeFailure reason = Answered PFailed (JObj [(''provider'', JStr ''github''),
     (''code'', JStr ''github_external_action_scope_denied''), (''reason'', JStr reason),
     (''retry_classification'', JStr ''terminal'')])"

definition in_scope :: "adapter_options \<Rightarrow> draft_artifact \<Rightarrow> bool" where
  "in_scope opts d \<longleftrightarrow> da_repository d = ao_repository opts \<and> da_base d \<in> set (ao_base_branches opts) \<and>
     list_ex (\<lambda>p. starts_with p (da_head d)) (ao_head_prefixes opts)"

definition prepare_draft :: "adapter_options \<Rightarrow> provider_request \<Rightarrow> provider_outcome + draft_artifact" where
  "prepare_draft opts q =
     (if pq_type q \<noteq> GITHUB_DRAFT_PULL_REQUEST_ACTION then Inl (scopeFailure ''unsupported_action_type'')
      else if \<not> validIdempotencyKey (pq_key q) then Inl (scopeFailure ''invalid_idempotency_key'')
      else (case ao_load opts (pq_artifact q) of
        Inl err \<Rightarrow> Inl (ProviderThrew err)
      | Inr raw \<Rightarrow>
          (case parseArtifact raw of
             None \<Rightarrow> Inl (scopeFailure ''invalid_request_artifact'')
           | Some d \<Rightarrow> if in_scope opts d then Inr d else Inl (scopeFailure ''configured_scope_mismatch''))))"

subsection \<open>Reading the response\<close>

definition ok_status :: "int \<Rightarrow> bool" where
  "ok_status n \<longleftrightarrow> 200 \<le> n \<and> n \<le> 299"

definition headerNumber :: "env \<Rightarrow> http_response \<Rightarrow> string \<Rightarrow> rat option" where
  "headerNumber e r name =
     (case map_of (hs_headers r) name of
        None \<Rightarrow> None
      | Some raw \<Rightarrow>
          if blank raw then None
          else (case number_parse e raw of
            None \<Rightarrow> None
          | Some q \<Rightarrow> if safe_integer q \<and> 0 \<le> q then Some q else None))"

definition responseMetadata :: "env \<Rightarrow> http_response \<Rightarrow> (string \<times> json) list" where
  "responseMetadata e r =
     (let n = (\<lambda>key name. case headerNumber e r name of None \<Rightarrow> [] | Some q \<Rightarrow> [(key, JNum q)]);
          rates = n ''limit'' ''x-ratelimit-limit'' @ n ''remaining'' ''x-ratelimit-remaining'' @
            n ''reset'' ''x-ratelimit-reset'' in
      (case map_of (hs_headers r) ''x-github-request-id'' of
         None \<Rightarrow> []
       | Some i \<Rightarrow> if i = [] then [] else [(''github_request_id'', JStr i)]) @
      (if rates = [] then [] else [(''rate_limit'', JObj rates)]))"

definition retryable_status :: "int \<Rightarrow> bool" where
  "retryable_status n \<longleftrightarrow> n = 408 \<or> n = 429 \<or> 500 \<le> n"

definition providerFailure :: "string \<Rightarrow> int \<Rightarrow> (string \<times> json) list \<Rightarrow> provider_outcome" where
  "providerFailure operation status metadata =
     Answered (if retryable_status status then PIndeterminate else PFailed)
       (JObj ([(''provider'', JStr ''github''), (''operation'', JStr operation),
         (''code'', JStr (if retryable_status status then ''github_provider_retryable_failure''
            else ''github_provider_terminal_failure'')), (''http_status'', JNum (of_int status)),
         (''retry_classification'', JStr (if retryable_status status then ''reconcile_before_retry'' else ''terminal''))] @
         metadata))"

definition refObject :: "json option \<Rightarrow> string option" where
  "refObject raw =
     (case raw of
        Some (JObj kvs) \<Rightarrow> (case map_of kvs ''ref'' of Some (JStr t) \<Rightarrow> Some t | _ \<Rightarrow> None)
      | _ \<Rightarrow> None)"

definition pullRequestSummary :: "json \<Rightarrow> pull_summary option" where
  "pullRequestSummary raw =
     (case (json_field raw ''number'', json_field raw ''draft'', json_field raw ''html_url'') of
        (Some (JNum n), Some (JBool draft), Some (JStr url)) \<Rightarrow>
          if safe_integer n \<and> 1 \<le> n
          then Some \<lparr>ps_number = \<lfloor>n\<rfloor>, ps_draft = draft, ps_url = url,
            ps_body = (case json_field raw ''body'' of Some (JStr t) \<Rightarrow> Some t | _ \<Rightarrow> None),
            ps_head = refObject (json_field raw ''head''), ps_base = refObject (json_field raw ''base'')\<rparr>
          else None
      | _ \<Rightarrow> None)"

definition marked_draft :: "draft_artifact \<Rightarrow> string \<Rightarrow> pull_summary \<Rightarrow> bool" where
  "marked_draft d key p \<longleftrightarrow> ps_draft p \<and> ps_head p = Some (da_head d) \<and> ps_base p = Some (da_base d) \<and>
     (case ps_body p of None \<Rightarrow> False | Some body \<Rightarrow> contains_text (idempotencyMarker key) body)"

definition acknowledged :: "string \<Rightarrow> pull_summary \<Rightarrow> (string \<times> json) list \<Rightarrow> provider_outcome" where
  "acknowledged operation p metadata =
     Answered PAcknowledged (JObj ([(''provider'', JStr ''github''), (''operation'', JStr operation),
       (''pull_request_number'', JNum (of_int (ps_number p))), (''pull_request_url'', JStr (ps_url p))] @ metadata))"

definition indeterminate :: "string \<Rightarrow> string \<Rightarrow> (string \<times> json) list \<Rightarrow> provider_outcome" where
  "indeterminate operation code metadata =
     Answered PIndeterminate (JObj ([(''provider'', JStr ''github''), (''operation'', JStr operation),
       (''code'', JStr code), (''retry_classification'', JStr ''reconcile_before_retry'')] @ metadata))"

subsection \<open>Looking for a draft, and creating one\<close>

definition github_headers :: "adapter_options \<Rightarrow> (string \<times> string) list" where
  "github_headers opts = [(''accept'', ''application/vnd.github+json''),
     (''authorization'', ''Bearer '' @ ao_token opts), (''content-type'', ''application/json''),
     (''x-github-api-version'', ''2022-11-28'')]"

definition pulls_url :: "draft_artifact \<Rightarrow> string" where
  "pulls_url d = ''https://api.github.com/repos/'' @ da_repository d @ ''/pulls''"

definition lookup_request :: "adapter_options \<Rightarrow> draft_artifact \<Rightarrow> http_request" where
  "lookup_request opts d =
     \<lparr>hr_method = ''GET'', hr_url = pulls_url d,
      hr_query = [(''state'', ''open''), (''head'', hd (split_on (CHR ''/'') (da_repository d)) @ '':'' @ da_head d),
        (''base'', da_base d), (''per_page'', ''100'')],
      hr_headers = github_headers opts, hr_body = None\<rparr>"

definition create_request :: "adapter_options \<Rightarrow> draft_artifact \<Rightarrow> string \<Rightarrow> http_request" where
  "create_request opts d key =
     \<lparr>hr_method = ''POST'', hr_url = pulls_url d, hr_query = [], hr_headers = github_headers opts,
      hr_body = Some (JObj [(''head'', JStr (da_head d)), (''base'', JStr (da_base d)), (''title'', JStr (da_title d)),
        (''body'', JStr (idempotencyMarker key @ [CHR 0x0A] @ da_body d)), (''draft'', JBool True)])\<rparr>"

definition read_lookup ::
  "env \<Rightarrow> draft_artifact \<Rightarrow> string \<Rightarrow> fetched \<Rightarrow> provider_outcome + (pull_summary option \<times> (string \<times> json) list)" where
  "read_lookup e d key f =
     (case f of
        FetchThrew kind \<Rightarrow>
          Inl (indeterminate ''reconcile'' ''github_lookup_transport_indeterminate'' [(''error_kind'', JStr kind)])
      | Response r \<Rightarrow>
          let metadata = responseMetadata e r in
          if \<not> ok_status (hs_status r) then Inl (providerFailure ''reconcile'' (hs_status r) metadata)
          else (case hs_json r of
            Some (JArr items) \<Rightarrow>
              Inr (List.find (marked_draft d key) (List.map_filter pullRequestSummary items), metadata)
          | _ \<Rightarrow> Inl (indeterminate ''reconcile'' ''github_lookup_response_invalid'' metadata)))"

definition read_created :: "env \<Rightarrow> fetched \<Rightarrow> provider_outcome" where
  "read_created e f =
     (case f of
        FetchThrew kind \<Rightarrow>
          ResponseLost (JObj [(''provider'', JStr ''github''), (''operation'', JStr ''create_draft''),
            (''code'', JStr ''github_dispatch_transport_indeterminate''),
            (''retry_classification'', JStr ''reconcile_before_retry''), (''error_kind'', JStr kind)])
      | Response r \<Rightarrow>
          let metadata = responseMetadata e r in
          if \<not> ok_status (hs_status r) then providerFailure ''create_draft'' (hs_status r) metadata
          else (case Option.bind (hs_json r) pullRequestSummary of
            None \<Rightarrow> indeterminate ''create_draft'' ''github_create_response_invalid'' metadata
          | Some p \<Rightarrow> acknowledged ''created_draft'' p metadata))"

definition github_dispatch ::
  "env \<Rightarrow> adapter_options \<Rightarrow> 'w fetch \<Rightarrow> provider_request \<Rightarrow> 'w \<Rightarrow> provider_outcome \<times> 'w" where
  "github_dispatch e opts fetch q w =
     (case prepare_draft opts q of
        Inl out \<Rightarrow> (out, w)
      | Inr d \<Rightarrow>
          (case fetch (lookup_request opts d) w of
             (f, w') \<Rightarrow>
               (case read_lookup e d (pq_key q) f of
                  Inl out \<Rightarrow> (out, w')
                | Inr (Some p, metadata) \<Rightarrow> (acknowledged ''existing_draft'' p metadata, w')
                | Inr (None, metadata) \<Rightarrow>
                    (case fetch (create_request opts d (pq_key q)) w' of (g, w'') \<Rightarrow> (read_created e g, w'')))))"

definition github_reconcile ::
  "env \<Rightarrow> adapter_options \<Rightarrow> 'w fetch \<Rightarrow> provider_request \<Rightarrow> 'w \<Rightarrow> provider_outcome \<times> 'w" where
  "github_reconcile e opts fetch q w =
     (case prepare_draft opts q of
        Inl out \<Rightarrow> (out, w)
      | Inr d \<Rightarrow>
          (case fetch (lookup_request opts d) w of
             (f, w') \<Rightarrow>
               (case read_lookup e d (pq_key q) f of
                  Inl out \<Rightarrow> (out, w')
                | Inr (Some p, metadata) \<Rightarrow> (acknowledged ''reconciled_draft'' p metadata, w')
                | Inr (None, metadata) \<Rightarrow>
                    (indeterminate ''reconcile'' ''github_draft_pull_request_not_found'' metadata, w'))))"

text \<open>The adapter as the provider of the external actions, in a state of the world.\<close>

definition github_provider :: "env \<Rightarrow> adapter_options \<Rightarrow> 'w fetch \<Rightarrow> 'w \<Rightarrow> action_provider" where
  "github_provider e opts fetch w =
     \<lparr>pv_dispatch = (\<lambda>q. fst (github_dispatch e opts fetch q w)),
      pv_reconcile = (\<lambda>q. fst (github_reconcile e opts fetch q w))\<rparr>"

subsection \<open>What is sent\<close>

text \<open>A log of the requests and of what was heard of them.\<close>

definition logging :: "'w fetch \<Rightarrow> ('w \<times> (http_request \<times> fetched) list) fetch" where
  "logging fetch q wl = (case fetch q (fst wl) of (f, w') \<Rightarrow> (f, (w', snd wl @ [(q, f)])))"

definition creation :: "http_request \<times> fetched \<Rightarrow> bool" where
  "creation qf \<longleftrightarrow> hr_method (fst qf) = ''POST''"

lemma logging_request [simp]:
  "logging fetch q (w, l) = (f, (w', l')) \<longleftrightarrow> fetch q w = (f, w') \<and> l' = l @ [(q, f)]"
  by (auto simp: logging_def split: prod.splits)

lemma creation_requests [simp]:
  "\<not> creation (lookup_request opts d, f)" "creation (create_request opts d key, f)"
  by (simp_all add: creation_def lookup_request_def create_request_def)

lemma prepare_draft_Inr:
  assumes "prepare_draft opts q = Inr d"
  shows "in_scope opts d" and "validIdempotencyKey (pq_key q)" and "pq_type q = GITHUB_DRAFT_PULL_REQUEST_ACTION"
  using assms by (auto simp: prepare_draft_def split: if_splits sum.splits option.splits)

lemma read_lookup_never_acknowledges: "read_lookup e d key f = Inl out \<Longrightarrow> \<exists>st j. out = Answered st j \<and> st \<noteq> PAcknowledged"
  by (auto simp: read_lookup_def indeterminate_def providerFailure_def Let_def split: fetched.splits if_splits option.splits json.splits)

lemma prepare_never_acknowledges: "prepare_draft opts q = Inl out \<Longrightarrow> out \<noteq> Answered PAcknowledged j"
  by (auto simp: prepare_draft_def scopeFailure_def split: if_splits sum.splits option.splits)

lemma read_created_failed:
  "read_created e f = Answered PFailed j \<Longrightarrow> \<exists>r. f = Response r \<and> \<not> ok_status (hs_status r) \<and> \<not> retryable_status (hs_status r)"
  by (auto simp: read_created_def providerFailure_def indeterminate_def acknowledged_def Let_def
      split: fetched.splits if_splits option.splits)

text \<open>A dispatch creates at most one pull request and only inside the configured repository, base branches
  and head prefixes, after a lookup that heard of no draft with the key; and it reports a failure only when
  nothing was asked for or the creation was refused for good, so that a draft that may exist is never taken
  for failed. A reconciliation creates nothing.
\<close>

theorem dispatch_certain:
  assumes "github_dispatch e opts (logging fetch) q (w, []) = (out, (w', sent))"
  shows "length (filter creation sent) \<le> 1 \<and>
    (\<forall>qf\<in>set (filter creation sent). \<exists>d. prepare_draft opts q = Inr d \<and> in_scope opts d \<and> validIdempotencyKey (pq_key q) \<and>
      fst qf = create_request opts d (pq_key q) \<and> (\<exists>f m. sent = [(lookup_request opts d, f), qf] \<and>
        read_lookup e d (pq_key q) f = Inr (None, m))) \<and>
    (\<forall>j. out = Answered PFailed j \<longrightarrow> (\<forall>qf\<in>set (filter creation sent).
      \<exists>r. snd qf = Response r \<and> \<not> ok_status (hs_status r) \<and> \<not> retryable_status (hs_status r))) \<and>
    (\<forall>out' w'' sent'. github_reconcile e opts (logging fetch) q (w, []) = (out', (w'', sent')) \<longrightarrow> filter creation sent' = [])"
proof -
  have "filter creation sent' = []" if "github_reconcile e opts (logging fetch) q (w, []) = (out', (w'', sent'))" for out' w'' sent'
    using that by (auto simp: github_reconcile_def split: sum.splits prod.splits option.splits)
  moreover have "length (filter creation sent) \<le> 1 \<and>
    (\<forall>qf\<in>set (filter creation sent). \<exists>d. prepare_draft opts q = Inr d \<and> in_scope opts d \<and> validIdempotencyKey (pq_key q) \<and>
      fst qf = create_request opts d (pq_key q) \<and> (\<exists>f m. sent = [(lookup_request opts d, f), qf] \<and>
        read_lookup e d (pq_key q) f = Inr (None, m))) \<and>
    (\<forall>j. out = Answered PFailed j \<longrightarrow> (\<forall>qf\<in>set (filter creation sent).
      \<exists>r. snd qf = Response r \<and> \<not> ok_status (hs_status r) \<and> \<not> retryable_status (hs_status r)))"
  proof (cases "prepare_draft opts q")
    case (Inl x)
    with assms show ?thesis by (simp add: github_dispatch_def)
  next
    case (Inr d)
    note scope = prepare_draft_Inr [OF Inr]
    obtain f w1 where look: "fetch (lookup_request opts d) w = (f, w1)" by (cases "fetch (lookup_request opts d) w")
    then have logged: "logging fetch (lookup_request opts d) (w, []) = (f, (w1, [(lookup_request opts d, f)]))" by simp
    show ?thesis
    proof (cases "read_lookup e d (pq_key q) f")
      case (Inl x)
      with assms \<open>prepare_draft opts q = Inr d\<close> logged show ?thesis by (auto simp: github_dispatch_def)
    next
      case found: (Inr pm)
      obtain p m where pm: "pm = (p, m)" by (cases pm)
      show ?thesis
      proof (cases p)
        case (Some x)
        with assms \<open>prepare_draft opts q = Inr d\<close> logged found pm show ?thesis by (auto simp: github_dispatch_def)
      next
        case None
        obtain g w2 where "fetch (create_request opts d (pq_key q)) w1 = (g, w2)"
          by (cases "fetch (create_request opts d (pq_key q)) w1")
        then have "logging fetch (create_request opts d (pq_key q)) (w1, [(lookup_request opts d, f)]) =
          (g, (w2, [(lookup_request opts d, f), (create_request opts d (pq_key q), g)]))" by simp
        with assms Inr logged found pm None have "out = read_created e g"
          "sent = [(lookup_request opts d, f), (create_request opts d (pq_key q), g)]"
          by (simp_all add: github_dispatch_def)
        with Inr scope found pm None read_created_failed [of e g] show ?thesis by auto
      qed
    qed
  qed
  ultimately show ?thesis by blast
qed

subsection \<open>A draft is created once\<close>

text \<open>What the adapter relies on of GitHub, with \<open>drafts\<close> for the open pull requests: the list of the open
  pull requests between two branches, and that a creation that is carried out adds one with the branches and
  the body of the request, whether or not the answer arrives.\<close>

definition between_branches :: "draft_artifact \<Rightarrow> json \<Rightarrow> bool" where
  "between_branches d j \<longleftrightarrow> refObject (json_field j ''head'') = Some (da_head d) \<and> refObject (json_field j ''base'') = Some (da_base d)"

definition lists_open :: "adapter_options \<Rightarrow> 'w fetch \<Rightarrow> ('w \<Rightarrow> json list) \<Rightarrow> draft_artifact \<Rightarrow> bool" where
  "lists_open opts fetch drafts d \<longleftrightarrow> (\<forall>w. \<exists>r. fetch (lookup_request opts d) w = (Response r, w) \<and> ok_status (hs_status r) \<and>
     hs_json r = Some (JArr (filter (between_branches d) (drafts w))))"

definition carries_out :: "adapter_options \<Rightarrow> 'w fetch \<Rightarrow> ('w \<Rightarrow> json list) \<Rightarrow> draft_artifact \<Rightarrow> bool" where
  "carries_out opts fetch drafts d \<longleftrightarrow> (\<forall>key w. \<exists>f w' pr p. fetch (create_request opts d key) w = (f, w') \<and>
     drafts w' = drafts w @ [pr] \<and> pullRequestSummary pr = Some p \<and> ps_draft p \<and> ps_head p = Some (da_head d) \<and>
     ps_base p = Some (da_base d) \<and> ps_body p = Some (idempotencyMarker key @ [CHR 0x0A] @ da_body d))"

definition marked :: "draft_artifact \<Rightarrow> string \<Rightarrow> json \<Rightarrow> bool" where
  "marked d key j \<longleftrightarrow> (case pullRequestSummary j of None \<Rightarrow> False | Some p \<Rightarrow> marked_draft d key p)"

lemma starts_with_append [simp]: "starts_with p (p @ s)"
  by (simp add: starts_with_def)

lemma contains_prefix: "contains_text p (p @ s)"
  using starts_with_append [of p s] by (cases "p @ s") (auto simp del: starts_with_append)

lemma find_filter_map:
  "List.find P (List.map_filter f xs) = Option.bind (List.find (\<lambda>x. case f x of None \<Rightarrow> False | Some y \<Rightarrow> P y) xs) f"
  by (induction xs) (auto simp: List.map_filter_simps split: option.splits)

lemma find_in_filter: "(\<And>x. P x \<Longrightarrow> Q x) \<Longrightarrow> List.find P (filter Q xs) = List.find P xs"
  by (induction xs) auto

lemma marked_between: "marked d key j \<Longrightarrow> between_branches d j"
  by (auto simp: marked_def marked_draft_def between_branches_def pullRequestSummary_def
      split: option.splits json.splits if_splits)

lemma lookup_reads:
  assumes "lists_open opts fetch drafts d"
  shows "\<exists>f m. fetch (lookup_request opts d) w = (f, w) \<and>
    read_lookup e d key f = Inr (Option.bind (List.find (marked d key) (drafts w)) pullRequestSummary, m)"
proof -
  from assms obtain r where r: "fetch (lookup_request opts d) w = (Response r, w)" "ok_status (hs_status r)"
    "hs_json r = Some (JArr (filter (between_branches d) (drafts w)))" unfolding lists_open_def by blast
  have "List.find (marked_draft d key) (List.map_filter pullRequestSummary (filter (between_branches d) (drafts w))) =
    Option.bind (List.find (marked d key) (drafts w)) pullRequestSummary"
    using find_in_filter [of "marked d key" "between_branches d" "drafts w"] marked_between
    by (simp add: find_filter_map marked_def [abs_def])
  with r show ?thesis by (auto simp: read_lookup_def Let_def)
qed


text \<open>A lookup that is refused, as GitHub does with 403 when its secondary rate limit is reached, makes a
  reconciliation report a failure, and the action fails for good, although the draft may exist.\<close>

lemma refused_lookup_fails:
  assumes "prepare_draft opts q = Inr d" and "fetch (lookup_request opts d) w = (Response r, w')" and "hs_status r = 403"
  shows "\<exists>j. github_reconcile e opts fetch q w = (Answered PFailed j, w') \<and> reconciled_status_of PFailed = XFailed"
  using assms by (simp add: github_reconcile_def read_lookup_def Let_def ok_status_def providerFailure_def
      retryable_status_def reconciled_status_of_def action_status_of_def)

subsection \<open>A draft whose answer is lost\<close>

definition sample_draft :: draft_artifact where
  "sample_draft = \<lparr>da_repository = ''o/r'', da_head = ''f/x'', da_base = ''main'', da_title = ''t'', da_body = ''b''\<rparr>"

definition sample_options :: adapter_options where
  "sample_options = \<lparr>ao_repository = ''o/r'', ao_token = ''k'', ao_head_prefixes = [''f/''], ao_base_branches = [''main''],
     ao_load = (\<lambda>_. Inr (JObj [(''repository'', JStr ''o/r''), (''head'', JStr ''f/x''), (''base'', JStr ''main''),
       (''title'', JStr ''t''), (''body'', JStr ''b'')]))\<rparr>"

definition draft_action :: provider_request where
  "draft_action = \<lparr>pq_action = ''a'', pq_type = GITHUB_DRAFT_PULL_REQUEST_ACTION, pq_key = ''k1'', pq_grant = ''g'',
     pq_artifact = ''r''\<rparr>"

definition branch_ref :: "json \<Rightarrow> string \<Rightarrow> json" where
  "branch_ref b k = JObj [(''ref'', the (json_field b k))]"

definition losing_hub :: "json list fetch" where
  "losing_hub q w =
     (case hr_body q of
        None \<Rightarrow> (Response \<lparr>hs_status = 200, hs_headers = [], hs_json = Some (JArr (filter (between_branches sample_draft) w))\<rparr>, w)
      | Some b \<Rightarrow> (FetchThrew ''AbortError'', w @ [JObj [(''number'', JNum 7), (''draft'', JBool True), (''html_url'', JStr ''u''),
          (''body'', the (json_field b ''body'')), (''head'', branch_ref b ''head''), (''base'', branch_ref b ''base'')]]))"

lemma sample_prepared: "prepare_draft sample_options draft_action = Inr sample_draft"
  by code_simp

lemma safe_seven: "safe_integer 7"
  by code_simp


theorem dispatch_certain_witness:
  "\<exists>out w sent. github_dispatch sample_env sample_options (logging losing_hub) draft_action ([], []) = (out, (w, sent)) \<and>
     length sent = 2 \<and> length (filter creation sent) \<le> 1"
proof -
  have two: "length (snd (snd (github_dispatch sample_env sample_options (logging losing_hub) draft_action ([], [])))) = 2"
    by code_simp
  obtain out w sent where run: "github_dispatch sample_env sample_options (logging losing_hub) draft_action ([], []) = (out, (w, sent))"
    by (cases "github_dispatch sample_env sample_options (logging losing_hub) draft_action ([], [])") auto
  from dispatch_certain [OF run] run two show ?thesis by auto
qed

end
