(* ===== verification/Spec2Isabelle.thy ===== *)
theory Spec2Isabelle
  imports Runtime Declarations Systems Access GitHub
begin

section \<open>The durable runtime of Factory Floor\<close>

text \<open>
  \<^bold>\<open>What the program is.\<close> Factory Floor runs declared topologies of components. Commands enter a region
  and are routed as deliveries to the input ports of component instances; workers poll for leases,
  execute a component on a set of deliveries, upload artifacts and hand in results; committing a result
  publishes artifacts, events and further deliveries, or schedules a retry, or dead-letters. The
  control plane keeps everything in one PostgreSQL database and a content-addressed blob store, so
  its correctness is that of the transactions of a handful of services over shared tables. These
  services, under \<open>src/packages/runtime-core\<close>, \<open>src/packages/db\<close> and \<open>src/packages/artifact-store\<close>, are what
  the development models.

  \<^bold>\<open>How it is modelled.\<close> The tables are lists of records (\<open>Database\<close>), the database is a record of tables.
  A query inside a transaction is a function from the database to an error or a value and the
  next database (\<open>tx\<close>), a service operation returns its error beside the database it leaves (\<open>io\<close>), and
  \<open>transaction\<close> rolls back. Errors are a datatype with the constructors and codes of the source. CHECK
  and UNIQUE constraints and the two triggers on leases and admission are part of the row
  operations (\<open>Store\<close>), so that a violated constraint is an error like any other. The environment \<open>env\<close>
  holds what the code takes from outside: the clock, identifiers and tokens drawn in order, SHA-256, the
  number formatting and the collation of the host, the JSON parser, the schema validator and the advisory
  locks. Nothing is assumed of it unless a theorem says so. Times are milliseconds as integers, JSON numbers
  are rationals, dates and the arithmetic on budgets are exact integers at the scale of the columns.

  \<^bold>\<open>The theories.\<close>
  \<^item> \<open>Prelude\<close>: the two monads, errors, JSON, the environment, lists of rows, sorting with a comparison; the
    locale \<open>keyed_request\<close> for requests that a client may send again.
  \<^item> \<open>Canonical\<close> (\<open>declarations/canonical-json.ts\<close>, the input-set digest): canonical JSON of JavaScript
    values, with the heap and its cycles.
  \<^item> \<open>Database\<close>, \<open>Store\<close> (\<open>packages/db\<close>): records of the tables, constraints, triggers, row operations, and
    the invariant \<open>db_checks\<close> with one lemma per operation that keeps it.
  \<^item> \<open>Commands\<close> (\<open>event-service.ts\<close>, \<open>routing-service.ts\<close>, \<open>command-service.ts\<close>): the event log, routing and
    command submission.
  \<^item> \<open>Admission\<close> (\<open>resource-admission-service.ts\<close>): budgets, admission, reservations and their settlement.
  \<^item> \<open>Scheduler\<close> (\<open>scheduler-service.ts\<close>): candidates, input selection with fan-in, leasing.
  \<^item> \<open>Blobs\<close> (\<open>artifact-store/src/index.ts\<close>): the filesystem blob store as steps that can interleave.
  \<^item> \<open>Capability\<close> (\<open>capability-handle.ts\<close>): grant handles over base64url.
  \<^item> \<open>Artifacts\<close> (\<open>artifacts/*.ts\<close>, \<open>artifact-repository.ts\<close>): validation with its caches, publication,
    tombstones, reconciliation, prevalidation.
  \<^item> \<open>Commit\<close> (\<open>execution-commit-service.ts\<close>): committing, retrying and dead-lettering results.
  \<^item> \<open>Worker\<close> (\<open>worker-protocol-service.ts\<close>, \<open>state-aware-worker-protocol-service.ts\<close>): claims, heartbeats,
    uploads, submissions.
  \<^item> \<open>External\<close> (\<open>policy-decision-service.ts\<close>, \<open>external-action-service.ts\<close>): policy decisions and the dispatch
    and reconciliation of external actions, with the provider as a parameter.
  \<^item> \<open>Operator\<close> (\<open>operator-command-service.ts\<close>): development tasks, approvals, run cancellation.
  \<^item> \<open>Observability\<close> (\<open>observability-service.ts\<close>): pages with cursors and the projection checkpoints.
  \<^item> \<open>Recovery\<close> (\<open>recovery-service.ts\<close>): startup recovery.
  \<^item> \<open>Declarations\<close> (\<open>declarations/validation.ts\<close>, \<open>registration-service.ts\<close>, \<open>definition-repository.ts\<close>): validation
    of declarations and their registration; the locale \<open>registry\<close>, interpreted on the four definition tables.
  \<^item> \<open>Instantiation\<close> (\<open>systems/template-instantiation-service.ts\<close>, \<open>topology-repository.ts\<close>): a template with
    parameters becomes a topology revision of a region: parameters bound, definitions resolved, connections
    and fan-in checked, rows written once.
  \<^item> \<open>Systems\<close> (\<open>systems/durable-template-instantiation-service.ts\<close>, \<open>template-initial-state-resolver.ts\<close>,
    \<open>template-instantiation-error.ts\<close>, \<open>system-application-service.ts\<close>): requests with an identifier, initial
    states, the codes on the wire, and the application of a system of regions.
  \<^item> \<open>Access\<close> (\<open>apps/control-plane/src/service-auth.ts\<close>, \<open>nonce-repository.ts\<close>, \<open>security.ts\<close>,
    \<open>activity-session-service.ts\<close>, \<open>activity-session-read-authorizer.ts\<close>, \<open>routes/activity.ts\<close>,
    \<open>routes/activity-browser.ts\<close>): signed requests and their nonces, bearer tokens, activity sessions and their
    routes, on tables of their own that no other service reads.
  \<^item> \<open>GitHub\<close> (\<open>external-actions/github-draft-pr-adapter.ts\<close>): the provider of draft pull requests, with \<open>fetch\<close> as
    a parameter.
  \<^item> \<open>Lifecycle\<close>, \<open>Runtime\<close>: the specification of an execution's life as a state machine, the runtime as the
    relation of all transactions of all services, and the simulation between them.

  \<^bold>\<open>What is proved.\<close> For the whole: the runtime refines the lifecycle specification, so that an
  execution has at most four attempts, never two of them open, and ends once (\<open>Runtime\<close>). For single
  services: fencing by lease, token and epoch, at-most-once commits and dispatches, what each outcome of
  a commit leaves behind, the retry policy, rollback on error; idempotent submission; exact fan-in and
  consistent leases; budgets that are never exceeded; immutability and round trips of stored
  content under interleaving; validation that its caches do not weaken; cancellation that stops a run
  and always succeeds; decisions taken once; complete pages; definitions that never change once registered; recovery of every expired attempt;
  topologies that join existing ports of one schema, with the fan-in that the scheduler will expect, and
  instantiations that take effect once; signed requests that are accepted once, tokens that stay
  revoked, sessions that end; drafts that are created once. Some
  properties state where the code falls short of what it means to do (a result with status
  cancelled never commits, one failing result blocks every recovery, recovery can lose an accepted
  result, reconciliation never reaches rows beyond its window); the manifest lists them as findings.

  \<^bold>\<open>Bounds and fuel.\<close> Loops over tables and inputs are folds. The canonical form walks a heap with the
  set of unseen cells as its measure; the groups of lease candidates and the scan of the event log recurse on what
  is left of a list. Recovery runs at most 100 batches of artifact reconciliation, as the code does,
  and \<open>read_pages\<close> takes as many pages as there are rows and one more, which \<open>pages_complete\<close> shows to be enough.
  Interleavings are sequences of whole transactions (which PostgreSQL serialises on the locked rows), and of
  single file system operations in the blob store.

  \<^bold>\<open>Not modelled.\<close> The rest of the HTTP layer, the user interfaces and the clients; the joined
  read models for operators; the S3 blob store; the normalisation of requests to
  instantiate (\<open>template-instantiation-contract.ts\<close>); the repository-task workers, which are
  workers of the runtime and appear as its parameters; SQL planning, lock waits and
  serialisation failures.
\<close>

end
